(* ===== verification/Prelude.thy ===== *)
theory Prelude
  imports Main "HOL-Library.Word" "HOL-Library.List_Lexorder" "HOL-Library.Sublist"
begin

text \<open>
  Shared vocabulary of the development: the machine-integer types of the Rust sources, the
  \<open>Result\<close> combinators of the Rust standard library on \<open>'e + 'a\<close> (\<open>Inl\<close> is \<open>Err\<close>, \<open>Inr\<close> is
  \<open>Ok\<close>), little-endian byte strings of words, and the list facts that the component theories
  use. Nothing here depends on a component of the program.
\<close>

unbundle bit_operations_syntax

section \<open>Machine integers\<close>

type_synonym u8 = "8 word"
type_synonym u16 = "16 word"
type_synonym u32 = "32 word"
type_synonym u64 = "64 word"
type_synonym i128 = "128 word"
type_synonym usize = "64 word"
type_synonym bytes = "u8 list"

text \<open>
  The sources are compiled for 64-bit targets, so \<open>usize\<close> has 64 bits. A length of a vector or a
  slice is a \<^typ>\<open>nat\<close>; where the source casts it to an integer type, the model does.
  A Rust \<open>String\<close> is the list of its UTF-8 bytes.
\<close>

section \<open>Collections of lemmas\<close>

named_theorems result_simps \<open>unfolding the Result combinators\<close>
named_theorems result_elims \<open>inversion of successful Result chains\<close>

section \<open>The Result combinators of the standard library\<close>

text \<open>\<open>e?\<close> followed by the rest of the function body is \<open>and_then e (\<lambda>x. rest)\<close>.\<close>

primrec and_then :: "'e + 'a \<Rightarrow> ('a \<Rightarrow> 'e + 'b) \<Rightarrow> 'e + 'b" where
  "and_then (Inl e) f = Inl e"
| "and_then (Inr x) f = f x"

primrec map_ok :: "('a \<Rightarrow> 'b) \<Rightarrow> 'e + 'a \<Rightarrow> 'e + 'b" where
  "map_ok f (Inl e) = Inl e"
| "map_ok f (Inr x) = Inr (f x)"

primrec map_err :: "('e \<Rightarrow> 'f) \<Rightarrow> 'e + 'a \<Rightarrow> 'f + 'a" where
  "map_err f (Inl e) = Inl (f e)"
| "map_err f (Inr x) = Inr x"

primrec ok_or :: "'e \<Rightarrow> 'a option \<Rightarrow> 'e + 'a" where
  "ok_or e None = Inl e"
| "ok_or e (Some x) = Inr x"

fun is_ok :: "'e + 'a \<Rightarrow> bool" where
  "is_ok (Inl _) = False"
| "is_ok (Inr _) = True"

text \<open>\<open>Iterator::try_fold\<close>: a fold that stops at the first error.\<close>

fun try_fold :: "('b \<Rightarrow> 'a \<Rightarrow> 'e + 'b) \<Rightarrow> 'b \<Rightarrow> 'a list \<Rightarrow> 'e + 'b" where
  "try_fold f acc [] = Inr acc"
| "try_fold f acc (x # xs) = and_then (f acc x) (\<lambda>acc'. try_fold f acc' xs)"

lemma and_then_eq_Inr [result_simps]:
  "and_then r f = Inr y \<longleftrightarrow> (\<exists>x. r = Inr x \<and> f x = Inr y)"
  by (cases r) auto

lemma and_then_eq_Inl [result_simps]:
  "and_then r f = Inl e \<longleftrightarrow> r = Inl e \<or> (\<exists>x. r = Inr x \<and> f x = Inl e)"
  by (cases r) auto

lemma map_ok_eq_Inr [result_simps]: "map_ok f r = Inr y \<longleftrightarrow> (\<exists>x. r = Inr x \<and> y = f x)"
  by (cases r) auto

lemma map_ok_eq_Inl [result_simps]: "map_ok f r = Inl e \<longleftrightarrow> r = Inl e"
  by (cases r) auto

lemma map_err_eq_Inr [result_simps]: "map_err f r = Inr y \<longleftrightarrow> r = Inr y"
  by (cases r) auto

lemma map_err_eq_Inl [result_simps]: "map_err f r = Inl e \<longleftrightarrow> (\<exists>d. r = Inl d \<and> e = f d)"
  by (cases r) auto

lemma ok_or_eq_Inr [result_simps]: "ok_or e x = Inr y \<longleftrightarrow> x = Some y"
  by (cases x) auto

lemma ok_or_eq_Inl [result_simps]: "ok_or e x = Inl d \<longleftrightarrow> x = None \<and> d = e"
  by (cases x) auto

lemma is_ok_iff: "is_ok r \<longleftrightarrow> (\<exists>x. r = Inr x)"
  by (cases r) auto

lemma and_then_Inr_right [simp]: "and_then r Inr = r"
  by (cases r) auto

lemma and_then_assoc: "and_then (and_then r f) g = and_then r (\<lambda>x. and_then (f x) g)"
  by (cases r) auto

lemma and_then_cong [fundef_cong]:
  "r = r' \<Longrightarrow> (\<And>x. r' = Inr x \<Longrightarrow> f x = f' x) \<Longrightarrow> and_then r f = and_then r' f'"
  by (cases r') auto

lemma try_fold_append:
  "try_fold f acc (xs @ ys) = and_then (try_fold f acc xs) (\<lambda>acc'. try_fold f acc' ys)"
  by (induction xs arbitrary: acc) (auto simp: and_then_assoc)

section \<open>Fallible steps on a state\<close>

text \<open>
  A step of a stateful Rust function is a new state with the step's \<open>Result\<close>: what it changed
  before it failed stays changed. \<open>and_do m f\<close> is \<open>m?\<close> followed by \<open>f\<close>.
\<close>

fun and_do :: "'s \<times> ('e + 'a) \<Rightarrow> ('s \<Rightarrow> 'a \<Rightarrow> 's \<times> ('e + 'b)) \<Rightarrow> 's \<times> ('e + 'b)" where
  "and_do (s, Inl e) f = (s, Inl e)"
| "and_do (s, Inr x) f = f s x"

lemma and_do_eq_Inr [result_simps]:
  "and_do m f = (s, Inr y) \<longleftrightarrow> (\<exists>s' x. m = (s', Inr x) \<and> f s' x = (s, Inr y))"
  by (cases "(m, f)" rule: and_do.cases) auto

lemma and_do_eq_Inl [result_simps]:
  "and_do m f = (s, Inl e) \<longleftrightarrow>
     m = (s, Inl e) \<or> (\<exists>s' x. m = (s', Inr x) \<and> f s' x = (s, Inl e))"
  by (cases "(m, f)" rule: and_do.cases) auto

lemma and_do_cong [fundef_cong]:
  "m = m' \<Longrightarrow> (\<And>s x. m' = (s, Inr x) \<Longrightarrow> f s x = f' s x) \<Longrightarrow> and_do m f = and_do m' f'"
  by (cases "(m', f')" rule: and_do.cases) auto

section \<open>Text\<close>

text \<open>Decimal printing of an unsigned integer, and a byte string as the text it prints as.\<close>

fun decimal :: "nat \<Rightarrow> string" where
  "decimal n = (if n < 10 then [char_of (48 + n)] else decimal (n div 10) @ [char_of (48 + n mod 10)])"

declare decimal.simps [simp del]

text \<open>Text in single quotes.\<close>

definition quoted :: "string \<Rightarrow> string" where
  "quoted s = CHR 0x27 # s @ [CHR 0x27]"

definition text_of :: "bytes \<Rightarrow> string" where
  "text_of bs = map (\<lambda>b. char_of (unat b)) bs"

definition bytes_of :: "string \<Rightarrow> bytes" where
  "bytes_of s = map (\<lambda>c. of_char c) s"

section \<open>Little-endian bytes of a word\<close>

text \<open>\<open>to_le_bytes\<close> and \<open>from_le_bytes\<close>, for a word of \<open>n\<close> bytes.\<close>

primrec to_le_bytes :: "nat \<Rightarrow> 'a::len word \<Rightarrow> bytes" where
  "to_le_bytes 0 w = []"
| "to_le_bytes (Suc n) w = ucast w # to_le_bytes n (drop_bit 8 w)"

primrec from_le_bytes :: "bytes \<Rightarrow> 'a::len word" where
  "from_le_bytes [] = 0"
| "from_le_bytes (b # bs) = ucast b OR push_bit 8 (from_le_bytes bs)"

lemma length_to_le_bytes [simp]: "length (to_le_bytes n w) = n"
  by (induction n arbitrary: w) auto

lemma to_le_bytes_numeral:
  "to_le_bytes (numeral n) w = ucast w # to_le_bytes (pred_numeral n) (drop_bit 8 w)"
  by (simp add: numeral_eq_Suc)

lemma from_le_to_le_take_bit:
  "from_le_bytes (to_le_bytes n w) = take_bit (8 * n) (w :: 'a::len word)"
proof (induction n arbitrary: w)
  case 0
  show ?case by simp
next
  case (Suc n)
  show ?case
    by (rule bit_eqI)
      (auto simp: Suc bit_or_iff bit_push_bit_iff bit_take_bit_iff bit_drop_bit_eq
        bit_unsigned_iff dest: bit_imp_le_length)
qed

lemma from_le_to_le [simp]:
  "LENGTH('a) \<le> 8 * n \<Longrightarrow> from_le_bytes (to_le_bytes n w) = (w :: 'a::len word)"
  by (simp add: from_le_to_le_take_bit take_bit_word_eq_self)

lemma bit_from_le_bytes:
  "bit (from_le_bytes bs :: 'a::len word) k \<Longrightarrow> k < 8 * length bs"
proof (induction bs arbitrary: k)
  case Nil
  then show ?case by simp
next
  case (Cons b bs)
  then show ?case
    by (cases "k < 8") (force simp: bit_or_iff bit_push_bit_iff bit_unsigned_iff
      dest: bit_imp_le_length)+
qed

lemma to_le_from_le:
  "8 * length bs \<le> LENGTH('a) \<Longrightarrow> to_le_bytes (length bs) (from_le_bytes bs :: 'a::len word) = bs"
proof (induction bs)
  case Nil
  show ?case by simp
next
  case (Cons b bs)
  let ?r = "from_le_bytes bs :: 'a word"
  have low: "(ucast (ucast b OR push_bit 8 ?r) :: u8) = b"
    using Cons.prems
    by (intro bit_word_eqI) (auto simp: bit_or_iff bit_push_bit_iff bit_unsigned_iff)
  have high: "drop_bit 8 (ucast b OR push_bit 8 ?r) = ?r"
    using Cons.prems
    by (intro bit_word_eqI)
      (auto simp: bit_or_iff bit_push_bit_iff bit_unsigned_iff bit_drop_bit_eq
        dest: bit_from_le_bytes bit_imp_le_length)
  show ?case
    using Cons by (simp only: length_Cons to_le_bytes.simps from_le_bytes.simps low high) simp
qed

section \<open>Prefixes and the lexicographic order\<close>

text \<open>
  \<open>derive(Ord)\<close> on \<open>Vec<Vec<u8>>\<close> is the lexicographic order in which a proper prefix comes
  first. The paths below a directory are an interval of that order.
\<close>

lemma prefix_imp_le: "prefix p q \<Longrightarrow> p \<le> (q :: 'a::linorder list)"
proof (induction p arbitrary: q)
  case Nil
  then show ?case by simp
next
  case (Cons x p)
  then show ?case by (cases q) auto
qed

lemma prefix_convex:
  "prefix d p \<Longrightarrow> prefix d r \<Longrightarrow> p \<le> q \<Longrightarrow> q \<le> r \<Longrightarrow> prefix d (q :: 'a::linorder list)"
proof (induction d arbitrary: p q r)
  case Nil
  then show ?case by simp
next
  case (Cons x d)
  from Cons.prems(1) obtain p' where p: "p = x # p'" "prefix d p'"
    by (auto simp: prefix_def)
  from Cons.prems(2) obtain r' where r: "r = x # r'" "prefix d r'"
    by (auto simp: prefix_def)
  from Cons.prems(3) p obtain y q' where q: "q = y # q'"
    by (cases q) auto
  with p r Cons.prems(3,4) have "y = x" and "p' \<le> q'" and "q' \<le> r'"
    by auto
  with p r q Cons.IH [of p' r' q'] show ?case by simp
qed

lemma strict_prefix_imp_less: "strict_prefix p q \<Longrightarrow> p < (q :: 'a::linorder list)"
  using prefix_imp_le [of p q] by (auto simp: strict_prefix_def)

lemma lex_append_cancel_le [simp]: "d @ p \<le> d @ q \<longleftrightarrow> p \<le> (q :: 'a::linorder list)"
  by (induction d) auto

lemma lex_append_cancel_less [simp]: "d @ p < d @ q \<longleftrightarrow> p < (q :: 'a::linorder list)"
  by (induction d) auto

section \<open>Strictly ascending lists\<close>

abbreviation ascending :: "'a::linorder list \<Rightarrow> bool" where
  "ascending xs \<equiv> sorted_wrt (<) xs"

lemma ascending_distinct: "ascending xs \<Longrightarrow> distinct xs"
  by (induction xs) auto

lemma ascending_map_of:
  "ascending (map fst kvs) \<Longrightarrow> (k, v) \<in> set kvs \<Longrightarrow> map_of kvs k = Some v"
  by (simp add: ascending_distinct map_of_eq_Some_iff)

lemma sorted_list_of_set_Cons:
  assumes "finite A" and "\<And>y. y \<in> A \<Longrightarrow> x < y"
  shows "sorted_list_of_set (insert x A) = x # sorted_list_of_set A"
proof -
  have "x \<notin> A" using assms(2) by blast
  moreover have "insort x (sorted_list_of_set A) = x # sorted_list_of_set A"
    using assms by (intro insort_is_Cons) (auto intro: less_imp_le)
  ultimately show ?thesis using assms(1) by simp
qed

end
