(* ===== verification/Types.thy ===== *)
theory Types
  imports Prelude
begin

text \<open>
  The shared vocabulary of \<open>crates/quicsync-core/src/types.rs\<close>: operation ids, digests, validated
  relative paths, entry kinds and metadata, index records and phases. A Rust newtype is a datatype
  with one constructor, a struct is a record, an enum is a datatype with the source's
  constructors. What a private field guarantees in Rust (32 bytes in a digest, only validated
  components in a path) is a predicate here: \<open>digest_ok\<close> and \<open>path_ok\<close>.
\<close>

section \<open>Operation ids and digests\<close>

datatype OperationId = OperationId (operation_id_get: u64)

text \<open>\<open>derive(Ord)\<close> on the newtype: the order of the wrapped integers.\<close>

instantiation OperationId :: linorder
begin

definition less_eq_OperationId :: "OperationId \<Rightarrow> OperationId \<Rightarrow> bool" where
  "less_eq_OperationId a b \<longleftrightarrow> operation_id_get a \<le> operation_id_get b"

definition less_OperationId :: "OperationId \<Rightarrow> OperationId \<Rightarrow> bool" where
  "less_OperationId a b \<longleftrightarrow> operation_id_get a < operation_id_get b"

instance
  by standard
    (auto simp: less_eq_OperationId_def less_OperationId_def OperationId.expand)

end

datatype Digest = Digest (digest_bytes: bytes)

definition digest_ok :: "Digest \<Rightarrow> bool" where
  "digest_ok d \<longleftrightarrow> length (digest_bytes d) = 32"

text \<open>Hexadecimal digits as \<open>format!\<close> prints them, \<open>{b:02x}\<close> and \<open>{b:02X}\<close>.\<close>

definition hex_lower :: "u8 \<Rightarrow> u8" where
  "hex_lower d = (if d < 10 then 48 + d else 87 + d)"

definition hex_upper :: "u8 \<Rightarrow> u8" where
  "hex_upper d = (if d < 10 then 48 + d else 55 + d)"

definition format_02x :: "u8 \<Rightarrow> bytes" where
  "format_02x b = [hex_lower (drop_bit 4 b), hex_lower (b AND 15)]"

definition digest_display :: "Digest \<Rightarrow> bytes" where
  "digest_display d = concat (map format_02x (digest_bytes d))"

text \<open>The two digits of a byte, and facts about digits by evaluation.\<close>

lemma nibbles: "drop_bit 4 (b :: u8) < 16" "b AND 15 < (16 :: u8)"
proof -
  have "unat (drop_bit 4 b) = unat b div 16" by (simp add: drop_bit_eq_div unat_div)
  moreover have "unat b < 256" using unsigned_less [of b] by simp
  ultimately have "unat (drop_bit 4 b) < 16" by simp
  then show "drop_bit 4 b < 16" by (simp add: word_less_nat_alt)
  have "b AND 15 \<le> 15" by (rule word_and_le1)
  then show "b AND 15 < 16" by (rule order.strict_trans1) simp
qed

lemma nibbles_join: "push_bit 4 (drop_bit 4 b) OR (b AND 15) = (b :: u8)"
proof (rule bit_word_eqI)
  fix n
  assume "n < LENGTH(8)"
  have "bit (15 :: u8) n \<longleftrightarrow> n < 4"
    using bit_mask_iff [where 'a = u8, of 4 n] \<open>n < LENGTH(8)\<close> by (simp add: mask_eq_exp_minus_1)
  then show "bit (push_bit 4 (drop_bit 4 b) OR (b AND 15)) n = bit b n"
    using \<open>n < LENGTH(8)\<close> by (auto simp: bit_or_iff bit_and_iff bit_push_bit_iff bit_drop_bit_eq)
qed

lemma nibble_cases:
  assumes "d < (16 :: u8)" and "list_all P (map word_of_nat [0..<16])"
  shows "P d"
proof -
  have "unat d \<in> set [0..<16]" using assms(1) by (simp add: word_less_nat_alt)
  then have "word_of_nat (unat d) \<in> set (map (word_of_nat :: nat \<Rightarrow> u8) [0..<16])" by (simp only: set_map) (rule imageI)
  then show ?thesis using assms(2) by (auto simp: list_all_iff)
qed

section \<open>Relative paths\<close>

datatype PathError =
    EmptyPath | EmptyComponent | CurrentDirectory | ParentDirectory | Separator | Nul

fun path_error_display :: "PathError \<Rightarrow> string" where
  "path_error_display EmptyPath = ''path has no components''"
| "path_error_display EmptyComponent = ''path contains an empty component''"
| "path_error_display CurrentDirectory = ''path contains a current-directory component''"
| "path_error_display ParentDirectory = ''path contains a parent-directory component''"
| "path_error_display Separator = ''path component contains a separator''"
| "path_error_display Nul = ''path component contains a NUL byte''"

datatype RelativePath = RelativePath (components: "bytes list")

definition check_component :: "bytes \<Rightarrow> PathError + unit" where
  "check_component c =
     (if c = [] then Inl EmptyComponent
      else if c = [46] then Inl CurrentDirectory
      else if c = [46, 46] then Inl ParentDirectory
      else if 47 \<in> set c then Inl Separator
      else if 0 \<in> set c then Inl Nul
      else Inr ())"

definition relative_path_new :: "bytes list \<Rightarrow> PathError + RelativePath" where
  "relative_path_new cs =
     (if cs = [] then Inl EmptyPath
      else and_then (try_fold (\<lambda>_ c. check_component c) () cs) (\<lambda>_. Inr (RelativePath cs)))"

text \<open>\<open>derive(Ord)\<close>: the lexicographic order of the component lists.\<close>

instantiation RelativePath :: linorder
begin

definition less_eq_RelativePath :: "RelativePath \<Rightarrow> RelativePath \<Rightarrow> bool" where
  "less_eq_RelativePath a b \<longleftrightarrow> components a \<le> components b"

definition less_RelativePath :: "RelativePath \<Rightarrow> RelativePath \<Rightarrow> bool" where
  "less_RelativePath a b \<longleftrightarrow> components a < components b"

instance
  by standard
    (auto simp: less_eq_RelativePath_def less_RelativePath_def RelativePath.expand)

end

section \<open>Entries and records\<close>

datatype EntryKind = Directory | RegularFile | Symlink

record EntryMetadata =
  kind :: EntryKind
  mode :: u32
  mtime_ns :: i128
  entry_size :: u64

record IndexRecord =
  path :: RelativePath
  metadata :: EntryMetadata
  digest :: "Digest option"
  symlink_target :: "bytes option"

datatype Phase =
    Handshake | Policy | Indexing | Planning | Transferring | ReadyToCommit | Committing
  | Complete | Failed

section \<open>What the constructors guarantee\<close>

text \<open>A component that names one entry of a directory and nothing else.\<close>

definition component_ok :: "bytes \<Rightarrow> bool" where
  "component_ok c \<longleftrightarrow> c \<noteq> [] \<and> c \<noteq> [46] \<and> c \<noteq> [46, 46] \<and> 47 \<notin> set c \<and> 0 \<notin> set c"

definition path_ok :: "RelativePath \<Rightarrow> bool" where
  "path_ok p \<longleftrightarrow> components p \<noteq> [] \<and> list_all component_ok (components p)"

definition record_ok :: "IndexRecord \<Rightarrow> bool" where
  "record_ok r \<longleftrightarrow> path_ok (path r) \<and> pred_option digest_ok (digest r)"

lemma check_component_Inr [simp]: "check_component c = Inr u \<longleftrightarrow> component_ok c"
  by (auto simp: check_component_def component_ok_def)

lemma check_components_Inr [simp]:
  "try_fold (\<lambda>_ c. check_component c) () cs = Inr u \<longleftrightarrow> list_all component_ok cs"
  by (induction cs) (auto simp: result_simps)

lemma relative_path_new_Inr:
  "relative_path_new cs = Inr p \<longleftrightarrow> p = RelativePath cs \<and> path_ok p"
  by (auto simp: relative_path_new_def path_ok_def result_simps)

lemma relative_path_new_components [simp]:
  "path_ok p \<Longrightarrow> relative_path_new (components p) = Inr p"
  by (simp add: relative_path_new_Inr)

lemma path_ok_nonempty: "path_ok p \<Longrightarrow> components p \<noteq> []"
  by (simp add: path_ok_def)

text \<open>The error is that of the first component that is not acceptable.\<close>

lemma relative_path_new_Inl:
  "relative_path_new cs = Inl e \<longleftrightarrow>
     cs = [] \<and> e = EmptyPath \<or>
     (\<exists>c. find (\<lambda>c. \<not> component_ok c) cs = Some c \<and> check_component c = Inl e)"
proof -
  have "try_fold (\<lambda>_ c. check_component c) () cs = Inl e \<longleftrightarrow>
      (\<exists>c. find (\<lambda>c. \<not> component_ok c) cs = Some c \<and> check_component c = Inl e)" for cs
  proof (induction cs)
    case Nil
    show ?case by simp
  next
    case (Cons c cs)
    show ?case
    proof (cases "component_ok c")
      case True
      then have "check_component c = Inr ()" by simp
      then show ?thesis using True by (simp add: Cons del: check_component_Inr)
    next
      case False
      then obtain d where "check_component c = Inl d"
        by (cases "check_component c") auto
      with False show ?thesis by simp
    qed
  qed
  then show ?thesis
    by (auto simp: relative_path_new_def result_simps)
qed

end
