(* ===== verification/Messages.thy ===== *)
theory Messages
  imports Types
begin

text \<open>
  \<open>crates/quicsync-core/src/protocol/messages.rs\<close>: the messages of the three kinds of streams.
  A Rust \<open>String\<close> field is the list of its UTF-8 bytes. The constructors \<open>InvalidPath\<close>,
  \<open>UnsupportedFilesystem\<close>, \<open>Cancelled\<close> and \<open>Internal\<close> of the wire codes are written
  \<open>WireErrorCode.InvalidPath\<close> and so on where the local error codes are in scope too.
\<close>

datatype ProtocolVersion = ProtocolVersion (version_get: u16)

definition CURRENT_VERSION :: ProtocolVersion where
  "CURRENT_VERSION = ProtocolVersion 1"

datatype Operation =
    UpsertDirectory OperationId IndexRecord
  | UpsertFile bool OperationId IndexRecord
  | UpsertSymlink OperationId IndexRecord
  | Delete OperationId RelativePath EntryKind

fun operation_id :: "Operation \<Rightarrow> OperationId" where
  "operation_id (UpsertDirectory i r) = i"
| "operation_id (UpsertFile u i r) = i"
| "operation_id (UpsertSymlink i r) = i"
| "operation_id (Delete i p k) = i"

fun operation_path :: "Operation \<Rightarrow> RelativePath" where
  "operation_path (UpsertDirectory i r) = path r"
| "operation_path (UpsertFile u i r) = path r"
| "operation_path (UpsertSymlink i r) = path r"
| "operation_path (Delete i p k) = p"

datatype WireErrorCode =
    IncompatibleProtocol | InvalidMessage | Unauthorized | InvalidPath | IntegrityFailure
  | ResourceLimit | UnsupportedFilesystem | Cancelled | Internal

record WireFailure =
  failure_code :: WireErrorCode
  failure_message :: bytes
  failure_phase :: Phase
  failure_operation :: "OperationId option"
  failure_path :: "RelativePath option"

datatype Control =
    StartSync bytes
  | StartAccepted
  | Operation Operation
  | PlanEnd
  | CompleteAck
  | Failure WireFailure

datatype IndexMessage = Record IndexRecord | End

datatype FileTransfer =
    UpdateRequest OperationId RelativePath
  | CreateRequest OperationId RelativePath
  | WholeFile bytes
  | Signature bytes
  | SignatureEnd
  | Delta bytes
  | TransferEnd
  | TransferAccepted OperationId

end
