(* ===== verification/Varint.thy ===== *)
theory Varint
  imports Messages
begin

text \<open>
  The base-128 integers of \<open>crates/quicsync-core/src/protocol/codec.rs\<close> (\<open>put_varint\<close>,
  \<open>parse_varint\<close>) on 64-bit words, with the errors of the codec. Shown: the two are inverse to
  each other in both directions, so an integer has one encoding and the parser takes no other.
\<close>

section \<open>Codec errors\<close>

datatype CodecError =
    InvalidLimits
  | FrameTooLarge u64 usize
  | VarintOverflow
  | NonCanonicalVarint
  | UnexpectedEof
  | TrailingBytes
  | UnknownMessageKind u8
  | UnsupportedVersion ProtocolVersion
  | InvalidValue string
  | DuplicateValue string
  | NonCanonicalOrder string
  | LimitExceeded string

definition MAX_VARINT_BYTES :: nat where
  "MAX_VARINT_BYTES = 10"

section \<open>The two loops\<close>

lemma drop_bit_7_less: "drop_bit 7 v \<noteq> 0 \<Longrightarrow> unat (drop_bit 7 v) < unat (v :: u64)"
proof -
  assume "drop_bit 7 v \<noteq> 0"
  then have "v \<noteq> 0" by auto
  then have "0 < unat v" by (simp add: unat_gt_0)
  then have "drop_bit 7 (unat v) < unat v" by (simp add: drop_bit_eq_div)
  then show ?thesis by (simp add: unat_drop_bit_eq)
qed

function put_varint :: "u64 \<Rightarrow> bytes \<Rightarrow> bytes" where
  "put_varint value output =
     (let byte = ucast (value AND 0x7f) :: u8;
          value' = drop_bit 7 value;
          byte' = (if value' \<noteq> 0 then byte OR 0x80 else byte);
          output' = output @ [byte']
      in if value' = 0 then output' else put_varint value' output')"
  by pat_completeness auto
termination
  by (relation "measure (\<lambda>(v, out). unat v)") (simp_all add: drop_bit_7_less)

declare put_varint.simps [simp del]

text \<open>The \<open>for\<close> loop of \<open>parse_varint\<close>: \<open>Some\<close> is an early return, \<open>None\<close> runs off the end.\<close>

fun parse_varint_loop :: "bytes \<Rightarrow> nat \<Rightarrow> u64 \<Rightarrow> (CodecError + (u64 \<times> nat)) option" where
  "parse_varint_loop [] index value = None"
| "parse_varint_loop (byte # input) index value =
     (if index = 9 \<and> byte > 1 then Some (Inl VarintOverflow)
      else let value' = value OR push_bit (index * 7) (ucast (byte AND 0x7f))
           in if byte AND 0x80 = 0
              then if index > 0 \<and> byte = 0 then Some (Inl NonCanonicalVarint)
                   else Some (Inr (value', index + 1))
              else parse_varint_loop input (index + 1) value')"

definition parse_varint :: "bytes \<Rightarrow> CodecError + (u64 \<times> nat)" where
  "parse_varint input =
     (case parse_varint_loop (take MAX_VARINT_BYTES input) 0 0 of
        Some result \<Rightarrow> result
      | None \<Rightarrow>
          if length input \<ge> MAX_VARINT_BYTES then Inl VarintOverflow else Inl UnexpectedEof)"

section \<open>Shape of the encoding\<close>

abbreviation varint :: "u64 \<Rightarrow> bytes" where
  "varint v \<equiv> put_varint v []"

lemma put_varint_append: "put_varint v (xs @ out) = xs @ put_varint v out"
proof (induction v out rule: put_varint.induct)
  case (1 v out)
  then show ?case
    by (cases "drop_bit 7 v = 0") (simp_all add: put_varint.simps [of v] Let_def)
qed

lemma put_varint_eq: "put_varint v out = out @ varint v"
  using put_varint_append [of v out "[]"] by simp

lemma varint_large:
  "drop_bit 7 v \<noteq> 0 \<Longrightarrow> varint v = (ucast (v AND 0x7f) OR 0x80) # varint (drop_bit 7 v)"
  by (simp add: put_varint.simps [of v] Let_def put_varint_eq [of "drop_bit 7 v" "[_]"])

lemma varint_induct [case_names small large]:
  assumes "\<And>v. drop_bit 7 v = 0 \<Longrightarrow> P v"
    and "\<And>v. drop_bit 7 v \<noteq> 0 \<Longrightarrow> P (drop_bit 7 v) \<Longrightarrow> P v"
  shows "P (v :: u64)"
proof (induction "unat v" arbitrary: v rule: less_induct)
  case less
  then show ?case using assms drop_bit_7_less by (cases "drop_bit 7 v = 0") auto
qed

section \<open>Seven bits at a time\<close>

lemma and_0x7f: "v AND 0x7f = take_bit 7 (v :: 'a::len word)"
proof -
  have "(0x7f :: 'a word) = mask 7" by (simp add: mask_eq_exp_minus_1)
  then show ?thesis by (simp only: take_bit_eq_mask)
qed

lemma bit_0x80: "bit (0x80 :: u8) k \<longleftrightarrow> k = 7"
proof -
  have "(0x80 :: u8) = 2 ^ 7" by simp
  then show ?thesis by (auto simp only: bit_exp_iff possible_bit_word) simp_all
qed

definition bits_below :: "nat \<Rightarrow> 'a::len word \<Rightarrow> bool" where
  "bits_below m w \<longleftrightarrow> (\<forall>k. bit w k \<longrightarrow> k < m)"

lemma bits_belowD: "bits_below m w \<Longrightarrow> bit w k \<Longrightarrow> k < m"
  by (simp add: bits_below_def)

lemma bits_below_take: "bits_below m w \<longleftrightarrow> take_bit m w = w"
proof
  assume "bits_below m w"
  then show "take_bit m w = w"
    by (intro bit_word_eqI) (auto simp: bit_take_bit_iff dest: bits_belowD)
next
  assume "take_bit m w = w"
  then show "bits_below m w"
    unfolding bits_below_def by (metis bit_take_bit_iff)
qed

lemma bits_below_unat: "bits_below m (w :: 'a::len word) \<longleftrightarrow> unat w < 2 ^ m"
proof -
  have "bits_below m w \<longleftrightarrow> unat (take_bit m w) = unat w"
    unfolding bits_below_take by (metis unsigned_word_eqI)
  also have "\<dots> \<longleftrightarrow> take_bit m (unat w) = unat w" by (simp add: unsigned_take_bit_eq)
  finally show ?thesis by (simp add: take_bit_nat_eq_self_iff)
qed

lemma bits_below_7: "bits_below 7 (v :: 'a::len word) \<longleftrightarrow> drop_bit 7 v = 0"
proof
  assume "drop_bit 7 v = 0"
  show "bits_below 7 v"
    unfolding bits_below_def
  proof (intro allI impI, rule ccontr)
    fix k
    assume "bit v k" "\<not> k < 7"
    then have "bit (drop_bit 7 v) (k - 7)" by (simp add: bit_drop_bit_eq)
    with \<open>drop_bit 7 v = 0\<close> show False by simp
  qed
next
  assume "bits_below 7 v"
  then show "drop_bit 7 v = 0"
    by (intro bit_word_eqI) (auto simp: bit_drop_bit_eq dest!: bits_belowD)
qed

lemma and_0x80_eq_0: "(b AND 0x80 = (0 :: u8)) \<longleftrightarrow> \<not> bit b 7"
proof
  assume a: "b AND 0x80 = 0"
  have "bit b 7 \<Longrightarrow> bit (b AND 0x80) 7" by (simp only: bit_and_iff bit_0x80 simp_thms)
  with a show "\<not> bit b 7" by auto
next
  assume "\<not> bit b 7"
  then have "\<not> bit (b AND 0x80) k" for k by (auto simp only: bit_and_iff bit_0x80)
  then show "b AND 0x80 = 0" by (intro bit_word_eqI) simp
qed

lemma not_bit_7_below: "\<not> bit (b :: u8) 7 \<longleftrightarrow> bits_below 7 b"
proof
  assume n: "\<not> bit b 7"
  show "bits_below 7 b"
    unfolding bits_below_def
  proof (intro allI impI)
    fix k assume k: "bit b k"
    then have "k < 8" using bit_imp_le_length [of b k] by simp
    moreover have "k \<noteq> 7" using k n by auto
    ultimately show "k < 7" by simp
  qed
qed (auto dest: bits_belowD)

lemma split_7: "push_bit (n * 7) (take_bit 7 v) OR push_bit (7 + n * 7) (drop_bit 7 v) = push_bit (n * 7) (v :: u64)"
proof -
  have "take_bit 7 v OR push_bit 7 (drop_bit 7 v) = v"
  proof (rule bit_word_eqI)
    fix k
    assume "k < LENGTH(64)"
    then show "bit (take_bit 7 v OR push_bit 7 (drop_bit 7 v)) k = bit v k"
      by (cases "k < 7")
        (simp_all add: bit_or_iff bit_take_bit_iff bit_push_bit_iff bit_drop_bit_eq)
  qed
  then have "push_bit (n * 7) (take_bit 7 v OR push_bit 7 (drop_bit 7 v)) = push_bit (n * 7) v" by simp
  then show ?thesis by (simp only: push_bit_or push_bit_push_bit add.commute)
qed

lemma varint_small: "bits_below 7 v \<Longrightarrow> varint v = [ucast v]"
  by (simp add: put_varint.simps [of v] bits_below_7 and_0x7f) (simp add: bits_below_take flip: bits_below_7)

lemma small_byte:
  assumes "bits_below 7 (v :: u64)"
  shows "bits_below 7 (ucast v :: u8)" and "(ucast (ucast v :: u8) :: u64) = v"
    and "(ucast v :: u8) = 0 \<longleftrightarrow> v = 0"
proof -
  show below: "bits_below 7 (ucast v :: u8)"
    using assms by (auto simp: bits_below_def bit_unsigned_iff)
  show eq: "(ucast (ucast v :: u8) :: u64) = v"
    using assms by (intro bit_word_eqI) (auto simp: bit_unsigned_iff dest: bits_belowD)
  show "(ucast v :: u8) = 0 \<longleftrightarrow> v = 0"
    using eq by auto
qed

lemma continued_byte:
  "take_bit 7 ((ucast (take_bit 7 (v :: u64)) :: u8) OR 0x80) = ucast (take_bit 7 v)"
  "bit ((ucast (take_bit 7 v) :: u8) OR 0x80) 7"
  "(ucast (ucast (take_bit 7 v) :: u8) :: u64) = take_bit 7 v"
proof -
  show "take_bit 7 ((ucast (take_bit 7 v) :: u8) OR 0x80) = ucast (take_bit 7 v)"
    by (intro bit_word_eqI) (auto simp only: bit_or_iff bit_take_bit_iff bit_unsigned_iff bit_0x80)
  show "bit ((ucast (take_bit 7 v) :: u8) OR 0x80) 7"
    by (simp only: bit_or_iff bit_0x80 simp_thms)
  show "(ucast (ucast (take_bit 7 v) :: u8) :: u64) = take_bit 7 v"
    by (intro bit_word_eqI) (auto simp: bit_take_bit_iff bit_unsigned_iff)
qed

lemma bits_below_drop_7:
  "bits_below (7 + m) v \<Longrightarrow> bits_below m (drop_bit 7 v)"
  by (auto simp: bits_below_def bit_drop_bit_eq)

lemma bits_below_push_7:
  "bits_below m w \<Longrightarrow> bits_below (7 + m) (take_bit 7 v OR push_bit 7 w)"
  by (auto simp: bits_below_def bit_or_iff bit_take_bit_iff bit_push_bit_iff)

lemma byte_le_1: "\<not> (1 < b) \<longleftrightarrow> bits_below 1 (b :: u8)"
proof -
  have "\<not> (1 < b) \<longleftrightarrow> unat b \<le> 1" by (simp add: not_less word_le_nat_alt)
  then show ?thesis by (auto simp: bits_below_unat)
qed

section \<open>Parsing what was written\<close>

lemma parse_loop_varint:
  assumes "n \<le> 9" and "bits_below (64 - n * 7) v" and "0 < n \<longrightarrow> v \<noteq> 0"
  shows "parse_varint_loop (take (10 - n) (varint v @ rest)) n acc =
    Some (Inr (acc OR push_bit (n * 7) v, n + length (varint v)))"
  using assms
proof (induction v arbitrary: n acc rule: varint_induct)
  case (small v)
  then have v: "bits_below 7 v" by (simp add: bits_below_7)
  note b = small_byte [OF v]
  have nine: "\<not> (n = 9 \<and> 1 < (ucast v :: u8))"
    using small.prems(2) by (auto simp: byte_le_1 bits_below_def bit_unsigned_iff)
  have "take (10 - n) (varint v @ rest) = ucast v # take (9 - n) rest"
    using small.prems(1) by (simp add: varint_small [OF v] take_Cons')
  moreover have "(ucast v :: u8) AND 0x80 = 0"
    using b(1) by (simp add: and_0x80_eq_0 not_bit_7_below)
  moreover have "(ucast v :: u8) AND 0x7f = ucast v"
    using b(1) by (simp add: and_0x7f bits_below_take)
  ultimately show ?case
    using nine small.prems(3) b by (auto simp: varint_small [OF v] Let_def)
next
  case (large v)
  let ?b = "(ucast (take_bit 7 v) :: u8) OR 0x80"
  have "n \<noteq> 9"
  proof
    assume "n = 9"
    with large.prems(2) have "bits_below 7 v" by (auto simp: bits_below_def)
    with large.hyps show False by (simp add: bits_below_7)
  qed
  with large.prems(1) have n: "n + 1 \<le> 9" by simp
  have "64 - n * 7 = 7 + (64 - (n + 1) * 7)" using n by simp
  with large.prems(2) have below: "bits_below (64 - (n + 1) * 7) (drop_bit 7 v)"
    by (simp only: bits_below_drop_7)
  have step: "take (10 - n) (varint v @ rest) = ?b # take (10 - (n + 1)) (varint (drop_bit 7 v) @ rest)"
    using n by (simp add: varint_large [OF large.hyps] and_0x7f take_Cons')
  have cont: "?b AND 0x80 \<noteq> 0"
    using continued_byte(2) by (simp only: and_0x80_eq_0 simp_thms)
  have "parse_varint_loop (take (10 - n) (varint v @ rest)) n acc =
      parse_varint_loop (take (10 - (n + 1)) (varint (drop_bit 7 v) @ rest)) (n + 1)
        (acc OR push_bit (n * 7) (take_bit 7 v))"
    unfolding step using \<open>n \<noteq> 9\<close> cont
    by (simp only: parse_varint_loop.simps Let_def and_0x7f continued_byte(1,3) simp_thms if_False)
  also have "\<dots> = Some (Inr ((acc OR push_bit (n * 7) (take_bit 7 v)) OR
      push_bit ((n + 1) * 7) (drop_bit 7 v), n + 1 + length (varint (drop_bit 7 v))))"
    using large.hyps by (intro large.IH [OF n below]) simp
  finally show ?case
    by (simp add: or.assoc split_7 varint_large [OF large.hyps])
qed

lemma parse_varint_varint:
  "parse_varint (varint v @ rest) = Inr (v, length (varint v))"
  using parse_loop_varint [of 0 v rest 0] bit_imp_le_length [of v]
  by (simp add: parse_varint_def MAX_VARINT_BYTES_def bits_below_def)

lemma varint_nonempty [simp]: "varint v \<noteq> []"
  by (cases "drop_bit 7 v = 0") (simp_all add: varint_small bits_below_7 varint_large)

section \<open>Only what was written parses\<close>

lemma ucast_u64_back: "(ucast (ucast (b :: u8) :: u64) :: u8) = b"
  by (intro bit_word_eqI) (auto simp: bit_unsigned_iff)

lemma small_byte_varint:
  "bits_below 7 (b :: u8) \<Longrightarrow> varint (ucast b) = [b] \<and> bits_below 7 (ucast b :: u64)"
proof
  assume b: "bits_below 7 b"
  then show below: "bits_below 7 (ucast b :: u64)"
    by (auto simp: bits_below_def bit_unsigned_iff)
  show "varint (ucast b) = [b]"
    by (simp add: varint_small [OF below] ucast_u64_back)
qed

lemma continued_byte_varint:
  assumes "bit (b :: u8) 7" and "bits_below 57 w" and "w \<noteq> 0"
  defines "v \<equiv> take_bit 7 (ucast b) OR push_bit 7 w"
  shows "varint v = b # varint w" and "drop_bit 7 v = w" and "take_bit 7 v = take_bit 7 (ucast b)"
proof -
  show d: "drop_bit 7 v = w"
    unfolding v_def using assms(2)
    by (intro bit_word_eqI)
      (auto simp: bit_drop_bit_eq bit_or_iff bit_take_bit_iff bit_push_bit_iff dest: bits_belowD)
  show t: "take_bit 7 v = take_bit 7 (ucast b)"
    unfolding v_def
    by (intro bit_word_eqI) (auto simp: bit_or_iff bit_take_bit_iff bit_push_bit_iff)
  have "(ucast (take_bit 7 (ucast b :: u64)) :: u8) OR 0x80 = b"
  proof (rule bit_word_eqI)
    fix k
    assume "k < LENGTH(8)"
    then have "k < 7 \<or> k = 7" by auto
    then show "bit ((ucast (take_bit 7 (ucast b :: u64)) :: u8) OR 0x80) k = bit b k"
      using assms(1) by (auto simp only: bit_or_iff bit_0x80 bit_unsigned_iff bit_take_bit_iff) auto
  qed
  then show "varint v = b # varint w"
    using assms(3) varint_large [of v] by (simp only: d t and_0x7f simp_thms)
qed

lemma parse_loop_canonical:
  assumes "parse_varint_loop bs n acc = Some (Inr (v, m))" and "n + length bs \<le> 10"
  shows "\<exists>w rest. bs = varint w @ rest \<and> m = n + length (varint w) \<and>
    v = acc OR push_bit (n * 7) w \<and> bits_below (64 - n * 7) w \<and> (0 < n \<longrightarrow> w \<noteq> 0)"
  using assms
proof (induction bs arbitrary: n acc)
  case Nil
  then show ?case by simp
next
  case (Cons b bs)
  from Cons.prems(2) have n: "n \<le> 9" by simp
  have nine: "bits_below 1 b" if "n = 9"
    using Cons.prems(1) that by (simp only: byte_le_1 [symmetric]) (simp split: if_splits)
  show ?case
  proof (cases "bit b 7")
    case False
    then have b: "bits_below 7 b" by (simp add: not_bit_7_below)
    note single = small_byte_varint [OF b]
    from Cons.prems(1) nine False have "v = acc OR push_bit (n * 7) (ucast b)" "m = n + 1"
      "0 < n \<longrightarrow> b \<noteq> 0"
      by (auto simp: and_0x80_eq_0 and_0x7f Let_def bits_below_take [THEN iffD1, OF b]
          simp flip: byte_le_1 split: if_splits)
    moreover have "(ucast b :: u64) = 0 \<longleftrightarrow> b = 0"
      using ucast_u64_back [of b] by auto
    moreover have "bits_below (64 - n * 7) (ucast b :: u64)"
    proof (cases "n = 9")
      case True
      with nine show ?thesis by (auto simp: bits_below_def bit_unsigned_iff)
    next
      case False
      with n have "7 \<le> 64 - n * 7" by simp
      with single show ?thesis by (auto simp: bits_below_def)
    qed
    ultimately show ?thesis
      using single by (intro exI [of _ "ucast b"] exI [of _ bs]) auto
  next
    case True
    then have "n \<noteq> 9" using nine bits_belowD [of 1 b 7] by auto
    with n have n1: "n + 1 \<le> 9" by simp
    from Cons.prems(1) True \<open>n \<noteq> 9\<close> have
      "parse_varint_loop bs (n + 1) (acc OR push_bit (n * 7) (ucast (take_bit 7 b))) = Some (Inr (v, m))"
      by (auto simp: and_0x80_eq_0 and_0x7f Let_def)
    from Cons.IH [OF this] Cons.prems(2) obtain w rest where w:
      "bs = varint w @ rest" "m = n + 1 + length (varint w)"
      "v = (acc OR push_bit (n * 7) (ucast (take_bit 7 b))) OR push_bit ((n + 1) * 7) w"
      "bits_below (64 - (n + 1) * 7) w" "w \<noteq> 0"
      by auto
    let ?v = "take_bit 7 (ucast b) OR push_bit 7 w"
    from w(4) have "bits_below 57 w" by (auto simp: bits_below_def)
    note cv = continued_byte_varint [OF True this w(5)]
    have "(ucast (take_bit 7 b) :: u64) = take_bit 7 (ucast b)"
      by (simp add: unsigned_take_bit_eq)
    then have "v = acc OR push_bit (n * 7) ?v"
      using w(3) split_7 [of n ?v] cv(2,3) by (simp add: or.assoc add.commute)
    moreover have "bits_below (64 - n * 7) ?v"
      using bits_below_push_7 [OF w(4), of "ucast b"] n1 by (simp add: algebra_simps)
    moreover have "?v \<noteq> 0"
      using cv(2) w(5) by (metis drop_bit_of_0)
    ultimately show ?thesis
      using w cv(1) by (intro exI [of _ ?v] exI [of _ rest]) auto
  qed
qed

lemma parse_varint_canonical:
  assumes "parse_varint bs = Inr (v, m)"
  shows "m = length (varint v)" and "\<exists>rest. bs = varint v @ rest"
proof -
  from assms have "parse_varint_loop (take 10 bs) 0 0 = Some (Inr (v, m))"
    by (auto simp: parse_varint_def MAX_VARINT_BYTES_def split: option.splits if_splits)
  from parse_loop_canonical [OF this] obtain rest
    where r: "take 10 bs = varint v @ rest" "m = length (varint v)"
    by auto
  then have "bs = varint v @ (rest @ drop 10 bs)"
    by (metis append.assoc append_take_drop_id)
  then show "\<exists>rest. bs = varint v @ rest" ..
  from r show "m = length (varint v)" by simp
qed

text \<open>An integer cut off before its last byte is reported as such.\<close>

lemma parse_loop_continues:
  "\<forall>b\<in>set bs. b AND 0x80 \<noteq> 0 \<Longrightarrow> n + length bs \<le> 9 \<Longrightarrow> parse_varint_loop bs n acc = None"
  by (induction bs arbitrary: n acc) (simp_all add: Let_def)

lemma parse_varint_cut:
  assumes "\<forall>b\<in>set bs. b AND 0x80 \<noteq> 0" and "length bs < 10"
  shows "parse_varint bs = Inl UnexpectedEof"
  using parse_loop_continues [OF assms(1), of 0 0] assms(2)
  by (simp add: parse_varint_def MAX_VARINT_BYTES_def)

lemma varint_length: "1 \<le> length (varint v)" "length (varint v) \<le> 10"
proof -
  show "1 \<le> length (varint v)" by (simp add: Suc_le_eq)
  from parse_varint_varint [of v "[]"]
  have "parse_varint_loop (take 10 (varint v)) 0 0 = Some (Inr (v, length (varint v)))"
    by (auto simp: parse_varint_def MAX_VARINT_BYTES_def split: option.splits if_splits)
  from parse_loop_canonical [OF this] obtain rest where "take 10 (varint v) = varint v @ rest"
    by auto
  then have "length (take 10 (varint v)) = length (varint v) + length rest" by simp
  then show "length (varint v) \<le> 10" by simp
qed

lemma varint_bytes:
  "\<exists>front z. varint v = front @ [z] \<and> (\<forall>b\<in>set front. b AND 0x80 \<noteq> 0) \<and> z AND 0x80 = 0"
proof (induction v rule: varint_induct)
  case (small v)
  then have "bits_below 7 v" by (simp add: bits_below_7)
  then show ?case
    using small_byte(1) [of v]
    by (intro exI [of _ "[]"] exI [of _ "ucast v"])
      (simp add: varint_small and_0x80_eq_0 not_bit_7_below)
next
  case (large v)
  then obtain front z where "varint (drop_bit 7 v) = front @ [z]"
      "\<forall>b\<in>set front. b AND 0x80 \<noteq> 0" "z AND 0x80 = 0" by blast
  moreover have "((ucast (v AND 0x7f) :: u8) OR 0x80) AND 0x80 \<noteq> 0"
    using continued_byte(2) [of v] by (simp only: and_0x80_eq_0 and_0x7f simp_thms)
  ultimately show ?case
    using large.hyps
    by (intro exI [of _ "((ucast (v AND 0x7f) :: u8) OR 0x80) # front"] exI [of _ z])
      (simp add: varint_large)
qed

end
