(* ===== verification/Errors.thy ===== *)
theory Errors
  imports Types
begin

text \<open>
  \<open>crates/quicsync-core/src/error.rs\<close>: the stable error codes with their machine names, the
  detailed local error and the restricted error that may cross to the peer. Fixed texts of the
  program are HOL strings.
\<close>

section \<open>Error codes\<close>

datatype ErrorCode =
    InvalidConfiguration | AuthenticationFailed | AuthorizationDenied | ProtocolViolation
  | UnsupportedProtocol | InvalidPath | PathConfinementViolation | IntegrityMismatch
  | UnsupportedFilesystem | ResourceLimitExceeded | OperationFailed | Io
  | TransportUnavailable | CompletionUnknown | Cancelled | Internal

definition ERROR_CODES :: "ErrorCode list" where
  "ERROR_CODES =
     [InvalidConfiguration, AuthenticationFailed, AuthorizationDenied, ProtocolViolation,
      UnsupportedProtocol, InvalidPath, PathConfinementViolation, IntegrityMismatch,
      UnsupportedFilesystem, ResourceLimitExceeded, OperationFailed, Io,
      TransportUnavailable, CompletionUnknown, Cancelled, Internal]"

fun as_str :: "ErrorCode \<Rightarrow> string" where
  "as_str InvalidConfiguration = ''invalid_configuration''"
| "as_str AuthenticationFailed = ''authentication_failed''"
| "as_str AuthorizationDenied = ''authorization_denied''"
| "as_str ProtocolViolation = ''protocol_violation''"
| "as_str UnsupportedProtocol = ''unsupported_protocol''"
| "as_str InvalidPath = ''invalid_path''"
| "as_str PathConfinementViolation = ''path_confinement_violation''"
| "as_str IntegrityMismatch = ''integrity_mismatch''"
| "as_str UnsupportedFilesystem = ''unsupported_filesystem''"
| "as_str ResourceLimitExceeded = ''resource_limit_exceeded''"
| "as_str OperationFailed = ''operation_failed''"
| "as_str Io = ''io_error''"
| "as_str TransportUnavailable = ''transport_unavailable''"
| "as_str CompletionUnknown = ''completion_unknown''"
| "as_str Cancelled = ''cancelled''"
| "as_str Internal = ''internal_error''"

fun peer_message :: "ErrorCode \<Rightarrow> string" where
  "peer_message InvalidConfiguration = ''local configuration is invalid''"
| "peer_message AuthenticationFailed = ''request rejected''"
| "peer_message AuthorizationDenied = ''request rejected''"
| "peer_message ProtocolViolation = ''protocol violation''"
| "peer_message UnsupportedProtocol = ''protocol is not supported''"
| "peer_message InvalidPath = ''path is invalid''"
| "peer_message PathConfinementViolation = ''path is invalid''"
| "peer_message IntegrityMismatch = ''content verification failed''"
| "peer_message UnsupportedFilesystem = ''filesystem operation is not supported''"
| "peer_message ResourceLimitExceeded = ''resource limit exceeded''"
| "peer_message OperationFailed = ''operation failed''"
| "peer_message Io = ''input/output operation failed''"
| "peer_message TransportUnavailable = ''transport is unavailable''"
| "peer_message CompletionUnknown = ''completion status is unknown''"
| "peer_message Cancelled = ''operation cancelled''"
| "peer_message Internal = ''internal error''"

datatype UnknownErrorCode = UnknownErrorCode (unknown_value: string)

definition unknown_error_display :: "UnknownErrorCode \<Rightarrow> string" where
  "unknown_error_display u = ''unknown error code: '' @ unknown_value u"

definition error_code_from_str :: "string \<Rightarrow> UnknownErrorCode + ErrorCode" where
  "error_code_from_str value =
     ok_or (UnknownErrorCode value) (find (\<lambda>code. as_str code = value) ERROR_CODES)"

section \<open>Local and peer errors\<close>

record ErrorContext =
  operation :: "OperationId option"
  context_path :: "RelativePath option"

definition error_context_default :: ErrorContext where
  "error_context_default = \<lparr>operation = None, context_path = None\<rparr>"

definition with_operation :: "ErrorContext \<Rightarrow> OperationId \<Rightarrow> ErrorContext" where
  "with_operation c i = c\<lparr>operation := Some i\<rparr>"

definition with_path :: "ErrorContext \<Rightarrow> RelativePath \<Rightarrow> ErrorContext" where
  "with_path c p = c\<lparr>context_path := Some p\<rparr>"

record QuicSyncError =
  code :: ErrorCode
  phase :: "Phase option"
  diagnostic :: string
  error_context :: ErrorContext

definition quic_sync_error_new :: "ErrorCode \<Rightarrow> Phase option \<Rightarrow> string \<Rightarrow> QuicSyncError" where
  "quic_sync_error_new c ph d =
     \<lparr>code = c, phase = ph, diagnostic = d, error_context = error_context_default\<rparr>"

definition with_context :: "QuicSyncError \<Rightarrow> ErrorContext \<Rightarrow> QuicSyncError" where
  "with_context e c = e\<lparr>error_context := c\<rparr>"

record PeerError =
  peer_code :: ErrorCode
  peer_phase :: "Phase option"

definition peer_error :: "QuicSyncError \<Rightarrow> PeerError" where
  "peer_error e = \<lparr>peer_code = code e, peer_phase = phase e\<rparr>"

definition peer_error_message :: "PeerError \<Rightarrow> string" where
  "peer_error_message p = peer_message (peer_code p)"

definition error_display :: "QuicSyncError \<Rightarrow> string" where
  "error_display e = as_str (code e) @ '': '' @ diagnostic e"

definition peer_error_display :: "PeerError \<Rightarrow> string" where
  "peer_error_display p = as_str (peer_code p) @ '': '' @ peer_error_message p"

section \<open>Properties\<close>

lemma ERROR_CODES_complete: "c \<in> set ERROR_CODES"
  by (cases c) (simp_all add: ERROR_CODES_def)

lemma as_str_inj: "as_str c = as_str d \<Longrightarrow> c = d"
  by (cases c; cases d) simp_all

lemma error_code_from_as_str: "error_code_from_str (as_str c) = Inr c"
proof -
  have "\<exists>d. find (\<lambda>code. as_str code = as_str c) ERROR_CODES = Some d"
    using ERROR_CODES_complete [of c] by (auto simp: find_None_iff simp flip: not_None_eq)
  then obtain d where d: "find (\<lambda>code. as_str code = as_str c) ERROR_CODES = Some d" ..
  then have "as_str d = as_str c"
    by (auto simp: find_Some_iff)
  then have "d = c" by (rule as_str_inj)
  with d show ?thesis by (simp add: error_code_from_str_def)
qed

lemma error_code_from_str_Inr:
  "error_code_from_str v = Inr c \<longleftrightarrow> v = as_str c"
proof
  assume "error_code_from_str v = Inr c"
  then show "v = as_str c"
    by (auto simp: error_code_from_str_def result_simps find_Some_iff)
qed (simp add: error_code_from_as_str)

text \<open>
  The text of a machine code and its parser agree: a string parses to a code exactly
  when it is that code's own name (so the sixteen names are distinct and each one parses), and any
  other string is reported back unchanged in the error.\<close>

lemma error_code_text_roundtrip:
  "(error_code_from_str v = Inr c \<longleftrightarrow> v = as_str c) \<and>
   (error_code_from_str v = Inl (UnknownErrorCode w) \<longleftrightarrow> v = w \<and> v \<notin> range as_str)"
proof
  show "error_code_from_str v = Inr c \<longleftrightarrow> v = as_str c"
    by (rule error_code_from_str_Inr)
  have none: "find (\<lambda>code. as_str code = v) ERROR_CODES = None \<longleftrightarrow> v \<notin> range as_str"
    using ERROR_CODES_complete by (auto simp: find_None_iff)
  show "error_code_from_str v = Inl (UnknownErrorCode w) \<longleftrightarrow> v = w \<and> v \<notin> range as_str"
    by (auto simp: error_code_from_str_def result_simps none)
qed

text \<open>
  What a peer is told about a failure depends only on the code and the phase: two local
  errors with the same code and phase give the same peer error and the same text, whatever their
  diagnostics, operations and paths, and a denied authorization reads like a failed
  authentication.\<close>

lemma peer_error_hides_local_detail:
  "peer_error (with_context (quic_sync_error_new c ph d) ctx) =
     peer_error (with_context (quic_sync_error_new c ph d') ctx') \<and>
   peer_error_display (peer_error (with_context (quic_sync_error_new c ph d) ctx)) =
     as_str c @ '': '' @ peer_message c \<and>
   peer_message AuthenticationFailed = peer_message AuthorizationDenied"
  by (simp add: peer_error_def with_context_def quic_sync_error_new_def peer_error_display_def
      peer_error_message_def)

end
