(* ===== verification/Config.thy ===== *)
theory Config
  imports Errors
begin

text \<open>
  The pure parts of \<open>crates/quicsync-core/src/config.rs\<close>: resource limits and their validation, root
  ids, peer pins and exclusion lists. Shown here: exactly which limits validate. That
  the pin printed by \<open>quicsync init\<close> parses back is proved in \<open>Auth\<close>, the loading of the files is in
  \<open>Loading\<close>.
\<close>

definition invalid :: "string \<Rightarrow> QuicSyncError" where
  "invalid d = quic_sync_error_new InvalidConfiguration None d"

section \<open>Limits\<close>

definition MAX_FRAME_BYTES :: usize where "MAX_FRAME_BYTES = 1024 * 1024 * 1024"
definition MAX_PATH_BYTES :: usize where "MAX_PATH_BYTES = 1024 * 1024"
definition MAX_COMPONENTS :: usize where "MAX_COMPONENTS = 4096"
definition MAX_PARALLEL_WORK :: usize where "MAX_PARALLEL_WORK = 1024"
definition MAX_INFLIGHT_BYTES :: usize where "MAX_INFLIGHT_BYTES = 16 * 1024 * 1024 * 1024"

record Limits =
  max_frame_bytes :: usize
  max_path_bytes :: usize
  max_components :: usize
  max_parallel_hashes :: usize
  max_parallel_transfers :: usize
  max_inflight_bytes :: usize

definition DEFAULT_LIMITS :: Limits where
  "DEFAULT_LIMITS =
     \<lparr>max_frame_bytes = 16 * 1024 * 1024, max_path_bytes = 16 * 1024, max_components = 256,
      max_parallel_hashes = 4, max_parallel_transfers = 4, max_inflight_bytes = 64 * 1024 * 1024\<rparr>"

definition validate_limit :: "string \<Rightarrow> usize \<Rightarrow> usize \<Rightarrow> QuicSyncError + unit" where
  "validate_limit name v maximum =
     (if v = 0 \<or> v > maximum
      then Inl (invalid (name @ '' must be between 1 and '' @ decimal (unat maximum)))
      else Inr ())"

definition limits_validate :: "Limits \<Rightarrow> QuicSyncError + Limits" where
  "limits_validate l =
     and_then (validate_limit ''max_frame_bytes'' (max_frame_bytes l) MAX_FRAME_BYTES) (\<lambda>_.
     and_then (validate_limit ''max_path_bytes'' (max_path_bytes l) MAX_PATH_BYTES) (\<lambda>_.
     and_then (validate_limit ''max_components'' (max_components l) MAX_COMPONENTS) (\<lambda>_.
     and_then (validate_limit ''max_parallel_hashes'' (max_parallel_hashes l) MAX_PARALLEL_WORK) (\<lambda>_.
     and_then (validate_limit ''max_parallel_transfers'' (max_parallel_transfers l) MAX_PARALLEL_WORK) (\<lambda>_.
     and_then (validate_limit ''max_inflight_bytes'' (max_inflight_bytes l) MAX_INFLIGHT_BYTES) (\<lambda>_.
     if max_path_bytes l > max_frame_bytes l
     then Inl (invalid ''max_path_bytes cannot exceed max_frame_bytes'')
     else Inr l))))))"

record RawLimits =
  raw_frame_bytes :: "usize option"
  raw_path_bytes :: "usize option"
  raw_components :: "usize option"
  raw_parallel_hashes :: "usize option"
  raw_parallel_transfers :: "usize option"
  raw_inflight_bytes :: "usize option"

definition unwrap_or :: "'a option \<Rightarrow> 'a \<Rightarrow> 'a" where
  "unwrap_or x d = (case x of None \<Rightarrow> d | Some v \<Rightarrow> v)"

definition raw_limits_resolve :: "RawLimits \<Rightarrow> QuicSyncError + Limits" where
  "raw_limits_resolve r =
     limits_validate
       \<lparr>max_frame_bytes = unwrap_or (raw_frame_bytes r) (max_frame_bytes DEFAULT_LIMITS),
        max_path_bytes = unwrap_or (raw_path_bytes r) (max_path_bytes DEFAULT_LIMITS),
        max_components = unwrap_or (raw_components r) (max_components DEFAULT_LIMITS),
        max_parallel_hashes =
          unwrap_or (raw_parallel_hashes r) (max_parallel_hashes DEFAULT_LIMITS),
        max_parallel_transfers =
          unwrap_or (raw_parallel_transfers r) (max_parallel_transfers DEFAULT_LIMITS),
        max_inflight_bytes =
          unwrap_or (raw_inflight_bytes r) (max_inflight_bytes DEFAULT_LIMITS)\<rparr>"

section \<open>Root ids, pins and exclusions\<close>

datatype RootId = RootId (root_id_str: bytes)

definition is_ascii_alphanumeric :: "u8 \<Rightarrow> bool" where
  "is_ascii_alphanumeric b \<longleftrightarrow>
     (48 \<le> b \<and> b \<le> 57) \<or> (65 \<le> b \<and> b \<le> 90) \<or> (97 \<le> b \<and> b \<le> 122)"

definition root_id_byte :: "u8 \<Rightarrow> bool" where
  "root_id_byte b \<longleftrightarrow> is_ascii_alphanumeric b \<or> b = 45 \<or> b = 95 \<or> b = 46"

definition root_id_parse :: "bytes \<Rightarrow> QuicSyncError + RootId" where
  "root_id_parse v =
     (if v = [] \<or> length v > 128 \<or> \<not> list_all root_id_byte v
      then Inl (invalid (''root ID must be 1-128 ASCII letters, digits, '' @ quoted ''.'' @ '', '' @
             quoted ''-'' @ '' or '' @ quoted ''_''))
      else Inr (RootId v))"

datatype PeerPin = PeerPin (pin_bytes: bytes)

definition hex_digit :: "u8 \<Rightarrow> QuicSyncError + u8" where
  "hex_digit v =
     (if 48 \<le> v \<and> v \<le> 57 then Inr (v - 48)
      else if 97 \<le> v \<and> v \<le> 102 then Inr (v - 97 + 10)
      else if 65 \<le> v \<and> v \<le> 70 then Inr (v - 65 + 10)
      else Inl (invalid ''peer pin contains a non-hexadecimal character''))"

fun parse_hex_pairs :: "bytes \<Rightarrow> QuicSyncError + bytes" where
  "parse_hex_pairs (a # b # rest) =
     and_then (hex_digit a) (\<lambda>hi.
     and_then (hex_digit b) (\<lambda>lo.
     map_ok (\<lambda>bs. (push_bit 4 hi OR lo) # bs) (parse_hex_pairs rest)))"
| "parse_hex_pairs _ = Inr []"

definition peer_pin_parse :: "bytes \<Rightarrow> QuicSyncError + PeerPin" where
  "peer_pin_parse v =
     (if length v \<noteq> 64
      then Inl (invalid ''peer pin must contain 64 hexadecimal characters'')
      else map_ok PeerPin (parse_hex_pairs v))"

definition validate_exclusion :: "bytes list \<Rightarrow> bytes \<Rightarrow> QuicSyncError + bytes list" where
  "validate_exclusion unique v =
     (if v = [] \<or> 0 \<in> set v
      then Inl (invalid ''global exclusions must be non-empty and contain no NUL'')
      else if v \<in> set unique
      then Inl (invalid ''global exclusions must not contain duplicates'')
      else Inr (v # unique))"

definition validate_exclusions :: "bytes list \<Rightarrow> QuicSyncError + bytes list" where
  "validate_exclusions vs = map_ok (\<lambda>_. vs) (try_fold validate_exclusion [] vs)"

section \<open>Properties\<close>

lemma validate_limit_Inr [simp]:
  "validate_limit name v m = Inr u \<longleftrightarrow> 0 < unat v \<and> unat v \<le> unat m"
  by (auto simp: validate_limit_def unat_gt_0 word_less_nat_alt not_less)

definition limits_ok :: "Limits \<Rightarrow> bool" where
  "limits_ok l \<longleftrightarrow>
     0 < unat (max_frame_bytes l) \<and> unat (max_frame_bytes l) \<le> 2 ^ 30 \<and>
     0 < unat (max_path_bytes l) \<and> unat (max_path_bytes l) \<le> 2 ^ 20 \<and>
     0 < unat (max_components l) \<and> unat (max_components l) \<le> 4096 \<and>
     0 < unat (max_parallel_hashes l) \<and> unat (max_parallel_hashes l) \<le> 1024 \<and>
     0 < unat (max_parallel_transfers l) \<and> unat (max_parallel_transfers l) \<le> 1024 \<and>
     0 < unat (max_inflight_bytes l) \<and> unat (max_inflight_bytes l) \<le> 2 ^ 34 \<and>
     unat (max_path_bytes l) \<le> unat (max_frame_bytes l)"

lemma limits_validate_Inr: "limits_validate l = Inr l' \<longleftrightarrow> l' = l \<and> limits_ok l"
  by (auto simp: limits_validate_def limits_ok_def result_simps MAX_FRAME_BYTES_def
      MAX_PATH_BYTES_def MAX_COMPONENTS_def MAX_PARALLEL_WORK_def MAX_INFLIGHT_BYTES_def
      word_less_nat_alt not_less)

end
