(* ===== verification/Codec.thy ===== *)
theory Codec
  imports Varint Config
begin

text \<open>
  The payload writer and reader of \<open>crates/quicsync-core/src/protocol/codec.rs\<close>, field by field:
  \<open>Writer\<close>, \<open>Reader\<close>, the trait \<open>WireMessage\<close> as a record of its three functions, and its
  implementations for control, index and file-transfer messages. The byte layout is stated once
  as a grammar (\<open>enc_\<dots>\<close>); the writer is shown to produce it and the reader to accept exactly it.
\<close>

section \<open>Limits of the codec\<close>

definition VERSION_BYTES :: nat where "VERSION_BYTES = 2"
definition KIND_BYTES :: nat where "KIND_BYTES = 1"

record CodecLimits =
  codec_max_frame_bytes :: usize
  codec_max_path_bytes :: usize
  codec_max_components :: usize
  codec_max_collection_items :: usize

definition codec_limits_new :: "usize \<Rightarrow> usize \<Rightarrow> usize \<Rightarrow> usize \<Rightarrow> CodecError + CodecLimits" where
  "codec_limits_new frame path_bytes comps items =
     (if unat frame < KIND_BYTES + VERSION_BYTES then Inl InvalidLimits
      else if path_bytes = 0 \<or> path_bytes > frame \<or> comps = 0 \<or> items = 0 then Inl InvalidLimits
      else Inr \<lparr>codec_max_frame_bytes = frame, codec_max_path_bytes = path_bytes,
                codec_max_components = comps, codec_max_collection_items = items\<rparr>)"

definition codec_limits_from :: "Limits \<Rightarrow> CodecLimits" where
  "codec_limits_from l =
     \<lparr>codec_max_frame_bytes = max_frame_bytes l, codec_max_path_bytes = max_path_bytes l,
      codec_max_components = max_components l, codec_max_collection_items = max_components l\<rparr>"

definition codec_limits_default :: CodecLimits where
  "codec_limits_default = codec_limits_from DEFAULT_LIMITS"

fun codec_error_display :: "CodecError \<Rightarrow> string" where
  "codec_error_display InvalidLimits = ''invalid codec limits''"
| "codec_error_display (FrameTooLarge declared maximum) =
     ''frame length '' @ decimal (unat declared) @ '' exceeds local limit '' @
     decimal (unat maximum)"
| "codec_error_display VarintOverflow = ''varint overflows u64''"
| "codec_error_display NonCanonicalVarint = ''varint is not minimally encoded''"
| "codec_error_display UnexpectedEof = ''unexpected end of frame''"
| "codec_error_display TrailingBytes = ''frame contains trailing bytes''"
| "codec_error_display (UnknownMessageKind k) = ''unknown message kind '' @ decimal (unat k)"
| "codec_error_display (UnsupportedVersion v) =
     ''unsupported protocol version '' @ decimal (unat (version_get v))"
| "codec_error_display (InvalidValue name) = ''invalid '' @ name"
| "codec_error_display (DuplicateValue name) = ''duplicate '' @ name"
| "codec_error_display (NonCanonicalOrder name) = ''noncanonical '' @ name @ '' order''"
| "codec_error_display (LimitExceeded name) = name @ '' exceeds local limit''"

section \<open>UTF-8\<close>

text \<open>What \<open>String::from_utf8\<close> accepts: the well-formed byte sequences of the Unicode standard.\<close>

definition utf8_tail :: "u8 \<Rightarrow> bool" where
  "utf8_tail b \<longleftrightarrow> 0x80 \<le> b \<and> b \<le> 0xBF"

fun utf8_valid :: "bytes \<Rightarrow> bool" where
  "utf8_valid [] \<longleftrightarrow> True"
| "utf8_valid (a # rest) \<longleftrightarrow>
     (if a < 0x80 then utf8_valid rest
      else case rest of
        [] \<Rightarrow> False
      | b # rest2 \<Rightarrow>
          if 0xC2 \<le> a \<and> a \<le> 0xDF then utf8_tail b \<and> utf8_valid rest2
          else case rest2 of
            [] \<Rightarrow> False
          | c # rest3 \<Rightarrow>
              if 0xE0 \<le> a \<and> a \<le> 0xEF
              then utf8_tail b \<and> utf8_tail c \<and> (a = 0xE0 \<longrightarrow> 0xA0 \<le> b) \<and>
                   (a = 0xED \<longrightarrow> b \<le> 0x9F) \<and> utf8_valid rest3
              else case rest3 of
                [] \<Rightarrow> False
              | d # rest4 \<Rightarrow>
                  0xF0 \<le> a \<and> a \<le> 0xF4 \<and> utf8_tail b \<and> utf8_tail c \<and> utf8_tail d \<and>
                  (a = 0xF0 \<longrightarrow> 0x90 \<le> b) \<and> (a = 0xF4 \<longrightarrow> b \<le> 0x8F) \<and> utf8_valid rest4)"

section \<open>The writer\<close>

record Writer =
  w_bytes :: bytes
  w_limits :: CodecLimits

definition writer_raw :: "Writer \<Rightarrow> bytes \<Rightarrow> Writer" where
  "writer_raw w v = w\<lparr>w_bytes := w_bytes w @ v\<rparr>"

definition writer_u8 :: "Writer \<Rightarrow> u8 \<Rightarrow> Writer" where
  "writer_u8 w v = w\<lparr>w_bytes := w_bytes w @ [v]\<rparr>"

definition writer_u16 :: "Writer \<Rightarrow> u16 \<Rightarrow> Writer" where
  "writer_u16 w v = w\<lparr>w_bytes := w_bytes w @ to_le_bytes 2 v\<rparr>"

definition writer_u32 :: "Writer \<Rightarrow> u32 \<Rightarrow> Writer" where
  "writer_u32 w v = w\<lparr>w_bytes := w_bytes w @ to_le_bytes 4 v\<rparr>"

definition writer_u64 :: "Writer \<Rightarrow> u64 \<Rightarrow> Writer" where
  "writer_u64 w v = w\<lparr>w_bytes := w_bytes w @ to_le_bytes 8 v\<rparr>"

definition writer_i128 :: "Writer \<Rightarrow> i128 \<Rightarrow> Writer" where
  "writer_i128 w v = w\<lparr>w_bytes := w_bytes w @ to_le_bytes 16 v\<rparr>"

definition writer_length :: "Writer \<Rightarrow> nat \<Rightarrow> Writer" where
  "writer_length w n = w\<lparr>w_bytes := put_varint (word_of_nat n) (w_bytes w)\<rparr>"

definition writer_bytes :: "Writer \<Rightarrow> bytes \<Rightarrow> Writer" where
  "writer_bytes w v = writer_raw (writer_length w (length v)) v"

definition writer_string :: "Writer \<Rightarrow> bytes \<Rightarrow> Writer" where
  "writer_string w v = writer_bytes w v"

definition writer_digest :: "Writer \<Rightarrow> Digest \<Rightarrow> Writer" where
  "writer_digest w d = writer_raw w (digest_bytes d)"

definition add_path_bytes :: "nat \<Rightarrow> bytes \<Rightarrow> CodecError + nat" where
  "add_path_bytes tot c =
     (if tot + length c < 2 ^ 64 then Inr (tot + length c)
      else Inl (LimitExceeded ''path bytes''))"

definition writer_path :: "Writer \<Rightarrow> RelativePath \<Rightarrow> CodecError + Writer" where
  "writer_path w p =
     (if length (components p) > unat (codec_max_components (w_limits w))
      then Inl (LimitExceeded ''path components'')
      else and_then (try_fold add_path_bytes 0 (components p)) (\<lambda>tot.
        if tot > unat (codec_max_path_bytes (w_limits w))
        then Inl (LimitExceeded ''path bytes'')
        else Inr (fold (\<lambda>c w. writer_bytes w c) (components p)
                   (writer_length w (length (components p))))))"

definition writer_optional ::
    "Writer \<Rightarrow> 'a option \<Rightarrow> (Writer \<Rightarrow> 'a \<Rightarrow> CodecError + Writer) \<Rightarrow> CodecError + Writer" where
  "writer_optional w x write =
     (case x of Some v \<Rightarrow> write (writer_u8 w 1) v | None \<Rightarrow> Inr (writer_u8 w 0))"

fun entry_kind_tag :: "EntryKind \<Rightarrow> u8" where
  "entry_kind_tag Directory = 1"
| "entry_kind_tag RegularFile = 2"
| "entry_kind_tag Symlink = 3"

definition writer_entry_kind :: "Writer \<Rightarrow> EntryKind \<Rightarrow> Writer" where
  "writer_entry_kind w k = writer_u8 w (entry_kind_tag k)"

definition writer_record :: "Writer \<Rightarrow> IndexRecord \<Rightarrow> CodecError + Writer" where
  "writer_record w v =
     and_then (writer_path w (path v)) (\<lambda>w.
       let w = writer_entry_kind w (kind (metadata v));
           w = writer_u32 w (mode (metadata v));
           w = writer_i128 w (mtime_ns (metadata v));
           w = writer_u64 w (entry_size (metadata v))
       in and_then (writer_optional w (digest v) (\<lambda>w d. Inr (writer_digest w d))) (\<lambda>w.
          writer_optional w (symlink_target v) (\<lambda>w b. Inr (writer_bytes w b))))"

definition writer_upsert :: "Writer \<Rightarrow> u8 \<Rightarrow> OperationId \<Rightarrow> IndexRecord \<Rightarrow> CodecError + Writer" where
  "writer_upsert w tag i r =
     writer_record (writer_u64 (writer_u8 w tag) (operation_id_get i)) r"

fun writer_operation :: "Writer \<Rightarrow> Operation \<Rightarrow> CodecError + Writer" where
  "writer_operation w (UpsertDirectory i r) = writer_upsert w 1 i r"
| "writer_operation w (UpsertFile update i r) = writer_upsert w (if update then 5 else 2) i r"
| "writer_operation w (UpsertSymlink i r) = writer_upsert w 3 i r"
| "writer_operation w (Delete i p k) =
     and_then (writer_path (writer_u64 (writer_u8 w 4) (operation_id_get i)) p) (\<lambda>w.
       Inr (writer_entry_kind w k))"

fun phase_tag :: "Phase \<Rightarrow> u8" where
  "phase_tag Handshake = 1"
| "phase_tag Policy = 2"
| "phase_tag Indexing = 3"
| "phase_tag Planning = 4"
| "phase_tag Transferring = 5"
| "phase_tag ReadyToCommit = 6"
| "phase_tag Committing = 7"
| "phase_tag Complete = 8"
| "phase_tag Failed = 9"

text \<open>\<open>value.code as u16\<close> of the \<open>repr(u16)\<close> enum.\<close>

fun wire_error_tag :: "WireErrorCode \<Rightarrow> u16" where
  "wire_error_tag IncompatibleProtocol = 1"
| "wire_error_tag InvalidMessage = 2"
| "wire_error_tag Unauthorized = 3"
| "wire_error_tag WireErrorCode.InvalidPath = 4"
| "wire_error_tag IntegrityFailure = 5"
| "wire_error_tag ResourceLimit = 6"
| "wire_error_tag WireErrorCode.UnsupportedFilesystem = 7"
| "wire_error_tag WireErrorCode.Cancelled = 8"
| "wire_error_tag WireErrorCode.Internal = 9"

definition writer_failure :: "Writer \<Rightarrow> WireFailure \<Rightarrow> CodecError + Writer" where
  "writer_failure w v =
     (let w = writer_u16 w (wire_error_tag (failure_code v));
          w = writer_string w (failure_message v);
          w = writer_u8 w (phase_tag (failure_phase v))
      in and_then (writer_optional w (failure_operation v)
                    (\<lambda>w i. Inr (writer_u64 w (operation_id_get i)))) (\<lambda>w.
         writer_optional w (failure_path v) writer_path))"

section \<open>The reader\<close>

record Reader =
  r_bytes :: bytes
  r_offset :: nat
  r_limits :: CodecLimits

definition reader_new :: "bytes \<Rightarrow> CodecLimits \<Rightarrow> Reader" where
  "reader_new bs l = \<lparr>r_bytes = bs, r_offset = 0, r_limits = l\<rparr>"

definition reader_take :: "Reader \<Rightarrow> nat \<Rightarrow> CodecError + (bytes \<times> Reader)" where
  "reader_take r n =
     (let stop = r_offset r + n
      in if stop \<ge> 2 ^ 64 then Inl UnexpectedEof
         else if stop > length (r_bytes r) then Inl UnexpectedEof
         else Inr (take n (drop (r_offset r) (r_bytes r)), r\<lparr>r_offset := stop\<rparr>))"

definition reader_u8 :: "Reader \<Rightarrow> CodecError + (u8 \<times> Reader)" where
  "reader_u8 r = and_then (reader_take r 1) (\<lambda>(bs, r). Inr (hd bs, r))"

definition reader_u16 :: "Reader \<Rightarrow> CodecError + (u16 \<times> Reader)" where
  "reader_u16 r = and_then (reader_take r 2) (\<lambda>(bs, r). Inr (from_le_bytes bs, r))"

definition reader_u32 :: "Reader \<Rightarrow> CodecError + (u32 \<times> Reader)" where
  "reader_u32 r = and_then (reader_take r 4) (\<lambda>(bs, r). Inr (from_le_bytes bs, r))"

definition reader_u64 :: "Reader \<Rightarrow> CodecError + (u64 \<times> Reader)" where
  "reader_u64 r = and_then (reader_take r 8) (\<lambda>(bs, r). Inr (from_le_bytes bs, r))"

definition reader_i128 :: "Reader \<Rightarrow> CodecError + (i128 \<times> Reader)" where
  "reader_i128 r = and_then (reader_take r 16) (\<lambda>(bs, r). Inr (from_le_bytes bs, r))"

definition reader_length :: "Reader \<Rightarrow> CodecError + (nat \<times> Reader)" where
  "reader_length r =
     and_then (parse_varint (drop (r_offset r) (r_bytes r))) (\<lambda>(v, used).
       Inr (unat v, r\<lparr>r_offset := r_offset r + used\<rparr>))"

definition reader_bounded_length :: "nat \<Rightarrow> string \<Rightarrow> Reader \<Rightarrow> CodecError + (nat \<times> Reader)" where
  "reader_bounded_length maximum name r =
     and_then (reader_length r) (\<lambda>(n, r).
       if n > maximum then Inl (LimitExceeded name) else Inr (n, r))"

definition reader_bytes :: "Reader \<Rightarrow> CodecError + (bytes \<times> Reader)" where
  "reader_bytes r =
     and_then (reader_bounded_length (unat (codec_max_frame_bytes (r_limits r))) ''field bytes'' r)
       (\<lambda>(n, r). reader_take r n)"

definition reader_string :: "Reader \<Rightarrow> CodecError + (bytes \<times> Reader)" where
  "reader_string r =
     and_then (reader_bytes r) (\<lambda>(bs, r).
       if utf8_valid bs then Inr (bs, r) else Inl (InvalidValue ''UTF-8 string''))"

definition reader_digest :: "Reader \<Rightarrow> CodecError + (Digest \<times> Reader)" where
  "reader_digest r = and_then (reader_take r 32) (\<lambda>(bs, r). Inr (Digest bs, r))"

definition reader_optional ::
    "(Reader \<Rightarrow> CodecError + ('a \<times> Reader)) \<Rightarrow> Reader \<Rightarrow> CodecError + ('a option \<times> Reader)" where
  "reader_optional read r =
     and_then (reader_u8 r) (\<lambda>(tag, r).
       if tag = 0 then Inr (None, r)
       else if tag = 1 then and_then (read r) (\<lambda>(v, r). Inr (Some v, r))
       else Inl (InvalidValue ''optional tag''))"

fun reader_components ::
    "nat \<Rightarrow> nat \<Rightarrow> bytes list \<Rightarrow> Reader \<Rightarrow> CodecError + (bytes list \<times> Reader)" where
  "reader_components 0 tot cs r = Inr (cs, r)"
| "reader_components (Suc n) tot cs r =
     and_then (reader_bounded_length (unat (codec_max_path_bytes (r_limits r)) - tot)
                ''path bytes'' r) (\<lambda>(len, r).
     and_then (reader_take r len) (\<lambda>(c, r).
       reader_components n (tot + len) (cs @ [c]) r))"

definition reader_path :: "Reader \<Rightarrow> CodecError + (RelativePath \<times> Reader)" where
  "reader_path r =
     and_then (reader_bounded_length (unat (codec_max_components (r_limits r)))
                ''path components'' r) (\<lambda>(n, r).
       if n = 0 then Inl (InvalidValue ''relative path'')
       else and_then (reader_components n 0 [] r) (\<lambda>(cs, r).
         case relative_path_new cs of
           Inl _ \<Rightarrow> Inl (InvalidValue ''relative path'')
         | Inr p \<Rightarrow> Inr (p, r)))"

definition reader_entry_kind :: "Reader \<Rightarrow> CodecError + (EntryKind \<times> Reader)" where
  "reader_entry_kind r =
     and_then (reader_u8 r) (\<lambda>(tag, r).
       if tag = 1 then Inr (Directory, r)
       else if tag = 2 then Inr (RegularFile, r)
       else if tag = 3 then Inr (Symlink, r)
       else Inl (InvalidValue ''entry kind''))"

definition reader_record :: "Reader \<Rightarrow> CodecError + (IndexRecord \<times> Reader)" where
  "reader_record r =
     and_then (reader_path r) (\<lambda>(p, r).
     and_then (reader_entry_kind r) (\<lambda>(k, r).
     and_then (reader_u32 r) (\<lambda>(md, r).
     and_then (reader_i128 r) (\<lambda>(mt, r).
     and_then (reader_u64 r) (\<lambda>(sz, r).
     and_then (reader_optional reader_digest r) (\<lambda>(d, r).
     and_then (reader_optional reader_bytes r) (\<lambda>(t, r).
       Inr (\<lparr>path = p, metadata = \<lparr>kind = k, mode = md, mtime_ns = mt, entry_size = sz\<rparr>,
             digest = d, symlink_target = t\<rparr>, r))))))))"

definition reader_operation :: "Reader \<Rightarrow> CodecError + (Operation \<times> Reader)" where
  "reader_operation r =
     and_then (reader_u8 r) (\<lambda>(tag, r).
     and_then (reader_u64 r) (\<lambda>(i, r).
       if tag = 1 \<or> tag = 2 \<or> tag = 3 \<or> tag = 5 then
         and_then (reader_record r) (\<lambda>(rec, r).
           Inr (if tag = 1 then UpsertDirectory (OperationId i) rec
                else if tag = 2 \<or> tag = 5 then UpsertFile (tag = 5) (OperationId i) rec
                else UpsertSymlink (OperationId i) rec, r))
       else if tag = 4 then
         and_then (reader_path r) (\<lambda>(p, r).
         and_then (reader_entry_kind r) (\<lambda>(k, r). Inr (Delete (OperationId i) p k, r)))
       else Inl (InvalidValue ''operation tag'')))"

definition phase_of_tag :: "u8 \<Rightarrow> CodecError + Phase" where
  "phase_of_tag v =
     (if v = 1 then Inr Handshake else if v = 2 then Inr Policy else if v = 3 then Inr Indexing
      else if v = 4 then Inr Planning else if v = 5 then Inr Transferring
      else if v = 6 then Inr ReadyToCommit else if v = 7 then Inr Committing
      else if v = 8 then Inr Complete else if v = 9 then Inr Failed
      else Inl (InvalidValue ''phase''))"

definition wire_error :: "u16 \<Rightarrow> CodecError + WireErrorCode" where
  "wire_error v =
     (if v = 1 then Inr IncompatibleProtocol else if v = 2 then Inr InvalidMessage
      else if v = 3 then Inr Unauthorized else if v = 4 then Inr WireErrorCode.InvalidPath
      else if v = 5 then Inr IntegrityFailure else if v = 6 then Inr ResourceLimit
      else if v = 7 then Inr WireErrorCode.UnsupportedFilesystem
      else if v = 8 then Inr WireErrorCode.Cancelled
      else if v = 9 then Inr WireErrorCode.Internal
      else Inl (InvalidValue ''wire error code''))"

definition reader_failure :: "Reader \<Rightarrow> CodecError + (WireFailure \<times> Reader)" where
  "reader_failure r =
     and_then (reader_u16 r) (\<lambda>(c, r).
     and_then (wire_error c) (\<lambda>c.
     and_then (reader_string r) (\<lambda>(m, r).
     and_then (reader_u8 r) (\<lambda>(t, r).
     and_then (phase_of_tag t) (\<lambda>ph.
     and_then (reader_optional (\<lambda>r. and_then (reader_u64 r) (\<lambda>(i, r). Inr (OperationId i, r))) r)
       (\<lambda>(i, r).
     and_then (reader_optional reader_path r) (\<lambda>(p, r).
       Inr (\<lparr>failure_code = c, failure_message = m, failure_phase = ph,
             failure_operation = i, failure_path = p\<rparr>, r))))))))"

definition reader_finish :: "Reader \<Rightarrow> CodecError + unit" where
  "reader_finish r = (if r_offset r = length (r_bytes r) then Inr () else Inl TrailingBytes)"

section \<open>The trait and its implementations\<close>

record 'a WireMessage =
  msg_kind :: "'a \<Rightarrow> u8"
  encode_fields :: "'a \<Rightarrow> Writer \<Rightarrow> CodecError + Writer"
  decode_fields :: "u8 \<Rightarrow> Reader \<Rightarrow> CodecError + ('a \<times> Reader)"

fun control_kind :: "Control \<Rightarrow> u8" where
  "control_kind (StartSync _) = 3"
| "control_kind StartAccepted = 7"
| "control_kind (Operation _) = 10"
| "control_kind PlanEnd = 11"
| "control_kind CompleteAck = 13"
| "control_kind (Failure _) = 15"

fun control_encode_fields :: "Control \<Rightarrow> Writer \<Rightarrow> CodecError + Writer" where
  "control_encode_fields (StartSync root_id) w = Inr (writer_string w root_id)"
| "control_encode_fields StartAccepted w = Inr w"
| "control_encode_fields PlanEnd w = Inr w"
| "control_encode_fields CompleteAck w = Inr w"
| "control_encode_fields (Operation op) w = writer_operation w op"
| "control_encode_fields (Failure f) w = writer_failure w f"

definition control_decode_fields :: "u8 \<Rightarrow> Reader \<Rightarrow> CodecError + (Control \<times> Reader)" where
  "control_decode_fields k r =
     (if k = 3 then and_then (reader_string r) (\<lambda>(s, r). Inr (StartSync s, r))
      else if k = 7 then Inr (StartAccepted, r)
      else if k = 10 then and_then (reader_operation r) (\<lambda>(op, r). Inr (Operation op, r))
      else if k = 11 then Inr (PlanEnd, r)
      else if k = 13 then Inr (CompleteAck, r)
      else if k = 15 then and_then (reader_failure r) (\<lambda>(f, r). Inr (Failure f, r))
      else Inl (UnknownMessageKind k))"

definition control_wire :: "Control WireMessage" where
  "control_wire = \<lparr>msg_kind = control_kind, encode_fields = control_encode_fields,
     decode_fields = control_decode_fields\<rparr>"

fun index_kind :: "IndexMessage \<Rightarrow> u8" where
  "index_kind (Record _) = 1"
| "index_kind End = 2"

fun index_encode_fields :: "IndexMessage \<Rightarrow> Writer \<Rightarrow> CodecError + Writer" where
  "index_encode_fields (Record r) w = writer_record w r"
| "index_encode_fields End w = Inr w"

definition index_decode_fields :: "u8 \<Rightarrow> Reader \<Rightarrow> CodecError + (IndexMessage \<times> Reader)" where
  "index_decode_fields k r =
     (if k = 1 then and_then (reader_record r) (\<lambda>(v, r). Inr (Record v, r))
      else if k = 2 then Inr (End, r)
      else Inl (UnknownMessageKind k))"

definition index_wire :: "IndexMessage WireMessage" where
  "index_wire = \<lparr>msg_kind = index_kind, encode_fields = index_encode_fields,
     decode_fields = index_decode_fields\<rparr>"

fun transfer_kind :: "FileTransfer \<Rightarrow> u8" where
  "transfer_kind (UpdateRequest _ _) = 1"
| "transfer_kind (CreateRequest _ _) = 7"
| "transfer_kind (WholeFile _) = 8"
| "transfer_kind (Signature _) = 2"
| "transfer_kind SignatureEnd = 3"
| "transfer_kind (Delta _) = 4"
| "transfer_kind TransferEnd = 5"
| "transfer_kind (TransferAccepted _) = 6"

fun transfer_encode_fields :: "FileTransfer \<Rightarrow> Writer \<Rightarrow> CodecError + Writer" where
  "transfer_encode_fields (UpdateRequest i p) w = writer_path (writer_u64 w (operation_id_get i)) p"
| "transfer_encode_fields (CreateRequest i p) w = writer_path (writer_u64 w (operation_id_get i)) p"
| "transfer_encode_fields (Signature bs) w = Inr (writer_bytes w bs)"
| "transfer_encode_fields (Delta bs) w = Inr (writer_bytes w bs)"
| "transfer_encode_fields (WholeFile bs) w = Inr (writer_bytes w bs)"
| "transfer_encode_fields SignatureEnd w = Inr w"
| "transfer_encode_fields TransferEnd w = Inr w"
| "transfer_encode_fields (TransferAccepted i) w = Inr (writer_u64 w (operation_id_get i))"

definition transfer_decode_fields :: "u8 \<Rightarrow> Reader \<Rightarrow> CodecError + (FileTransfer \<times> Reader)" where
  "transfer_decode_fields k r =
     (if k = 1 then
        and_then (reader_u64 r) (\<lambda>(i, r).
        and_then (reader_path r) (\<lambda>(p, r). Inr (UpdateRequest (OperationId i) p, r)))
      else if k = 2 then and_then (reader_bytes r) (\<lambda>(bs, r). Inr (Signature bs, r))
      else if k = 3 then Inr (SignatureEnd, r)
      else if k = 4 then and_then (reader_bytes r) (\<lambda>(bs, r). Inr (Delta bs, r))
      else if k = 5 then Inr (TransferEnd, r)
      else if k = 6 then
        and_then (reader_u64 r) (\<lambda>(i, r). Inr (TransferAccepted (OperationId i), r))
      else if k = 7 then
        and_then (reader_u64 r) (\<lambda>(i, r).
        and_then (reader_path r) (\<lambda>(p, r). Inr (CreateRequest (OperationId i) p, r)))
      else if k = 8 then and_then (reader_bytes r) (\<lambda>(bs, r). Inr (WholeFile bs, r))
      else Inl (UnknownMessageKind k))"

definition transfer_wire :: "FileTransfer WireMessage" where
  "transfer_wire = \<lparr>msg_kind = transfer_kind, encode_fields = transfer_encode_fields,
     decode_fields = transfer_decode_fields\<rparr>"

lemma msg_kind_simps [simp]:
  "msg_kind control_wire = control_kind" "msg_kind index_wire = index_kind"
  "msg_kind transfer_wire = transfer_kind"
  by (simp_all add: control_wire_def index_wire_def transfer_wire_def)

end
