(* ===== verification/Grammar.thy ===== *)
theory Grammar
  imports Codec
begin

text \<open>
  The byte layout of the wire messages as a grammar, one \<open>enc_\<dots>\<close> function per field, and the
  contract between a field's writer and its reader: the writer appends exactly the field's bytes
  (or reports the limit that a path exceeds), the reader takes exactly those bytes and nothing
  else. The contract for whole messages is the locale \<open>wire_message\<close>, interpreted for the three
  implementations of the trait.
\<close>

named_theorems writes \<open>what each writer operation appends\<close>
named_theorems reads \<open>each reader operation on its own field\<close>
named_theorems parses \<open>what a successful reader operation has consumed\<close>

section \<open>The layout\<close>

definition enc_length :: "nat \<Rightarrow> bytes" where
  "enc_length n = varint (word_of_nat n)"

definition enc_bytes :: "bytes \<Rightarrow> bytes" where
  "enc_bytes b = enc_length (length b) @ b"

definition enc_path :: "RelativePath \<Rightarrow> bytes" where
  "enc_path p = enc_length (length (components p)) @ concat (map enc_bytes (components p))"

definition enc_optional :: "('a \<Rightarrow> bytes) \<Rightarrow> 'a option \<Rightarrow> bytes" where
  "enc_optional f x = (case x of None \<Rightarrow> [0] | Some v \<Rightarrow> 1 # f v)"

definition enc_record :: "IndexRecord \<Rightarrow> bytes" where
  "enc_record v =
     enc_path (path v) @ [entry_kind_tag (kind (metadata v))] @
     to_le_bytes 4 (mode (metadata v)) @ to_le_bytes 16 (mtime_ns (metadata v)) @
     to_le_bytes 8 (entry_size (metadata v)) @
     enc_optional digest_bytes (digest v) @ enc_optional enc_bytes (symlink_target v)"

abbreviation enc_id :: "OperationId \<Rightarrow> bytes" where
  "enc_id i \<equiv> to_le_bytes 8 (operation_id_get i)"

fun enc_operation :: "Operation \<Rightarrow> bytes" where
  "enc_operation (UpsertDirectory i r) = 1 # enc_id i @ enc_record r"
| "enc_operation (UpsertFile u i r) = (if u then 5 else 2) # enc_id i @ enc_record r"
| "enc_operation (UpsertSymlink i r) = 3 # enc_id i @ enc_record r"
| "enc_operation (Delete i p k) = 4 # enc_id i @ enc_path p @ [entry_kind_tag k]"

definition enc_failure :: "WireFailure \<Rightarrow> bytes" where
  "enc_failure v =
     to_le_bytes 2 (wire_error_tag (failure_code v)) @ enc_bytes (failure_message v) @
     [phase_tag (failure_phase v)] @ enc_optional enc_id (failure_operation v) @
     enc_optional enc_path (failure_path v)"

fun enc_control :: "Control \<Rightarrow> bytes" where
  "enc_control (StartSync s) = enc_bytes s"
| "enc_control (Operation op) = enc_operation op"
| "enc_control (Failure f) = enc_failure f"
| "enc_control _ = []"

fun enc_index :: "IndexMessage \<Rightarrow> bytes" where
  "enc_index (Record r) = enc_record r"
| "enc_index End = []"

fun enc_transfer :: "FileTransfer \<Rightarrow> bytes" where
  "enc_transfer (UpdateRequest i p) = enc_id i @ enc_path p"
| "enc_transfer (CreateRequest i p) = enc_id i @ enc_path p"
| "enc_transfer (WholeFile b) = enc_bytes b"
| "enc_transfer (Signature b) = enc_bytes b"
| "enc_transfer (Delta b) = enc_bytes b"
| "enc_transfer (TransferAccepted i) = enc_id i"
| "enc_transfer _ = []"

lemma enc_length_small: "n < 128 \<Longrightarrow> enc_length n = [word_of_nat n]"
proof -
  assume n: "n < 128"
  then have "unat (word_of_nat n :: u64) = n" by (simp add: unsigned_of_nat take_bit_nat_eq_self)
  with n have "bits_below 7 (word_of_nat n :: u64)" by (simp add: bits_below_unat)
  then have "enc_length n = [ucast (word_of_nat n :: u64)]"
    by (simp add: enc_length_def varint_small)
  moreover have "(ucast (word_of_nat n :: u64) :: u8) = word_of_nat n"
    using n by (intro word_unat_eq_iff [THEN iffD2])
      (simp add: unsigned_of_nat unsigned_ucast_eq take_bit_nat_eq_self)
  ultimately show ?thesis by simp
qed

text \<open>The only limit a field has beyond the frame is that of its path.\<close>

definition path_limit :: "CodecLimits \<Rightarrow> RelativePath \<Rightarrow> CodecError option" where
  "path_limit l p =
     (if length (components p) > unat (codec_max_components l)
      then Some (LimitExceeded ''path components'')
      else if sum_list (map length (components p)) > unat (codec_max_path_bytes l)
      then Some (LimitExceeded ''path bytes'')
      else None)"

fun control_limit :: "CodecLimits \<Rightarrow> Control \<Rightarrow> CodecError option" where
  "control_limit l (Operation op) = path_limit l (operation_path op)"
| "control_limit l (Failure f) = Option.bind (failure_path f) (path_limit l)"
| "control_limit l _ = None"

fun index_limit :: "CodecLimits \<Rightarrow> IndexMessage \<Rightarrow> CodecError option" where
  "index_limit l (Record r) = path_limit l (path r)"
| "index_limit l End = None"

fun transfer_limit :: "CodecLimits \<Rightarrow> FileTransfer \<Rightarrow> CodecError option" where
  "transfer_limit l (UpdateRequest i p) = path_limit l p"
| "transfer_limit l (CreateRequest i p) = path_limit l p"
| "transfer_limit l _ = None"

definition limited :: "CodecError option \<Rightarrow> 'a \<Rightarrow> CodecError + 'a" where
  "limited x v = (case x of None \<Rightarrow> Inr v | Some e \<Rightarrow> Inl e)"

lemma limited_simps [simp]: "limited None v = Inr v" "limited (Some e) v = Inl e"
  by (simp_all add: limited_def)

text \<open>The values a Rust value of the type can have.\<close>

fun operation_ok :: "Operation \<Rightarrow> bool" where
  "operation_ok (UpsertDirectory i r) = record_ok r"
| "operation_ok (UpsertFile u i r) = record_ok r"
| "operation_ok (UpsertSymlink i r) = record_ok r"
| "operation_ok (Delete i p k) = path_ok p"

fun control_ok :: "Control \<Rightarrow> bool" where
  "control_ok (StartSync s) = utf8_valid s"
| "control_ok (Operation op) = operation_ok op"
| "control_ok (Failure f) = (utf8_valid (failure_message f) \<and> pred_option path_ok (failure_path f))"
| "control_ok _ = True"

fun index_ok :: "IndexMessage \<Rightarrow> bool" where
  "index_ok (Record r) = record_ok r"
| "index_ok End = True"

fun transfer_ok :: "FileTransfer \<Rightarrow> bool" where
  "transfer_ok (UpdateRequest i p) = path_ok p"
| "transfer_ok (CreateRequest i p) = path_ok p"
| "transfer_ok _ = True"

section \<open>The writer produces the layout\<close>

lemma writer_simps [writes]:
  "writer_u8 w x = writer_raw w [x]"
  "writer_u16 w x2 = writer_raw w (to_le_bytes 2 x2)"
  "writer_u32 w x4 = writer_raw w (to_le_bytes 4 x4)"
  "writer_u64 w x8 = writer_raw w (to_le_bytes 8 x8)"
  "writer_i128 w x16 = writer_raw w (to_le_bytes 16 x16)"
  "writer_length w n = writer_raw w (enc_length n)"
  "writer_entry_kind w k = writer_raw w [entry_kind_tag k]"
  "writer_digest w d = writer_raw w (digest_bytes d)"
  by (simp_all add: writer_u8_def writer_u16_def writer_u32_def writer_u64_def writer_i128_def
      writer_length_def writer_raw_def writer_entry_kind_def writer_digest_def enc_length_def
      put_varint_eq [of _ "w_bytes w"])

lemma writer_raw_raw [simp]: "writer_raw (writer_raw w a) b = writer_raw w (a @ b)"
  by (simp add: writer_raw_def)

lemma writer_raw_Nil [simp]: "writer_raw w [] = w"
  by (simp add: writer_raw_def)

lemma writer_raw_sel [simp]:
  "w_limits (writer_raw w a) = w_limits w" "w_bytes (writer_raw w a) = w_bytes w @ a"
  by (simp_all add: writer_raw_def)

lemma writer_bytes_raw [writes]: "writer_bytes w b = writer_raw w (enc_bytes b)"
  by (simp add: writer_bytes_def writes enc_bytes_def)

lemma writer_string_raw [writes]: "writer_string w b = writer_raw w (enc_bytes b)"
  by (simp add: writer_string_def writes)

lemma writer_components_raw:
  "fold (\<lambda>c w. writer_raw w (enc_bytes c)) cs w = writer_raw w (concat (map enc_bytes cs))"
  by (induction cs arbitrary: w) simp_all

lemma try_fold_path_bytes:
  "try_fold add_path_bytes n cs =
     (if n + sum_list (map length cs) < 2 ^ 64 \<or> cs = [] then Inr (n + sum_list (map length cs))
      else Inl (LimitExceeded ''path bytes''))"
  by (induction cs arbitrary: n) (auto simp: add_path_bytes_def)

lemma writer_path_raw [writes]:
  "writer_path w p = limited (path_limit (w_limits w) p) (writer_raw w (enc_path p))"
proof -
  have "unat (codec_max_path_bytes (w_limits w)) < 2 ^ 64"
    using unsigned_less [of "codec_max_path_bytes (w_limits w)"] by simp
  then show ?thesis
    by (auto simp: writer_path_def path_limit_def try_fold_path_bytes writes
        writer_components_raw enc_path_def)
qed

lemma writer_optional_raw [writes]:
  "(\<And>w v. write w v = limited (f (w_limits w) v) (writer_raw w (g v))) \<Longrightarrow>
   writer_optional w x write =
     limited (Option.bind x (f (w_limits w))) (writer_raw w (enc_optional g x))"
  by (cases x) (simp_all add: writer_optional_def enc_optional_def writes)

lemma writer_optional_plain:
  "writer_optional w x (\<lambda>w v. Inr (writer_raw w (g v))) = Inr (writer_raw w (enc_optional g x))"
  by (cases x) (simp_all add: writer_optional_def enc_optional_def writes)

lemma writer_record_raw [writes]:
  "writer_record w v = limited (path_limit (w_limits w) (path v)) (writer_raw w (enc_record v))"
  by (cases "path_limit (w_limits w) (path v)")
    (simp_all add: writer_record_def writes writer_optional_plain enc_record_def Let_def)

lemma writer_operation_raw [writes]:
  "writer_operation w op =
     limited (path_limit (w_limits w) (operation_path op)) (writer_raw w (enc_operation op))"
  by (cases op; cases "path_limit (w_limits w) (operation_path op)")
    (simp_all add: writer_upsert_def writes)

lemma writer_failure_raw [writes]:
  "writer_failure w v =
     limited (Option.bind (failure_path v) (path_limit (w_limits w))) (writer_raw w (enc_failure v))"
  by (simp add: writer_failure_def writes writer_optional_plain
      writer_optional_raw [where f = path_limit and g = enc_path] enc_failure_def Let_def)

section \<open>Readers of a field\<close>

definition remaining :: "Reader \<Rightarrow> bytes" where
  "remaining r = drop (r_offset r) (r_bytes r)"

definition advance :: "Reader \<Rightarrow> nat \<Rightarrow> Reader" where
  "advance r n = r\<lparr>r_offset := r_offset r + n\<rparr>"

definition reader_ok :: "Reader \<Rightarrow> bool" where
  "reader_ok r \<longleftrightarrow> r_offset r \<le> length (r_bytes r) \<and> length (r_bytes r) < 2 ^ 64"

text \<open>
  \<open>reads g l enc v\<close>: on any input that continues with \<open>enc\<close>, \<open>g\<close> returns \<open>v\<close> and has consumed
  \<open>enc\<close>. \<open>parses g l R\<close>: whatever \<open>g\<close> accepts, it has consumed some bytes that are related to
  the value by \<open>R\<close>.
\<close>

definition reads :: "(Reader \<Rightarrow> CodecError + ('a \<times> Reader)) \<Rightarrow> CodecLimits \<Rightarrow> bytes \<Rightarrow> 'a \<Rightarrow> bool" where
  "reads g l enc v \<longleftrightarrow>
     (\<forall>r tail. reader_ok r \<longrightarrow> r_limits r = l \<longrightarrow>
        length (r_bytes r) \<le> unat (codec_max_frame_bytes l) \<longrightarrow> remaining r = enc @ tail \<longrightarrow>
        g r = Inr (v, advance r (length enc)))"

definition parses ::
    "(Reader \<Rightarrow> CodecError + ('a \<times> Reader)) \<Rightarrow> CodecLimits \<Rightarrow> ('a \<Rightarrow> bytes \<Rightarrow> bool) \<Rightarrow> bool" where
  "parses g l R \<longleftrightarrow>
     (\<forall>r v r'. reader_ok r \<longrightarrow> r_limits r = l \<longrightarrow> g r = Inr (v, r') \<longrightarrow>
        (\<exists>enc tail. remaining r = enc @ tail \<and> r' = advance r (length enc) \<and> R v enc))"

lemma advance_sel [simp]:
  "r_limits (advance r n) = r_limits r" "r_bytes (advance r n) = r_bytes r"
  "r_offset (advance r n) = r_offset r + n"
  by (simp_all add: advance_def)

lemma advance_advance [simp]: "advance (advance r m) n = advance r (m + n)"
  by (simp add: advance_def add.assoc)

lemma advance_0 [simp]: "advance r 0 = r"
  by (simp add: advance_def)

lemma remaining_advance: "remaining r = enc @ tail \<Longrightarrow> remaining (advance r (length enc)) = tail"
  by (simp add: remaining_def) (metis add.commute append_eq_conv_conj drop_drop)

lemma reader_ok_advance: "reader_ok r \<Longrightarrow> remaining r = enc @ tail \<Longrightarrow> reader_ok (advance r (length enc))"
  by (auto simp: reader_ok_def remaining_def dest!: arg_cong [of _ _ length])

lemma reads_return [reads]: "reads (\<lambda>r. Inr (v, r)) l [] v"
  by (simp add: reads_def)

lemma reads_and_then:
  assumes "reads g l e1 a" and "reads (h a) l e2 b"
  shows "reads (\<lambda>r. and_then (g r) (\<lambda>(x, r'). h x r')) l (e1 @ e2) b"
  unfolding reads_def
proof (intro allI impI)
  fix r tail
  assume r: "reader_ok r" "r_limits r = l" "length (r_bytes r) \<le> unat (codec_max_frame_bytes l)"
    "remaining r = (e1 @ e2) @ tail"
  then have "g r = Inr (a, advance r (length e1))"
    using assms(1) by (simp add: reads_def)
  moreover have "h a (advance r (length e1)) = Inr (b, advance (advance r (length e1)) (length e2))"
    using assms(2) r remaining_advance [of r e1 "e2 @ tail"] reader_ok_advance [of r e1 "e2 @ tail"]
    by (simp add: reads_def)
  ultimately show "and_then (g r) (\<lambda>(x, r'). h x r') = Inr (b, advance r (length (e1 @ e2)))"
    by simp
qed

lemma reads_map:
  "reads g l e a \<Longrightarrow> f a = b \<Longrightarrow> reads (\<lambda>r. and_then (g r) (\<lambda>(x, r'). Inr (f x, r'))) l e b"
  using reads_and_then [of g l e a "\<lambda>x r'. Inr (f x, r')" "[]" b] by (simp add: reads_return)

lemma reads_ok: "c = Inr a \<Longrightarrow> reads (h a) l e b \<Longrightarrow> reads (\<lambda>r. and_then c (\<lambda>x. h x r)) l e b"
  by (simp add: reads_def)

lemma parses_return: "R v [] \<Longrightarrow> parses (\<lambda>r. Inr (v, r)) l R"
  by (force simp: parses_def)

lemma parsesD:
  "parses g l R \<Longrightarrow> g r = Inr (v, r') \<Longrightarrow> reader_ok r \<Longrightarrow> r_limits r = l \<Longrightarrow>
   \<exists>enc tail. remaining r = enc @ tail \<and> r' = advance r (length enc) \<and> R v enc"
  by (simp add: parses_def)

lemma parses_error: "parses (\<lambda>r. Inl e) l R"
  by (simp add: parses_def)

lemma parses_and_then:
  assumes g: "parses g l R" and h: "\<And>a e1. R a e1 \<Longrightarrow> parses (h a) l (\<lambda>b e2. Q b (e1 @ e2))"
  shows "parses (\<lambda>r. and_then (g r) (\<lambda>(x, r'). h x r')) l Q"
  unfolding parses_def
proof (intro allI impI)
  fix r b r2
  assume r: "reader_ok r" "r_limits r = l"
    and run: "and_then (g r) (\<lambda>(x, r'). h x r') = Inr (b, r2)"
  then obtain a r1 where a: "g r = Inr (a, r1)" "h a r1 = Inr (b, r2)"
    by (auto simp: result_simps)
  with g r obtain e1 t1 where e1: "remaining r = e1 @ t1" "r1 = advance r (length e1)" "R a e1"
    unfolding parses_def by blast
  with r h [OF e1(3)] a(2) remaining_advance [OF e1(1)] reader_ok_advance [OF r(1) e1(1)]
  obtain e2 t2 where "t1 = e2 @ t2" "r2 = advance r1 (length e2)" "Q b (e1 @ e2)"
    unfolding parses_def by (metis advance_sel(1))
  with e1 show "\<exists>enc tail. remaining r = enc @ tail \<and> r2 = advance r (length enc) \<and> Q b enc"
    by (intro exI [of _ "e1 @ e2"] exI [of _ t2]) simp
qed

lemma parses_ok: "(\<And>a. c = Inr a \<Longrightarrow> parses (h a) l Q) \<Longrightarrow> parses (\<lambda>r. and_then c (\<lambda>x. h x r)) l Q"
  by (cases c) (simp_all add: parses_def)

lemma parses_if:
  "(P \<Longrightarrow> parses f l Q) \<Longrightarrow> (\<not> P \<Longrightarrow> parses g l Q) \<Longrightarrow> parses (\<lambda>r. if P then f r else g r) l Q"
  by (cases P) simp_all

lemma parses_mono: "parses g l R \<Longrightarrow> (\<And>v e. R v e \<Longrightarrow> Q v e) \<Longrightarrow> parses g l Q"
  unfolding parses_def by blast

section \<open>The reader accepts exactly the layout\<close>

lemma reader_take_eq:
  "reader_ok r \<Longrightarrow> reader_take r n =
     (if n \<le> length (remaining r) then Inr (take n (remaining r), advance r n) else Inl UnexpectedEof)"
  by (auto simp: reader_take_def reader_ok_def remaining_def advance_def Let_def)

lemma reads_take: "n = length b \<Longrightarrow> reads (\<lambda>r. reader_take r n) l b b"
  by (simp add: reads_def reader_take_eq)

lemma parses_take: "parses (\<lambda>r. reader_take r n) l (\<lambda>v e. e = v \<and> length v = n)"
  unfolding parses_def
proof (intro allI impI)
  fix r v r'
  assume "reader_ok r" "r_limits r = l" "reader_take r n = Inr (v, r')"
  then have "v = take n (remaining r)" "r' = advance r n" "n \<le> length (remaining r)"
    by (auto simp: reader_take_eq split: if_splits)
  then show "\<exists>enc tail. remaining r = enc @ tail \<and> r' = advance r (length enc) \<and> enc = v \<and> length v = n"
    by (intro exI [of _ "take n (remaining r)"] exI [of _ "drop n (remaining r)"]) simp
qed

lemma reads_le:
  "LENGTH('a) = 8 * n \<Longrightarrow>
   reads (\<lambda>r. and_then (reader_take r n) (\<lambda>(bs, r). Inr (from_le_bytes bs, r))) l
     (to_le_bytes n x) (x :: 'a::len word)"
  by (rule reads_map [OF reads_take]) simp_all

lemma parses_le:
  "LENGTH('a) = 8 * n \<Longrightarrow>
   parses (\<lambda>r. and_then (reader_take r n) (\<lambda>(bs, r). Inr (from_le_bytes bs, r))) l
     (\<lambda>(x :: 'a::len word) e. e = to_le_bytes n x)"
  by (rule parses_and_then [OF parses_take], rule parses_return) (auto simp: to_le_from_le)

lemma reads_ints [reads]:
  "reads reader_u16 l (to_le_bytes 2 x2) x2"
  "reads reader_u32 l (to_le_bytes 4 x4) x4"
  "reads reader_u64 l (to_le_bytes 8 x8) x8"
  "reads reader_i128 l (to_le_bytes 16 x16) x16"
  by (auto simp: reader_u16_def [abs_def] reader_u32_def [abs_def] reader_u64_def [abs_def]
      reader_i128_def [abs_def] intro!: reads_le)

lemma parses_ints [parses]:
  "parses reader_u16 l (\<lambda>x e. e = to_le_bytes 2 x)"
  "parses reader_u32 l (\<lambda>x e. e = to_le_bytes 4 x)"
  "parses reader_u64 l (\<lambda>x e. e = to_le_bytes 8 x)"
  "parses reader_i128 l (\<lambda>x e. e = to_le_bytes 16 x)"
  by (auto simp: reader_u16_def [abs_def] reader_u32_def [abs_def] reader_u64_def [abs_def]
      reader_i128_def [abs_def] intro!: parses_le)

lemma reads_u8 [reads]: "reads reader_u8 l [x] x"
  unfolding reader_u8_def [abs_def] by (rule reads_map [OF reads_take]) simp_all

lemma parses_u8 [parses]: "parses reader_u8 l (\<lambda>x e. e = [x])"
  unfolding reader_u8_def [abs_def]
  by (rule parses_and_then [OF parses_take], rule parses_return) (auto simp: length_Suc_conv)

lemma reads_length:
  assumes "n < 2 ^ 64"
  shows "reads reader_length l (enc_length n) n"
  unfolding reads_def
proof (intro allI impI)
  fix r tail
  assume "remaining r = enc_length n @ tail"
  then have "parse_varint (drop (r_offset r) (r_bytes r)) =
      Inr (word_of_nat n, length (enc_length n))"
    by (simp add: remaining_def enc_length_def parse_varint_varint)
  then show "reader_length r = Inr (n, advance r (length (enc_length n)))"
    using assms by (simp add: reader_length_def advance_def unsigned_of_nat take_bit_nat_eq_self)
qed

lemma parses_length: "parses reader_length l (\<lambda>n e. e = enc_length n \<and> n < 2 ^ 64)"
  unfolding parses_def
proof (intro allI impI)
  fix r n r'
  assume "reader_length r = Inr (n, r')"
  then obtain v used where v: "parse_varint (remaining r) = Inr (v, used)" "n = unat v"
      "r' = advance r used"
    by (auto simp: reader_length_def remaining_def advance_def result_simps)
  from parse_varint_canonical [OF v(1)] obtain tail where
    "used = length (varint v)" "remaining r = varint v @ tail"
    by blast
  moreover have "n < 2 ^ 64"
    using v(2) unsigned_less [of v] by simp
  ultimately show "\<exists>enc tail. remaining r = enc @ tail \<and> r' = advance r (length enc) \<and>
      enc = enc_length n \<and> n < 2 ^ 64"
    using v by (intro exI [of _ "varint v"] exI [of _ tail]) (simp add: enc_length_def)
qed

lemma reads_bounded_length:
  assumes "n < 2 ^ 64" and "n \<le> m"
  shows "reads (reader_bounded_length m name) l (enc_length n) n"
  unfolding reader_bounded_length_def [abs_def]
  using reads_and_then [OF reads_length [OF assms(1)],
      of "\<lambda>n r. if m < n then Inl (LimitExceeded name) else Inr (n, r)" l "[]" n] assms(2)
  by (simp add: reads_return)

lemma parses_bounded_length:
  "parses (reader_bounded_length m name) l (\<lambda>n e. e = enc_length n \<and> n < 2 ^ 64 \<and> n \<le> m)"
  unfolding reader_bounded_length_def [abs_def]
  by (rule parses_and_then [OF parses_length], rule parses_if, rule parses_error,
      rule parses_return) auto

text \<open>A reader operation may look at the limits it carries.\<close>

lemma reads_cong:
  "(\<And>r. r_limits r = l \<Longrightarrow> g r = g' r) \<Longrightarrow> reads g' l e v \<Longrightarrow> reads g l e v"
  by (simp add: reads_def)

lemma parses_cong:
  "(\<And>r. r_limits r = l \<Longrightarrow> g r = g' r) \<Longrightarrow> parses g' l R \<Longrightarrow> parses g l R"
  by (simp add: parses_def)

text \<open>A field that is read from a larger input is no longer than that input.\<close>

lemma reads_fits:
  "(length e \<le> unat (codec_max_frame_bytes l) \<Longrightarrow> reads g l e v) \<Longrightarrow> reads g l e v"
  unfolding reads_def
proof (intro allI impI, goal_cases)
  case (1 r tail)
  then have "length e \<le> length (r_bytes r)"
    by (auto simp: remaining_def dest!: arg_cong [of _ _ length])
  with 1 show ?case by simp
qed

lemma unat_usize_less: "unat (x :: usize) < 2 ^ 64"
  using unsigned_less [of x] by simp

lemma reads_bytes [reads]: "reads reader_bytes l (enc_bytes b) b"
proof (rule reads_fits)
  assume "length (enc_bytes b) \<le> unat (codec_max_frame_bytes l)"
  then have b: "length b \<le> unat (codec_max_frame_bytes l)" by (simp add: enc_bytes_def)
  then have "length b < 2 ^ 64" using unat_usize_less le_less_trans by blast
  then show "reads reader_bytes l (enc_bytes b) b"
    unfolding enc_bytes_def
    by (intro reads_cong [OF _ reads_and_then [OF reads_bounded_length [OF _ b] reads_take]])
      (simp_all add: reader_bytes_def)
qed

lemma parses_bytes [parses]: "parses reader_bytes l (\<lambda>v e. e = enc_bytes v)"
  by (rule parses_cong [OF _ parses_and_then [OF parses_bounded_length
        [where m = "unat (codec_max_frame_bytes l)"] parses_mono [OF parses_take]]])
    (auto simp: reader_bytes_def enc_bytes_def)

lemma reads_string [reads]:
  assumes "utf8_valid b"
  shows "reads reader_string l (enc_bytes b) b"
  using reads_and_then [where h = "\<lambda>bs r. if utf8_valid bs then Inr (bs, r) else
    Inl (InvalidValue ''UTF-8 string'')" and ?e2.0 = "[]", OF reads_bytes] assms
  by (simp add: reader_string_def [abs_def] reads_return)

lemma parses_string [parses]: "parses reader_string l (\<lambda>v e. e = enc_bytes v \<and> utf8_valid v)"
  unfolding reader_string_def [abs_def]
  by (rule parses_and_then [OF parses_bytes], rule parses_if, rule parses_return)
    (auto intro: parses_error)

lemma reads_digest [reads]: "digest_ok d \<Longrightarrow> reads reader_digest l (digest_bytes d) d"
  unfolding reader_digest_def [abs_def]
  by (rule reads_map [OF reads_take]) (simp_all add: digest_ok_def)

lemma parses_digest [parses]: "parses reader_digest l (\<lambda>d e. e = digest_bytes d \<and> digest_ok d)"
  unfolding reader_digest_def [abs_def]
  by (rule parses_and_then [OF parses_take], rule parses_return) (auto simp: digest_ok_def)

lemma reads_optional:
  assumes "\<And>v. x = Some v \<Longrightarrow> reads g l (f v) v"
  shows "reads (reader_optional g) l (enc_optional f x) x"
proof (cases x)
  case None
  then show ?thesis
    using reads_and_then [OF reads_u8, of "\<lambda>tag r. if tag = 0 then Inr (None, r)
       else if tag = 1 then and_then (g r) (\<lambda>(v, r). Inr (Some v, r))
       else Inl (InvalidValue ''optional tag'')" 0 l "[]" None]
    by (simp add: reader_optional_def [abs_def] enc_optional_def reads_return)
next
  case (Some v)
  then show ?thesis
    using reads_and_then [OF reads_u8, of "\<lambda>tag r. if tag = 0 then Inr (None, r)
       else if tag = 1 then and_then (g r) (\<lambda>(v, r). Inr (Some v, r))
       else Inl (InvalidValue ''optional tag'')" 1 l "f v" "Some v"]
      reads_map [OF assms [OF Some], of Some "Some v"]
    by (simp add: reader_optional_def [abs_def] enc_optional_def)
qed

lemma parses_optional:
  assumes "parses g l (\<lambda>v e. e = f v \<and> P v)"
  shows "parses (reader_optional g) l (\<lambda>x e. e = enc_optional f x \<and> pred_option P x)"
  unfolding reader_optional_def [abs_def]
  by (rule parses_and_then [OF parses_u8], rule parses_if, rule parses_return,
      simp add: enc_optional_def, rule parses_if, rule parses_and_then [OF assms],
      rule parses_return, auto simp: enc_optional_def intro: parses_error)

lemma reads_components:
  "tot + sum_list (map length cs) \<le> unat (codec_max_path_bytes l) \<Longrightarrow>
   reads (reader_components (length cs) tot acc) l (concat (map enc_bytes cs)) (acc @ cs)"
proof (induction cs arbitrary: tot acc)
  case Nil
  show ?case by (simp add: reads_return)
next
  case (Cons c cs)
  from Cons.prems have c: "length c \<le> unat (codec_max_path_bytes l) - tot" by simp
  then have "length c < 2 ^ 64" using unat_usize_less [of "codec_max_path_bytes l"] by linarith
  note len = reads_bounded_length [OF this c, where name = "''path bytes''"]
  let ?h = "\<lambda>len c. reader_components (length cs) (tot + len) (acc @ [c])"
  have "reads (?h (length c) c) l (concat (map enc_bytes cs)) ((acc @ [c]) @ cs)"
    using Cons.prems by (intro Cons.IH) simp
  then have "reads (\<lambda>r. and_then (reader_take r (length c)) (\<lambda>(x, r). ?h (length c) x r)) l
      (c @ concat (map enc_bytes cs)) ((acc @ [c]) @ cs)"
    by (rule reads_and_then [OF reads_take [OF refl]])
  from reads_and_then [where h = "\<lambda>len r. and_then (reader_take r len) (\<lambda>(x, r). ?h len x r)",
      OF len this]
  show ?case
    by (intro reads_cong [where g = "reader_components (length (c # cs)) tot acc"])
      (simp_all add: enc_bytes_def [of c])
qed

lemma parses_components:
  "tot \<le> unat (codec_max_path_bytes l) \<Longrightarrow>
   parses (reader_components n tot acc) l (\<lambda>v e. \<exists>cs. v = acc @ cs \<and> length cs = n \<and>
     e = concat (map enc_bytes cs) \<and> tot + sum_list (map length cs) \<le> unat (codec_max_path_bytes l))"
proof (induction n arbitrary: tot acc)
  case 0
  then show ?case by (simp add: parses_return)
next
  case (Suc n)
  let ?rest = "\<lambda>len c. reader_components n (tot + len) (acc @ [c])"
  show ?case
  proof (rule parses_cong [OF _ parses_and_then [OF parses_bounded_length
          [where m = "unat (codec_max_path_bytes l) - tot"] parses_and_then [OF parses_take]]])
    fix len e1 and c e2 :: bytes
    assume "e1 = enc_length len \<and> len < 2 ^ 64 \<and> len \<le> unat (codec_max_path_bytes l) - tot"
      and "e2 = c \<and> length c = len"
    with Suc.prems have e: "e1 @ e2 = enc_bytes c" "len = length c"
        "tot + len \<le> unat (codec_max_path_bytes l)"
      by (auto simp: enc_bytes_def)
    from Suc.IH [OF e(3)]
    show "parses (?rest len c) l (\<lambda>v e. \<exists>cs. v = acc @ cs \<and> length cs = Suc n \<and>
        e1 @ e2 @ e = concat (map enc_bytes cs) \<and>
        tot + sum_list (map length cs) \<le> unat (codec_max_path_bytes l))"
    proof (rule parses_mono)
      fix v e
      assume "\<exists>cs. v = (acc @ [c]) @ cs \<and> length cs = n \<and> e = concat (map enc_bytes cs) \<and>
        tot + len + sum_list (map length cs) \<le> unat (codec_max_path_bytes l)"
      then obtain cs where "v = (acc @ [c]) @ cs" "length cs = n" "e = concat (map enc_bytes cs)"
        "tot + len + sum_list (map length cs) \<le> unat (codec_max_path_bytes l)"
        by blast
      with e show "\<exists>cs. v = acc @ cs \<and> length cs = Suc n \<and> e1 @ e2 @ e = concat (map enc_bytes cs) \<and>
        tot + sum_list (map length cs) \<le> unat (codec_max_path_bytes l)"
        by (intro exI [of _ "c # cs"]) (simp flip: append_assoc)
    qed
  qed simp
qed

section \<open>Paths, records, operations and failures\<close>

lemma path_limit_None:
  "path_limit l p = None \<longleftrightarrow> length (components p) \<le> unat (codec_max_components l) \<and>
     sum_list (map length (components p)) \<le> unat (codec_max_path_bytes l)"
  by (simp add: path_limit_def not_less)

lemma reads_path [reads]:
  assumes "path_ok p" and "path_limit l p = None"
  shows "reads reader_path l (enc_path p) p"
proof -
  let ?n = "length (components p)"
  from assms(2) have n: "?n \<le> unat (codec_max_components l)"
    and tot: "0 + sum_list (map length (components p)) \<le> unat (codec_max_path_bytes l)"
    by (simp_all add: path_limit_None)
  from n have "?n < 2 ^ 64" using unat_usize_less [of "codec_max_components l"] by linarith
  note len = reads_bounded_length [OF this n, where name = "''path components''"]
  let ?new = "\<lambda>cs r. case relative_path_new cs of
      Inl _ \<Rightarrow> Inl (InvalidValue ''relative path'') | Inr p \<Rightarrow> Inr (p, r)"
  have "reads (\<lambda>r. and_then (reader_components ?n 0 [] r) (\<lambda>(cs, r). ?new cs r)) l
      (concat (map enc_bytes (components p)) @ []) p"
    using assms(1) by (intro reads_and_then [OF reads_components [OF tot]]) (simp add: reads_return)
  with assms(1) have "reads (\<lambda>r. if ?n = 0 then Inl (InvalidValue ''relative path'')
        else and_then (reader_components ?n 0 [] r) (\<lambda>(cs, r). ?new cs r)) l
      (concat (map enc_bytes (components p))) p"
    by (simp add: path_ok_def)
  from reads_and_then [where h = "\<lambda>n r. if n = 0 then Inl (InvalidValue ''relative path'')
        else and_then (reader_components n 0 [] r) (\<lambda>(cs, r). ?new cs r)", OF len this]
  show ?thesis
    by (intro reads_cong [where g = reader_path]) (simp_all add: reader_path_def enc_path_def)
qed

lemma parses_new_path:
  assumes "\<And>p. components p = cs \<Longrightarrow> path_ok p \<Longrightarrow> Q p []"
  shows "parses (\<lambda>r. case relative_path_new cs of
      Inl _ \<Rightarrow> Inl (InvalidValue ''relative path'') | Inr p \<Rightarrow> Inr (p, r)) l Q"
proof (cases "relative_path_new cs")
  case (Inr p)
  then have "p = RelativePath cs" "path_ok p" by (auto simp: relative_path_new_Inr)
  with Inr assms show ?thesis by (simp add: parses_return)
qed (simp add: parses_error)

lemma parses_path [parses]:
  "parses reader_path l (\<lambda>p e. e = enc_path p \<and> path_ok p \<and> path_limit l p = None)"
proof (rule parses_cong [OF _ parses_and_then [OF parses_bounded_length
        [where m = "unat (codec_max_components l)"]]])
  fix n e1
  assume n: "e1 = enc_length n \<and> n < 2 ^ 64 \<and> n \<le> unat (codec_max_components l)"
  show "parses (\<lambda>r. if n = 0 then Inl (InvalidValue ''relative path'')
        else and_then (reader_components n 0 [] r) (\<lambda>(cs, r). case relative_path_new cs of
          Inl _ \<Rightarrow> Inl (InvalidValue ''relative path'') | Inr p \<Rightarrow> Inr (p, r))) l
      (\<lambda>p e2. e1 @ e2 = enc_path p \<and> path_ok p \<and> path_limit l p = None)"
    using n
    by (intro parses_if parses_error parses_and_then [OF parses_components] parses_new_path)
      (auto simp: enc_path_def path_limit_None)
qed (simp add: reader_path_def)

lemma reads_entry_kind [reads]: "reads reader_entry_kind l [entry_kind_tag k] k"
proof -
  have "reads reader_entry_kind l ([entry_kind_tag k] @ []) k"
    unfolding reader_entry_kind_def [abs_def]
    by (rule reads_and_then [OF reads_u8]) (cases k, simp_all add: reads_return)
  then show ?thesis by simp
qed

lemma parses_entry_kind [parses]: "parses reader_entry_kind l (\<lambda>k e. e = [entry_kind_tag k])"
  unfolding reader_entry_kind_def [abs_def]
  by (intro parses_and_then [OF parses_u8] parses_if parses_error parses_return) simp_all

lemma reads_record [reads]:
  assumes "record_ok v" and "path_limit l (path v) = None"
  shows "reads reader_record l (enc_record v) v"
proof -
  have tgt: "reads (reader_optional reader_bytes) l (enc_optional enc_bytes (symlink_target v))
      (symlink_target v)"
    by (intro reads_optional reads)
  have dig: "reads (reader_optional reader_digest) l (enc_optional digest_bytes (digest v)) (digest v)"
    using assms(1) by (intro reads_optional reads) (auto simp: record_ok_def)
  have "path_ok (path v)" using assms(1) by (simp add: record_ok_def)
  then show ?thesis
    unfolding reader_record_def [abs_def] enc_record_def using assms(2)
    by (intro reads_and_then [OF reads_path] reads_and_then [OF reads_entry_kind]
        reads_and_then [OF reads_ints(2)] reads_and_then [OF reads_ints(4)]
        reads_and_then [OF reads_ints(3)] reads_and_then [OF dig] reads_map [OF tgt]) simp_all
qed

lemma parses_record [parses]:
  "parses reader_record l (\<lambda>v e. e = enc_record v \<and> record_ok v \<and> path_limit l (path v) = None)"
proof -
  have tgt: "parses (reader_optional reader_bytes) l
      (\<lambda>x e. e = enc_optional enc_bytes x \<and> pred_option (\<lambda>_. True) x)"
    by (rule parses_optional) (simp add: parses_bytes)
  show ?thesis
    unfolding reader_record_def [abs_def]
    by (intro parses_and_then [OF parses_path] parses_and_then [OF parses_entry_kind]
        parses_and_then [OF parses_ints(2)] parses_and_then [OF parses_ints(4)]
        parses_and_then [OF parses_ints(3)] parses_and_then [OF parses_optional [OF parses_digest]]
        parses_and_then [OF tgt] parses_return)
      (auto simp: enc_record_def record_ok_def)
qed

lemma reads_operation [reads]:
  assumes "operation_ok op" and "path_limit l (operation_path op) = None"
  shows "reads reader_operation l (enc_operation op) op"
proof (cases op)
  case (UpsertDirectory i r)
  with assms have "reads reader_operation l ([1] @ enc_id i @ enc_record r) op"
    unfolding reader_operation_def [abs_def]
    by (intro reads_and_then [OF reads_u8] reads_and_then [OF reads_ints(3)])
      (simp add: reads_map [OF reads_record])
  with UpsertDirectory show ?thesis by simp
next
  case (UpsertFile u i r)
  with assms have "reads reader_operation l ([if u then 5 else 2] @ enc_id i @ enc_record r) op"
    unfolding reader_operation_def [abs_def]
    by (intro reads_and_then [OF reads_u8] reads_and_then [OF reads_ints(3)])
      (simp add: reads_map [OF reads_record])
  with UpsertFile show ?thesis by simp
next
  case (UpsertSymlink i r)
  with assms have "reads reader_operation l ([3] @ enc_id i @ enc_record r) op"
    unfolding reader_operation_def [abs_def]
    by (intro reads_and_then [OF reads_u8] reads_and_then [OF reads_ints(3)])
      (simp add: reads_map [OF reads_record])
  with UpsertSymlink show ?thesis by simp
next
  case (Delete i p k)
  with assms have "reads reader_operation l ([4] @ enc_id i @ enc_path p @ [entry_kind_tag k]) op"
    unfolding reader_operation_def [abs_def]
    by (intro reads_and_then [OF reads_u8] reads_and_then [OF reads_ints(3)])
      (simp add: reads_and_then [OF reads_path] reads_map [OF reads_entry_kind])
  with Delete show ?thesis by simp
qed

lemma parses_operation [parses]:
  "parses reader_operation l (\<lambda>op e. e = enc_operation op \<and> operation_ok op \<and>
     path_limit l (operation_path op) = None)"
  unfolding reader_operation_def [abs_def]
  by (intro parses_and_then [OF parses_u8] parses_and_then [OF parses_ints(3)] parses_if
      parses_error parses_and_then [OF parses_record] parses_and_then [OF parses_path]
      parses_and_then [OF parses_entry_kind] parses_return)
    auto

lemma phase_of_phase_tag [simp]: "phase_of_tag (phase_tag p) = Inr p"
  by (cases p) (simp_all add: phase_of_tag_def)

lemma phase_of_tag_Inr: "phase_of_tag t = Inr p \<Longrightarrow> t = phase_tag p"
  by (auto simp: phase_of_tag_def split: if_splits)

lemma wire_error_wire_error_tag [simp]: "wire_error (wire_error_tag c) = Inr c"
  by (cases c) (simp_all add: wire_error_def)

lemma wire_error_Inr: "wire_error t = Inr c \<Longrightarrow> t = wire_error_tag c"
  by (auto simp: wire_error_def split: if_splits)

lemma reads_id: "reads (\<lambda>r. and_then (reader_u64 r) (\<lambda>(i, r). Inr (OperationId i, r))) l (enc_id i) i"
  by (rule reads_map [OF reads_ints(3)]) simp

lemma parses_id:
  "parses (\<lambda>r. and_then (reader_u64 r) (\<lambda>(i, r). Inr (OperationId i, r))) l
     (\<lambda>i e. e = enc_id i \<and> True)"
  by (intro parses_and_then [OF parses_ints(3)] parses_return) simp

lemma reads_failure [reads]:
  assumes "utf8_valid (failure_message f)" and "pred_option path_ok (failure_path f)"
    and "Option.bind (failure_path f) (path_limit l) = None"
  shows "reads reader_failure l (enc_failure f) f"
proof -
  have p: "reads (reader_optional reader_path) l (enc_optional enc_path (failure_path f)) (failure_path f)"
    using assms(2,3) by (intro reads_optional reads_path) auto
  show ?thesis
    unfolding reader_failure_def [abs_def] enc_failure_def using assms(1)
    by (intro reads_and_then [OF reads_ints(1)] reads_ok [OF wire_error_wire_error_tag]
        reads_and_then [OF reads_string] reads_and_then [OF reads_u8]
        reads_ok [OF phase_of_phase_tag] reads_and_then [OF reads_optional [OF reads_id]]
        reads_map [OF p]) simp_all
qed

lemma parses_failure [parses]:
  "parses reader_failure l (\<lambda>f e. e = enc_failure f \<and> control_ok (Failure f) \<and>
     control_limit l (Failure f) = None)"
proof -
  have p: "parses (reader_optional reader_path) l (\<lambda>x e. e = enc_optional enc_path x \<and>
      pred_option (\<lambda>p. path_ok p \<and> path_limit l p = None) x)"
    by (intro parses_optional parses_path)
  have lim: "Option.bind x (path_limit l) = None \<and> pred_option path_ok x"
    if "pred_option (\<lambda>p. path_ok p \<and> path_limit l p = None) x" for x
    using that by (cases x) auto
  show ?thesis
    unfolding reader_failure_def [abs_def]
    by (intro parses_and_then [OF parses_ints(1)] parses_ok parses_and_then [OF parses_string]
        parses_and_then [OF parses_u8] parses_and_then [OF parses_optional [OF parses_id]]
        parses_and_then [OF p] parses_return)
      (auto simp: enc_failure_def dest!: wire_error_Inr phase_of_tag_Inr lim)
qed

section \<open>The contract of a wire message\<close>

text \<open>
  What \<open>encode\<close>, \<open>decode\<close> and the incremental decoder rely on in an implementation \<open>T\<close> of the
  trait: the fields have a layout \<open>fields\<close>; the writer appends it unless \<open>limit\<close> names a limit
  the value breaks; the reader accepts the fields of every value \<open>valid\<close> within the limits, and
  nothing else.
\<close>

locale wire_message =
  fixes T :: "'a WireMessage"
    and fields :: "'a \<Rightarrow> bytes"
    and limit :: "CodecLimits \<Rightarrow> 'a \<Rightarrow> CodecError option"
    and valid :: "'a \<Rightarrow> bool"
  assumes encode_law: "encode_fields T v w = limited (limit (w_limits w) v) (writer_raw w (fields v))"
    and decode_law: "valid v \<Longrightarrow> limit l v = None \<Longrightarrow>
      reads (decode_fields T (msg_kind T v)) l (fields v) v"
    and accept_law: "parses (decode_fields T k) l (\<lambda>v e. e = fields v \<and> msg_kind T v = k \<and>
      valid v \<and> limit l v = None)"

interpretation control: wire_message control_wire enc_control control_limit control_ok
proof
  fix v w
  show "encode_fields control_wire v w =
      limited (control_limit (w_limits w) v) (writer_raw w (enc_control v))"
    by (cases v) (simp_all add: control_wire_def writes)
next
  fix v l
  assume "control_ok v" and "control_limit l v = None"
  then show "reads (decode_fields control_wire (msg_kind control_wire v)) l (enc_control v) v"
    by (cases v) (simp_all add: control_wire_def control_decode_fields_def [abs_def] reads_return
        reads_map [OF reads_string] reads_map [OF reads_operation] reads_map [OF reads_failure])
next
  fix k l
  show "parses (decode_fields control_wire k) l (\<lambda>v e. e = enc_control v \<and>
      msg_kind control_wire v = k \<and> control_ok v \<and> control_limit l v = None)"
    unfolding control_wire_def control_decode_fields_def [abs_def] WireMessage.simps
    by (intro parses_if parses_error parses_return parses_and_then [OF parses_string]
        parses_and_then [OF parses_operation] parses_and_then [OF parses_failure]) auto
qed

interpretation index: wire_message index_wire enc_index index_limit index_ok
proof
  fix v w
  show "encode_fields index_wire v w =
      limited (index_limit (w_limits w) v) (writer_raw w (enc_index v))"
    by (cases v) (simp_all add: index_wire_def writes)
next
  fix v l
  assume "index_ok v" and "index_limit l v = None"
  then show "reads (decode_fields index_wire (msg_kind index_wire v)) l (enc_index v) v"
    by (cases v) (simp_all add: index_wire_def index_decode_fields_def [abs_def] reads_return
        reads_map [OF reads_record])
next
  fix k l
  show "parses (decode_fields index_wire k) l (\<lambda>v e. e = enc_index v \<and>
      msg_kind index_wire v = k \<and> index_ok v \<and> index_limit l v = None)"
    unfolding index_wire_def index_decode_fields_def [abs_def] WireMessage.simps
    by (intro parses_if parses_error parses_return parses_and_then [OF parses_record]) auto
qed

interpretation transfer: wire_message transfer_wire enc_transfer transfer_limit transfer_ok
proof
  fix v w
  show "encode_fields transfer_wire v w =
      limited (transfer_limit (w_limits w) v) (writer_raw w (enc_transfer v))"
    by (cases v) (simp_all add: transfer_wire_def writes)
next
  fix v l
  assume "transfer_ok v" and "transfer_limit l v = None"
  then show "reads (decode_fields transfer_wire (msg_kind transfer_wire v)) l (enc_transfer v) v"
    by (cases v) (simp_all add: transfer_wire_def transfer_decode_fields_def [abs_def] reads_return
        reads_map [OF reads_bytes] reads_map [OF reads_ints(3)] reads_map [OF reads_path]
        reads_and_then [OF reads_ints(3)])
next
  fix k l
  show "parses (decode_fields transfer_wire k) l (\<lambda>v e. e = enc_transfer v \<and>
      msg_kind transfer_wire v = k \<and> transfer_ok v \<and> transfer_limit l v = None)"
    unfolding transfer_wire_def transfer_decode_fields_def [abs_def] WireMessage.simps
    by (intro parses_if parses_error parses_return parses_and_then [OF parses_bytes]
        parses_and_then [OF parses_ints(3)] parses_and_then [OF parses_path]) auto
qed

end
