(* ===== verification/Samples.thy ===== *)
theory Samples
  imports Grammar
begin

text \<open>
  Concrete values at which the properties of the development are instantiated: small limits, a
  path, and a record of each entry kind.
\<close>

named_theorems samples \<open>definitions of the sample values\<close>

definition sample_limits :: CodecLimits where [samples]:
  "sample_limits = \<lparr>codec_max_frame_bytes = 200, codec_max_path_bytes = 100,
     codec_max_components = 10, codec_max_collection_items = 10\<rparr>"

definition sample_path :: RelativePath where [samples]:
  "sample_path = RelativePath [[97], [98]]"

definition sample_meta :: "EntryKind \<Rightarrow> EntryMetadata" where [samples]:
  "sample_meta k = \<lparr>kind = k, mode = 420, mtime_ns = 5, entry_size = 3\<rparr>"

definition sample_digest :: Digest where [samples]:
  "sample_digest = Digest (replicate 32 7)"

definition sample_file :: IndexRecord where [samples]:
  "sample_file = \<lparr>path = sample_path, metadata = sample_meta RegularFile,
     digest = Some sample_digest, symlink_target = None\<rparr>"

definition sample_dir :: IndexRecord where [samples]:
  "sample_dir = \<lparr>path = RelativePath [[97]], metadata = sample_meta Directory,
     digest = None, symlink_target = None\<rparr>"

definition sample_old :: IndexRecord where [samples]:
  "sample_old = \<lparr>path = RelativePath [[97]], metadata = sample_meta RegularFile,
     digest = Some sample_digest, symlink_target = None\<rparr>"

lemmas layout_simps = to_le_bytes_numeral enc_length_small enc_path_def enc_bytes_def
  enc_record_def enc_optional_def path_limit_def CURRENT_VERSION_def record_ok_def path_ok_def
  component_ok_def digest_ok_def

end
