(* ===== verification/Framing.thy ===== *)
theory Framing
  imports Samples
begin

text \<open>
  Frames of \<open>crates/quicsync-core/src/protocol/codec.rs\<close>: \<open>encode\<close> and \<open>decode\<close> of one frame, and
  the incremental \<open>Decoder\<close> that accepts input in arbitrary chunks. The decoder is refined to a
  byte-at-a-time automaton (\<open>byte_step\<close>), from which its independence of the chunking and its
  behaviour on concatenated frames follow. \<open>push\<close> is total here: an index out of range or a
  \<open>usize\<close> subtraction below zero, which would panic, is the value \<open>None\<close>.
\<close>

section \<open>One frame\<close>

definition check_frame_length :: "u64 \<Rightarrow> CodecLimits \<Rightarrow> CodecError + unit" where
  "check_frame_length declared l =
     (if declared > codec_max_frame_bytes l
      then Inl (FrameTooLarge declared (codec_max_frame_bytes l))
      else if declared < word_of_nat (KIND_BYTES + VERSION_BYTES)
      then Inl (InvalidValue ''frame length'')
      else Inr ())"

definition decode_payload :: "'a WireMessage \<Rightarrow> bytes \<Rightarrow> CodecLimits \<Rightarrow> CodecError + 'a" where
  "decode_payload T payload l =
     and_then (reader_u8 (reader_new payload l)) (\<lambda>(k, r).
     and_then (reader_u16 r) (\<lambda>(v, r).
       if ProtocolVersion v \<noteq> CURRENT_VERSION then Inl (UnsupportedVersion (ProtocolVersion v))
       else and_then (decode_fields T k r) (\<lambda>(m, r).
            and_then (reader_finish r) (\<lambda>_. Inr m))))"

definition encode :: "'a WireMessage \<Rightarrow> 'a \<Rightarrow> CodecLimits \<Rightarrow> CodecError + bytes" where
  "encode T m l =
     (let payload = [msg_kind T m] @ to_le_bytes 2 (version_get CURRENT_VERSION)
      in and_then (encode_fields T m \<lparr>w_bytes = payload, w_limits = l\<rparr>) (\<lambda>w.
        if length (w_bytes w) > unat (codec_max_frame_bytes l)
        then Inl (FrameTooLarge (word_of_nat (length (w_bytes w))) (codec_max_frame_bytes l))
        else Inr (put_varint (word_of_nat (length (w_bytes w))) [] @ w_bytes w)))"

definition decode :: "'a WireMessage \<Rightarrow> bytes \<Rightarrow> CodecLimits \<Rightarrow> CodecError + 'a" where
  "decode T wire l =
     and_then (parse_varint wire) (\<lambda>(declared, header_len).
     and_then (check_frame_length declared l) (\<lambda>_.
       let stop = header_len + unat declared in
       if stop \<ge> 2 ^ 64 then Inl (FrameTooLarge declared (codec_max_frame_bytes l))
       else if length wire < stop then Inl UnexpectedEof
       else if length wire \<noteq> stop then Inl TrailingBytes
       else decode_payload T (take (stop - header_len) (drop header_len wire)) l))"

section \<open>The incremental decoder\<close>

record Decoder =
  d_limits :: CodecLimits
  header :: bytes
  header_len :: nat
  expected :: "nat option"
  payload :: bytes

definition decoder_new :: "CodecLimits \<Rightarrow> Decoder" where
  "decoder_new l = \<lparr>d_limits = l, header = replicate MAX_VARINT_BYTES 0, header_len = 0,
     expected = None, payload = []\<rparr>"

definition buffered_len :: "Decoder \<Rightarrow> nat" where
  "buffered_len d = header_len d + length (payload d)"

definition decoder_reset :: "Decoder \<Rightarrow> Decoder" where
  "decoder_reset d = d\<lparr>header_len := 0, expected := None, payload := []\<rparr>"

text \<open>The part of the loop body that takes one byte of the length prefix.\<close>

definition push_header :: "Decoder \<Rightarrow> u8 \<Rightarrow> (Decoder \<times> (CodecError + unit)) option" where
  "push_header d byte =
     (if header_len d = MAX_VARINT_BYTES then Some (decoder_reset d, Inl VarintOverflow)
      else if header_len d \<ge> length (header d) then None
      else
        let d = d\<lparr>header := (header d)[header_len d := byte], header_len := header_len d + 1\<rparr>
        in if byte AND 0x80 = 0
           then case parse_varint (take (header_len d) (header d)) of
               Inl e \<Rightarrow> Some (decoder_reset d, Inl e)
             | Inr (declared, _) \<Rightarrow>
                 (case check_frame_length declared (d_limits d) of
                    Inl e \<Rightarrow> Some (decoder_reset d, Inl e)
                  | Inr _ \<Rightarrow> Some (d\<lparr>expected := Some (unat declared)\<rparr>, Inr ()))
           else Some (d, Inr ()))"

text \<open>The part that fills the payload of the frame whose length is known.\<close>

definition push_payload ::
    "'a WireMessage \<Rightarrow> Decoder \<Rightarrow> bytes \<Rightarrow> (Decoder \<times> bytes \<times> (CodecError + 'a list)) option" where
  "push_payload T d input =
     (case expected d of
        None \<Rightarrow> Some (d, input, Inr [])
      | Some e \<Rightarrow>
          if e < length (payload d) then None
          else
            let n = min (e - length (payload d)) (length input);
                d = d\<lparr>payload := payload d @ take n input\<rparr>;
                input = drop n input
            in if length (payload d) = e
               then Some (decoder_reset d, input,
                 map_ok (\<lambda>m. [m]) (decode_payload T (payload d) (d_limits d)))
               else Some (d, input, Inr []))"

text \<open>One iteration: the header part when no length is known yet, then the payload part.\<close>

definition push_iteration ::
    "'a WireMessage \<Rightarrow> Decoder \<Rightarrow> bytes \<Rightarrow> (Decoder \<times> bytes \<times> (CodecError + 'a list)) option" where
  "push_iteration T d input =
     (if expected d = None
      then case push_header d (hd input) of
          None \<Rightarrow> None
        | Some (d, Inl e) \<Rightarrow> Some (d, tl input, Inl e)
        | Some (d, Inr _) \<Rightarrow> push_payload T d (tl input)
      else push_payload T d input)"

definition push_measure :: "Decoder \<Rightarrow> bytes \<Rightarrow> nat" where
  "push_measure d input = 2 * length input + (if expected d = None then 0 else 1)"

lemma push_payload_measure:
  "push_payload T d input = Some (d', input', r) \<Longrightarrow>
   push_measure d' input' < push_measure d input \<or> (expected d = None \<and> d' = d \<and> input' = input)
   \<or> (input = [] \<and> input' = [] \<and> expected d \<noteq> None)"
  by (auto simp: push_payload_def push_measure_def decoder_reset_def Let_def
      split: option.splits if_splits)

lemma push_iteration_measure:
  assumes "push_iteration T d input = Some (d', input', r)" and "input \<noteq> []"
  shows "push_measure d' input' < push_measure d input"
proof (cases "expected d = None")
  case False
  with assms push_payload_measure [of T d input] show ?thesis
    by (auto simp: push_iteration_def)
next
  case True
  then obtain d1 r1 where h: "push_header d (hd input) = Some (d1, r1)"
    using assms(1) by (auto simp: push_iteration_def split: option.splits)
  have "push_measure d1 (tl input) < push_measure d input"
    using assms(2) True by (cases input) (auto simp: push_measure_def)
  moreover have "push_measure d' input' \<le> push_measure d1 (tl input)" if "r1 = Inr ()"
    using assms(1) True h that push_payload_measure [of T d1 "tl input" d' input' r]
    by (auto simp: push_iteration_def push_payload_def push_measure_def Let_def decoder_reset_def
      split: option.splits if_splits)
  moreover have "d' = d1 \<and> input' = tl input" if "r1 \<noteq> Inr ()"
    using assms(1) True h that by (auto simp: push_iteration_def split: sum.splits)
  ultimately show ?thesis by fastforce
qed

function push_loop ::
    "'a WireMessage \<Rightarrow> Decoder \<Rightarrow> bytes \<Rightarrow> 'a list \<Rightarrow> (Decoder \<times> (CodecError + 'a list)) option" where
  "push_loop T d input messages =
     (if input = [] then Some (d, Inr messages)
      else case push_iteration T d input of
          None \<Rightarrow> None
        | Some (d, input, Inl e) \<Rightarrow> Some (d, Inl e)
        | Some (d, input, Inr ms) \<Rightarrow> push_loop T d input (messages @ ms))"
  by pat_completeness auto
termination
  by (relation "measure (\<lambda>(T, d, input, messages). push_measure d input)")
    (auto dest: push_iteration_measure)

declare push_loop.simps [simp del]

definition push :: "'a WireMessage \<Rightarrow> Decoder \<Rightarrow> bytes \<Rightarrow> (Decoder \<times> (CodecError + 'a list)) option" where
  "push T d input = push_loop T d input []"

definition decoder_finish :: "Decoder \<Rightarrow> CodecError + unit" where
  "decoder_finish d =
     (if header_len d = 0 \<and> payload d = [] \<and> expected d = None then Inr () else Inl UnexpectedEof)"

section \<open>A frame as bytes\<close>

definition payload_of :: "'a WireMessage \<Rightarrow> ('a \<Rightarrow> bytes) \<Rightarrow> 'a \<Rightarrow> bytes" where
  "payload_of T flds m = msg_kind T m # to_le_bytes 2 (version_get CURRENT_VERSION) @ flds m"

definition frame_of :: "'a WireMessage \<Rightarrow> ('a \<Rightarrow> bytes) \<Rightarrow> 'a \<Rightarrow> bytes" where
  "frame_of T flds m = enc_length (length (payload_of T flds m)) @ payload_of T flds m"

lemma length_payload_of: "3 \<le> length (payload_of T flds m)"
  by (simp add: payload_of_def)

lemma parse_enc_length:
  "n < 2 ^ 64 \<Longrightarrow> parse_varint (enc_length n @ tail) = Inr (word_of_nat n, length (enc_length n))"
  by (simp add: enc_length_def parse_varint_varint)

lemma check_frame_length_Inr:
  "check_frame_length v l = Inr u \<longleftrightarrow> 3 \<le> unat v \<and> unat v \<le> unat (codec_max_frame_bytes l)"
  by (auto simp: check_frame_length_def KIND_BYTES_def VERSION_BYTES_def word_less_nat_alt
      not_less)

section \<open>Encoding and decoding one frame\<close>

context wire_message
begin

lemma encode_eq:
  "encode T m l = (case limit l m of
      Some e \<Rightarrow> Inl e
    | None \<Rightarrow> if length (payload_of T fields m) > unat (codec_max_frame_bytes l)
        then Inl (FrameTooLarge (word_of_nat (length (payload_of T fields m)))
               (codec_max_frame_bytes l))
        else Inr (frame_of T fields m))"
  by (simp add: encode_def encode_law payload_of_def frame_of_def enc_length_def limited_def
      Let_def split: option.split)

lemma encode_Inr:
  "encode T m l = Inr f \<longleftrightarrow> limit l m = None \<and> f = frame_of T fields m \<and>
     length (payload_of T fields m) \<le> unat (codec_max_frame_bytes l)"
  by (auto simp: encode_eq split: option.split)

lemma decode_payload_of:
  assumes "valid m" "limit l m = None" "length (payload_of T fields m) \<le> unat (codec_max_frame_bytes l)"
  shows "decode_payload T (payload_of T fields m) l = Inr m"
proof -
  let ?k = "msg_kind T m" and ?v = "version_get CURRENT_VERSION"
  let ?r = "reader_new (payload_of T fields m) l"
  have small: "length (payload_of T fields m) < 2 ^ 64"
    using assms(3) unat_usize_less le_less_trans by blast
  let ?g = "\<lambda>r. and_then (reader_u8 r) (\<lambda>(k, r). and_then (reader_u16 r) (\<lambda>(v, r).
       if ProtocolVersion v \<noteq> CURRENT_VERSION then Inl (UnsupportedVersion (ProtocolVersion v))
       else decode_fields T k r))"
  have "reads ?g l ([?k] @ to_le_bytes 2 ?v @ fields m) m"
    by (intro reads_and_then [OF reads_u8] reads_and_then [OF reads_ints(1)])
      (simp add: decode_law assms)
  then have "?g ?r = Inr (m, advance ?r (length (payload_of T fields m)))"
    using assms(3) small
    by (simp add: reads_def reader_ok_def remaining_def reader_new_def payload_of_def)
  then obtain k r1 v r2 where "reader_u8 ?r = Inr (k, r1)" "reader_u16 r1 = Inr (v, r2)"
      "ProtocolVersion v = CURRENT_VERSION"
      "decode_fields T k r2 = Inr (m, advance ?r (length (payload_of T fields m)))"
    by (auto simp: result_simps split: if_splits)
  then show ?thesis
    by (simp add: decode_payload_def reader_finish_def reader_new_def)
qed

lemma decode_payload_Inr:
  assumes "decode_payload T p l = Inr m" and "length p < 2 ^ 64"
  shows "p = payload_of T fields m \<and> valid m \<and> limit l m = None"
proof -
  let ?r = "reader_new p l"
  from assms(1) obtain k r1 v r2 r3 where
    u8: "reader_u8 ?r = Inr (k, r1)" and u16: "reader_u16 r1 = Inr (v, r2)"
    and ver: "ProtocolVersion v = CURRENT_VERSION"
    and flds: "decode_fields T k r2 = Inr (m, r3)" and fin: "reader_finish r3 = Inr ()"
    by (auto simp: decode_payload_def result_simps split: if_splits)
  let ?g = "\<lambda>r. and_then (reader_u8 r) (\<lambda>(k, r). and_then (reader_u16 r) (\<lambda>(v, r).
       if ProtocolVersion v \<noteq> CURRENT_VERSION then Inl (UnsupportedVersion (ProtocolVersion v))
       else decode_fields T k r))"
  have "parses ?g l (\<lambda>v e. e = payload_of T fields v \<and> valid v \<and> limit l v = None)"
    by (intro parses_and_then [OF parses_u8] parses_and_then [OF parses_ints(1)] parses_if
        parses_error parses_mono [OF accept_law]) (auto simp: payload_of_def CURRENT_VERSION_def)
  moreover have "?g ?r = Inr (m, r3)" using u8 u16 ver flds by simp
  moreover have "reader_ok ?r" "r_limits ?r = l" "remaining ?r = p"
    using assms(2) by (simp_all add: reader_ok_def reader_new_def remaining_def)
  ultimately obtain tail where "p = payload_of T fields m @ tail" "valid m" "limit l m = None"
      "r3 = advance ?r (length (payload_of T fields m))"
    using parsesD [of ?g l _ ?r m r3] by fastforce
  then show ?thesis
    using fin by (simp add: reader_finish_def reader_new_def split: if_splits)
qed

theorem decode_encode:
  assumes "valid m" and "encode T m l = Inr f" and "length f < 2 ^ 64"
  shows "decode T f l = Inr m"
proof -
  let ?p = "payload_of T fields m"
  from assms(2) have f: "limit l m = None" "f = enc_length (length ?p) @ ?p"
    "length ?p \<le> unat (codec_max_frame_bytes l)"
    by (auto simp: encode_Inr frame_of_def)
  then have p: "length ?p < 2 ^ 64" using unat_usize_less le_less_trans by blast
  then have u: "unat (word_of_nat (length ?p) :: u64) = length ?p"
    by (simp add: unsigned_of_nat take_bit_nat_eq_self)
  show ?thesis
    using f assms(1,3) length_payload_of [of T fields m]
    by (simp add: decode_def f(2) parse_enc_length [OF p] check_frame_length_Inr u Let_def
        decode_payload_of result_simps check_frame_length_Inr [THEN iffD2])
qed

theorem encode_decode:
  assumes "decode T f l = Inr m"
  shows "encode T m l = Inr f" and "valid m"
proof -
  from assms obtain v n where v: "parse_varint f = Inr (v, n)" "check_frame_length v l = Inr ()"
      "length f = n + unat v" "n + unat v < 2 ^ 64"
      "decode_payload T (take (unat v) (drop n f)) l = Inr m"
    by (auto simp: decode_def result_simps Let_def split: if_splits)
  from parse_varint_canonical [OF v(1)] obtain p where p: "f = varint v @ p" "n = length (varint v)"
    by blast
  with v(3) have len: "length p = unat v" by simp
  with v p have "p = payload_of T fields m \<and> valid m \<and> limit l m = None"
    by (intro decode_payload_Inr) simp_all
  with len p v(2) show "encode T m l = Inr f" "valid m"
    by (auto simp: encode_Inr frame_of_def enc_length_def check_frame_length_Inr)
qed

end

section \<open>The decoder as an automaton over bytes\<close>

datatype frame_state = InHeader bytes | InPayload nat bytes

fun byte_step :: "'a WireMessage \<Rightarrow> CodecLimits \<Rightarrow> frame_state \<Rightarrow> u8 \<Rightarrow> CodecError + (frame_state \<times> 'a list)" where
  "byte_step T l (InHeader h) b =
     (if length h = MAX_VARINT_BYTES then Inl VarintOverflow
      else if b AND 0x80 \<noteq> 0 then Inr (InHeader (h @ [b]), [])
      else and_then (parse_varint (h @ [b])) (\<lambda>(v, _).
           and_then (check_frame_length v l) (\<lambda>_. Inr (InPayload (unat v) [], []))))"
| "byte_step T l (InPayload e p) b =
     (if length (p @ [b]) = e
      then and_then (decode_payload T (p @ [b]) l) (\<lambda>m. Inr (InHeader [], [m]))
      else Inr (InPayload e (p @ [b]), []))"

definition feed_byte ::
    "'a WireMessage \<Rightarrow> CodecLimits \<Rightarrow> frame_state \<times> 'a list \<Rightarrow> u8 \<Rightarrow> CodecError + (frame_state \<times> 'a list)" where
  "feed_byte T l acc b =
     map_ok (\<lambda>(st, ms). (st, snd acc @ ms)) (byte_step T l (fst acc) b)"

definition feed ::
    "'a WireMessage \<Rightarrow> CodecLimits \<Rightarrow> frame_state \<Rightarrow> 'a list \<Rightarrow> bytes \<Rightarrow> CodecError + (frame_state \<times> 'a list)" where
  "feed T l st ms input = try_fold (feed_byte T l) (st, ms) input"

lemma feed_Nil [simp]: "feed T l st ms [] = Inr (st, ms)"
  by (simp add: feed_def)

lemma feed_Cons:
  "feed T l st ms (b # bs) =
     and_then (byte_step T l st b) (\<lambda>(st', new). feed T l st' (ms @ new) bs)"
  by (cases "byte_step T l st b") (auto simp: feed_def feed_byte_def)

lemma feed_append:
  "feed T l st ms (a @ b) = and_then (feed T l st ms a) (\<lambda>(st', ms'). feed T l st' ms' b)"
  by (auto simp: feed_def try_fold_append intro!: and_then_cong)

lemma feed_messages:
  "feed T l st ms input = map_ok (\<lambda>(st', new). (st', ms @ new)) (feed T l st [] input)"
proof (induction input arbitrary: st ms)
  case Nil
  show ?case by simp
next
  case (Cons b bs)
  show ?case
  proof (cases "byte_step T l st b")
    case (Inr r)
    then show ?thesis
      using Cons.IH [of "fst r" "ms @ snd r"] Cons.IH [of "fst r" "snd r"]
      by (cases "feed T l (fst r) [] bs") (auto simp: feed_Cons split_beta)
  qed (simp add: feed_Cons)
qed

lemma feed_payload_short:
  "length p + length bs < e \<Longrightarrow> feed T l (InPayload e p) ms bs = Inr (InPayload e (p @ bs), ms)"
  by (induction bs arbitrary: p) (simp_all add: feed_Cons)

lemma feed_payload_full:
  assumes "length p < e" and "length p + length bs = e"
  shows "feed T l (InPayload e p) ms bs =
    map_ok (\<lambda>m. (InHeader [], ms @ [m])) (decode_payload T (p @ bs) l)"
proof -
  from assms have "bs \<noteq> []" by auto
  then obtain bs' b where bs: "bs = bs' @ [b]" by (cases bs rule: rev_cases) auto
  with assms have "feed T l (InPayload e p) ms bs' = Inr (InPayload e (p @ bs'), ms)"
    by (intro feed_payload_short) simp
  with assms bs show ?thesis
    by (cases "decode_payload T (p @ bs' @ [b]) l") (simp_all add: feed_append feed_Cons)
qed

subsection \<open>The decoder implements the automaton\<close>

definition decoder_abs :: "Decoder \<Rightarrow> frame_state" where
  "decoder_abs d =
     (case expected d of None \<Rightarrow> InHeader (take (header_len d) (header d))
      | Some e \<Rightarrow> InPayload e (payload d))"

definition decoder_inv :: "CodecLimits \<Rightarrow> Decoder \<Rightarrow> bool" where
  "decoder_inv l d \<longleftrightarrow> d_limits d = l \<and> length (header d) = MAX_VARINT_BYTES \<and>
     header_len d \<le> MAX_VARINT_BYTES \<and>
     (case expected d of None \<Rightarrow> payload d = [] | Some e \<Rightarrow> 0 < header_len d \<and>
        length (payload d) < e \<and> e \<le> unat (codec_max_frame_bytes l))"

lemma decoder_inv_new [simp]: "decoder_inv l (decoder_new l)"
  by (simp add: decoder_inv_def decoder_new_def)

lemma decoder_abs_new [simp]: "decoder_abs (decoder_new l) = InHeader []"
  by (simp add: decoder_abs_def decoder_new_def)

lemma decoder_inv_reset: "decoder_inv l d \<Longrightarrow> decoder_inv l (decoder_reset d)"
  by (simp add: decoder_inv_def decoder_reset_def)

lemma decoder_abs_reset [simp]: "decoder_abs (decoder_reset d) = InHeader []"
  by (simp add: decoder_abs_def decoder_reset_def)

lemma take_update_snoc: "n < length xs \<Longrightarrow> take (Suc n) (xs[n := x]) = take n xs @ [x]"
  by (simp add: take_Suc_conv_app_nth)

lemma push_header_refines:
  assumes inv: "decoder_inv l d" and none: "expected d = None"
  shows "\<exists>d'. decoder_inv l d' \<and>
    (case byte_step T l (decoder_abs d) b of
       Inl e \<Rightarrow> push_header d b = Some (d', Inl e) \<and> decoder_abs d' = InHeader []
     | Inr (st, ms) \<Rightarrow> push_header d b = Some (d', Inr ()) \<and> decoder_abs d' = st \<and> ms = [])"
proof (cases "header_len d = MAX_VARINT_BYTES")
  case True
  with assms show ?thesis
    by (intro exI [of _ "decoder_reset d"])
      (simp add: decoder_inv_reset push_header_def decoder_abs_def decoder_inv_def decoder_reset_def)
next
  case False
  let ?h = "take (header_len d) (header d) @ [b]"
  define d1 where "d1 = d\<lparr>header := (header d)[header_len d := b], header_len := header_len d + 1\<rparr>"
  from False inv have lt: "header_len d < MAX_VARINT_BYTES" "length (header d) = MAX_VARINT_BYTES"
    by (simp_all add: decoder_inv_def)
  then have h: "take (header_len d1) (header d1) = ?h" by (simp add: d1_def take_update_snoc)
  have inv1: "decoder_inv l d1" using inv none lt by (simp add: decoder_inv_def d1_def)
  have d1: "expected d1 = None" "d_limits d1 = l" using none inv by (simp_all add: d1_def decoder_inv_def)
  have run: "push_header d b =
      (if b AND 0x80 = 0
       then case parse_varint ?h of
           Inl e \<Rightarrow> Some (decoder_reset d1, Inl e)
         | Inr (declared, _) \<Rightarrow>
             (case check_frame_length declared l of
                Inl e \<Rightarrow> Some (decoder_reset d1, Inl e)
              | Inr _ \<Rightarrow> Some (d1\<lparr>expected := Some (unat declared)\<rparr>, Inr ()))
       else Some (d1, Inr ()))"
    unfolding push_header_def Let_def d1_def [symmetric] h d1(2) using lt by simp
  have step: "byte_step T l (decoder_abs d) b =
      (if b AND 0x80 \<noteq> 0 then Inr (InHeader ?h, [])
       else and_then (parse_varint ?h) (\<lambda>(v, _).
         and_then (check_frame_length v l) (\<lambda>_. Inr (InPayload (unat v) [], []))))"
    using lt none by (simp add: decoder_abs_def)
  have "payload d1 = []" "header_len d1 > 0" using inv1 d1 by (simp_all add: decoder_inv_def d1_def)
  then have abs1: "decoder_abs d1 = InHeader ?h"
      "decoder_abs (d1\<lparr>expected := Some n\<rparr>) = InPayload n []" for n
    using h d1 by (simp_all add: decoder_abs_def)
  note fin = inv1 decoder_inv_reset [OF inv1] h d1 abs1 \<open>payload d1 = []\<close> \<open>0 < header_len d1\<close>
  show ?thesis
  proof (cases "b AND 0x80 = 0")
    case False
    with fin show ?thesis by (intro exI [of _ d1]) (simp add: run step)
  next
    case True
    show ?thesis
    proof (cases "and_then (parse_varint ?h) (\<lambda>(v, _). and_then (check_frame_length v l) (\<lambda>_. Inr v))")
      case (Inl e)
      with True fin show ?thesis
        by (intro exI [of _ "decoder_reset d1"]) (auto simp: run step result_simps)
    next
      case (Inr v)
      then obtain n where v: "parse_varint ?h = Inr (v, n)" "check_frame_length v l = Inr ()"
        by (auto simp: result_simps)
      from v(2) fin have "decoder_inv l (d1\<lparr>expected := Some (unat v)\<rparr>)"
        by (auto simp: decoder_inv_def check_frame_length_Inr)
      with True v fin show ?thesis
        by (intro exI [of _ "d1\<lparr>expected := Some (unat v)\<rparr>"]) (simp add: run step)
    qed
  qed
qed

text \<open>The decoder's state and answer after the automaton has made a run.\<close>

definition outcome :: "CodecError + (frame_state \<times> 'a list) \<Rightarrow> Decoder \<Rightarrow> CodecError + 'a list \<Rightarrow> bool" where
  "outcome s d r \<longleftrightarrow>
     (case s of Inl e \<Rightarrow> r = Inl e \<and> decoder_abs d = InHeader []
      | Inr (st, ms) \<Rightarrow> r = Inr ms \<and> decoder_abs d = st)"

lemma push_payload_refines:
  assumes inv: "decoder_inv l d"
  shows "\<exists>d' n r. decoder_inv l d' \<and> push_payload T d input = Some (d', drop n input, r) \<and>
    outcome (feed T l (decoder_abs d) [] (take n input)) d' r"
proof (cases "expected d")
  case None
  with inv show ?thesis
    by (intro exI [of _ d] exI [of _ 0]) (simp add: push_payload_def outcome_def)
next
  case (Some e)
  let ?n = "min (e - length (payload d)) (length input)"
  let ?p = "payload d @ take ?n input"
  from Some inv have e: "length (payload d) < e" and lim: "d_limits d = l"
    by (simp_all add: decoder_inv_def)
  show ?thesis
  proof (cases "length ?p = e")
    case full: True
    with e have "length (payload d) + length (take ?n input) = e" by simp
    note run = feed_payload_full [OF e this, of T l "[]"]
    show ?thesis
      using full e inv lim Some run decoder_inv_reset [OF inv]
      by (intro exI [of _ "decoder_reset d"] exI [of _ ?n])
        (cases "decode_payload T ?p l";
          simp add: push_payload_def Let_def outcome_def decoder_abs_def decoder_reset_def)
  next
    case False
    with e have short: "length (payload d) + length (take ?n input) < e" by auto
    note run = feed_payload_short [OF this, of T l "[]"]
    show ?thesis
      using False e inv lim Some run short
      by (intro exI [of _ "d\<lparr>payload := ?p\<rparr>"] exI [of _ ?n])
        (simp add: push_payload_def Let_def outcome_def decoder_abs_def decoder_inv_def)
  qed
qed

lemma push_iteration_refines:
  assumes inv: "decoder_inv l d" and "input \<noteq> []"
  shows "\<exists>d' n r. decoder_inv l d' \<and> push_iteration T d input = Some (d', drop n input, r) \<and>
    outcome (feed T l (decoder_abs d) [] (take n input)) d' r"
proof (cases "expected d = None")
  case False
  then have "push_iteration T d input = push_payload T d input" by (simp only: push_iteration_def if_False)
  with push_payload_refines [OF inv, of T input] show ?thesis by simp
next
  case True
  from assms(2) obtain b bs where input: "input = b # bs" by (cases input) auto
  from push_header_refines [OF inv True, of b T] obtain d1 where d1: "decoder_inv l d1"
    "case byte_step T l (decoder_abs d) b of
       Inl e \<Rightarrow> push_header d b = Some (d1, Inl e) \<and> decoder_abs d1 = InHeader []
     | Inr (st, ms) \<Rightarrow> push_header d b = Some (d1, Inr ()) \<and> decoder_abs d1 = st \<and> ms = []"
    by blast
  show ?thesis
  proof (cases "byte_step T l (decoder_abs d) b")
    case (Inl e)
    with d1 input True show ?thesis
      by (intro exI [of _ d1] exI [of _ 1]) (simp add: push_iteration_def outcome_def feed_Cons)
  next
    case (Inr r)
    from push_payload_refines [OF d1(1), of T bs] obtain d' n x where
      "decoder_inv l d'" "push_payload T d1 bs = Some (d', drop n bs, x)"
      "outcome (feed T l (decoder_abs d1) [] (take n bs)) d' x"
      by blast
    with d1 Inr input True show ?thesis
      by (intro exI [of _ d'] exI [of _ "Suc n"]) (auto simp: push_iteration_def feed_Cons)
  qed
qed

theorem push_loop_refines:
  assumes "decoder_inv l d"
  shows "\<exists>d' r. decoder_inv l d' \<and> push_loop T d input ms = Some (d', r) \<and>
    outcome (feed T l (decoder_abs d) ms input) d' r"
  using assms
proof (induction T d input ms rule: push_loop.induct)
  case (1 T d input ms)
  show ?case
  proof (cases "input = []")
    case True
    with 1 show ?thesis by (intro exI [of _ d]) (simp add: push_loop.simps [of T d] outcome_def)
  next
    case False
    from push_iteration_refines [OF "1.prems" False, of T] obtain d1 n r where
      d1: "decoder_inv l d1" and it: "push_iteration T d input = Some (d1, drop n input, r)"
      and out: "outcome (feed T l (decoder_abs d) [] (take n input)) d1 r"
      by blast
    have split: "feed T l (decoder_abs d) ms input =
        and_then (feed T l (decoder_abs d) ms (take n input))
          (\<lambda>(st', ms'). feed T l st' ms' (drop n input))"
      by (metis append_take_drop_id feed_append)
    show ?thesis
    proof (cases r)
      case (Inl e)
      with out d1 it False split feed_messages [of T l "decoder_abs d" ms "take n input"]
      show ?thesis
        by (intro exI [of _ d1]) (auto simp: push_loop.simps [of T d input] outcome_def
            split: sum.splits)
    next
      case (Inr new)
      with out have st: "feed T l (decoder_abs d) ms (take n input) = Inr (decoder_abs d1, ms @ new)"
        using feed_messages [of T l "decoder_abs d" ms "take n input"]
        by (auto simp: outcome_def split: sum.splits)
      from "1.IH" [OF False it [THEN sym, THEN sym] refl refl Inr d1]
      show ?thesis
        using it Inr False st split by (simp add: push_loop.simps [of T d input])
    qed
  qed
qed

section \<open>The decoder on a stream of frames\<close>

lemma decoder_finish_abs:
  "decoder_inv l d \<Longrightarrow>
   decoder_finish d = (if decoder_abs d = InHeader [] then Inr () else Inl UnexpectedEof)"
  by (auto simp: decoder_finish_def decoder_abs_def decoder_inv_def MAX_VARINT_BYTES_def
      split: option.splits)

lemma buffered_len_bound:
  "decoder_inv l d \<Longrightarrow> buffered_len d \<le> MAX_VARINT_BYTES + unat (codec_max_frame_bytes l)"
  by (auto simp: decoder_inv_def buffered_len_def split: option.splits)

lemma feed_header_continues:
  "\<forall>b\<in>set bs. b AND 0x80 \<noteq> 0 \<Longrightarrow> length h + length bs \<le> MAX_VARINT_BYTES \<Longrightarrow>
   feed T l (InHeader h) ms bs = Inr (InHeader (h @ bs), ms)"
  by (induction bs arbitrary: h) (simp_all add: feed_Cons)

lemma feed_header:
  assumes "check_frame_length v l = Inr u"
  shows "feed T l (InHeader []) ms (varint v) = Inr (InPayload (unat v) [], ms)"
proof -
  obtain front z where v: "varint v = front @ [z]" "\<forall>b\<in>set front. b AND 0x80 \<noteq> 0" "z AND 0x80 = 0"
    using varint_bytes by blast
  with varint_length(2) [of v] have len: "length front < MAX_VARINT_BYTES"
    by (simp add: MAX_VARINT_BYTES_def)
  have "parse_varint (front @ [z]) = Inr (v, length (varint v))"
    using parse_varint_varint [of v "[]"] v by simp
  with v len assms show ?thesis
    by (simp add: feed_append feed_Cons feed_header_continues [of front "[]"])
qed

text \<open>A proper, nonempty part of a frame leaves the decoder inside that frame.\<close>

lemma feed_cut_frame:
  assumes "strict_prefix p (varint v @ q)" and "p \<noteq> []" and "check_frame_length v l = Inr ()"
    and "length q = unat v"
  shows "\<exists>st. feed T l (InHeader []) ms p = Inr (st, ms) \<and> st \<noteq> InHeader []"
proof (cases "length p < length (varint v)")
  case True
  obtain front z where v: "varint v = front @ [z]" "\<forall>b\<in>set front. b AND 0x80 \<noteq> 0"
    using varint_bytes by blast
  from assms(1) True v have "prefix p front"
    by (auto simp: strict_prefix_def prefix_def append_eq_append_conv2 append_eq_Cons_conv
        dest!: arg_cong [of _ _ length])
  with v have "\<forall>b\<in>set p. b AND 0x80 \<noteq> 0" using set_mono_prefix by blast
  moreover have "length p \<le> MAX_VARINT_BYTES"
    using True varint_length(2) [of v] by (simp add: MAX_VARINT_BYTES_def)
  ultimately show ?thesis using assms(2) by (simp add: feed_header_continues)
next
  case False
  have "prefix p (varint v @ q)" using assms(1) by (rule strict_prefixE) simp
  with False have "prefix (varint v) p"
    by (intro prefix_length_prefix [of "varint v" "varint v @ q" p]) simp_all
  then obtain r where r: "p = varint v @ r" by (elim prefixE)
  with assms(1) have "strict_prefix r q" by (simp add: strict_prefix_def)
  note p = r this
  then have "length r < unat v"
    using assms(4) prefix_length_less [OF p(2)] by simp
  with p feed_header [OF assms(3), of T ms] show ?thesis
    by (simp add: feed_append feed_payload_short)
qed

context wire_message
begin

lemma feed_frame:
  assumes "valid m" and "encode T m l = Inr f"
  shows "feed T l (InHeader []) ms f = Inr (InHeader [], ms @ [m])"
proof -
  let ?p = "payload_of T fields m"
  from assms(2) have f: "limit l m = None" "f = enc_length (length ?p) @ ?p"
    "length ?p \<le> unat (codec_max_frame_bytes l)"
    by (auto simp: encode_Inr frame_of_def)
  then have "length ?p < 2 ^ 64" using unat_usize_less le_less_trans by blast
  then have u: "unat (word_of_nat (length ?p) :: u64) = length ?p"
    by (simp add: unsigned_of_nat take_bit_nat_eq_self)
  then have "check_frame_length (word_of_nat (length ?p)) l = Inr ()"
    using f(3) length_payload_of [of T fields m] by (simp add: check_frame_length_Inr)
  note header = feed_header [OF this, of T ms, unfolded u]
  have "feed T l (InPayload (length ?p) []) ms ?p = Inr (InHeader [], ms @ [m])"
    using length_payload_of [of T fields m] f assms(1)
    by (subst feed_payload_full) (auto simp: decode_payload_of)
  with header f(2) show ?thesis by (simp add: enc_length_def feed_append)
qed

lemma feed_frames:
  assumes "list_all2 (\<lambda>m f. valid m \<and> encode T m l = Inr f) msgs frames"
  shows "feed T l (InHeader []) ms (concat frames) = Inr (InHeader [], ms @ msgs)"
  using assms
proof (induction msgs frames arbitrary: ms rule: list_all2_induct)
  case (Cons m msgs f frames)
  then have "feed T l (InHeader []) ms f = Inr (InHeader [], ms @ [m])" by (intro feed_frame) auto
  with Cons.IH show ?case by (simp add: feed_append)
qed simp

lemma feed_cut:
  assumes "valid m" and "encode T m l = Inr f" and "strict_prefix p f" and "p \<noteq> []"
  shows "\<exists>st. feed T l (InHeader []) ms p = Inr (st, ms) \<and> st \<noteq> InHeader []"
proof -
  let ?p = "payload_of T fields m"
  from assms(2) have f: "f = varint (word_of_nat (length ?p)) @ ?p"
    "length ?p \<le> unat (codec_max_frame_bytes l)"
    by (auto simp: encode_Inr frame_of_def enc_length_def)
  then have "length ?p < 2 ^ 64" using unat_usize_less le_less_trans by blast
  then have u: "unat (word_of_nat (length ?p) :: u64) = length ?p"
    by (simp add: unsigned_of_nat take_bit_nat_eq_self)
  with f(2) length_payload_of [of T fields m]
  have "check_frame_length (word_of_nat (length ?p)) l = Inr ()"
    by (simp add: check_frame_length_Inr)
  with assms(3,4) u show ?thesis unfolding f(1) by (intro feed_cut_frame [OF _ _ _ u [symmetric]]) simp_all
qed

lemma push_frames_cut:
  assumes "list_all2 (\<lambda>m f. valid m \<and> encode T m l = Inr f) msgs frames"
    and "valid m" and "encode T m l = Inr f" and "strict_prefix p f"
  shows "\<exists>d. push T (decoder_new l) (concat frames @ p) = Some (d, Inr msgs) \<and>
    decoder_finish d = (if p = [] then Inr () else Inl UnexpectedEof)"
proof -
  let ?s = "concat frames @ p"
  obtain st where st: "feed T l (InHeader []) [] ?s = Inr (st, msgs)" "st = InHeader [] \<longleftrightarrow> p = []"
    using feed_frames [OF assms(1), of "[]"] feed_cut [OF assms(2-4), of msgs]
    by (cases "p = []") (auto simp: feed_append)
  obtain d r where d: "decoder_inv l d" "push_loop T (decoder_new l) ?s [] = Some (d, r)"
    "outcome (feed T l (InHeader []) [] ?s) d r"
    using push_loop_refines [OF decoder_inv_new, of l T ?s "[]"] by auto
  with st have "r = Inr msgs" "decoder_abs d = st"
    by (simp_all add: outcome_def)
  with d st show ?thesis
    by (intro exI [of _ d]) (simp add: push_def decoder_finish_abs)
qed

end

text \<open>A sequence of \<open>push\<close> calls as the stream reader makes it, up to the first error.\<close>

fun push_all ::
    "'a WireMessage \<Rightarrow> Decoder \<Rightarrow> bytes list \<Rightarrow> (Decoder \<times> (CodecError + 'a list)) option" where
  "push_all T d [] = Some (d, Inr [])"
| "push_all T d (c # cs) =
     (case push T d c of
        None \<Rightarrow> None
      | Some (d, Inl e) \<Rightarrow> Some (d, Inl e)
      | Some (d, Inr ms) \<Rightarrow> map_option (\<lambda>(d, r). (d, map_ok ((@) ms) r)) (push_all T d cs))"

lemma push_all_refines:
  assumes "decoder_inv l d"
  shows "\<exists>d' r. decoder_inv l d' \<and> push_all T d cs = Some (d', r) \<and>
    outcome (feed T l (decoder_abs d) [] (concat cs)) d' r"
  using assms
proof (induction cs arbitrary: d)
  case Nil
  then show ?case by (intro exI [of _ d]) (simp add: outcome_def)
next
  case (Cons c cs)
  from push_loop_refines [OF Cons.prems, of T c "[]"] obtain d1 r1 where
    1: "decoder_inv l d1" "push T d c = Some (d1, r1)"
      "outcome (feed T l (decoder_abs d) [] c) d1 r1"
    unfolding push_def by blast
  show ?case
  proof (cases r1)
    case (Inl e)
    with 1 show ?thesis
      by (intro exI [of _ d1]) (auto simp: outcome_def feed_append split: sum.splits)
  next
    case (Inr ms)
    from Cons.IH [OF 1(1)] obtain d2 r2 where
      2: "decoder_inv l d2" "push_all T d1 cs = Some (d2, r2)"
        "outcome (feed T l (decoder_abs d1) [] (concat cs)) d2 r2"
      by blast
    with 1 Inr feed_messages [of T l "decoder_abs d1" ms "concat cs"] show ?thesis
      by (intro exI [of _ d2])
        (auto simp: outcome_def feed_append split: sum.splits)
  qed
qed

section \<open>Properties of the codec\<close>

text \<open>
  C11. Decoding the frame that \<open>encode\<close> produced gives the message back, for each of the three
  message categories, every message the types allow and every limits under which it encodes.
\<close>

theorem wire_roundtrip:
  assumes "length f < 2 ^ 64"
  shows "(control_ok c \<and> encode control_wire c l = Inr f \<longrightarrow> decode control_wire f l = Inr c) \<and>
    (index_ok i \<and> encode index_wire i l = Inr f \<longrightarrow> decode index_wire f l = Inr i) \<and>
    (transfer_ok t \<and> encode transfer_wire t l = Inr f \<longrightarrow> decode transfer_wire f l = Inr t)"
  using assms control.decode_encode index.decode_encode transfer.decode_encode by blast

text \<open>
  C12. The encoding is canonical: bytes that decode to a message are exactly the bytes that
  \<open>encode\<close> produces for it, and the message is one the types allow.
\<close>

theorem wire_canonical:
  "(decode control_wire f l = Inr c \<longrightarrow> encode control_wire c l = Inr f \<and> control_ok c) \<and>
   (decode index_wire f l = Inr i \<longrightarrow> encode index_wire i l = Inr f \<and> index_ok i) \<and>
   (decode transfer_wire f l = Inr t \<longrightarrow> encode transfer_wire t l = Inr f \<and> transfer_ok t)"
  using control.encode_decode index.encode_decode transfer.encode_decode by blast

text \<open>
  C13. The incremental decoder does not depend on how the stream is cut into chunks: pushing the
  chunks one after the other returns the same messages or the same error as one push of the whole
  stream, and leaves the decoder in the same state. No push panics, and the decoder never
  buffers more than one length prefix and one frame within the limit.
\<close>

theorem push_chunk_independent:
  "\<exists>d1 d2 r. push_all T (decoder_new l) chunks = Some (d1, r) \<and>
     push T (decoder_new l) (concat chunks) = Some (d2, r) \<and>
     decoder_abs d1 = decoder_abs d2 \<and>
     buffered_len d1 \<le> MAX_VARINT_BYTES + unat (codec_max_frame_bytes l)"
proof -
  obtain d1 r1 where 1: "decoder_inv l d1" "push_all T (decoder_new l) chunks = Some (d1, r1)"
    "outcome (feed T l (InHeader []) [] (concat chunks)) d1 r1"
    using push_all_refines [OF decoder_inv_new, of l T chunks] by auto
  obtain d2 r2 where 2: "push T (decoder_new l) (concat chunks) = Some (d2, r2)"
    "outcome (feed T l (InHeader []) [] (concat chunks)) d2 r2"
    using push_loop_refines [OF decoder_inv_new, of l T "concat chunks" "[]"]
    by (auto simp: push_def)
  from 1 2 have "r1 = r2 \<and> decoder_abs d1 = decoder_abs d2"
    by (auto simp: outcome_def split: sum.splits)
  with 1 2 buffered_len_bound [OF 1(1)] show ?thesis by blast
qed

text \<open>
  C27. A stream that is the concatenation of encoded frames, followed by a proper part of one more
  frame, is decoded to exactly the messages of the complete frames; \<open>finish\<close> then succeeds if
  the stream ended at a frame boundary and reports the truncation otherwise.
\<close>

theorem push_frame_stream:
  assumes "list_all2 (\<lambda>m f. index_ok m \<and> encode index_wire m l = Inr f) msgs frames"
    and "index_ok i" and "encode index_wire i l = Inr f" and "strict_prefix part f"
  shows "\<exists>d. push index_wire (decoder_new l) (concat frames @ part) = Some (d, Inr msgs) \<and>
    decoder_finish d = (if part = [] then Inr () else Inl UnexpectedEof)"
  using index.push_frames_cut [OF assms] .

subsection \<open>The properties at sample messages\<close>

definition sample_frame :: bytes where [samples]:
  "sample_frame = [71, 1, 1, 0, 2, 1, 97, 1, 98, 2, 0xA4, 1, 0, 0, 5, 0, 0, 0, 0, 0, 0, 0, 0, 0, 0, 0,
     0, 0, 0, 0, 3, 0, 0, 0, 0, 0, 0, 0, 1] @ replicate 32 7 @ [0]"

lemma sample_file_frame: "encode index_wire (Record sample_file) sample_limits = Inr sample_frame"
  by (simp add: index.encode_eq payload_of_def frame_of_def layout_simps samples)

lemma sample_file_ok: "index_ok (Record sample_file)"
  by (simp add: layout_simps samples)

lemma sample_end_frame: "encode index_wire End sample_limits = Inr [3, 2, 1, 0]"
  by (simp add: index.encode_eq payload_of_def frame_of_def layout_simps samples)

lemma sample_delete_frame:
  "encode control_wire (Operation (Delete (OperationId 7) sample_path Symlink)) sample_limits =
     Inr [18, 10, 1, 0, 4, 7, 0, 0, 0, 0, 0, 0, 0, 2, 1, 97, 1, 98, 3]"
  by (simp add: control.encode_eq payload_of_def frame_of_def layout_simps samples)

lemma sample_delta_frame:
  "encode transfer_wire (Delta [5, 6]) sample_limits = Inr [6, 4, 1, 0, 2, 5, 6]"
  by (simp add: transfer.encode_eq payload_of_def frame_of_def layout_simps samples)

theorem wire_roundtrip_witness:
  "decode control_wire [18, 10, 1, 0, 4, 7, 0, 0, 0, 0, 0, 0, 0, 2, 1, 97, 1, 98, 3] sample_limits =
     Inr (Operation (Delete (OperationId 7) sample_path Symlink)) \<and>
   decode index_wire sample_frame sample_limits = Inr (Record sample_file) \<and>
   decode transfer_wire [6, 4, 1, 0, 2, 5, 6] sample_limits = Inr (Delta [5, 6])"
  using wire_roundtrip [where c = "Operation (Delete (OperationId 7) sample_path Symlink)"
      and f = "[18, 10, 1, 0, 4, 7, 0, 0, 0, 0, 0, 0, 0, 2, 1, 97, 1, 98, 3]" and l = sample_limits]
    wire_roundtrip [where i = "Record sample_file" and f = sample_frame and l = sample_limits]
    wire_roundtrip [where t = "Delta [5, 6]" and f = "[6, 4, 1, 0, 2, 5, 6]" and l = sample_limits]
    sample_file_frame sample_file_ok sample_delete_frame sample_delta_frame
  by (simp add: samples path_ok_def component_ok_def)

theorem wire_canonical_witness:
  "decode index_wire [3, 2, 1, 0] sample_limits = Inr End \<and>
   encode index_wire End sample_limits = Inr [3, 2, 1, 0] \<and> index_ok End"
proof -
  have "decode index_wire [3, 2, 1, 0] sample_limits = Inr End"
    by (rule index.decode_encode [OF _ sample_end_frame]) simp_all
  with wire_canonical [where f = "[3, 2, 1, 0]" and l = sample_limits and i = End] show ?thesis
    by simp
qed

theorem push_frame_stream_witness:
  "\<exists>d. push index_wire (decoder_new sample_limits) (concat [sample_frame] @ [3, 2, 1]) =
     Some (d, Inr [Record sample_file]) \<and> decoder_finish d = Inl UnexpectedEof"
  using push_frame_stream [where msgs = "[Record sample_file]" and frames = "[sample_frame]"
      and l = sample_limits and i = End and f = "[3, 2, 1, 0]" and part = "[3, 2, 1]"]
    sample_file_frame sample_file_ok sample_end_frame
  by simp

end
