(* ===== verification/Planner.thy ===== *)
theory Planner
  imports Samples Errors
begin

text \<open>
  The merge planner of \<open>crates/quicsync-core/src/sync/planner.rs\<close>. A receiver is the list of what
  arrives on it until its sender is dropped; the sender is the list of operations it has sent,
  with the number of operations the consumer still accepts before it closes (\<open>None\<close>: it stays
  open). The loop is refined to a diff of two indexes path by path, from which the properties of
  the produced operations follow.
\<close>

section \<open>The planner\<close>

type_synonym index_channel = "(QuicSyncError + IndexMessage) list"

record Planner =
  source :: index_channel
  destination :: index_channel
  left :: "IndexRecord option"
  right :: "IndexRecord option"
  next_id :: u64
  sent :: "Operation list"
  accepts :: "nat option"

definition plan_failure :: "string \<Rightarrow> QuicSyncError" where
  "plan_failure message = quic_sync_error_new OperationFailed (Some Planning) message"

fun plan_read :: "index_channel \<Rightarrow> index_channel \<times> (QuicSyncError + IndexRecord option)" where
  "plan_read [] = ([], Inl (plan_failure ''index closed before End''))"
| "plan_read (Inl e # rest) = (rest, Inl e)"
| "plan_read (Inr (Record r) # rest) = (rest, Inr (Some r))"
| "plan_read (Inr End # rest) = (rest, Inr None)"

definition read_left :: "Planner \<Rightarrow> Planner \<times> (QuicSyncError + unit)" where
  "read_left st =
     (case plan_read (source st) of
        (rest, Inl e) \<Rightarrow> (st\<lparr>source := rest\<rparr>, Inl e)
      | (rest, Inr r) \<Rightarrow> (st\<lparr>source := rest, left := r\<rparr>, Inr ()))"

definition read_right :: "Planner \<Rightarrow> Planner \<times> (QuicSyncError + unit)" where
  "read_right st =
     (case plan_read (destination st) of
        (rest, Inl e) \<Rightarrow> (st\<lparr>destination := rest\<rparr>, Inl e)
      | (rest, Inr r) \<Rightarrow> (st\<lparr>destination := rest, right := r\<rparr>, Inr ()))"

definition plan_id :: "Planner \<Rightarrow> OperationId \<times> Planner" where
  "plan_id st = (OperationId (next_id st), st\<lparr>next_id := next_id st + 1\<rparr>)"

definition plan_send :: "Planner \<Rightarrow> Operation \<Rightarrow> Planner \<times> (QuicSyncError + unit)" where
  "plan_send st op =
     (case accepts st of
        Some 0 \<Rightarrow> (st, Inl (plan_failure ''operation consumer closed''))
      | Some (Suc n) \<Rightarrow> (st\<lparr>sent := sent st @ [op], accepts := Some n\<rparr>, Inr ())
      | None \<Rightarrow> (st\<lparr>sent := sent st @ [op]\<rparr>, Inr ()))"

definition record_kind :: "IndexRecord \<Rightarrow> EntryKind" where
  "record_kind r = kind (metadata r)"

definition upsert_operation :: "bool \<Rightarrow> OperationId \<Rightarrow> IndexRecord \<Rightarrow> Operation" where
  "upsert_operation update i r =
     (case record_kind r of
        Directory \<Rightarrow> UpsertDirectory i r
      | RegularFile \<Rightarrow> UpsertFile update i r
      | Symlink \<Rightarrow> UpsertSymlink i r)"

text \<open>The two \<open>if let\<close> blocks inside \<open>if a != b\<close>.\<close>

definition plan_delete ::
    "IndexRecord option \<Rightarrow> IndexRecord option \<Rightarrow> Planner \<Rightarrow> Planner \<times> (QuicSyncError + unit)" where
  "plan_delete a b st =
     (case b of
        None \<Rightarrow> (st, Inr ())
      | Some r \<Rightarrow>
          if map_option record_kind a \<noteq> Some (record_kind r)
          then let (i, st) = plan_id st in plan_send st (Delete i (path r) (record_kind r))
          else (st, Inr ()))"

definition plan_upsert ::
    "bool \<Rightarrow> IndexRecord option \<Rightarrow> Planner \<Rightarrow> Planner \<times> (QuicSyncError + unit)" where
  "plan_upsert update a st =
     (case a of
        None \<Rightarrow> (st, Inr ())
      | Some r \<Rightarrow> let (i, st) = plan_id st in plan_send st (upsert_operation update i r))"

definition plan_emit ::
    "IndexRecord option \<Rightarrow> IndexRecord option \<Rightarrow> Planner \<Rightarrow> Planner \<times> (QuicSyncError + unit)" where
  "plan_emit a b st =
     (if a \<noteq> b
      then let update = (map_option record_kind b = Some RegularFile)
           in and_do (plan_delete a b st) (\<lambda>st _. plan_upsert update a st)
      else (st, Inr ()))"

text \<open>Which inputs an iteration consumes; \<open>None\<close> is the return at the end of both.\<close>

fun plan_consume :: "IndexRecord option \<Rightarrow> IndexRecord option \<Rightarrow> (bool \<times> bool) option" where
  "plan_consume (Some a) (Some b) = Some (path a \<le> path b, path b \<le> path a)"
| "plan_consume (Some _) None = Some (True, False)"
| "plan_consume None (Some _) = Some (False, True)"
| "plan_consume None None = None"

definition plan_iteration :: "bool \<Rightarrow> bool \<Rightarrow> Planner \<Rightarrow> Planner \<times> (QuicSyncError + unit)" where
  "plan_iteration consume_source consume_destination st =
     (let a = if consume_source then left st else None;
          b = if consume_destination then right st else None;
          st = st\<lparr>left := if consume_source then None else left st,
                  right := if consume_destination then None else right st\<rparr>
      in and_do (plan_emit a b st) (\<lambda>st _.
         and_do (if consume_source then read_left st else (st, Inr ())) (\<lambda>st _.
           if consume_destination then read_right st else (st, Inr ()))))"

definition plan_measure :: "Planner \<Rightarrow> nat" where
  "plan_measure st = length (source st) + length (destination st) +
     (if left st = None then 0 else 1) + (if right st = None then 0 else 1)"

lemma plan_send_measure:
  "plan_send st op = (st', r) \<Longrightarrow> source st' = source st \<and> destination st' = destination st \<and>
     left st' = left st \<and> right st' = right st"
  by (auto simp: plan_send_def split: option.splits nat.splits)

lemma plan_emit_measure:
  "plan_emit a b st = (st', r) \<Longrightarrow> source st' = source st \<and> destination st' = destination st \<and>
     left st' = left st \<and> right st' = right st"
  by (cases r) (auto simp: plan_emit_def plan_delete_def plan_upsert_def plan_id_def Let_def result_simps
      split: option.splits if_splits dest!: plan_send_measure)

lemma plan_read_length:
  "plan_read c = (rest, Inr r) \<Longrightarrow> length c = Suc (length rest)"
  by (cases c rule: plan_read.cases) auto

lemma read_left_measure:
  "read_left st = (st', Inr u) \<Longrightarrow> length (source st) = Suc (length (source st')) \<and>
     destination st' = destination st \<and> right st' = right st"
  by (auto simp: read_left_def dest!: plan_read_length split: prod.splits sum.splits)

lemma read_right_measure:
  "read_right st = (st', Inr u) \<Longrightarrow> length (destination st) = Suc (length (destination st')) \<and>
     source st' = source st \<and> left st' = left st"
  by (auto simp: read_right_def dest!: plan_read_length split: prod.splits sum.splits)

lemma plan_iteration_measure:
  assumes "plan_consume (left st) (right st) = Some (cs, cd)"
    and "plan_iteration cs cd st = (st', Inr u)"
  shows "plan_measure st' < plan_measure st"
proof -
  let ?a = "if cs then left st else None" and ?b = "if cd then right st else None"
  let ?st = "st\<lparr>left := if cs then None else left st, right := if cd then None else right st\<rparr>"
  from assms(2) obtain s1 s2 where
    s1: "plan_emit ?a ?b ?st = (s1, Inr ())" and
    s2: "(if cs then read_left s1 else (s1, Inr ())) = (s2, Inr ())" and
    s3: "(if cd then read_right s2 else (s2, Inr ())) = (st', Inr u)"
    by (auto simp: plan_iteration_def Let_def result_simps)
  have some: "cs \<longrightarrow> left st \<noteq> None" "cd \<longrightarrow> right st \<noteq> None" "cs \<or> cd"
    using assms(1) by (cases "left st"; cases "right st"; auto)+
  show ?thesis
    using plan_emit_measure [OF s1] s2 s3 some
    by (cases cs; cases cd) (auto simp: plan_measure_def dest!: read_left_measure read_right_measure)
qed

function plan_loop :: "Planner \<Rightarrow> Planner \<times> (QuicSyncError + unit)" where
  "plan_loop st =
     (case plan_consume (left st) (right st) of
        None \<Rightarrow> (st, Inr ())
      | Some (consume_source, consume_destination) \<Rightarrow>
          and_do (plan_iteration consume_source consume_destination st) (\<lambda>st _. plan_loop st))"
  by pat_completeness auto
termination
  by (relation "measure plan_measure") (auto dest: plan_iteration_measure)

declare plan_loop.simps [simp del]

definition plan ::
    "index_channel \<Rightarrow> index_channel \<Rightarrow> nat option \<Rightarrow> Operation list \<times> (QuicSyncError + unit)" where
  "plan src dst accepting =
     (let st = \<lparr>source = src, destination = dst, left = None, right = None, next_id = 0,
                sent = [], accepts = accepting\<rparr>;
          (st, result) = and_do (read_left st) (\<lambda>st _. and_do (read_right st) (\<lambda>st _. plan_loop st))
      in (sent st, result))"

section \<open>The merge of two record lists\<close>

text \<open>What is sent for one path, up to the ids, and the numbering of a list of such operations.\<close>

definition change :: "IndexRecord option \<Rightarrow> IndexRecord option \<Rightarrow> (OperationId \<Rightarrow> Operation) list" where
  "change a b =
     (if a = b then []
      else (case b of
              None \<Rightarrow> []
            | Some r \<Rightarrow> if map_option record_kind a \<noteq> Some (record_kind r)
                then [\<lambda>i. Delete i (path r) (record_kind r)] else []) @
           (case a of
              None \<Rightarrow> []
            | Some r \<Rightarrow>
                [\<lambda>i. upsert_operation (map_option record_kind b = Some RegularFile) i r]))"

fun number :: "u64 \<Rightarrow> (OperationId \<Rightarrow> Operation) list \<Rightarrow> Operation list" where
  "number n [] = []"
| "number n (f # fs) = f (OperationId n) # number (n + 1) fs"

fun merge :: "IndexRecord list \<Rightarrow> IndexRecord list \<Rightarrow> (OperationId \<Rightarrow> Operation) list" where
  "merge [] [] = []"
| "merge (a # S) [] = change (Some a) None @ merge S []"
| "merge [] (b # D) = change None (Some b) @ merge [] D"
| "merge (a # S) (b # D) =
     (if path a < path b then change (Some a) None @ merge S (b # D)
      else if path b < path a then change None (Some b) @ merge (a # S) D
      else change (Some a) (Some b) @ merge S D)"

lemma number_append: "number n (fs @ gs) = number n fs @ number (n + word_of_nat (length fs)) gs"
  by (induction fs arbitrary: n) (simp_all add: add.assoc)

lemma length_number [simp]: "length (number n fs) = length fs"
  by (induction fs arbitrary: n) simp_all

text \<open>A complete index on a channel, and the records still to come given the lookahead.\<close>

definition complete :: "IndexRecord list \<Rightarrow> index_channel \<Rightarrow> bool" where
  "complete S c \<longleftrightarrow> (\<exists>after. c = map (\<lambda>r. Inr (Record r)) S @ Inr End # after)"

lemma complete_Nil [simp]: "complete S [] \<longleftrightarrow> False"
  by (simp add: complete_def)

lemma complete_Cons [simp]:
  "complete S (m # c) \<longleftrightarrow> (case m of Inl e \<Rightarrow> False | Inr End \<Rightarrow> S = []
     | Inr (Record r) \<Rightarrow> (\<exists>S'. S = r # S' \<and> complete S' c))"
  by (cases S) (auto simp: complete_def split: sum.splits IndexMessage.splits)

definition coming :: "IndexRecord option \<Rightarrow> index_channel \<Rightarrow> IndexRecord list \<Rightarrow> bool" where
  "coming ahead c S \<longleftrightarrow>
     (case ahead of None \<Rightarrow> S = [] | Some r \<Rightarrow> \<exists>S'. S = r # S' \<and> complete S' c)"

lemma plan_read_complete:
  "complete S c \<longleftrightarrow> (\<exists>rest r. plan_read c = (rest, Inr r) \<and> coming r rest S)"
  by (cases c rule: plan_read.cases) (auto simp: coming_def)

lemma read_left_complete:
  "complete S (source st) \<longleftrightarrow> (\<exists>rest r. coming r rest S \<and>
     read_left st = (st\<lparr>source := rest, left := r\<rparr>, Inr ()))"
  by (cases st) (auto simp: plan_read_complete read_left_def split: prod.splits sum.splits)

lemma read_right_complete:
  "complete D (destination st) \<longleftrightarrow> (\<exists>rest r. coming r rest D \<and>
     read_right st = (st\<lparr>destination := rest, right := r\<rparr>, Inr ()))"
  by (cases st) (auto simp: plan_read_complete read_right_def split: prod.splits sum.splits)

lemma plan_emit_eq:
  "accepts st = None \<Longrightarrow> plan_emit a b st =
     (st\<lparr>next_id := next_id st + word_of_nat (length (change a b)),
         sent := sent st @ number (next_id st) (change a b)\<rparr>, Inr ())"
  by (cases a; cases b)
    (auto simp: plan_emit_def plan_delete_def plan_upsert_def plan_id_def plan_send_def change_def
      Let_def add.assoc)

text \<open>The iteration on a state with an open consumer, by which inputs it consumes.\<close>

lemma coming_Some: "coming (Some a) c S \<longleftrightarrow> (\<exists>S'. S = a # S' \<and> complete S' c)"
  and coming_None: "coming None c S \<longleftrightarrow> S = []"
  by (simp_all add: coming_def)

lemma read_left_if:
  assumes "if cs then complete S (source st) else coming (left st) (source st) S"
  shows "\<exists>st'. (if cs then read_left st else (st, Inr ())) = (st', Inr ()) \<and>
    coming (left st') (source st') S \<and> right st' = right st \<and> destination st' = destination st \<and>
    accepts st' = accepts st \<and> sent st' = sent st \<and> next_id st' = next_id st"
  using assms read_left_complete [of S st] by (cases cs) auto

lemma read_right_if:
  assumes "if cd then complete D (destination st) else coming (right st) (destination st) D"
  shows "\<exists>st'. (if cd then read_right st else (st, Inr ())) = (st', Inr ()) \<and>
    coming (right st') (destination st') D \<and> left st' = left st \<and> source st' = source st \<and>
    accepts st' = accepts st \<and> sent st' = sent st \<and> next_id st' = next_id st"
  using assms read_right_complete [of D st] by (cases cd) auto

text \<open>
  The iteration takes the records it compares off the two lists and sends what \<open>merge\<close> has for
  them; the rest of the merge remains.
\<close>

lemma plan_iteration_merge:
  assumes acc: "accepts st = None" and S: "coming (left st) (source st) S"
    and D: "coming (right st) (destination st) D"
    and c: "plan_consume (left st) (right st) = Some (cs, cd)"
  shows "\<exists>st' S' D' ops. plan_iteration cs cd st = (st', Inr ()) \<and> accepts st' = None \<and>
    coming (left st') (source st') S' \<and> coming (right st') (destination st') D' \<and>
    merge S D = ops @ merge S' D' \<and> sent st' = sent st @ number (next_id st) ops \<and>
    next_id st' = next_id st + word_of_nat (length ops)"
proof -
  let ?a = "if cs then left st else None" and ?b = "if cd then right st else None"
  let ?st = "st\<lparr>left := if cs then None else left st, right := if cd then None else right st\<rparr>"
  let ?ops = "change ?a ?b"
  let ?S' = "if cs then tl S else S" and ?D' = "if cd then tl D else D"
  let ?s1 = "?st\<lparr>next_id := next_id st + word_of_nat (length ?ops),
      sent := sent st @ number (next_id st) ?ops\<rparr>"
  have merge: "merge S D = ?ops @ merge ?S' ?D'"
    and S': "if cs then complete ?S' (source ?s1) else coming (left ?s1) (source ?s1) ?S'"
    and D': "if cd then complete ?D' (destination st) else coming (right st) (destination st) ?D'"
    using c S D by (cases "left st"; cases "right st"; auto simp: coming_Some coming_None)+
  have emit: "plan_emit ?a ?b ?st = (?s1, Inr ())"
    using plan_emit_eq [of ?st ?a ?b] acc by simp
  from read_left_if [OF S'] obtain s2 where
    s2: "(if cs then read_left ?s1 else (?s1, Inr ())) = (s2, Inr ())"
      "coming (left s2) (source s2) ?S'" "right s2 = right ?st" "destination s2 = destination st"
      "accepts s2 = None" "sent s2 = sent ?s1" "next_id s2 = next_id ?s1"
    using acc by auto
  with D' have "if cd then complete ?D' (destination s2) else coming (right s2) (destination s2) ?D'"
    by (cases cd) simp_all
  from read_right_if [OF this] obtain s3 where
    s3: "(if cd then read_right s2 else (s2, Inr ())) = (s3, Inr ())"
      "coming (right s3) (destination s3) ?D'" "left s3 = left s2" "source s3 = source s2"
      "accepts s3 = None" "sent s3 = sent ?s1" "next_id s3 = next_id ?s1"
    using s2 by auto
  have "plan_iteration cs cd st = (s3, Inr ())"
    unfolding plan_iteration_def Let_def emit and_do.simps s2(1) s3(1) ..
  moreover have "coming (left s3) (source s3) ?S'" using s2(2) s3(3,4) by (simp only:)
  moreover have "sent s3 = sent st @ number (next_id st) ?ops"
    "next_id s3 = next_id st + word_of_nat (length ?ops)"
    unfolding s3(6,7) by simp_all
  ultimately show ?thesis
    using merge s3(2,5) by blast
qed

lemma plan_loop_merge:
  assumes "accepts st = None" and "coming (left st) (source st) S"
    and "coming (right st) (destination st) D"
  shows "\<exists>st'. plan_loop st = (st', Inr ()) \<and>
    sent st' = sent st @ number (next_id st) (merge S D)"
  using assms
proof (induction st arbitrary: S D rule: plan_loop.induct)
  case (1 st)
  show ?case
  proof (cases "plan_consume (left st) (right st)")
    case None
    then have "left st = None" "right st = None"
      by (cases "left st"; cases "right st"; simp)+
    with "1.prems" None show ?thesis by (simp add: plan_loop.simps [of st] coming_None)
  next
    case (Some c)
    obtain cs cd where c: "c = (cs, cd)" by (cases c)
    from plan_iteration_merge [OF "1.prems" Some [unfolded c]] obtain s1 S' D' ops where
      it: "plan_iteration cs cd st = (s1, Inr ())" and s1: "accepts s1 = None"
        "coming (left s1) (source s1) S'" "coming (right s1) (destination s1) D'"
      and merge: "merge S D = ops @ merge S' D'" "sent s1 = sent st @ number (next_id st) ops"
        "next_id s1 = next_id st + word_of_nat (length ops)"
      by blast
    from "1.IH" [OF Some c [symmetric] it s1]
    show ?thesis
      by (simp add: plan_loop.simps [of st] Some c it merge number_append)
  qed
qed

section \<open>The plan as a diff of two indexes\<close>

definition index :: "IndexRecord list \<Rightarrow> RelativePath \<Rightarrow> IndexRecord option" where
  "index S = map_of (map (\<lambda>r. (path r, r)) S)"

definition index_stream :: "IndexRecord list \<Rightarrow> index_channel" where
  "index_stream S = map (\<lambda>r. Inr (Record r)) S @ [Inr End]"

definition index_paths :: "IndexRecord list \<Rightarrow> IndexRecord list \<Rightarrow> RelativePath list" where
  "index_paths S D = sorted_list_of_set (path ` set S \<union> path ` set D)"

definition diff :: "IndexRecord list \<Rightarrow> IndexRecord list \<Rightarrow> (OperationId \<Rightarrow> Operation) list" where
  "diff S D = concat (map (\<lambda>p. change (index S p) (index D p)) (index_paths S D))"

lemma index_Nil [simp]: "index [] p = None"
  by (simp add: index_def)

lemma index_Cons: "index (r # S) p = (if p = path r then Some r else index S p)"
  by (simp add: index_def)

lemma index_eq_None: "index S p = None \<longleftrightarrow> p \<notin> path ` set S"
  by (induction S) (auto simp: index_Cons)

lemma index_Some: "index S p = Some r \<Longrightarrow> r \<in> set S \<and> path r = p"
  by (induction S) (auto simp: index_Cons split: if_splits)

lemma index_mem: "ascending (map path S) \<Longrightarrow> r \<in> set S \<Longrightarrow> index S (path r) = Some r"
  unfolding index_def by (rule ascending_map_of) (auto simp: comp_def)

lemma change_same [simp]: "change a a = []"
  by (simp add: change_def)

lemma diff_Cons:
  assumes "\<And>q. q \<in> path ` set S' \<union> path ` set D' \<Longrightarrow> p < q"
    and "path ` set S \<union> path ` set D = insert p (path ` set S' \<union> path ` set D')"
    and "\<And>q. q \<in> path ` set S' \<union> path ` set D' \<Longrightarrow> index S q = index S' q \<and> index D q = index D' q"
  shows "diff S D = change (index S p) (index D p) @ diff S' D'"
proof -
  have paths: "index_paths S D = p # index_paths S' D'"
    unfolding index_paths_def assms(2) using assms(1) by (intro sorted_list_of_set_Cons) auto
  have rest: "map (\<lambda>q. change (index S q) (index D q)) (index_paths S' D') =
      map (\<lambda>q. change (index S' q) (index D' q)) (index_paths S' D')"
    using assms(3) by (intro map_cong refl) (simp add: index_paths_def)
  show ?thesis unfolding diff_def paths list.map rest concat.simps ..
qed

lemma merge_diff:
  "ascending (map path S) \<Longrightarrow> ascending (map path D) \<Longrightarrow> merge S D = diff S D"
proof (induction S D rule: merge.induct)
  case 1
  show ?case by (simp add: diff_def index_paths_def)
next
  case (2 a S)
  have "diff (a # S) [] = change (Some a) None @ diff S []"
    using "2.prems" diff_Cons [of S "[]" "path a" "a # S" "[]"] by (fastforce simp: index_Cons)
  with 2 show ?case by simp
next
  case (3 b D)
  have "diff [] (b # D) = change None (Some b) @ diff [] D"
    using "3.prems" diff_Cons [of "[]" D "path b" "[]" "b # D"] by (fastforce simp: index_Cons)
  with 3 show ?case by simp
next
  case (4 a S b D)
  have above: "\<And>r. r \<in> set S \<Longrightarrow> path a < path r" "\<And>r. r \<in> set D \<Longrightarrow> path b < path r"
    using "4.prems" by auto
  consider "path a < path b" | "path b < path a" | "path a = path b" by (rule linorder_cases)
  then show ?case
  proof cases
    case 1
    have "index (b # D) (path a) = None"
      using 1 above by (force simp: index_eq_None)
    then have "diff (a # S) (b # D) = change (Some a) None @ diff S (b # D)"
      using 1 above diff_Cons [of S "b # D" "path a" "a # S" "b # D"]
      by (fastforce simp: index_Cons [of a])
    with 1 4 show ?thesis by simp
  next
    case 2
    have "index (a # S) (path b) = None"
      using 2 above by (force simp: index_eq_None)
    then have "diff (a # S) (b # D) = change None (Some b) @ diff (a # S) D"
      using 2 above diff_Cons [of "a # S" D "path b" "a # S" "b # D"]
      by (fastforce simp: index_Cons [of b])
    moreover have "\<not> path a < path b" using 2 by simp
    ultimately show ?thesis using 2 4 by simp
  next
    case 3
    then have "diff (a # S) (b # D) = change (Some a) (Some b) @ diff S D"
      using above diff_Cons [of S D "path a" "a # S" "b # D"] by (fastforce simp: index_Cons)
    with 3 4 show ?thesis by simp
  qed
qed

text \<open>Whatever arrives on the channels, a plan that succeeds has read two complete indexes.\<close>

lemma plan_send_sent:
  "plan_send st op = (st', Inr u) \<Longrightarrow> sent st' = sent st @ [op] \<and> next_id st' = next_id st"
  by (auto simp: plan_send_def split: option.splits nat.splits)

lemma plan_delete_sent:
  "plan_delete a b st = (st', Inr u) \<Longrightarrow>
     (case b of Some r \<Rightarrow> map_option record_kind a \<noteq> Some (record_kind r) | None \<Rightarrow> False) \<and>
       sent st' = sent st @ [Delete (OperationId (next_id st)) (path (the b)) (record_kind (the b))] \<and>
       next_id st' = next_id st + 1 \<or>
     (case b of Some r \<Rightarrow> map_option record_kind a = Some (record_kind r) | None \<Rightarrow> True) \<and>
       st' = st"
  by (cases b) (auto simp: plan_delete_def plan_id_def dest!: plan_send_sent split: if_splits)

lemma plan_upsert_sent:
  "plan_upsert update a st = (st', Inr u) \<Longrightarrow>
     (case a of None \<Rightarrow> st' = st
      | Some r \<Rightarrow> sent st' = sent st @ [upsert_operation update (OperationId (next_id st)) r] \<and>
          next_id st' = next_id st + 1)"
  by (cases a) (auto simp: plan_upsert_def plan_id_def dest!: plan_send_sent)

lemma plan_emit_sent:
  assumes "plan_emit a b st = (st', Inr u)"
  shows "sent st' = sent st @ number (next_id st) (change a b) \<and>
     next_id st' = next_id st + word_of_nat (length (change a b))"
proof (cases "a = b")
  case True
  with assms show ?thesis by (simp add: plan_emit_def)
next
  case False
  with assms obtain s1 where s1: "plan_delete a b st = (s1, Inr ())"
    and s2: "plan_upsert (map_option record_kind b = Some RegularFile) a s1 = (st', Inr u)"
    by (auto simp: plan_emit_def Let_def result_simps)
  show ?thesis
    using False plan_delete_sent [OF s1] plan_upsert_sent [OF s2]
    by (cases a; cases b) (auto simp: change_def add.assoc)
qed

lemma plan_loop_sound:
  "plan_loop st = (st', Inr u) \<Longrightarrow> \<exists>S D. coming (left st) (source st) S \<and>
     coming (right st) (destination st) D \<and> sent st' = sent st @ number (next_id st) (merge S D)"
proof (induction st rule: plan_loop.induct)
  case (1 st)
  show ?case
  proof (cases "plan_consume (left st) (right st)")
    case None
    then have "left st = None" "right st = None"
      by (cases "left st"; cases "right st"; simp)+
    with "1.prems" None show ?thesis
      by (intro exI [of _ "[]"]) (simp add: plan_loop.simps [of st] coming_None)
  next
    case (Some c)
    obtain cs cd where c: "c = (cs, cd)" by (cases c)
    let ?a = "if cs then left st else None" and ?b = "if cd then right st else None"
    let ?st = "st\<lparr>left := if cs then None else left st, right := if cd then None else right st\<rparr>"
    from "1.prems" obtain s3 where it: "plan_iteration cs cd st = (s3, Inr ())"
        and rec: "plan_loop s3 = (st', Inr u)"
      by (auto simp: plan_loop.simps [of st] Some c result_simps)
    then obtain s1 s2 where
      s1: "plan_emit ?a ?b ?st = (s1, Inr ())" and
      s2: "(if cs then read_left s1 else (s1, Inr ())) = (s2, Inr ())" and
      s3: "(if cd then read_right s2 else (s2, Inr ())) = (s3, Inr ())"
      by (auto simp: plan_iteration_def Let_def result_simps)
    from "1.IH" [OF Some c [symmetric] it rec] obtain S D where
      SD: "coming (left s3) (source s3) S" "coming (right s3) (destination s3) D"
        "sent st' = sent s3 @ number (next_id s3) (merge S D)"
      by blast
    note emit = plan_emit_sent [OF s1] plan_emit_measure [OF s1]
    have same: "sent s3 = sent s1" "next_id s3 = next_id s1" "left s3 = left s2" "source s3 = source s2"
      "destination s2 = destination s1" "right s2 = right s1"
      using s2 s3 by (auto simp: read_left_def read_right_def split: if_splits prod.splits sum.splits)
    have S: "if cs then complete S (source st) else coming (left st) (source st) S"
    proof (cases cs)
      case True
      with s2 SD(1) same emit(2) read_left_complete [of S s1] show ?thesis
        by (auto simp: read_left_def plan_read_complete split: prod.splits sum.splits)
    qed (use SD(1) same emit(2) s2 in auto)
    have D: "if cd then complete D (destination st) else coming (right st) (destination st) D"
    proof (cases cd)
      case True
      with s3 SD(2) same emit(2) show ?thesis
        by (auto simp: read_right_def plan_read_complete split: prod.splits sum.splits)
    qed (use SD(2) same emit(2) s3 in auto)
    let ?S = "if cs then the (left st) # S else S" and ?D = "if cd then the (right st) # D else D"
    have "coming (left st) (source st) ?S" "coming (right st) (destination st) ?D"
        "merge ?S ?D = change ?a ?b @ merge S D"
      using Some S D
      by (cases "left st"; cases "right st"; auto simp: c coming_Some coming_None split: if_splits)+
    with SD(3) same emit(1) show ?thesis
      by (intro exI [of _ ?S] exI [of _ ?D]) (simp add: number_append)
  qed
qed

section \<open>What the operations do\<close>

fun apply_operation :: "(RelativePath \<Rightarrow> IndexRecord option) \<Rightarrow> Operation \<Rightarrow> RelativePath \<Rightarrow> IndexRecord option" where
  "apply_operation m (Delete i p k) = m(p := None)"
| "apply_operation m (UpsertDirectory i r) = m(path r := Some r)"
| "apply_operation m (UpsertFile u i r) = m(path r := Some r)"
| "apply_operation m (UpsertSymlink i r) = m(path r := Some r)"

lemma upsert_operation_simps [simp]:
  "operation_path (upsert_operation u i r) = path r"
  "operation_id (upsert_operation u i r) = i"
  "apply_operation m (upsert_operation u i r) = m(path r := Some r)"
  by (cases "record_kind r"; simp add: upsert_operation_def)+

lemma change_cases:
  "change None None = []"
  "change (Some r) None = [\<lambda>i. upsert_operation False i r]"
  "change None (Some q) = [\<lambda>i. Delete i (path q) (record_kind q)]"
  "change (Some r) (Some q) =
     (if r = q then []
      else (if record_kind r \<noteq> record_kind q then [\<lambda>i. Delete i (path q) (record_kind q)] else []) @
        [\<lambda>i. upsert_operation (record_kind q = RegularFile) i r])"
  by (simp_all add: change_def)

lemma change_apply:
  assumes "m p = b" and "pred_option (\<lambda>r. path r = p) a" and "pred_option (\<lambda>r. path r = p) b"
  shows "foldl apply_operation m (number n (change a b)) = m(p := a)"
  using assms by (cases a; cases b) (simp_all add: change_cases fun_upd_idem)

lemma change_path:
  assumes "f \<in> set (change a b)"
    and "pred_option (\<lambda>r. path r = p) a" and "pred_option (\<lambda>r. path r = p) b"
  shows "operation_path (f i) = p"
  using assms by (cases a; cases b) (auto simp: change_cases split: if_splits)

lemma index_path: "pred_option (\<lambda>r. path r = p) (index S p)"
  by (cases "index S p") (simp_all add: index_Some)

lemma apply_changes:
  assumes "distinct ps" and "\<And>p. p \<in> set ps \<Longrightarrow> m p = index D p"
  shows "foldl apply_operation m
      (number n (concat (map (\<lambda>p. change (index S p) (index D p)) ps))) =
    (\<lambda>p. if p \<in> set ps then index S p else m p)"
  using assms
proof (induction ps arbitrary: m n)
  case Nil
  show ?case by simp
next
  case (Cons p ps)
  have "foldl apply_operation m (number n (change (index S p) (index D p))) = m(p := index S p)"
    using Cons.prems(2) by (intro change_apply index_path) simp
  moreover have "foldl apply_operation (m(p := index S p))
      (number k (concat (map (\<lambda>p. change (index S p) (index D p)) ps))) =
      (\<lambda>q. if q \<in> set ps then index S q else (m(p := index S p)) q)" for k
    using Cons.prems by (intro Cons.IH) auto
  ultimately show ?case
    by (auto simp: number_append)
qed

lemma diff_applies: "foldl apply_operation (index D) (number n (diff S D)) = index S"
proof -
  have "foldl apply_operation (index D) (number n (diff S D)) =
      (\<lambda>p. if p \<in> set (index_paths S D) then index S p else index D p)"
    unfolding diff_def by (intro apply_changes) (simp_all add: index_paths_def)
  also have "\<dots> = index S"
    by (auto simp: fun_eq_iff index_paths_def index_eq_None [symmetric])
  finally show ?thesis .
qed

lemma number_ids:
  "(\<And>f i. f \<in> set fs \<Longrightarrow> operation_id (f i) = i) \<Longrightarrow>
   map operation_id (number n fs) = map (\<lambda>k. OperationId (n + word_of_nat k)) [0..<length fs]"
proof (induction fs arbitrary: n)
  case Nil
  show ?case by simp
next
  case (Cons f fs)
  have "map operation_id (number (n + 1) fs) =
      map (\<lambda>k. OperationId ((n + 1) + word_of_nat k)) [0..<length fs]"
    using Cons.prems by (intro Cons.IH) simp
  with Cons.prems show ?case
    by (simp add: upt_conv_Cons map_Suc_upt [symmetric] comp_def add.assoc del: upt_Suc)
qed

lemma change_ids: "f \<in> set (change a b) \<Longrightarrow> operation_id (f i) = i"
  by (cases a; cases b) (auto simp: change_cases split: if_splits)

lemma number_mem: "op \<in> set (number n fs) \<Longrightarrow> \<exists>f\<in>set fs. \<exists>i. op = f i"
  by (induction fs arbitrary: n) auto

lemma number_mem': "f \<in> set fs \<Longrightarrow> \<exists>i. f i \<in> set (number n fs)"
  by (induction fs arbitrary: n) auto

lemma diff_mem: "f \<in> set (diff S D) \<longleftrightarrow> (\<exists>p. f \<in> set (change (index S p) (index D p)))"
proof -
  have "p \<in> set (index_paths S D)" if "f \<in> set (change (index S p) (index D p))" for p
  proof -
    from that have "index S p \<noteq> None \<or> index D p \<noteq> None" by (cases "index S p"; cases "index D p") (auto simp: change_cases)
    then show ?thesis by (auto simp: index_paths_def index_eq_None)
  qed
  then show ?thesis by (auto simp: diff_def)
qed

text \<open>Which operations a plan holds, whatever their ids.\<close>

lemma diff_number_mem:
  assumes "\<And>f i j. f i = op j \<Longrightarrow> f \<in> set (diff S D) \<Longrightarrow> f = op"
  shows "(\<exists>i. op i \<in> set (number n (diff S D))) \<longleftrightarrow> (\<exists>p. op \<in> set (change (index S p) (index D p)))"
proof
  assume "\<exists>i. op i \<in> set (number n (diff S D))"
  then obtain i f j where "f \<in> set (diff S D)" "op i = f j" using number_mem by metis
  with assms have "op \<in> set (diff S D)" by metis
  then show "\<exists>p. op \<in> set (change (index S p) (index D p))" by (simp add: diff_mem)
next
  assume "\<exists>p. op \<in> set (change (index S p) (index D p))"
  then have "op \<in> set (diff S D)" by (simp add: diff_mem)
  then show "\<exists>i. op i \<in> set (number n (diff S D))" by (rule number_mem')
qed

lemma diff_shape:
  "f \<in> set (diff S D) \<Longrightarrow> (\<exists>p k. f = (\<lambda>i. Delete i p k)) \<or> (\<exists>u r. f = (\<lambda>i. upsert_operation u i r))"
  unfolding diff_mem
proof (elim exE)
  fix p
  assume "f \<in> set (change (index S p) (index D p))"
  then show ?thesis
    by (cases "index S p"; cases "index D p") (auto simp: change_cases split: if_splits)
qed

lemma upsert_operation_inj:
  "upsert_operation u i r = upsert_operation v j q \<Longrightarrow> i = j \<and> r = q \<and> (record_kind r = RegularFile \<longrightarrow> u = v)"
  by (auto simp: upsert_operation_def split: EntryKind.splits)

lemma upsert_not_delete [simp]:
  "upsert_operation u i r \<noteq> Delete j p k" "Delete j p k \<noteq> upsert_operation u i r"
  by (cases "record_kind r"; simp add: upsert_operation_def)+

lemma sorted_paths_number:
  assumes "sorted ps" and "\<And>p f i. p \<in> set ps \<Longrightarrow> f \<in> set (g p) \<Longrightarrow> operation_path (f i) = p"
  shows "sorted (map operation_path (number n (concat (map g ps))))"
  using assms
proof (induction ps arbitrary: n)
  case Nil
  show ?case by simp
next
  case (Cons p ps)
  have "operation_path op = p" if "op \<in> set (number n (g p))" for op
    using that Cons.prems(2) by (auto dest!: number_mem)
  moreover have "p \<le> operation_path op"
    if "op \<in> set (number (n + word_of_nat (length (g p))) (concat (map g ps)))" for op
    using number_mem [OF that] Cons.prems by fastforce
  moreover have "sorted (map operation_path (number m (g p)))" for m
  proof -
    have "map operation_path (number m (g p)) = replicate (length (g p)) p"
      using Cons.prems(2) by (intro replicate_eqI) (auto dest!: number_mem)
    then show ?thesis by simp
  qed
  ultimately show ?case
    using Cons by (auto simp: number_append sorted_append)
qed

lemma delete_mem:
  "(\<exists>i. Delete i p k \<in> set (number n (diff S D))) \<longleftrightarrow>
   (\<exists>q. index D p = Some q \<and> record_kind q = k \<and> map_option record_kind (index S p) \<noteq> Some k)"
proof -
  have "(\<exists>i. Delete i p k \<in> set (number n (diff S D))) \<longleftrightarrow>
      (\<exists>p'. (\<lambda>i. Delete i p k) \<in> set (change (index S p') (index D p')))"
    using diff_shape by (intro diff_number_mem) fastforce
  also have "\<dots> \<longleftrightarrow> (\<exists>p' q. index D p' = Some q \<and> path q = p \<and> record_kind q = k \<and>
      map_option record_kind (index S p') \<noteq> Some k)"
  proof (intro ex_cong1)
    fix p'
    show "(\<lambda>i. Delete i p k) \<in> set (change (index S p') (index D p')) \<longleftrightarrow>
        (\<exists>q. index D p' = Some q \<and> path q = p \<and> record_kind q = k \<and>
          map_option record_kind (index S p') \<noteq> Some k)"
      by (cases "index S p'"; cases "index D p'") (auto simp: change_cases fun_eq_iff)
  qed
  also have "\<dots> \<longleftrightarrow> (\<exists>q. index D p = Some q \<and> record_kind q = k \<and>
      map_option record_kind (index S p) \<noteq> Some k)"
    by (auto dest: index_Some)
  finally show ?thesis .
qed

lemma upsert_mem:
  assumes "\<And>i. op i = upsert_operation u i r"
  shows "(\<exists>i. op i \<in> set (number n (diff S D))) \<longleftrightarrow>
    index S (path r) = Some r \<and> index D (path r) \<noteq> Some r \<and>
    (record_kind r = RegularFile \<longrightarrow> u = (map_option record_kind (index D (path r)) = Some RegularFile))"
proof -
  have op: "op = (\<lambda>i. upsert_operation u i r)" using assms by (simp add: fun_eq_iff)
  have eq: "(\<lambda>i. upsert_operation v i q) = (\<lambda>i. upsert_operation u i r) \<longleftrightarrow>
      q = r \<and> (record_kind r = RegularFile \<longrightarrow> v = u)" for v q
  proof
    assume "(\<lambda>i. upsert_operation v i q) = (\<lambda>i. upsert_operation u i r)"
    from fun_cong [OF this] show "q = r \<and> (record_kind r = RegularFile \<longrightarrow> v = u)"
      by (auto dest!: upsert_operation_inj)
  next
    assume "q = r \<and> (record_kind r = RegularFile \<longrightarrow> v = u)"
    then show "(\<lambda>i. upsert_operation v i q) = (\<lambda>i. upsert_operation u i r)"
      by (cases "record_kind r") (simp_all add: upsert_operation_def)
  qed
  then have eq': "(\<lambda>i. upsert_operation u i r) = (\<lambda>i. upsert_operation v i q) \<longleftrightarrow>
      q = r \<and> (record_kind r = RegularFile \<longrightarrow> v = u)" for v q
    by (metis (no_types))
  have del: "(\<lambda>i. upsert_operation u i r) \<noteq> (\<lambda>i. Delete i p k)" for p k
    by (simp add: fun_eq_iff)
  have "(\<exists>i. op i \<in> set (number n (diff S D))) \<longleftrightarrow>
      (\<exists>p. op \<in> set (change (index S p) (index D p)))"
  proof (rule diff_number_mem)
    fix f i j
    assume "f i = op j" and "f \<in> set (diff S D)"
    with diff_shape [of f S D] obtain v q where "f = (\<lambda>i. upsert_operation v i q)"
      by (fastforce simp: op)
    with \<open>f i = op j\<close> show "f = op" by (auto simp: op eq dest!: upsert_operation_inj)
  qed
  also have "\<dots> \<longleftrightarrow> (\<exists>p. index S p = Some r \<and> index D p \<noteq> Some r \<and>
      (record_kind r = RegularFile \<longrightarrow> u = (map_option record_kind (index D p) = Some RegularFile)))"
  proof (intro ex_cong1)
    fix p
    show "op \<in> set (change (index S p) (index D p)) \<longleftrightarrow> index S p = Some r \<and> index D p \<noteq> Some r \<and>
      (record_kind r = RegularFile \<longrightarrow> u = (map_option record_kind (index D p) = Some RegularFile))"
      by (cases "index S p"; cases "index D p")
        (auto simp: change_cases op eq' del)
  qed
  also have "\<dots> \<longleftrightarrow> index S (path r) = Some r \<and> index D (path r) \<noteq> Some r \<and>
    (record_kind r = RegularFile \<longrightarrow> u = (map_option record_kind (index D (path r)) = Some RegularFile))"
    by (auto dest: index_Some)
  finally show ?thesis .
qed

section \<open>Plans on a growing input\<close>

text \<open>More input on either channel and an open consumer only add operations at the end.\<close>

definition extend :: "index_channel \<Rightarrow> index_channel \<Rightarrow> Planner \<Rightarrow> Planner" where
  "extend x y st = st\<lparr>source := source st @ x, destination := destination st @ y, accepts := None\<rparr>"

lemma extend_sel [simp]:
  "sent (extend x y st) = sent st" "left (extend x y st) = left st"
  "right (extend x y st) = right st" "next_id (extend x y st) = next_id st"
  "accepts (extend x y st) = None" "source (extend x y st) = source st @ x"
  "destination (extend x y st) = destination st @ y"
  by (simp_all add: extend_def)

lemma plan_read_append:
  "plan_read c = (rest, Inr r) \<Longrightarrow> plan_read (c @ x) = (rest @ x, Inr r)"
  by (cases c rule: plan_read.cases) auto

lemma read_left_extend:
  "read_left st = (st', Inr u) \<Longrightarrow> read_left (extend x y st) = (extend x y st', Inr u)"
  by (auto simp: read_left_def extend_def plan_read_append split: prod.splits sum.splits)

lemma read_right_extend:
  "read_right st = (st', Inr u) \<Longrightarrow> read_right (extend x y st) = (extend x y st', Inr u)"
  by (auto simp: read_right_def extend_def plan_read_append split: prod.splits sum.splits)

lemma read_sent: "read_left st = (st', r) \<Longrightarrow> sent st' = sent st"
  "read_right st = (st', r) \<Longrightarrow> sent st' = sent st"
  by (auto simp: read_left_def read_right_def split: prod.splits sum.splits)

lemma plan_emit_extend:
  "plan_emit a b (extend x y st) =
     (extend x y (st\<lparr>next_id := next_id st + word_of_nat (length (change a b)),
         sent := sent st @ number (next_id st) (change a b)\<rparr>), Inr ())"
  by (simp add: plan_emit_eq extend_def)

lemma plan_send_prefix: "plan_send st op = (st', r) \<Longrightarrow> sent st' = sent st \<or> sent st' = sent st @ [op]"
  by (auto simp: plan_send_def split: option.splits nat.splits)

lemma plan_emit_prefix:
  assumes "plan_emit a b st = (st', r)"
  shows "prefix (sent st) (sent st') \<and>
    prefix (sent st') (sent st @ number (next_id st) (change a b))"
proof (cases r)
  case (Inr u)
  with plan_emit_sent assms show ?thesis by simp
next
  case (Inl e)
  with assms have ne: "a \<noteq> b" by (auto simp: plan_emit_def)
  then consider "plan_delete a b st = (st', Inl e)"
    | s1 where "plan_delete a b st = (s1, Inr ())"
      "plan_upsert (map_option record_kind b = Some RegularFile) a s1 = (st', Inl e)"
    using assms Inl by (auto simp: plan_emit_def Let_def result_simps)
  then show ?thesis
  proof cases
    case 1
    then have "sent st' = sent st"
      by (auto simp: plan_delete_def plan_id_def plan_send_def
          split: option.splits nat.splits if_splits)
    then show ?thesis by simp
  next
    case 2
    then have "sent st' = sent s1"
      by (auto simp: plan_upsert_def plan_id_def plan_send_def split: option.splits nat.splits)
    with ne plan_delete_sent [OF 2(1)] show ?thesis
      by (cases a; cases b) (auto simp: change_def)
  qed
qed

lemma plan_loop_mono: "prefix (sent st) (sent (fst (plan_loop st)))"
proof (induction st rule: plan_loop.induct)
  case (1 st)
  show ?case
  proof (cases "plan_consume (left st) (right st)")
    case (Some c)
    obtain cs cd where c: "c = (cs, cd)" by (cases c)
    obtain s3 r where it: "plan_iteration cs cd st = (s3, r)" by fastforce
    then have "prefix (sent st) (sent s3)"
      by (cases r) (auto simp: plan_iteration_def Let_def result_simps split: if_splits
          dest!: plan_emit_prefix read_sent)
    with Some c it "1.IH" [OF Some c [symmetric]] show ?thesis
      by (cases r) (auto simp: plan_loop.simps [of st] intro: prefix_order.trans)
  qed (simp add: plan_loop.simps [of st])
qed

lemma plan_emit_extend_Inr:
  assumes "plan_emit a b st = (s1, Inr ())"
  shows "plan_emit a b (extend x y st) = (extend x y s1, Inr ())"
proof -
  have "extend x y s1 = extend x y (st\<lparr>next_id := next_id st + word_of_nat (length (change a b)),
      sent := sent st @ number (next_id st) (change a b)\<rparr>)"
    using plan_emit_sent [OF assms] plan_emit_measure [OF assms]
    by (intro Planner.equality) (simp_all add: extend_def)
  then show ?thesis by (simp add: plan_emit_extend)
qed

lemma extend_take:
  "(extend x y st)\<lparr>left := l, right := r\<rparr> = extend x y (st\<lparr>left := l, right := r\<rparr>)"
  by (simp add: extend_def)

lemma plan_iteration_extend:
  assumes "plan_iteration cs cd st = (s3, Inr ())"
  shows "plan_iteration cs cd (extend x y st) = (extend x y s3, Inr ())"
proof -
  let ?a = "if cs then left st else None" and ?b = "if cd then right st else None"
  let ?st = "st\<lparr>left := if cs then None else left st, right := if cd then None else right st\<rparr>"
  from assms obtain s1 s2 where
    s1: "plan_emit ?a ?b ?st = (s1, Inr ())" and
    s2: "(if cs then read_left s1 else (s1, Inr ())) = (s2, Inr ())" and
    s3: "(if cd then read_right s2 else (s2, Inr ())) = (s3, Inr ())"
    by (auto simp: plan_iteration_def Let_def result_simps)
  have "(if cs then read_left (extend x y s1) else (extend x y s1, Inr ())) = (extend x y s2, Inr ())"
    using s2 read_left_extend by (cases cs) auto
  moreover have "(if cd then read_right (extend x y s2) else (extend x y s2, Inr ())) =
      (extend x y s3, Inr ())"
    using s3 read_right_extend by (cases cd) auto
  ultimately show ?thesis
    unfolding plan_iteration_def Let_def extend_sel extend_take plan_emit_extend_Inr [OF s1]
    by simp
qed

lemma plan_loop_extend_emits:
  assumes "plan_consume (left st) (right st) = Some (cs, cd)"
  shows "prefix (sent st @ number (next_id st) (change (if cs then left st else None)
      (if cd then right st else None))) (sent (fst (plan_loop (extend x y st))))"
    (is "prefix ?sent _")
proof -
  obtain s3 r where it: "plan_iteration cs cd (extend x y st) = (s3, r)" by fastforce
  then have "sent s3 = ?sent"
    unfolding plan_iteration_def Let_def extend_sel extend_take plan_emit_extend
    by (cases r) (auto simp: result_simps split: if_splits dest!: read_sent)
  with it assms plan_loop_mono [of s3] show ?thesis
    by (cases r) (auto simp: plan_loop.simps [of "extend x y st"])
qed

lemma plan_loop_extend:
  "prefix (sent (fst (plan_loop st))) (sent (fst (plan_loop (extend x y st))))"
proof (induction st rule: plan_loop.induct)
  case (1 st)
  show ?case
  proof (cases "plan_consume (left st) (right st)")
    case None
    then show ?thesis by (simp add: plan_loop.simps [of st] plan_loop.simps [of "extend x y st"])
  next
    case (Some c)
    obtain cs cd where c: "c = (cs, cd)" by (cases c)
    let ?ops = "change (if cs then left st else None) (if cd then right st else None)"
    obtain s3 r where it: "plan_iteration cs cd st = (s3, r)" by fastforce
    show ?thesis
    proof (cases r)
      case (Inl e)
      with it have "prefix (sent s3) (sent st @ number (next_id st) ?ops)"
        by (auto simp: plan_iteration_def Let_def result_simps split: if_splits
            dest!: plan_emit_prefix read_sent)
      with plan_loop_extend_emits [OF Some [unfolded c], of x y] it Inl Some c show ?thesis
        by (auto simp: plan_loop.simps [of st] intro: prefix_order.trans)
    next
      case (Inr u)
      with it "1.IH" [OF Some c [symmetric], of s3] plan_iteration_extend [of cs cd st s3 x y] Some c
      show ?thesis by (simp add: plan_loop.simps [of st] plan_loop.simps [of "extend x y st"])
    qed
  qed
qed

section \<open>Properties of the planner\<close>

lemma complete_index_stream: "complete S (index_stream S)"
  by (simp add: complete_def index_stream_def)

lemma plan_start:
  assumes "complete S src" and "complete D dst"
  shows "plan src dst None = (number 0 (merge S D), Inr ())"
proof -
  let ?st = "\<lparr>source = src, destination = dst, left = None, right = None, next_id = 0,
    sent = [], accepts = None\<rparr>"
  from assms(1) read_left_complete [of S ?st] obtain rs a where
    a: "coming a rs S" "read_left ?st = (?st\<lparr>source := rs, left := a\<rparr>, Inr ())" by auto
  let ?s1 = "?st\<lparr>source := rs, left := a\<rparr>"
  from assms(2) read_right_complete [of D ?s1] obtain rd b where
    b: "coming b rd D" "read_right ?s1 = (?s1\<lparr>destination := rd, right := b\<rparr>, Inr ())" by auto
  let ?s2 = "?s1\<lparr>destination := rd, right := b\<rparr>"
  have "\<exists>st'. plan_loop ?s2 = (st', Inr ()) \<and> sent st' = sent ?s2 @ number (next_id ?s2) (merge S D)"
    using a b by (intro plan_loop_merge) simp_all
  with a b show ?thesis by (auto simp: plan_def)
qed

text \<open>
  C10. The planner computes the difference of the two indexes: on two complete streams whose paths
  are strictly ascending it succeeds, and the operations it sends are those of the path-by-path
  comparison of the two indexes, in the order of the paths, numbered from zero.
\<close>

theorem plan_is_diff:
  assumes "ascending (map path S)" and "ascending (map path D)"
  shows "plan (index_stream S) (index_stream D) None = (number 0 (diff S D), Inr ())"
  using plan_start [OF complete_index_stream complete_index_stream, of S D] merge_diff [OF assms]
  by simp

text \<open>
  C28. The operations turn the destination's index into the source's: applied in order to the
  destination's index they give exactly the source's index.
\<close>

theorem plan_applies:
  assumes "ascending (map path S)" and "ascending (map path D)"
    and "plan (index_stream S) (index_stream D) None = (ops, r)"
  shows "r = Inr () \<and> foldl apply_operation (index D) ops = index S"
proof -
  have r: "r = Inr ()" and ops: "ops = number 0 (diff S D)"
    using assms(3) plan_start [OF complete_index_stream complete_index_stream, of S D]
      merge_diff [OF assms(1,2)] by simp_all
  then show ?thesis by (simp add: diff_applies)
qed

text \<open>
  The operations come in canonical order with consecutive ids from zero: their paths never
  decrease, so the operations on one path stand together, and a deletion comes before the upsert
  that replaces the deleted entry.
\<close>

lemma plan_order:
  assumes "ascending (map path S)" and "ascending (map path D)"
    and "plan (index_stream S) (index_stream D) None = (ops, r)"
  shows "map operation_id ops = map (\<lambda>k. OperationId (word_of_nat k)) [0..<length ops] \<and>
    sorted (map operation_path ops)"
proof -
  have ops: "ops = number 0 (diff S D)"
    using assms(3) plan_start [OF complete_index_stream complete_index_stream, of S D]
      merge_diff [OF assms(1,2)] by simp
  have "map operation_id ops = map (\<lambda>k. OperationId (0 + word_of_nat k)) [0..<length (diff S D)]"
    unfolding ops by (intro number_ids) (auto simp: diff_def change_ids)
  moreover have "sorted (map operation_path ops)"
    unfolding ops diff_def
    by (intro sorted_paths_number) (auto simp: index_paths_def intro: change_path index_path)
  ultimately show ?thesis using ops by simp
qed

text \<open>
  Which operations a plan holds. An entry is deleted exactly when the destination has it and
  the source has none of the same kind there; an entry is upserted exactly when the source has it
  and the destination does not have the equal record; a file upsert is marked as an update exactly
  when the destination has a regular file to start from. So equal entries cause no operation.
\<close>

lemma plan_operations:
  assumes "ascending (map path S)" and "ascending (map path D)"
    and "plan (index_stream S) (index_stream D) None = (ops, r)"
  shows "((\<exists>i. Delete i p k \<in> set ops) \<longleftrightarrow> (\<exists>q. index D p = Some q \<and> record_kind q = k \<and>
      map_option record_kind (index S p) \<noteq> Some k)) \<and>
    ((\<exists>i. UpsertFile u i rec \<in> set ops) \<longleftrightarrow> rec \<in> set S \<and> rec \<notin> set D \<and> record_kind rec = RegularFile \<and>
      u = (map_option record_kind (index D (path rec)) = Some RegularFile)) \<and>
    ((\<exists>i. UpsertDirectory i rec \<in> set ops) \<longleftrightarrow> rec \<in> set S \<and> rec \<notin> set D \<and> record_kind rec = Directory) \<and>
    ((\<exists>i. UpsertSymlink i rec \<in> set ops) \<longleftrightarrow> rec \<in> set S \<and> rec \<notin> set D \<and> record_kind rec = Symlink)"
proof -
  have ops: "ops = number 0 (diff S D)"
    using assms(3) plan_start [OF complete_index_stream complete_index_stream, of S D]
      merge_diff [OF assms(1,2)] by simp
  have mem: "index S (path rec) = Some rec \<longleftrightarrow> rec \<in> set S" "index D (path rec) = Some rec \<longleftrightarrow> rec \<in> set D"
    using index_mem [OF assms(1)] index_mem [OF assms(2)] by (auto dest: index_Some)
  have kinds: "op \<in> set ops \<Longrightarrow> (case op of UpsertFile u i rec \<Rightarrow> record_kind rec = RegularFile
      | UpsertDirectory i rec \<Rightarrow> record_kind rec = Directory
      | UpsertSymlink i rec \<Rightarrow> record_kind rec = Symlink | Delete i p k \<Rightarrow> True)" for op
    unfolding ops
    by (drule number_mem) (auto simp: upsert_operation_def split: EntryKind.splits dest!: diff_shape)
  have fil: "(\<exists>i. UpsertFile u i rec \<in> set ops) \<longleftrightarrow> rec \<in> set S \<and> rec \<notin> set D \<and>
      record_kind rec = RegularFile \<and> u = (map_option record_kind (index D (path rec)) = Some RegularFile)"
  proof (cases "record_kind rec = RegularFile")
    case True
    then have "UpsertFile u i rec = upsert_operation u i rec" for i by (simp add: upsert_operation_def)
    with True upsert_mem [of "\<lambda>i. UpsertFile u i rec" u rec 0 S D] show ?thesis by (simp add: ops mem)
  qed (use kinds in force)
  have dir: "(\<exists>i. UpsertDirectory i rec \<in> set ops) \<longleftrightarrow> rec \<in> set S \<and> rec \<notin> set D \<and> record_kind rec = Directory"
  proof (cases "record_kind rec = Directory")
    case True
    then have "UpsertDirectory i rec = upsert_operation u i rec" for i by (simp add: upsert_operation_def)
    with True upsert_mem [of "\<lambda>i. UpsertDirectory i rec" u rec 0 S D] show ?thesis by (simp add: ops mem)
  qed (use kinds in force)
  have link: "(\<exists>i. UpsertSymlink i rec \<in> set ops) \<longleftrightarrow> rec \<in> set S \<and> rec \<notin> set D \<and> record_kind rec = Symlink"
  proof (cases "record_kind rec = Symlink")
    case True
    then have "UpsertSymlink i rec = upsert_operation u i rec" for i by (simp add: upsert_operation_def)
    with True upsert_mem [of "\<lambda>i. UpsertSymlink i rec" u rec 0 S D] show ?thesis by (simp add: ops mem)
  qed (use kinds in force)
  show ?thesis using delete_mem [of p k 0 S D] fil dir link by (simp add: ops)
qed

lemma plan_complete:
  assumes "plan src dst accepting = (ops, Inr u)"
  shows "\<exists>S D. complete S src \<and> complete D dst \<and> ops = number 0 (merge S D)"
proof -
  let ?st = "\<lparr>source = src, destination = dst, left = None, right = None, next_id = 0,
    sent = [], accepts = accepting\<rparr>"
  from assms obtain s1 s2 s3 where s1: "read_left ?st = (s1, Inr ())"
    and s2: "read_right s1 = (s2, Inr ())" and s3: "plan_loop s2 = (s3, Inr u)" and ops: "ops = sent s3"
    by (auto simp: plan_def Let_def result_simps split: prod.splits)
  from plan_loop_sound [OF s3] obtain S D where
    "coming (left s2) (source s2) S" "coming (right s2) (destination s2) D"
    "sent s3 = sent s2 @ number (next_id s2) (merge S D)" by blast
  with s1 s2 ops show ?thesis
    by (intro exI [of _ S] exI [of _ D])
      (auto simp: read_left_def read_right_def plan_read_complete split: prod.splits sum.splits)
qed

text \<open>
  C36. A dropped producer is never taken for the end of a tree: the planner succeeds only when
  both channels carried records up to an explicit \<open>End\<close>, and then it has sent the merge of
  exactly those records, whether or not the consumer would have accepted more.
\<close>

theorem plan_ok_complete:
  assumes "plan src dst accepting = (ops, Inr u)"
  shows "\<exists>S D. complete S src \<and> complete D dst \<and> ops = number 0 (merge S D)"
  using assms by (rule plan_complete)

text \<open>
  Planning is incremental: the operations sent before a failure, before an input is complete or
  before the consumer closes are a prefix of those sent when more input follows and the consumer
  stays open. An operation, once sent, is never revised.
\<close>

lemma plan_incremental:
  "prefix (fst (plan src dst accepting)) (fst (plan (src @ x) (dst @ y) None))"
proof -
  let ?st = "\<lparr>source = src, destination = dst, left = None, right = None, next_id = 0,
    sent = [], accepts = accepting\<rparr>"
  let ?run = "\<lambda>st. fst (and_do (read_left st) (\<lambda>st _. and_do (read_right st) (\<lambda>st _. plan_loop st)))"
  have eq: "fst (plan src dst accepting) = sent (?run ?st)"
    "fst (plan (src @ x) (dst @ y) None) = sent (?run (extend x y ?st))"
    by (simp_all add: plan_def extend_def split_beta Let_def)
  obtain s1 r1 where s1: "read_left ?st = (s1, r1)" by fastforce
  obtain s2 r2 where s2: "read_right s1 = (s2, r2)" by fastforce
  have "sent s1 = []" "sent s2 = []" using read_sent s1 s2 by fastforce+
  then have "prefix (sent (?run ?st)) (sent (?run (extend x y ?st)))"
    using s1 s2 read_left_extend [of ?st s1 _ x y] read_right_extend [of s1 s2 _ x y]
      plan_loop_extend [of s2 x y]
    by (cases r1; cases r2) auto
  then show ?thesis by (simp only: eq)
qed

subsection \<open>The properties at a sample pair of trees\<close>

text \<open>The source has a directory with a file in it, the destination a file of that name.\<close>

abbreviation sample_ops :: "Operation list" where
  "sample_ops \<equiv> [Delete (OperationId 0) (RelativePath [[97]]) RegularFile,
     UpsertDirectory (OperationId 1) sample_dir, UpsertFile False (OperationId 2) sample_file]"

lemma sample_ascending:
  "ascending (map path [sample_dir, sample_file])" "ascending (map path [sample_old])"
  by (simp_all add: samples less_RelativePath_def)

lemma sample_merge: "number 0 (merge [sample_dir, sample_file] [sample_old]) = sample_ops"
  by (simp add: samples change_cases record_kind_def upsert_operation_def)

lemma sample_plan:
  "plan (index_stream [sample_dir, sample_file]) (index_stream [sample_old]) None = (sample_ops, Inr ())"
  by (simp only: plan_start [OF complete_index_stream complete_index_stream] sample_merge)

theorem plan_is_diff_witness:
  "plan (index_stream [sample_dir, sample_file]) (index_stream [sample_old]) None =
     (number 0 (diff [sample_dir, sample_file] [sample_old]), Inr ()) \<and>
   number 0 (diff [sample_dir, sample_file] [sample_old]) = sample_ops"
  using plan_is_diff [OF sample_ascending] sample_plan by simp

theorem plan_applies_witness:
  "foldl apply_operation (index [sample_old]) sample_ops = index [sample_dir, sample_file]"
  using plan_applies [OF sample_ascending sample_plan] by simp

theorem plan_ok_complete_witness:
  "\<exists>S D. complete S (index_stream [sample_dir, sample_file]) \<and> complete D (index_stream [sample_old]) \<and>
     sample_ops = number 0 (merge S D)"
  using plan_ok_complete [OF sample_plan] .

end
