(* ===== verification/Posix.thy ===== *)
theory Posix
  imports Planner
begin

text \<open>
  The system interface that the destination side works through. The crate \<open>rustix\<close> and the kernel
  below it are not part of the repository: they are the parameter \<open>posix\<close>, one function per
  call the sources make. The locale \<open>posix_fs\<close> states the documented effect of each call on the
  tree of names below the root; the theory \<open>Kernel\<close> interprets it on a concrete tree.
\<close>

section \<open>The calls\<close>

datatype Errno = EXIST | NOENT | NOTDIR | LOOP | OtherErrno nat

datatype OFlag = RDONLY | WRONLY | CREATE | EXCL | DIRECTORY | NOFOLLOW | NONBLOCK | CLOEXEC

record Stat =
  st_dev :: u64
  st_ino :: u64
  st_uid :: u32
  st_mode :: u32
  st_regular :: bool

text \<open>
  \<open>unlinkat\<close> takes whether \<open>REMOVEDIR\<close> is set; the two calls that set times take the
  modification time in seconds and nanoseconds and leave the access time alone.
\<close>

record ('s, 'fd) posix =
  dup :: "'fd \<Rightarrow> 's \<Rightarrow> 's \<times> (Errno + 'fd)"
  openat :: "'fd \<Rightarrow> bytes \<Rightarrow> OFlag list \<Rightarrow> u32 \<Rightarrow> 's \<Rightarrow> 's \<times> (Errno + 'fd)"
  mkdirat :: "'fd \<Rightarrow> bytes \<Rightarrow> u32 \<Rightarrow> 's \<Rightarrow> 's \<times> (Errno + unit)"
  unlinkat :: "'fd \<Rightarrow> bytes \<Rightarrow> bool \<Rightarrow> 's \<Rightarrow> 's \<times> (Errno + unit)"
  symlinkat :: "bytes \<Rightarrow> 'fd \<Rightarrow> bytes \<Rightarrow> 's \<Rightarrow> 's \<times> (Errno + unit)"
  renameat :: "'fd \<Rightarrow> bytes \<Rightarrow> 'fd \<Rightarrow> bytes \<Rightarrow> 's \<Rightarrow> 's \<times> (Errno + unit)"
  fchmod :: "'fd \<Rightarrow> u32 \<Rightarrow> 's \<Rightarrow> 's \<times> (Errno + unit)"
  futimens :: "'fd \<Rightarrow> int \<times> int \<Rightarrow> 's \<Rightarrow> 's \<times> (Errno + unit)"
  utimensat :: "'fd \<Rightarrow> bytes \<Rightarrow> int \<times> int \<Rightarrow> 's \<Rightarrow> 's \<times> (Errno + unit)"
  fstat :: "'fd \<Rightarrow> 's \<Rightarrow> Errno + Stat"
  write_fd :: "'fd \<Rightarrow> bytes \<Rightarrow> 's \<Rightarrow> 's \<times> (Errno + unit)"
  geteuid :: "u32"
  errno_text :: "Errno \<Rightarrow> string"

text \<open>\<open>result.map_err(f)\<close> on a step.\<close>

definition map_step_err :: "('e \<Rightarrow> 'f) \<Rightarrow> 's \<times> ('e + 'a) \<Rightarrow> 's \<times> ('f + 'a)" where
  "map_step_err f m = (fst m, map_err f (snd m))"

lemma map_step_err_eq [result_simps]:
  "map_step_err f m = (s, Inr x) \<longleftrightarrow> m = (s, Inr x)"
  "map_step_err f m = (s, Inl e) \<longleftrightarrow> (\<exists>d. m = (s, Inl d) \<and> e = f d)"
  by (cases m; auto simp: map_step_err_def result_simps)+

section \<open>The tree of names\<close>

text \<open>What a name stands for: mode and modification time in nanoseconds, and the content.\<close>

datatype node =
    Dir u32 int
  | File u32 int bytes
  | Link bytes int

fun is_dir :: "node option \<Rightarrow> bool" where
  "is_dir (Some (Dir m t)) = True"
| "is_dir _ = False"

fun is_file :: "node option \<Rightarrow> bool" where
  "is_file (Some (File m t c)) = True"
| "is_file _ = False"

fun is_link :: "node option \<Rightarrow> bool" where
  "is_link (Some (Link tg t)) = True"
| "is_link _ = False"

fun set_mode :: "u32 \<Rightarrow> node \<Rightarrow> node" where
  "set_mode m (Dir _ t) = Dir m t"
| "set_mode m (File _ t c) = File m t c"
| "set_mode m (Link tg t) = Link tg t"

fun set_mtime :: "int \<times> int \<Rightarrow> node \<Rightarrow> node" where
  "set_mtime (sec, nsec) (Dir m _) = Dir m (sec * 1000000000 + nsec)"
| "set_mtime (sec, nsec) (File m _ c) = File m (sec * 1000000000 + nsec) c"
| "set_mtime (sec, nsec) (Link tg _) = Link tg (sec * 1000000000 + nsec)"

type_synonym tree = "bytes list \<Rightarrow> node option"

text \<open>Equal up to the modification time of a directory.\<close>

fun same_dir :: "node option \<Rightarrow> node option \<Rightarrow> bool" where
  "same_dir (Some (Dir m t)) (Some (Dir m' t')) \<longleftrightarrow> m = m'"
| "same_dir x y \<longleftrightarrow> x = y"

text \<open>One name is changed, and with it the time of the directory it stands in.\<close>

definition updated :: "bytes list \<Rightarrow> node option \<Rightarrow> tree \<Rightarrow> tree \<Rightarrow> bool" where
  "updated q x t t' \<longleftrightarrow>
     t' q = x \<and> same_dir (t (butlast q)) (t' (butlast q)) \<and>
     (\<forall>p. p \<noteq> q \<and> p \<noteq> butlast q \<longrightarrow> t' p = t p)"

definition no_entries :: "tree \<Rightarrow> bytes list \<Rightarrow> bool" where
  "no_entries t q \<longleftrightarrow> (\<forall>name. t (q @ [name]) = None)"

section \<open>The contract\<close>

locale posix_fs =
  fixes P :: "('s, 'fd) posix"
    and tree :: "'s \<Rightarrow> tree"
    and at :: "'s \<Rightarrow> 'fd \<Rightarrow> bytes list option"
  assumes dup_law: "at s fd = Some d \<Longrightarrow> dup P fd s = (s', r) \<Longrightarrow>
      tree s' = tree s \<and> (\<forall>f p. at s f = Some p \<longrightarrow> at s' f = Some p) \<and>
      (\<forall>fd'. r = Inr fd' \<longrightarrow> at s' fd' = Some d)"
    and open_law: "at s fd = Some d \<Longrightarrow> component_ok name \<Longrightarrow> NOFOLLOW \<in> set flags \<Longrightarrow>
      CREATE \<notin> set flags \<Longrightarrow> openat P fd name flags m s = (s', r) \<Longrightarrow>
      tree s' = tree s \<and> (\<forall>f p. at s f = Some p \<longrightarrow> at s' f = Some p) \<and>
      (\<forall>fd'. r = Inr fd' \<longrightarrow> at s' fd' = Some (d @ [name]) \<and> tree s (d @ [name]) \<noteq> None \<and>
         \<not> is_link (tree s (d @ [name])) \<and>
         (DIRECTORY \<in> set flags \<longrightarrow> is_dir (tree s (d @ [name]))))"
    and open_dir_error: "at s fd = Some d \<Longrightarrow> component_ok name \<Longrightarrow> NOFOLLOW \<in> set flags \<Longrightarrow>
      DIRECTORY \<in> set flags \<Longrightarrow> CREATE \<notin> set flags \<Longrightarrow>
      openat P fd name flags m s = (s', Inl e) \<Longrightarrow>
      is_file (tree s (d @ [name])) \<or> is_link (tree s (d @ [name])) \<Longrightarrow> e = LOOP \<or> e = NOTDIR"
    and create_law: "at s fd = Some d \<Longrightarrow> component_ok name \<Longrightarrow> CREATE \<in> set flags \<Longrightarrow>
      EXCL \<in> set flags \<Longrightarrow> openat P fd name flags m s = (s', r) \<Longrightarrow>
      (\<forall>f p. at s f = Some p \<longrightarrow> at s' f = Some p) \<and>
      (case r of
         Inl e \<Rightarrow> tree s' = tree s
       | Inr fd' \<Rightarrow> at s' fd' = Some (d @ [name]) \<and> tree s (d @ [name]) = None \<and>
           (\<exists>md t. updated (d @ [name]) (Some (File md t [])) (tree s) (tree s')))"
    and mkdir_law: "at s fd = Some d \<Longrightarrow> component_ok name \<Longrightarrow> mkdirat P fd name m s = (s', u) \<Longrightarrow>
      (\<forall>f p. at s f = Some p \<longrightarrow> at s' f = Some p) \<and>
      (case u of
         Inl e \<Rightarrow> tree s' = tree s \<and> (e = EXIST \<longrightarrow> tree s (d @ [name]) \<noteq> None)
       | Inr _ \<Rightarrow> tree s (d @ [name]) = None \<and>
           (\<exists>md t. updated (d @ [name]) (Some (Dir md t)) (tree s) (tree s')))"
    and unlink_law: "at s fd = Some d \<Longrightarrow> component_ok name \<Longrightarrow>
      unlinkat P fd name removedir s = (s', u) \<Longrightarrow>
      (\<forall>f p. at s f = Some p \<and> \<not> prefix (d @ [name]) p \<longrightarrow> at s' f = Some p) \<and>
      (case u of
         Inl e \<Rightarrow> tree s' = tree s \<and> (e = NOENT \<longrightarrow> tree s (d @ [name]) = None)
       | Inr _ \<Rightarrow> updated (d @ [name]) None (tree s) (tree s') \<and> tree s (d @ [name]) \<noteq> None \<and>
           (if removedir then is_dir (tree s (d @ [name])) \<and> no_entries (tree s) (d @ [name])
            else \<not> is_dir (tree s (d @ [name]))))"
    and symlink_law: "at s fd = Some d \<Longrightarrow> component_ok name \<Longrightarrow>
      symlinkat P target fd name s = (s', u) \<Longrightarrow>
      (\<forall>f p. at s f = Some p \<longrightarrow> at s' f = Some p) \<and>
      (case u of
         Inl e \<Rightarrow> tree s' = tree s
       | Inr _ \<Rightarrow> tree s (d @ [name]) = None \<and>
           (\<exists>t. updated (d @ [name]) (Some (Link target t)) (tree s) (tree s')))"
    and rename_law: "at s fd1 = Some d1 \<Longrightarrow> at s fd2 = Some d2 \<Longrightarrow> component_ok n1 \<Longrightarrow>
      component_ok n2 \<Longrightarrow> is_file (tree s (d1 @ [n1])) \<Longrightarrow> d1 @ [n1] \<noteq> d2 @ [n2] \<Longrightarrow>
      renameat P fd1 n1 fd2 n2 s = (s', u) \<Longrightarrow>
      (\<forall>f p. at s f = Some p \<and> p \<noteq> d1 @ [n1] \<and> p \<noteq> d2 @ [n2] \<longrightarrow> at s' f = Some p) \<and>
      (case u of
         Inl e \<Rightarrow> tree s' = tree s \<and> (\<forall>f p. at s f = Some p \<longrightarrow> at s' f = Some p)
       | Inr _ \<Rightarrow> \<not> is_dir (tree s (d2 @ [n2])) \<and>
           (\<exists>t. updated (d1 @ [n1]) None (tree s) t \<and>
                updated (d2 @ [n2]) (tree s (d1 @ [n1])) t (tree s')))"
    and chmod_law: "at s fd = Some q \<Longrightarrow> fchmod P fd m s = (s', u) \<Longrightarrow>
      at s' = at s \<and>
      (case u of Inl e \<Rightarrow> tree s' = tree s
       | Inr _ \<Rightarrow> tree s' = (tree s)(q := map_option (set_mode m) (tree s q)))"
    and futimens_law: "at s fd = Some q \<Longrightarrow> futimens P fd tm s = (s', u) \<Longrightarrow>
      at s' = at s \<and>
      (case u of Inl e \<Rightarrow> tree s' = tree s
       | Inr _ \<Rightarrow> tree s' = (tree s)(q := map_option (set_mtime tm) (tree s q)))"
    and utimens_law: "at s fd = Some d \<Longrightarrow> component_ok name \<Longrightarrow>
      utimensat P fd name tm s = (s', u) \<Longrightarrow>
      at s' = at s \<and>
      (case u of Inl e \<Rightarrow> tree s' = tree s
       | Inr _ \<Rightarrow> tree s (d @ [name]) \<noteq> None \<and>
           tree s' = (tree s)(d @ [name] := map_option (set_mtime tm) (tree s (d @ [name]))))"
    and stat_law: "at s fd = Some q \<Longrightarrow> fstat P fd s = Inr st \<Longrightarrow>
      st_regular st = is_file (tree s q)"
    and write_law: "at s fd = Some q \<Longrightarrow> tree s q = Some (File md t c) \<Longrightarrow>
      write_fd P fd b s = (s', u) \<Longrightarrow>
      at s' = at s \<and> (\<forall>p. p \<noteq> q \<longrightarrow> tree s' p = tree s p) \<and>
      (case u of Inl e \<Rightarrow> \<exists>t' c'. tree s' q = Some (File md t' c')
       | Inr _ \<Rightarrow> \<exists>t'. tree s' q = Some (File md t' (c @ b)))"

text \<open>
  A system without exhausted resources or denied permissions: the calls that only look succeed
  where their documentation says they can, and fail with the documented error elsewhere.
\<close>

locale reliable_fs = posix_fs +
  assumes dup_ok: "at s fd = Some d \<Longrightarrow> \<exists>s' fd'. dup P fd s = (s', Inr fd')"
    and open_ok: "at s fd = Some d \<Longrightarrow> component_ok name \<Longrightarrow> NOFOLLOW \<in> set flags \<Longrightarrow>
      CREATE \<notin> set flags \<Longrightarrow> WRONLY \<notin> set flags \<Longrightarrow>
      (if DIRECTORY \<in> set flags then is_dir (tree s (d @ [name]))
       else tree s (d @ [name]) \<noteq> None \<and> \<not> is_link (tree s (d @ [name]))) \<Longrightarrow>
      \<exists>s' fd'. openat P fd name flags m s = (s', Inr fd')"
    and open_missing: "at s fd = Some d \<Longrightarrow> component_ok name \<Longrightarrow> CREATE \<notin> set flags \<Longrightarrow>
      tree s (d @ [name]) = None \<Longrightarrow> \<exists>s'. openat P fd name flags m s = (s', Inl NOENT)"
    and open_link: "at s fd = Some d \<Longrightarrow> component_ok name \<Longrightarrow> CREATE \<notin> set flags \<Longrightarrow>
      NOFOLLOW \<in> set flags \<Longrightarrow> DIRECTORY \<notin> set flags \<Longrightarrow> is_link (tree s (d @ [name])) \<Longrightarrow>
      \<exists>s'. openat P fd name flags m s = (s', Inl LOOP)"
    and stat_ok: "at s fd = Some q \<Longrightarrow> tree s q \<noteq> None \<Longrightarrow> \<exists>st. fstat P fd s = Inr st"

end
