(* ===== verification/Paths.thy ===== *)
theory Paths
  imports Posix
begin

text \<open>
  Confined path resolution, \<open>crates/quicsync-core/src/filesystem/paths.rs\<close>: the lexical gate
  \<open>decode_relative_path\<close> and the filesystem gate \<open>resolve_parent\<close>, which walks from the root
  descriptor one component at a time without following links.
\<close>

section \<open>Lossy text\<close>

text \<open>
  \<open>String::from_utf8_lossy\<close>, which the diagnostics use: every maximal ill-formed part of the bytes
  is replaced by one U+FFFD. \<open>utf8_step\<close> gives the number of bytes of the next part and whether
  it is a character.
\<close>

definition utf8_second :: "u8 \<Rightarrow> u8 \<Rightarrow> bool" where
  "utf8_second a b \<longleftrightarrow> utf8_tail b \<and> (a = 0xE0 \<longrightarrow> 0xA0 \<le> b) \<and> (a = 0xED \<longrightarrow> b \<le> 0x9F) \<and>
     (a = 0xF0 \<longrightarrow> 0x90 \<le> b) \<and> (a = 0xF4 \<longrightarrow> b \<le> 0x8F)"

definition utf8_width :: "u8 \<Rightarrow> nat" where
  "utf8_width a =
     (if a < 0x80 then 1 else if 0xC2 \<le> a \<and> a \<le> 0xDF then 2
      else if 0xE0 \<le> a \<and> a \<le> 0xEF then 3 else if 0xF0 \<le> a \<and> a \<le> 0xF4 then 4 else 0)"

fun utf8_step :: "u8 \<Rightarrow> bytes \<Rightarrow> nat \<times> bool" where
  "utf8_step a tail =
     (let w = utf8_width a in
      if w = 0 then (1, False)
      else if w = 1 then (1, True)
      else case tail of
          [] \<Rightarrow> (1, False)
        | b # more2 \<Rightarrow>
            if \<not> utf8_second a b then (1, False)
            else if w = 2 then (2, True)
            else case more2 of
                [] \<Rightarrow> (2, False)
              | c # more3 \<Rightarrow>
                  if \<not> utf8_tail c then (2, False)
                  else if w = 3 then (3, True)
                  else case more3 of
                      [] \<Rightarrow> (3, False)
                    | d # _ \<Rightarrow> if utf8_tail d then (4, True) else (3, False))"

lemma utf8_step_pos: "0 < fst (utf8_step a tail)"
  by (auto simp: Let_def split: list.splits)

declare utf8_step.simps [simp del]

function utf8_lossy :: "bytes \<Rightarrow> bytes" where
  "utf8_lossy [] = []"
| "utf8_lossy (a # tail) =
     (let (n, ok) = utf8_step a tail
      in (if ok then take n (a # tail) else [0xEF, 0xBF, 0xBD]) @ utf8_lossy (drop n (a # tail)))"
  by pat_completeness auto
termination
proof (relation "measure length")
  fix a tail x n ok
  assume "x = utf8_step a tail" and "(n, ok) = x"
  then have "0 < n" using utf8_step_pos [of a tail] by (metis fst_conv)
  then show "(drop n (a # tail), a # tail) \<in> measure length" by simp
qed simp

definition lossy_text :: "bytes \<Rightarrow> string" where
  "lossy_text bs = text_of (utf8_lossy bs)"

section \<open>The lexical gate\<close>

definition PROTECTED_COMPONENTS :: "bytes list" where
  "PROTECTED_COMPONENTS = [bytes_of ''.quicsync'', bytes_of ''.git'']"

definition DIRECTORY_FLAGS :: "OFlag list" where
  "DIRECTORY_FLAGS = [RDONLY, DIRECTORY, NOFOLLOW, CLOEXEC]"

definition limit_exceeded :: "string \<Rightarrow> QuicSyncError" where
  "limit_exceeded d = quic_sync_error_new ResourceLimitExceeded None d"

definition path_context :: "RelativePath \<Rightarrow> ErrorContext" where
  "path_context p = with_path error_context_default p"

fun reject_components :: "RelativePath \<Rightarrow> bytes list \<Rightarrow> QuicSyncError + unit" where
  "reject_components p [] = Inr ()"
| "reject_components p (c # cs) =
     (if c \<in> set PROTECTED_COMPONENTS
      then Inl (with_context (quic_sync_error_new PathConfinementViolation None
             (''path component '' @ quoted (lossy_text c) @ '' is administratively protected''))
             (path_context p))
      else reject_components p cs)"

definition reject_protected :: "RelativePath \<Rightarrow> QuicSyncError + unit" where
  "reject_protected p = reject_components p (components p)"

text \<open>\<open>wire.split(|byte| *byte == b'/')\<close>: one tail part than there are separators.\<close>

fun split_slash :: "bytes \<Rightarrow> bytes list" where
  "split_slash [] = [[]]"
| "split_slash (b # bs) =
     (if b = 47 then [] # split_slash bs
      else case split_slash bs of p # ps \<Rightarrow> (b # p) # ps | [] \<Rightarrow> [[b]])"

definition decode_relative_path :: "bytes \<Rightarrow> Limits \<Rightarrow> QuicSyncError + RelativePath" where
  "decode_relative_path wire limits =
     (if length wire > unat (max_path_bytes limits)
      then Inl (limit_exceeded (''path of '' @ decimal (length wire) @ '' bytes exceeds the '' @
             decimal (unat (max_path_bytes limits)) @ ''-byte limit''))
      else
        let cs = split_slash wire in
        if length cs > unat (max_components limits)
        then Inl (limit_exceeded (''path of '' @ decimal (length cs) @ '' components exceeds the '' @
               decimal (unat (max_components limits)) @ ''-component limit''))
        else and_then (map_err (\<lambda>e. quic_sync_error_new ErrorCode.InvalidPath None
                 (''invalid path: '' @ path_error_display e)) (relative_path_new cs)) (\<lambda>p.
             and_then (reject_protected p) (\<lambda>_. Inr p)))"

section \<open>The filesystem gate\<close>

record 'fd ValidatedParent =
  parent_fd :: 'fd
  leaf :: bytes

definition duplicate ::
    "('s, 'fd) posix \<Rightarrow> 'fd \<Rightarrow> RelativePath \<Rightarrow> 's \<Rightarrow> 's \<times> (QuicSyncError + 'fd)" where
  "duplicate P fd p s =
     map_step_err (\<lambda>e. with_context (quic_sync_error_new Io None
         (''cannot duplicate the root descriptor: '' @ errno_text P e)) (path_context p))
       (dup P fd s)"

definition open_directory ::
    "('s, 'fd) posix \<Rightarrow> 'fd \<Rightarrow> bytes \<Rightarrow> RelativePath \<Rightarrow> 's \<Rightarrow> 's \<times> (QuicSyncError + 'fd)" where
  "open_directory P parent c p s =
     map_step_err (\<lambda>e. with_context (quic_sync_error_new
         (if e = LOOP \<or> e = NOTDIR then PathConfinementViolation else Io) None
         (''cannot resolve path component '' @ quoted (lossy_text c) @ '': '' @ errno_text P e))
         (path_context p))
       (openat P parent c DIRECTORY_FLAGS 0 s)"

fun open_ancestors ::
    "('s, 'fd) posix \<Rightarrow> RelativePath \<Rightarrow> 'fd \<Rightarrow> bytes list \<Rightarrow> 's \<Rightarrow> 's \<times> (QuicSyncError + 'fd)" where
  "open_ancestors P p fd [] s = (s, Inr fd)"
| "open_ancestors P p fd (c # cs) s =
     and_do (open_directory P fd c p s) (\<lambda>s fd. open_ancestors P p fd cs s)"

definition resolve_parent ::
    "('s, 'fd) posix \<Rightarrow> 'fd \<Rightarrow> RelativePath \<Rightarrow> 's \<Rightarrow> 's \<times> (QuicSyncError + 'fd ValidatedParent)" where
  "resolve_parent P root p s =
     and_do (s, reject_protected p) (\<lambda>s _.
     and_do (duplicate P root p s) (\<lambda>s fd.
     and_do (open_ancestors P p fd (butlast (components p)) s) (\<lambda>s fd.
       (s, Inr \<lparr>parent_fd = fd, leaf = last (components p)\<rparr>))))"

text \<open>\<open>open_regular\<close>: \<open>Inr None\<close> is \<open>Ok(None)\<close>, no basis.\<close>

fun open_basis_ancestors ::
    "('s, 'fd) posix \<Rightarrow> 'fd \<Rightarrow> bytes list \<Rightarrow> 's \<Rightarrow> 's \<times> (QuicSyncError + 'fd option)" where
  "open_basis_ancestors P fd [] s = (s, Inr (Some fd))"
| "open_basis_ancestors P fd (c # cs) s =
     (case openat P fd c DIRECTORY_FLAGS 0 s of
        (s, Inr fd) \<Rightarrow> open_basis_ancestors P fd cs s
      | (s, Inl e) \<Rightarrow>
          if e = NOENT \<or> e = NOTDIR \<or> e = LOOP then (s, Inr None)
          else (s, Inl (quic_sync_error_new Io None (''open file ancestor: '' @ errno_text P e))))"

definition open_regular ::
    "('s, 'fd) posix \<Rightarrow> 'fd \<Rightarrow> RelativePath \<Rightarrow> 's \<Rightarrow> 's \<times> (QuicSyncError + 'fd option)" where
  "open_regular P root p s =
     and_do (s, reject_protected p) (\<lambda>s _.
     and_do (duplicate P root p s) (\<lambda>s fd.
     and_do (open_basis_ancestors P fd (butlast (components p)) s) (\<lambda>s found.
       case found of
         None \<Rightarrow> (s, Inr None)
       | Some fd \<Rightarrow>
           (case openat P fd (last (components p)) [RDONLY, NOFOLLOW, NONBLOCK, CLOEXEC] 0 s of
              (s, Inl e) \<Rightarrow>
                if e = NOENT \<or> e = LOOP then (s, Inr None)
                else (s, Inl (quic_sync_error_new Io None (''open file: '' @ errno_text P e)))
            | (s, Inr fd) \<Rightarrow>
                (case fstat P fd s of
                   Inl e \<Rightarrow> (s, Inl (quic_sync_error_new Io None (errno_text P e)))
                 | Inr st \<Rightarrow> if st_regular st then (s, Inr (Some fd)) else (s, Inr None))))))"

definition filesystem_identity :: "('s, 'fd) posix \<Rightarrow> 'fd \<Rightarrow> 's \<Rightarrow> QuicSyncError + (u64 \<times> u64)" where
  "filesystem_identity P fd s =
     and_then (map_err (\<lambda>e. quic_sync_error_new Io None
         (''cannot inspect a resolved directory: '' @ errno_text P e)) (fstat P fd s)) (\<lambda>st.
       Inr (st_dev st, st_ino st))"

section \<open>Resolution stays below the root\<close>

definition unprotected :: "RelativePath \<Rightarrow> bool" where
  "unprotected p \<longleftrightarrow> set (components p) \<inter> set PROTECTED_COMPONENTS = {}"

lemma reject_components_Inr:
  "reject_components p cs = Inr u \<longleftrightarrow> set cs \<inter> set PROTECTED_COMPONENTS = {}"
  by (induction cs) auto

lemma reject_protected_Inr:
  "reject_protected p = Inr u \<longleftrightarrow> set (components p) \<inter> set PROTECTED_COMPONENTS = {}"
  by (simp add: reject_protected_def reject_components_Inr)

lemma DIRECTORY_FLAGS_mem [simp]:
  "NOFOLLOW \<in> set DIRECTORY_FLAGS" "DIRECTORY \<in> set DIRECTORY_FLAGS"
  "CREATE \<notin> set DIRECTORY_FLAGS"
  by (simp_all add: DIRECTORY_FLAGS_def)

text \<open>Every proper, nonempty initial part of a list of components is a directory.\<close>

fun dirs_along :: "tree \<Rightarrow> bytes list \<Rightarrow> bytes list \<Rightarrow> bool" where
  "dirs_along t d [] \<longleftrightarrow> True"
| "dirs_along t d (c # cs) \<longleftrightarrow> is_dir (t (d @ [c])) \<and> dirs_along t (d @ [c]) cs"

lemma dirs_along_prefix:
  "dirs_along t d cs \<longleftrightarrow> (\<forall>p. prefix p cs \<and> p \<noteq> [] \<longrightarrow> is_dir (t (d @ p)))"
proof (induction cs arbitrary: d)
  case Nil
  show ?case by simp
next
  case (Cons c cs)
  show ?case (is "_ = (\<forall>p. ?P p)")
  proof
    assume l: "dirs_along t d (c # cs)"
    show "\<forall>p. ?P p"
    proof (intro allI impI)
      fix p
      assume "prefix p (c # cs) \<and> p \<noteq> []"
      then obtain q where "p = c # q" "prefix q cs" by (cases p) auto
      with l Cons.IH [of "d @ [c]"] show "is_dir (t (d @ p))" by (cases q) auto
    qed
  next
    assume r: "\<forall>p. ?P p"
    have "is_dir (t (d @ c # q))" if "prefix q cs" for q using r that by auto
    with Cons.IH [of "d @ [c]"] show "dirs_along t d (c # cs)" by (fastforce dest: spec [of _ "[]"])
  qed
qed

text \<open>The descriptors that were valid stay valid.\<close>

definition keeps :: "('s \<Rightarrow> 'fd \<Rightarrow> bytes list option) \<Rightarrow> 's \<Rightarrow> 's \<Rightarrow> bool" where
  "keeps at s s' \<longleftrightarrow> (\<forall>f p. at s f = Some p \<longrightarrow> at s' f = Some p)"

lemma keeps_refl [simp]: "keeps at s s"
  and keeps_trans: "keeps at s s' \<Longrightarrow> keeps at s' s'' \<Longrightarrow> keeps at s s''"
  and keepsD: "keeps at s s' \<Longrightarrow> at s f = Some p \<Longrightarrow> at s' f = Some p"
  by (simp_all add: keeps_def)

context posix_fs
begin

lemma duplicate_law:
  assumes "at s fd = Some d" and "duplicate P fd p s = (s', r)"
  shows "tree s' = tree s \<and> keeps at s s' \<and> (\<forall>fd'. r = Inr fd' \<longrightarrow> at s' fd' = Some d)"
  using assms dup_law [OF assms(1), of "fst (dup P fd s)" "snd (dup P fd s)"]
  by (cases r) (auto simp: duplicate_def result_simps keeps_def)

lemma open_directory_law:
  assumes "at s fd = Some d" and "component_ok c" and "open_directory P fd c p s = (s', r)"
  shows "tree s' = tree s \<and> keeps at s s' \<and>
    (\<forall>fd'. r = Inr fd' \<longrightarrow> at s' fd' = Some (d @ [c]) \<and> is_dir (tree s (d @ [c])))"
  using open_law [OF assms(1,2), of DIRECTORY_FLAGS 0 "fst (openat P fd c DIRECTORY_FLAGS 0 s)"
      "snd (openat P fd c DIRECTORY_FLAGS 0 s)"] assms(3)
  by (cases r) (auto simp: open_directory_def result_simps keeps_def)

lemma open_ancestors_law:
  assumes "at s fd = Some d" and "list_all component_ok cs" and "open_ancestors P p fd cs s = (s', r)"
  shows "tree s' = tree s \<and> keeps at s s' \<and>
    (\<forall>fd'. r = Inr fd' \<longrightarrow> at s' fd' = Some (d @ cs) \<and> dirs_along (tree s) d cs)"
  using assms
proof (induction cs arbitrary: s fd d)
  case Nil
  then show ?case by auto
next
  case (Cons c cs)
  obtain s1 r1 where 1: "open_directory P fd c p s = (s1, r1)" by fastforce
  note law = open_directory_law [OF Cons.prems(1) _ 1]
  show ?case
  proof (cases r1)
    case (Inl e)
    with 1 law Cons.prems show ?thesis by auto
  next
    case (Inr fd1)
    with law Cons.prems have s1: "tree s1 = tree s" "keeps at s s1" "at s1 fd1 = Some (d @ [c])"
      "is_dir (tree s (d @ [c]))" by auto
    have "tree s' = tree s1 \<and> keeps at s1 s' \<and>
        (\<forall>fd'. r = Inr fd' \<longrightarrow> at s' fd' = Some ((d @ [c]) @ cs) \<and> dirs_along (tree s1) (d @ [c]) cs)"
      using Cons.prems 1 Inr by (intro Cons.IH [OF s1(3)]) auto
    with s1 show ?thesis by (auto intro: keeps_trans)
  qed
qed

lemma resolve_parent_law:
  assumes "at s root = Some []" and "path_ok p" and "resolve_parent P root p s = (s', r)"
  shows "tree s' = tree s \<and> keeps at s s' \<and>
    (\<forall>v. r = Inr v \<longrightarrow> leaf v = last (components p) \<and>
       at s' (parent_fd v) = Some (butlast (components p)) \<and>
       set (components p) \<inter> set PROTECTED_COMPONENTS = {} \<and>
       dirs_along (tree s) [] (butlast (components p)))"
proof (cases "reject_protected p")
  case (Inl e)
  with assms show ?thesis by (auto simp: resolve_parent_def)
next
  case (Inr u)
  then have safe: "set (components p) \<inter> set PROTECTED_COMPONENTS = {}"
    by (simp add: reject_protected_Inr)
  have ok: "list_all component_ok (butlast (components p))"
    using assms(2) by (auto simp: path_ok_def list_all_iff dest: in_set_butlastD)
  obtain s1 r1 where 1: "duplicate P root p s = (s1, r1)" by fastforce
  note dup = duplicate_law [OF assms(1) 1]
  show ?thesis
  proof (cases r1)
    case (Inl e)
    with Inr 1 dup assms(3) show ?thesis by (auto simp: resolve_parent_def)
  next
    case r1: (Inr fd)
    with dup have fd: "at s1 fd = Some []" by simp
    obtain s2 r2 where 2: "open_ancestors P p fd (butlast (components p)) s1 = (s2, r2)" by fastforce
    note anc = open_ancestors_law [OF fd ok 2]
    with Inr r1 1 2 dup safe assms(3) show ?thesis
      by (cases r2) (auto simp: resolve_parent_def intro: keeps_trans)
  qed
qed

end

end
