(* ===== verification/Staging.thy ===== *)
theory Staging
  imports Paths
begin

text \<open>
  Staged files, \<open>crates/quicsync-core/src/filesystem/staging.rs\<close>: a file is received into the
  private directory \<open>.quicsync\<close> and installed by one rename; dropping a staged file that was not
  installed removes it. The text of an operating-system error inside \<open>File\<close> methods is the same
  parameter \<open>errno_text\<close>.
\<close>

section \<open>Modification times\<close>

definition staging_failure :: "string \<Rightarrow> QuicSyncError" where
  "staging_failure e = quic_sync_error_new Io None (''staging: '' @ e)"

text \<open>The bounds of \<open>i64\<close>, the seconds of a \<open>SystemTime\<close>.\<close>

definition i64_ok :: "int \<Rightarrow> bool" where
  "i64_ok x \<longleftrightarrow> - (2 ^ 63) \<le> x \<and> x < 2 ^ 63"

text \<open>
  \<open>UNIX_EPOCH.checked_add\<close> and \<open>checked_sub\<close> of a duration in the standard library's
  \<open>Timespec\<close>: the nanoseconds are kept in \<open>0..10^9\<close>, and a carry or borrow that leaves \<open>i64\<close>
  gives \<open>None\<close>.
\<close>

definition epoch_checked_add :: "int \<Rightarrow> int \<Rightarrow> (int \<times> int) option" where
  "epoch_checked_add secs nanos = (if i64_ok secs then Some (secs, nanos) else None)"

definition epoch_checked_sub :: "int \<Rightarrow> int \<Rightarrow> (int \<times> int) option" where
  "epoch_checked_sub secs nanos =
     (if \<not> i64_ok (- secs) then None
      else if nanos = 0 then Some (- secs, 0)
      else if i64_ok (- secs - 1) then Some (- secs - 1, 1000000000 - nanos)
      else None)"

definition modified_time :: "i128 \<Rightarrow> QuicSyncError + (int \<times> int)" where
  "modified_time nanos =
     (let magnitude = \<bar>sint nanos\<bar>;
          seconds = magnitude div 1000000000
      in if seconds \<ge> 2 ^ 64
         then Inl (staging_failure ''out of range integral type conversion attempted'')
         else ok_or (staging_failure ''mtime is outside supported range'')
                (if sint nanos < 0 then epoch_checked_sub seconds (magnitude mod 1000000000)
                 else epoch_checked_add seconds (magnitude mod 1000000000)))"

definition set_file_metadata ::
    "('s, 'fd) posix \<Rightarrow> 'fd \<Rightarrow> EntryMetadata \<Rightarrow> 's \<Rightarrow> 's \<times> (QuicSyncError + unit)" where
  "set_file_metadata P fd md s =
     and_do (map_step_err (staging_failure \<circ> errno_text P) (fchmod P fd (mode md) s)) (\<lambda>s _.
     and_do (s, modified_time (mtime_ns md)) (\<lambda>s tm.
       map_step_err (staging_failure \<circ> errno_text P) (futimens P fd tm s)))"

section \<open>Staged files\<close>

record 'fd StagedFile =
  staged_dir :: 'fd
  staged_name :: bytes

definition drop_staged :: "('s, 'fd) posix \<Rightarrow> 'fd StagedFile \<Rightarrow> 's \<Rightarrow> 's" where
  "drop_staged P f s = fst (unlinkat P (staged_dir f) (staged_name f) False s)"

text \<open>
  The body of \<open>install\<close> up to the flag \<open>installed\<close>, and the whole: whatever fails, the file is
  dropped with the flag unset and removes itself.
\<close>

definition install_steps ::
    "('s, 'fd) posix \<Rightarrow> 'fd StagedFile \<Rightarrow> 'fd \<Rightarrow> RelativePath \<Rightarrow> EntryMetadata \<Rightarrow> 's \<Rightarrow>
     's \<times> (QuicSyncError + unit)" where
  "install_steps P f root p md s =
     (if kind md \<noteq> RegularFile
      then (s, Inl (staging_failure ''regular-file staging requires regular-file metadata''))
      else
        and_do (map_step_err (staging_failure \<circ> errno_text P)
          (openat P (staged_dir f) (staged_name f) [WRONLY, NOFOLLOW, CLOEXEC] 0 s)) (\<lambda>s fd.
        and_do (set_file_metadata P fd md s) (\<lambda>s _.
        and_do (resolve_parent P root p s) (\<lambda>s parent.
          map_step_err (staging_failure \<circ> errno_text P)
            (renameat P (staged_dir f) (staged_name f) (parent_fd parent) (leaf parent) s)))))"

definition install ::
    "('s, 'fd) posix \<Rightarrow> 'fd StagedFile \<Rightarrow> 'fd \<Rightarrow> RelativePath \<Rightarrow> EntryMetadata \<Rightarrow> 's \<Rightarrow>
     's \<times> (QuicSyncError + unit)" where
  "install P f root p md s =
     (case install_steps P f root p md s of
        (s, Inl e) \<Rightarrow> (drop_staged P f s, Inl e)
      | (s, Inr _) \<Rightarrow> (s, Inr ()))"

text \<open>
  \<open>io::copy\<close> from a reader: the reader yields chunks until it ends or fails; each chunk is
  written before the next one is read.
\<close>

fun copy_all ::
    "('s, 'fd) posix \<Rightarrow> (string + bytes) list \<Rightarrow> 'fd \<Rightarrow> 's \<Rightarrow> 's \<times> (string + unit)" where
  "copy_all P [] fd s = (s, Inr ())"
| "copy_all P (Inl e # content) fd s = (s, Inl e)"
| "copy_all P (Inr chunk # content) fd s =
     and_do (map_step_err (errno_text P) (write_fd P fd chunk s)) (\<lambda>s _. copy_all P content fd s)"

text \<open>\<open>random\<close> is what the random generator returns, \<open>None\<close> when it fails.\<close>

definition staged_file_name :: "bytes \<Rightarrow> bytes" where
  "staged_file_name random = bytes_of ''incoming-'' @ concat (map format_02x random)"

definition receive_in ::
    "('s, 'fd) posix \<Rightarrow> 'fd \<Rightarrow> bytes option \<Rightarrow> (string + bytes) list \<Rightarrow> 's \<Rightarrow>
     's \<times> (QuicSyncError + 'fd StagedFile)" where
  "receive_in P directory random content s =
     (case random of
        None \<Rightarrow> (s, Inl (staging_failure ''random filename unavailable''))
      | Some rnd \<Rightarrow>
          let staged = \<lparr>staged_dir = directory, staged_name = staged_file_name rnd\<rparr> in
          and_do (map_step_err (staging_failure \<circ> errno_text P)
            (openat P directory (staged_file_name rnd)
               [WRONLY, CREATE, EXCL, NOFOLLOW, CLOEXEC] 384 s)) (\<lambda>s fd.
          case copy_all P content fd s of
            (s, Inl e) \<Rightarrow> (drop_staged P staged s, Inl (staging_failure e))
          | (s, Inr _) \<Rightarrow> (s, Inr staged)))"

definition make_staging :: "('s, 'fd) posix \<Rightarrow> 'fd \<Rightarrow> 's \<Rightarrow> 's \<times> (QuicSyncError + unit)" where
  "make_staging P root s =
     (case mkdirat P root (bytes_of ''.quicsync'') 448 s of
        (s, Inr _) \<Rightarrow> (s, Inr ())
      | (s, Inl e) \<Rightarrow>
          if e = EXIST then (s, Inr ()) else (s, Inl (staging_failure (errno_text P e))))"

text \<open>\<open>448\<close> is \<open>0o700\<close>, \<open>384\<close> is \<open>0o600\<close> and \<open>63\<close> is \<open>0o077\<close>.\<close>

definition staging_directory :: "('s, 'fd) posix \<Rightarrow> 'fd \<Rightarrow> 's \<Rightarrow> 's \<times> (QuicSyncError + 'fd)" where
  "staging_directory P root s =
     and_do (make_staging P root s) (\<lambda>s _.
     and_do (map_step_err (staging_failure \<circ> errno_text P)
       (openat P root (bytes_of ''.quicsync'') DIRECTORY_FLAGS 0 s)) (\<lambda>s fd.
     and_do (s, map_err (staging_failure \<circ> errno_text P) (fstat P fd s)) (\<lambda>s st.
       if st_uid st \<noteq> geteuid P \<or> st_mode st AND 63 \<noteq> 0
       then (s, Inl (staging_failure
              ''staging directory must be private and owned by the current user''))
       else (s, Inr fd))))"

definition staged_receive ::
    "('s, 'fd) posix \<Rightarrow> 'fd \<Rightarrow> bytes option \<Rightarrow> (string + bytes) list \<Rightarrow> 's \<Rightarrow>
     's \<times> (QuicSyncError + 'fd StagedFile)" where
  "staged_receive P root random content s =
     and_do (staging_directory P root s) (\<lambda>s fd. receive_in P fd random content s)"

record 'fd StagingArea =
  area_root :: 'fd
  area_directory :: 'fd

definition staging_area_new ::
    "('s, 'fd) posix \<Rightarrow> 'fd \<Rightarrow> 's \<Rightarrow> 's \<times> (QuicSyncError + 'fd StagingArea)" where
  "staging_area_new P root s =
     and_do (staging_directory P root s) (\<lambda>s fd.
       (s, Inr \<lparr>area_root = root, area_directory = fd\<rparr>))"

definition staging_area_receive ::
    "('s, 'fd) posix \<Rightarrow> 'fd StagingArea \<Rightarrow> bytes option \<Rightarrow> (string + bytes) list \<Rightarrow> 's \<Rightarrow>
     's \<times> (QuicSyncError + 'fd StagedFile)" where
  "staging_area_receive P area random content s = receive_in P (area_directory area) random content s"

section \<open>The time that is set is the time of the record\<close>

lemma modified_time_Inr:
  assumes "modified_time n = Inr (sec, nsec)"
  shows "sec = sint n div 1000000000 \<and> nsec = sint n mod 1000000000 \<and> i64_ok sec"
proof (cases "sint n < 0")
  case False
  then show ?thesis
    using assms by (auto simp: modified_time_def Let_def epoch_checked_add_def split: if_splits)
next
  case True
  define x where "x = - sint n"
  then have x: "sint n = - x" "\<bar>sint n\<bar> = x" "0 < x" using True by simp_all
  have "(- x) div 1000000000 = (if x mod 1000000000 = 0 then - (x div 1000000000) else - (x div 1000000000) - 1)"
    by (simp add: zdiv_zminus1_eq_if)
  moreover have "(- x) mod 1000000000 = (if x mod 1000000000 = 0 then 0 else 1000000000 - x mod 1000000000)"
    by (simp add: zmod_zminus1_eq_if)
  ultimately show ?thesis
    using assms True x by (auto simp: modified_time_def Let_def epoch_checked_sub_def split: if_splits)
qed

section \<open>Which names a step may change\<close>

text \<open>
  Outside \<open>E\<close> every name stands for what it did, up to the modification times of the directories
  in \<open>M\<close>.
\<close>

definition frame :: "bytes list set \<Rightarrow> bytes list set \<Rightarrow> tree \<Rightarrow> tree \<Rightarrow> bool" where
  "frame E M t t' \<longleftrightarrow>
     (\<forall>q. q \<notin> E \<longrightarrow> same_dir (t q) (t' q)) \<and> (\<forall>q. q \<notin> E \<and> q \<notin> M \<longrightarrow> t' q = t q)"

lemma same_dir_refl [simp]: "same_dir x x"
  by (cases "(x, x)" rule: same_dir.cases) auto

lemma same_dir_trans: "same_dir x y \<Longrightarrow> same_dir y z \<Longrightarrow> same_dir x z"
  by (cases "(x, y)" rule: same_dir.cases; cases "(y, z)" rule: same_dir.cases) auto

lemma same_dir_kind:
  assumes "same_dir x y"
  shows "is_dir y = is_dir x" "is_file y = is_file x" "is_link y = is_link x" "(y = None) = (x = None)"
  using assms by (cases "(x, y)" rule: same_dir.cases; auto)+

lemma same_dir_eq: "same_dir x y \<Longrightarrow> \<not> is_dir x \<Longrightarrow> y = x"
  by (cases "(x, y)" rule: same_dir.cases) auto

lemma frame_refl [simp]: "frame E M t t"
  by (simp add: frame_def)

lemma frame_trans:
  "frame E M t t' \<Longrightarrow> frame E' M' t' t'' \<Longrightarrow> frame (E \<union> E') (M \<union> M') t t''"
  unfolding frame_def by (metis UnCI same_dir_trans)

lemma frame_mono: "frame E M t t' \<Longrightarrow> E \<subseteq> E' \<Longrightarrow> M \<subseteq> M' \<Longrightarrow> frame E' M' t t'"
  unfolding frame_def by blast

lemma frame_chain: "frame E M t t' \<Longrightarrow> frame E M t' t'' \<Longrightarrow> frame E M t t''"
  using frame_trans [of E M t t' E M t''] by simp

lemma frameD: "frame E M t t' \<Longrightarrow> q \<notin> E \<Longrightarrow> same_dir (t q) (t' q)"
  "frame E M t t' \<Longrightarrow> q \<notin> E \<Longrightarrow> q \<notin> M \<Longrightarrow> t' q = t q"
  by (auto simp: frame_def)

lemma updated_frame: "updated q x t t' \<Longrightarrow> frame {q} {butlast q} t t' \<and> t' q = x"
  by (auto simp: updated_def frame_def)

lemma fun_upd_frame: "frame {q} M t (t(q := x))"
  by (auto simp: frame_def)

abbreviation staging :: "bytes list" where
  "staging \<equiv> [bytes_of ''.quicsync'']"

text \<open>A descriptor stays where it is, unless it is at one of the names \<open>E\<close> or below one.\<close>

definition keeps_off :: "bytes list set \<Rightarrow> ('s \<Rightarrow> 'fd \<Rightarrow> bytes list option) \<Rightarrow> 's \<Rightarrow> 's \<Rightarrow> bool" where
  "keeps_off E at s s' \<longleftrightarrow>
     (\<forall>f p. at s f = Some p \<and> (\<forall>q\<in>E. \<not> prefix q p) \<longrightarrow> at s' f = Some p)"

lemma keeps_off_refl [simp]: "keeps_off E at s s"
  and keeps_off_trans: "keeps_off E at s s' \<Longrightarrow> keeps_off E at s' s'' \<Longrightarrow> keeps_off E at s s''"
  and keeps_imp_off: "keeps at s s' \<Longrightarrow> keeps_off E at s s'"
  and keeps_off_mono: "keeps_off E at s s' \<Longrightarrow> E \<subseteq> E' \<Longrightarrow> keeps_off E' at s s'"
  by (auto simp: keeps_off_def keeps_def)

lemma keeps_offD: "keeps_off E at s s' \<Longrightarrow> at s f = Some p \<Longrightarrow> \<forall>q\<in>E. \<not> prefix q p \<Longrightarrow> at s' f = Some p"
  by (simp add: keeps_off_def)

lemma keeps_off_eq: "at s' = at s \<Longrightarrow> keeps_off E at s s'"
  by (simp add: keeps_off_def)

context posix_fs
begin

lemma set_file_metadata_law:
  assumes at: "at s fd = Some q" and run: "set_file_metadata P fd md s = (s', r)"
  shows "at s' = at s \<and> frame {q} {} (tree s) (tree s') \<and>
    (tree s' q = None \<longleftrightarrow> tree s q = None) \<and> is_dir (tree s' q) = is_dir (tree s q) \<and>
    (\<forall>u. r = Inr u \<longrightarrow> (\<exists>tm. modified_time (mtime_ns md) = Inr tm \<and>
       tree s' q = map_option (set_mtime tm \<circ> set_mode (mode md)) (tree s q)))"
proof -
  obtain s1 r1 where 1: "fchmod P fd (mode md) s = (s1, r1)" by fastforce
  note c = chmod_law [OF at 1]
  have kind: "is_dir (map_option (set_mode m) x) = is_dir x" "is_dir (map_option (set_mtime tm) x) = is_dir x"
    "is_dir (map_option (set_mtime tm \<circ> set_mode m) x) = is_dir x"
    for m tm x by (cases x; cases "the x"; cases tm; auto)+
  show ?thesis
  proof (cases "r1")
    case (Inl e)
    with c 1 run show ?thesis by (auto simp: set_file_metadata_def map_step_err_def)
  next
    case (Inr u)
    show ?thesis
    proof (cases "modified_time (mtime_ns md)")
      case (Inl e)
      with c 1 Inr run show ?thesis
        by (auto simp: set_file_metadata_def map_step_err_def fun_upd_frame kind)
    next
      case tm: (Inr tm)
      obtain s2 r2 where 2: "futimens P fd tm s1 = (s2, r2)" by fastforce
      have at1: "at s1 fd = Some q" using c at by simp
      note f = futimens_law [OF at1 2]
      show ?thesis
        using c f 1 2 Inr tm run
        by (cases r2) (auto simp: set_file_metadata_def map_step_err_def fun_upd_frame kind
            option.map_comp)
    qed
  qed
qed

lemma drop_staged_law:
  assumes "at s (staged_dir f) = Some d" and "component_ok (staged_name f)"
  shows "frame {d @ [staged_name f]} {d} (tree s) (tree (drop_staged P f s)) \<and>
    keeps_off {d @ [staged_name f]} at s (drop_staged P f s)"
proof -
  obtain s' r where run: "unlinkat P (staged_dir f) (staged_name f) False s = (s', r)" by fastforce
  from unlink_law [OF assms run] run show ?thesis
    by (cases r) (auto simp: drop_staged_def keeps_off_def dest: updated_frame)
qed

text \<open>
  Installing changes the target and the staged name, and the times of their directories, nothing
  else; if it fails the target is what it was.
\<close>

abbreviation install_names :: "'fd StagedFile \<Rightarrow> RelativePath \<Rightarrow> bytes list set" where
  "install_names f p \<equiv> {components p, staging @ [staged_name f]}"

abbreviation install_dirs :: "RelativePath \<Rightarrow> bytes list set" where
  "install_dirs p \<equiv> {butlast (components p), staging}"

lemma unprotected_not_staged:
  assumes "set cs \<inter> set PROTECTED_COMPONENTS = {}" and "prefix q cs"
  shows "q \<noteq> staging @ [n]"
proof
  assume "q = staging @ [n]"
  then have "bytes_of ''.quicsync'' \<in> set cs" using set_mono_prefix [OF assms(2)] by simp
  with assms(1) show False by (auto simp: PROTECTED_COMPONENTS_def)
qed

text \<open>The last two steps of an installation: a staged file is renamed into its place.\<close>

lemma place_law:
  assumes root: "at s root = Some []" and p: "path_ok p"
    and dir: "at s (staged_dir f) = Some staging" and n: "component_ok (staged_name f)"
    and fil: "is_file (tree s (staging @ [staged_name f]))"
    and run: "and_do (resolve_parent P root p s) (\<lambda>s parent. map_step_err err
        (renameat P (staged_dir f) (staged_name f) (parent_fd parent) (leaf parent) s)) = (s', r)"
  shows "keeps_off (install_names f p) at s s' \<and>
    (case r of
       Inl e \<Rightarrow> tree s' = tree s \<and> keeps at s s'
     | Inr u \<Rightarrow> frame (install_names f p) (install_dirs p) (tree s) (tree s') \<and>
         set (components p) \<inter> set PROTECTED_COMPONENTS = {} \<and> dirs_along (tree s) [] (butlast (components p)) \<and>
         \<not> is_dir (tree s (components p)) \<and> tree s' (components p) = tree s (staging @ [staged_name f]))"
proof -
  let ?st = "staging @ [staged_name f]"
  obtain s1 r1 where 1: "resolve_parent P root p s = (s1, r1)" by fastforce
  note rp = resolve_parent_law [OF root p 1]
  show ?thesis
  proof (cases r1)
    case (Inl e)
    with rp 1 run show ?thesis by (auto intro: keeps_imp_off)
  next
    case r1: (Inr v)
    with rp have v: "leaf v = last (components p)" "at s1 (parent_fd v) = Some (butlast (components p))"
      "set (components p) \<inter> set PROTECTED_COMPONENTS = {}" "tree s1 = tree s"
      "dirs_along (tree s) [] (butlast (components p))" "keeps at s s1" by auto
    have cp: "butlast (components p) @ [last (components p)] = components p" and lok: "component_ok (last (components p))"
      using p by (auto simp: path_ok_def list_all_iff)
    have ne: "?st \<noteq> components p" using unprotected_not_staged [OF v(3)] by (metis prefix_order.order_refl)
    obtain s2 r2 where 2: "renameat P (staged_dir f) (staged_name f) (parent_fd v) (last (components p)) s1 = (s2, r2)" by fastforce
    have run2: "s' = s2" "r = map_err err r2" using run 1 2 r1 v(1) by (simp_all add: map_step_err_def)
    note ren = rename_law [OF keepsD [OF v(6) dir] v(2) n lok _ _ 2, unfolded cp v(4), OF fil ne]
    have k: "keeps_off (install_names f p) at s s2"
      unfolding keeps_off_def
    proof (intro allI impI, elim conjE)
      fix g q
      assume "at s g = Some q" and off: "\<forall>x\<in>install_names f p. \<not> prefix x q"
      moreover from off have "q \<noteq> ?st" "q \<noteq> components p" by auto
      ultimately show "at s2 g = Some q" using ren keepsD [OF v(6)] by blast
    qed
    show ?thesis
    proof (cases r2)
      case (Inl e)
      with ren run2 v(6) k show ?thesis by (auto simp: keeps_def)
    next
      case (Inr u)
      with ren obtain t1 where u: "updated ?st None (tree s) t1" "updated (components p) (tree s ?st) t1 (tree s2)"
        and nd: "\<not> is_dir (tree s (components p))" by auto
      have "frame (install_names f p) (install_dirs p) (tree s) (tree s2)"
        using frame_trans [OF conjunct1 [OF updated_frame [OF u(1)]] conjunct1 [OF updated_frame [OF u(2)]]]
        by (rule frame_mono) auto
      moreover have "tree s2 (components p) = tree s ?st" using updated_frame [OF u(2)] by simp
      ultimately show ?thesis using k run2 Inr v nd by simp
    qed
  qed
qed

lemma install_steps_law:
  assumes root: "at s root = Some []" and p: "path_ok p"
    and dir: "at s (staged_dir f) = Some staging" and n: "component_ok (staged_name f)"
    and fil: "tree s (staging @ [staged_name f]) = Some (File m t c)"
    and run: "install_steps P f root p md s = (s', r)"
  shows "frame (install_names f p) (install_dirs p) (tree s) (tree s') \<and>
    keeps_off (install_names f p) at s s' \<and>
    (case r of
       Inl e \<Rightarrow> frame {staging @ [staged_name f]} {} (tree s) (tree s') \<and> keeps at s s'
     | Inr u \<Rightarrow> kind md = RegularFile \<and> set (components p) \<inter> set PROTECTED_COMPONENTS = {} \<and>
         dirs_along (tree s) [] (butlast (components p)) \<and> \<not> is_dir (tree s (components p)) \<and>
         (\<exists>sec nsec. modified_time (mtime_ns md) = Inr (sec, nsec) \<and>
            tree s' (components p) = Some (File (mode md) (sec * 1000000000 + nsec) c)))"
proof (cases "kind md = RegularFile")
  case False
  with run show ?thesis by (auto simp: install_steps_def)
next
  case True
  let ?st = "staging @ [staged_name f]"
  obtain s1 r1 where 1: "openat P (staged_dir f) (staged_name f) [WRONLY, NOFOLLOW, CLOEXEC] 0 s = (s1, r1)" by fastforce
  have o: "tree s1 = tree s" "keeps at s s1" "\<And>fd. r1 = Inr fd \<Longrightarrow> at s1 fd = Some ?st"
    using open_law [OF dir n _ _ 1] by (auto simp: keeps_def)
  show ?thesis
  proof (cases r1)
    case (Inl e)
    with o 1 True run show ?thesis by (auto simp: install_steps_def map_step_err_def intro: keeps_imp_off)
  next
    case r1: (Inr fd)
    obtain s2 r2 where 2: "set_file_metadata P fd md s1 = (s2, r2)" by fastforce
    note sm = set_file_metadata_law [OF o(3) [OF r1] 2]
    then have k2: "keeps at s s2" and fr2: "frame {?st} {} (tree s) (tree s2)"
      using o by (simp_all add: keeps_def)
    show ?thesis
    proof (cases r2)
      case (Inl e)
      with k2 fr2 1 2 r1 True run show ?thesis
        by (auto simp: install_steps_def map_step_err_def intro: keeps_imp_off elim: frame_mono)
    next
      case r2: (Inr u)
      obtain sec nsec where tm: "modified_time (mtime_ns md) = Inr (sec, nsec)"
        and st2: "tree s2 ?st = Some (File (mode md) (sec * 1000000000 + nsec) c)"
        using sm r2 o fil by (fastforce split: prod.splits)
      have "and_do (resolve_parent P root p s2) (\<lambda>s parent. map_step_err (staging_failure \<circ> errno_text P)
          (renameat P (staged_dir f) (staged_name f) (parent_fd parent) (leaf parent) s)) = (s', r)"
        using run 1 2 r1 r2 True by (simp add: install_steps_def map_step_err_def)
      from place_law [OF keepsD [OF k2 root] p keepsD [OF k2 dir] n _ this] st2
      have pl: "keeps_off (install_names f p) at s2 s'" "case r of
         Inl e \<Rightarrow> tree s' = tree s2 \<and> keeps at s2 s'
       | Inr u \<Rightarrow> frame (install_names f p) (install_dirs p) (tree s2) (tree s') \<and>
           set (components p) \<inter> set PROTECTED_COMPONENTS = {} \<and> dirs_along (tree s2) [] (butlast (components p)) \<and>
           \<not> is_dir (tree s2 (components p)) \<and> tree s' (components p) = tree s2 ?st" by simp_all
      have off: "keeps_off (install_names f p) at s s'" using k2 pl(1) by (auto simp: keeps_off_def keeps_def)
      show ?thesis
      proof (cases r)
        case (Inl e)
        with pl fr2 off keeps_trans [OF k2] show ?thesis by (auto elim: frame_mono)
      next
        case (Inr v)
        with pl have safe: "set (components p) \<inter> set PROTECTED_COMPONENTS = {}" by simp
        have "tree s2 q = tree s q" if "prefix q (components p)" for q
          using frameD(2) [OF fr2] unprotected_not_staged [OF safe that] by simp
        moreover from this have "dirs_along (tree s) [] (butlast (components p))"
          using pl(2) Inr prefixeq_butlast [of "components p"] by (auto simp: dirs_along_prefix dest: prefix_order.trans)
        moreover have "frame (install_names f p) (install_dirs p) (tree s2) (tree s')" using pl(2) Inr by simp
        from frame_trans [OF fr2 this] have "frame (install_names f p) (install_dirs p) (tree s) (tree s')"
          by (rule frame_mono) auto
        ultimately show ?thesis using pl(2) Inr off tm st2 safe True by simp
      qed
    qed
  qed
qed

lemma install_law:
  assumes root: "at s root = Some []" and p: "path_ok p"
    and dir: "at s (staged_dir f) = Some staging" and n: "component_ok (staged_name f)"
    and fil: "tree s (staging @ [staged_name f]) = Some (File m t c)"
    and run: "install P f root p md s = (s', r)"
  shows "frame (install_names f p) (install_dirs p) (tree s) (tree s') \<and>
    keeps_off (install_names f p) at s s' \<and>
    (case r of
       Inl e \<Rightarrow> frame {staging @ [staged_name f]} {staging} (tree s) (tree s') \<and>
         keeps_off {staging @ [staged_name f]} at s s'
     | Inr u \<Rightarrow> kind md = RegularFile \<and> set (components p) \<inter> set PROTECTED_COMPONENTS = {} \<and>
         dirs_along (tree s) [] (butlast (components p)) \<and> \<not> is_dir (tree s (components p)) \<and>
         (\<exists>sec nsec. modified_time (mtime_ns md) = Inr (sec, nsec) \<and>
            tree s' (components p) = Some (File (mode md) (sec * 1000000000 + nsec) c)))"
proof -
  obtain s1 r1 where 1: "install_steps P f root p md s = (s1, r1)" by fastforce
  note steps = install_steps_law [OF root p dir n fil 1]
  show ?thesis
  proof (cases r1)
    case (Inr u)
    with steps 1 run show ?thesis by (auto simp: install_def)
  next
    case (Inl e)
    with steps have k: "keeps at s s1" and fr: "frame {staging @ [staged_name f]} {} (tree s) (tree s1)"
      by simp_all
    note dr = drop_staged_law [OF keepsD [OF k dir] n]
    have s': "s' = drop_staged P f s1" "r = Inl e" using run 1 Inl by (simp_all add: install_def)
    have "frame ({staging @ [staged_name f]} \<union> {staging @ [staged_name f]}) ({} \<union> {staging}) (tree s) (tree s')"
      using frame_trans [OF fr conjunct1 [OF dr]] s' by simp
    moreover have "keeps_off {staging @ [staged_name f]} at s s'"
      using keeps_off_trans [OF keeps_imp_off [OF k] conjunct2 [OF dr]] s' by simp
    ultimately show ?thesis
      using s' by (auto elim: frame_mono keeps_off_mono)
  qed
qed

end

end
