(* ===== verification/Commit.thy ===== *)
theory Commit
  imports Staging
begin

text \<open>
  The commit stage, \<open>crates/quicsync-core/src/sync/commit.rs\<close>. \<open>PendingCommit\<close> collects the
  operations of a sync with their staged files; \<open>Committer\<close> applies them in the order of their
  ids, deferring what must wait until a directory's entries are done. The vector \<open>pending\<close> is a
  list with its last element first.
\<close>

section \<open>Directories that wait\<close>

datatype 'fd Action =
    DeleteAction
  | MetadataAction EntryMetadata
  | FileAction "'fd StagedFile" EntryMetadata
  | SymlinkAction IndexRecord

record 'fd PendingDirectory =
  pending_path :: RelativePath
  actions :: "'fd Action list"

record 'fd Committer =
  committer_root :: 'fd
  pending :: "'fd PendingDirectory list"
  previous :: "RelativePath option"

definition committer_new :: "'fd \<Rightarrow> 'fd Committer" where
  "committer_new root = \<lparr>committer_root = root, pending = [], previous = None\<rparr>"

definition install_failure :: "string \<Rightarrow> QuicSyncError" where
  "install_failure e = quic_sync_error_new OperationFailed None (''install: '' @ e)"

definition unlink ::
    "('s, 'fd) posix \<Rightarrow> 'fd \<Rightarrow> RelativePath \<Rightarrow> bool \<Rightarrow> 's \<Rightarrow> 's \<times> (QuicSyncError + unit)" where
  "unlink P root p removedir s =
     and_do (resolve_parent P root p s) (\<lambda>s parent.
       map_step_err (install_failure \<circ> errno_text P)
         (unlinkat P (parent_fd parent) (leaf parent) removedir s))"

text \<open>\<open>CString::new\<close>, which rejects an interior NUL byte and names its position.\<close>

definition cstring_new :: "bytes \<Rightarrow> string + bytes" where
  "cstring_new b =
     (if 0 \<in> set b
      then Inl (''nul byte found in provided data at position: '' @
             decimal (length (takeWhile (\<lambda>x. x \<noteq> 0) b)))
      else Inr b)"

definition symlink_time :: "i128 \<Rightarrow> QuicSyncError + (int \<times> int)" where
  "symlink_time nanos =
     (let sec = sint nanos div 1000000000
      in if i64_ok sec then Inr (sec, sint nanos mod 1000000000)
         else Inl (install_failure ''out of range integral type conversion attempted''))"

definition unlink_existing ::
    "('s, 'fd) posix \<Rightarrow> 'fd ValidatedParent \<Rightarrow> 's \<Rightarrow> 's \<times> (QuicSyncError + unit)" where
  "unlink_existing P parent s =
     (case unlinkat P (parent_fd parent) (leaf parent) False s of
        (s, Inr _) \<Rightarrow> (s, Inr ())
      | (s, Inl e) \<Rightarrow>
          if e = NOENT then (s, Inr ()) else (s, Inl (install_failure (errno_text P e))))"

definition symlink ::
    "('s, 'fd) posix \<Rightarrow> 'fd \<Rightarrow> IndexRecord \<Rightarrow> 's \<Rightarrow> 's \<times> (QuicSyncError + unit)" where
  "symlink P root r s =
     and_do (s, ok_or (install_failure ''missing symlink target'') (symlink_target r)) (\<lambda>s target.
     and_do (s, map_err install_failure (cstring_new target)) (\<lambda>s target.
     and_do (resolve_parent P root (path r) s) (\<lambda>s parent.
     and_do (unlink_existing P parent s) (\<lambda>s _.
     and_do (map_step_err (install_failure \<circ> errno_text P)
       (symlinkat P target (parent_fd parent) (leaf parent) s)) (\<lambda>s _.
     and_do (s, symlink_time (mtime_ns (metadata r))) (\<lambda>s tm.
       map_step_err (install_failure \<circ> errno_text P)
         (utimensat P (parent_fd parent) (leaf parent) tm s)))))))"

definition open_leaf ::
    "('s, 'fd) posix \<Rightarrow> 'fd ValidatedParent \<Rightarrow> 's \<Rightarrow> 's \<times> (QuicSyncError + 'fd)" where
  "open_leaf P parent s =
     map_step_err (install_failure \<circ> errno_text P)
       (openat P (parent_fd parent) (leaf parent) [RDONLY, DIRECTORY, NOFOLLOW, CLOEXEC] 0 s)"

definition set_directory_metadata ::
    "('s, 'fd) posix \<Rightarrow> 'fd \<Rightarrow> RelativePath \<Rightarrow> EntryMetadata \<Rightarrow> 's \<Rightarrow> 's \<times> (QuicSyncError + unit)" where
  "set_directory_metadata P root p md s =
     and_do (resolve_parent P root p s) (\<lambda>s parent.
     and_do (open_leaf P parent s) (\<lambda>s fd. set_file_metadata P fd md s))"

fun run_action ::
    "('s, 'fd) posix \<Rightarrow> 'fd \<Rightarrow> RelativePath \<Rightarrow> 'fd Action \<Rightarrow> 's \<Rightarrow> 's \<times> (QuicSyncError + unit)" where
  "run_action P root p DeleteAction s = unlink P root p True s"
| "run_action P root p (FileAction f md) s = install P f root p md s"
| "run_action P root p (SymlinkAction r) s = symlink P root r s"
| "run_action P root p (MetadataAction md) s = set_directory_metadata P root p md s"

text \<open>Staged files that are dropped without having been installed.\<close>

fun drop_action :: "('s, 'fd) posix \<Rightarrow> 'fd Action \<Rightarrow> 's \<Rightarrow> 's" where
  "drop_action P (FileAction f md) s = drop_staged P f s"
| "drop_action P _ s = s"

definition drop_file :: "('s, 'fd) posix \<Rightarrow> 'fd StagedFile option \<Rightarrow> 's \<Rightarrow> 's" where
  "drop_file P f s = (case f of None \<Rightarrow> s | Some f \<Rightarrow> drop_staged P f s)"

fun run_actions ::
    "('s, 'fd) posix \<Rightarrow> 'fd \<Rightarrow> RelativePath \<Rightarrow> 'fd Action list \<Rightarrow> 's \<Rightarrow> 's \<times> (QuicSyncError + unit)" where
  "run_actions P root p [] s = (s, Inr ())"
| "run_actions P root p (a # as) s =
     (case run_action P root p a s of
        (s, Inl e) \<Rightarrow> (fold (drop_action P) as s, Inl e)
      | (s, Inr _) \<Rightarrow> run_actions P root p as s)"

text \<open>\<open>finish_directory\<close> pops the top entry and runs its actions, whether or not they succeed.\<close>

definition finish_directory ::
    "('s, 'fd) posix \<Rightarrow> 'fd \<Rightarrow> 'fd PendingDirectory \<Rightarrow> 's \<Rightarrow> 's \<times> (QuicSyncError + unit)" where
  "finish_directory P root d s = run_actions P root (pending_path d) (actions d) s"

section \<open>Applying an operation\<close>

text \<open>The two \<open>while\<close> loops that finish directories from the top of the stack.\<close>

fun finish_while ::
    "('s, 'fd) posix \<Rightarrow> 'fd \<Rightarrow> (RelativePath \<Rightarrow> bool) \<Rightarrow> 'fd PendingDirectory list \<Rightarrow> 's \<Rightarrow>
     ('s \<times> 'fd PendingDirectory list) \<times> (QuicSyncError + unit)" where
  "finish_while P root leaving [] s = ((s, []), Inr ())"
| "finish_while P root leaving (d # ds) s =
     (if leaving (pending_path d)
      then case finish_directory P root d s of
          (s, Inl e) \<Rightarrow> ((s, ds), Inl e)
        | (s, Inr _) \<Rightarrow> finish_while P root leaving ds s
      else ((s, d # ds), Inr ()))"

definition replacing_directory :: "'fd PendingDirectory list \<Rightarrow> RelativePath \<Rightarrow> bool" where
  "replacing_directory ds p =
     (case ds of [] \<Rightarrow> False | d # _ \<Rightarrow> pending_path d = p \<and> DeleteAction \<in> set (actions d))"

definition defer_action :: "RelativePath \<Rightarrow> 'fd Action \<Rightarrow> 'fd PendingDirectory list \<Rightarrow> 'fd PendingDirectory list" where
  "defer_action p a ds =
     (case ds of
        d # rest \<Rightarrow>
          if pending_path d = p then d\<lparr>actions := actions d @ [a]\<rparr> # rest
          else \<lparr>pending_path = p, actions = [a]\<rparr> # ds
      | [] \<Rightarrow> [\<lparr>pending_path = p, actions = [a]\<rparr>])"

definition make_directory ::
    "('s, 'fd) posix \<Rightarrow> 'fd \<Rightarrow> RelativePath \<Rightarrow> EntryMetadata \<Rightarrow> 's \<Rightarrow> 's \<times> (QuicSyncError + unit)" where
  "make_directory P root p md s =
     and_do (resolve_parent P root p s) (\<lambda>s parent.
     and_do (case mkdirat P (parent_fd parent) (leaf parent) 448 s of
               (s, Inr _) \<Rightarrow> (s, Inr ())
             | (s, Inl e) \<Rightarrow>
                 if e = EXIST then (s, Inr ()) else (s, Inl (install_failure (errno_text P e)))) (\<lambda>s _.
     and_do (open_leaf P parent s) (\<lambda>s fd.
       map_step_err (install_failure \<circ> errno_text P) (fchmod P fd (mode md OR 448) s))))"

fun is_upsert_file :: "Operation \<Rightarrow> bool" where
  "is_upsert_file (UpsertFile u i r) = True"
| "is_upsert_file _ = False"

fun perform ::
    "('s, 'fd) posix \<Rightarrow> 'fd \<Rightarrow> 'fd PendingDirectory list \<Rightarrow> Operation \<Rightarrow> 'fd StagedFile option \<Rightarrow> 's \<Rightarrow>
     ('s \<times> 'fd PendingDirectory list) \<times> (QuicSyncError + unit)" where
  "perform P root ds (Delete i p k) f s =
     (if k = Directory then ((s, defer_action p DeleteAction ds), Inr ())
      else let (s, r) = unlink P root p False s in ((s, ds), r))"
| "perform P root ds (UpsertDirectory i rec) f s =
     (case make_directory P root (path rec) (metadata rec) s of
        (s, Inl e) \<Rightarrow> ((s, ds), Inl e)
      | (s, Inr _) \<Rightarrow> ((s, defer_action (path rec) (MetadataAction (metadata rec)) ds), Inr ()))"
| "perform P root ds (UpsertFile u i rec) f s =
     (if replacing_directory ds (path rec)
      then ((s, defer_action (path rec) (FileAction (the f) (metadata rec)) ds), Inr ())
      else let (s, r) = install P (the f) root (path rec) (metadata rec) s in ((s, ds), r))"
| "perform P root ds (UpsertSymlink i rec) f s =
     (if replacing_directory ds (path rec)
      then ((s, defer_action (path rec) (SymlinkAction rec) ds), Inr ())
      else let (s, r) = symlink P root rec s in ((s, ds), r))"

definition committer_apply ::
    "('s, 'fd) posix \<Rightarrow> 'fd Committer \<Rightarrow> Operation \<Rightarrow> 'fd StagedFile option \<Rightarrow> 's \<Rightarrow>
     ('s \<times> 'fd Committer) \<times> (QuicSyncError + unit)" where
  "committer_apply P c op f s =
     (let p = operation_path op; root = committer_root c in
      if (case previous c of None \<Rightarrow> False | Some q \<Rightarrow> p < q)
      then ((drop_file P f s, c),
            Inl (install_failure ''operations are not in canonical discovery order''))
      else if is_upsert_file op \<noteq> (f \<noteq> None)
      then ((drop_file P f s, c), Inl (install_failure ''only file upserts require a staged file''))
      else
        case finish_while P root (\<lambda>d. \<not> prefix (components d) (components p)) (pending c) s of
          ((s, ds), Inl e) \<Rightarrow> ((drop_file P f s, c\<lparr>pending := ds\<rparr>), Inl e)
        | ((s, ds), Inr _) \<Rightarrow>
            let ((s, ds), r) = perform P root ds op f s
            in ((s, c\<lparr>pending := ds, previous := Some p\<rparr>), r))"

definition committer_finish ::
    "('s, 'fd) posix \<Rightarrow> 'fd Committer \<Rightarrow> 's \<Rightarrow> ('s \<times> 'fd Committer) \<times> (QuicSyncError + unit)" where
  "committer_finish P c s =
     (let ((s, ds), r) = finish_while P (committer_root c) (\<lambda>_. True) (pending c) s
      in ((s, c\<lparr>pending := ds\<rparr>), r))"

section \<open>The pending commit\<close>

text \<open>The \<open>BTreeMap\<close> is the list of its entries in the order of the ids.\<close>

type_synonym 'fd changes = "(OperationId \<times> Operation \<times> 'fd StagedFile option) list"

fun insert_change ::
    "OperationId \<Rightarrow> Operation \<times> 'fd StagedFile option \<Rightarrow> 'fd changes \<Rightarrow> 'fd changes" where
  "insert_change i v [] = [(i, v)]"
| "insert_change i v ((j, w) # xs) =
     (if i < j then (i, v) # (j, w) # xs
      else if i = j then (i, v) # xs
      else (j, w) # insert_change i v xs)"

text \<open>A change that is refused is dropped, its staged file with it.\<close>

definition stage_change ::
    "('s, 'fd) posix \<Rightarrow> Operation \<Rightarrow> 'fd StagedFile option \<Rightarrow> 'fd changes \<Rightarrow> 's \<Rightarrow>
     's \<times> (QuicSyncError + 'fd changes)" where
  "stage_change P op f changes s =
     (if is_upsert_file op \<noteq> (f \<noteq> None)
      then (drop_file P f s, Inl (install_failure ''only file upserts require a staged file''))
      else if operation_id op \<in> fst ` set changes
      then (drop_file P f s, Inl (install_failure ''duplicate staged operation''))
      else (s, Inr (insert_change (operation_id op) (op, f) changes)))"

definition drop_pending :: "('s, 'fd) posix \<Rightarrow> 'fd PendingDirectory list \<Rightarrow> 's \<Rightarrow> 's" where
  "drop_pending P ds s = fold (\<lambda>d. fold (drop_action P) (actions d)) ds s"

definition drop_changes :: "('s, 'fd) posix \<Rightarrow> 'fd changes \<Rightarrow> 's \<Rightarrow> 's" where
  "drop_changes P changes s = fold (\<lambda>(i, op, f). drop_file P f) changes s"

text \<open>The loop of \<open>commit\<close>; an error drops what has not been applied and what is still waiting.\<close>

fun commit_loop ::
    "('s, 'fd) posix \<Rightarrow> 'fd Committer \<Rightarrow> 'fd changes \<Rightarrow> 's \<Rightarrow> 's \<times> (QuicSyncError + unit)" where
  "commit_loop P c [] s =
     (case committer_finish P c s of
        ((s, c), Inl e) \<Rightarrow> (drop_pending P (pending c) s, Inl e)
      | ((s, c), Inr _) \<Rightarrow> (s, Inr ()))"
| "commit_loop P c ((i, op, f) # changes) s =
     (case committer_apply P c op f s of
        ((s, c), Inl e) \<Rightarrow> (drop_pending P (pending c) (drop_changes P changes s), Inl e)
      | ((s, c), Inr _) \<Rightarrow> commit_loop P c changes s)"

definition commit :: "('s, 'fd) posix \<Rightarrow> 'fd \<Rightarrow> 'fd changes \<Rightarrow> 's \<Rightarrow> 's \<times> (QuicSyncError + unit)" where
  "commit P root changes s = commit_loop P (committer_new root) changes s"

section \<open>What each step changes\<close>

definition touched :: "RelativePath \<Rightarrow> bytes list set" where
  "touched p = (if unprotected p then {components p} else {})"

definition touched_dirs :: "RelativePath \<Rightarrow> bytes list set" where
  "touched_dirs p = (if unprotected p then {butlast (components p)} else {}) \<union> {staging}"

text \<open>
  A step on path \<open>p\<close> and the staged names \<open>N\<close>: only these names change, and the times of the
  directories they are in.
\<close>

definition confined ::
    "('s \<Rightarrow> tree) \<Rightarrow> ('s \<Rightarrow> 'fd \<Rightarrow> bytes list option) \<Rightarrow> RelativePath \<Rightarrow> bytes list set \<Rightarrow> 's \<Rightarrow> 's \<Rightarrow> bool" where
  "confined tree at p N s s' \<longleftrightarrow>
     frame (touched p \<union> N) (touched_dirs p) (tree s) (tree s') \<and> keeps_off (touched p \<union> N) at s s'"

lemma confined_refl [simp]: "confined tree at p N s s"
  by (simp add: confined_def)

lemma confined_trans:
  "confined tree at p N s s' \<Longrightarrow> confined tree at p N s' s'' \<Longrightarrow> confined tree at p N s s''"
  by (auto simp: confined_def intro: frame_chain keeps_off_trans)

lemma confined_mono: "confined tree at p N s s' \<Longrightarrow> N \<subseteq> N' \<Longrightarrow> confined tree at p N' s s'"
  by (auto simp: confined_def elim: frame_mono keeps_off_mono)

lemma confined_same:
  "tree s' = tree s \<Longrightarrow> keeps at s s' \<Longrightarrow> confined tree at p N s s'"
  by (simp add: confined_def keeps_imp_off)

lemma confined_at:
  assumes "unprotected p" and "frame {components p} {butlast (components p)} (tree s) (tree s')"
    and "keeps_off {components p} at s s'"
  shows "confined tree at p N s s'"
  using assms unfolding confined_def touched_def touched_dirs_def
  by (auto elim: frame_mono keeps_off_mono)

lemma path_ok_split:
  assumes "path_ok p"
  shows "butlast (components p) @ [last (components p)] = components p"
    and "component_ok (last (components p))" and "components p \<noteq> []"
  using assms by (auto simp: path_ok_def list_all_iff)

lemma not_prefix_butlast: "xs \<noteq> [] \<Longrightarrow> \<not> prefix xs (butlast xs)"
  using prefix_length_le [of xs "butlast xs"] by (cases xs rule: rev_cases) auto

lemma sec_nsec: "modified_time n = Inr (sec, nsec) \<Longrightarrow> sec * 1000000000 + nsec = sint n"
  by (drule modified_time_Inr) (simp add: mult.commute)

lemma symlink_time_Inr: "symlink_time n = Inr (sec, nsec) \<Longrightarrow> sec * 1000000000 + nsec = sint n"
  by (auto simp: symlink_time_def Let_def mult.commute split: if_splits)

context posix_fs
begin

lemma resolved:
  assumes "at s root = Some []" and "path_ok p" and "resolve_parent P root p s = (s1, r1)"
  shows "tree s1 = tree s \<and> keeps at s s1 \<and> (\<forall>v. r1 = Inr v \<longrightarrow> unprotected p \<and>
      leaf v = last (components p) \<and> at s1 (parent_fd v) = Some (butlast (components p)) \<and>
      dirs_along (tree s) [] (butlast (components p)))"
  using resolve_parent_law [OF assms] by (auto simp: unprotected_def)

lemma unlink_step:
  assumes "at s root = Some []" and p: "path_ok p" and run: "unlink P root p rmdir s = (s', r)"
  shows "confined tree at p {} s s' \<and>
    (\<forall>u. r = Inr u \<longrightarrow> unprotected p \<and> tree s' (components p) = None \<and>
       tree s (components p) \<noteq> None \<and>
       (if rmdir then is_dir (tree s (components p)) \<and> no_entries (tree s) (components p)
        else \<not> is_dir (tree s (components p))))"
proof -
  obtain s1 r1 where 1: "resolve_parent P root p s = (s1, r1)" by fastforce
  note rp = resolved [OF assms(1) p 1]
  show ?thesis
  proof (cases r1)
    case (Inl e)
    with rp 1 run show ?thesis by (auto simp: unlink_def intro: confined_same)
  next
    case (Inr v)
    with rp have v: "tree s1 = tree s" "keeps at s s1" "unprotected p" "leaf v = last (components p)"
      "at s1 (parent_fd v) = Some (butlast (components p))" by auto
    obtain s2 r2 where 2: "unlinkat P (parent_fd v) (last (components p)) rmdir s1 = (s2, r2)" by fastforce
    note ul = unlink_law [OF v(5) path_ok_split(2) [OF p] 2, unfolded path_ok_split(1) [OF p]]
    have s2: "s' = s2" "r = map_err (install_failure \<circ> errno_text P) r2"
      using run 1 2 Inr v(4) by (simp_all add: unlink_def map_step_err_def)
    have "keeps_off {components p} at s s2"
      using ul v(2) by (auto simp: keeps_off_def keeps_def)
    moreover have "frame {components p} {butlast (components p)} (tree s) (tree s2)"
      using ul v(1) by (cases r2) (auto dest: updated_frame)
    ultimately have "confined tree at p {} s s2" by (intro confined_at v(3))
    with ul s2 v show ?thesis by (cases r2) (auto dest: updated_frame)
  qed
qed

lemma unlink_existing_step:
  assumes v: "at s (parent_fd v) = Some (butlast (components p))" "leaf v = last (components p)"
    and p: "path_ok p" "unprotected p" and run: "unlink_existing P v s = (s', r)"
  shows "confined tree at p {} s s' \<and> at s' (parent_fd v) = Some (butlast (components p)) \<and>
    (\<forall>u. r = Inr u \<longrightarrow> tree s' (components p) = None)"
proof -
  obtain s2 r2 where 2: "unlinkat P (parent_fd v) (last (components p)) False s = (s2, r2)" by fastforce
  note ul = unlink_law [OF v(1) path_ok_split(2) [OF p(1)] 2, unfolded path_ok_split(1) [OF p(1)]]
  have s2: "s' = s2" using run 2 v(2) by (auto simp: unlink_existing_def split: sum.splits if_splits)
  have "keeps_off {components p} at s s2" using ul by (auto simp: keeps_off_def)
  moreover have "frame {components p} {butlast (components p)} (tree s) (tree s2)"
    using ul by (cases r2) (auto dest: updated_frame)
  ultimately have "confined tree at p {} s s2" by (intro confined_at p(2))
  moreover have "\<not> prefix (components p) (butlast (components p))"
    using path_ok_split(3) [OF p(1)] by (rule not_prefix_butlast)
  then have "at s2 (parent_fd v) = Some (butlast (components p))"
    using conjunct1 [OF ul] v(1) by simp
  moreover have "tree s2 (components p) = None" if "r = Inr u" for u
    using that ul run 2 v(2)
    by (cases r2) (auto simp: unlink_existing_def dest: updated_frame split: if_splits)
  ultimately show ?thesis using s2 by simp
qed

text \<open>Making the link in a resolved directory and setting its time.\<close>

lemma place_link:
  assumes v: "at s (parent_fd v) = Some (butlast (components p))" "leaf v = last (components p)"
    and p: "path_ok p" "unprotected p"
    and run: "and_do (map_step_err err (symlinkat P target (parent_fd v) (leaf v) s)) (\<lambda>s _.
        and_do (s, symlink_time ns) (\<lambda>s tm. map_step_err err (utimensat P (parent_fd v) (leaf v) tm s))) = (s', r)"
  shows "confined tree at p {} s s' \<and> (\<forall>u. r = Inr u \<longrightarrow> tree s' (components p) = Some (Link target (sint ns)))"
proof -
  obtain s1 r1 where 1: "symlinkat P target (parent_fd v) (last (components p)) s = (s1, r1)" by fastforce
  note sy = symlink_law [OF v(1) path_ok_split(2) [OF p(1)] 1, unfolded path_ok_split(1) [OF p(1)]]
  have c1: "confined tree at p {} s s1"
    using sy by (intro confined_at p(2)) (cases r1, auto simp: keeps_off_def dest: updated_frame)
  show ?thesis
  proof (cases "\<exists>u tm. r1 = Inr u \<and> symlink_time ns = Inr tm")
    case False
    with run 1 v(2) c1 show ?thesis
      by (cases r1; cases "symlink_time ns") (auto simp: map_step_err_def)
  next
    case True
    then obtain u tm where r1: "r1 = Inr u" and tm: "symlink_time ns = Inr tm" by blast
    obtain s2 r2 where 2: "utimensat P (parent_fd v) (last (components p)) tm s1 = (s2, r2)" by fastforce
    have "at s1 (parent_fd v) = Some (butlast (components p))" using sy v(1) by blast
    note ut = utimens_law [OF this path_ok_split(2) [OF p(1)] 2, unfolded path_ok_split(1) [OF p(1)]]
    have "confined tree at p {} s1 s2"
      using ut by (intro confined_at p(2)) (cases r2, auto simp: fun_upd_frame keeps_off_eq)
    note c2 = confined_trans [OF c1 this]
    have s2: "s' = s2" "r = map_err err r2" using run 1 2 r1 tm v(2) by (simp_all add: map_step_err_def)
    obtain t where "tree s1 (components p) = Some (Link target t)" using sy r1 by (auto dest: updated_frame)
    then have "tree s2 (components p) = Some (Link target (sint ns))" if "r2 = Inr u" for u
      using ut that tm by (cases tm) (auto simp: symlink_time_Inr)
    with c2 s2 show ?thesis by (cases r2) auto
  qed
qed

lemma symlink_step:
  assumes root: "at s root = Some []" and p: "path_ok (path rec)" and run: "symlink P root rec s = (s', r)"
  shows "confined tree at (path rec) {} s s' \<and>
    (\<forall>u. r = Inr u \<longrightarrow> unprotected (path rec) \<and> (\<exists>target. symlink_target rec = Some target \<and>
       tree s' (components (path rec)) = Some (Link target (sint (mtime_ns (metadata rec))))))"
proof (cases "and_then (ok_or (install_failure ''missing symlink target'') (symlink_target rec))
    (\<lambda>t. map_err install_failure (cstring_new t))")
  case (Inl e)
  then have "s' = s" "r = Inl e"
    using run by (auto simp: symlink_def result_simps)
  then show ?thesis by simp
next
  case (Inr target)
  then have tg: "symlink_target rec = Some target" "cstring_new target = Inr target"
    by (auto simp: result_simps cstring_new_def split: if_splits)
  let ?p = "path rec"
  obtain s1 r1 where 1: "resolve_parent P root ?p s = (s1, r1)" by fastforce
  note rp = resolved [OF root p 1]
  show ?thesis
  proof (cases r1)
    case (Inl e)
    with rp 1 run tg show ?thesis by (auto simp: symlink_def intro: confined_same)
  next
    case r1: (Inr v)
    with rp have v: "tree s1 = tree s" "keeps at s s1" "unprotected ?p" "leaf v = last (components ?p)"
      "at s1 (parent_fd v) = Some (butlast (components ?p))" by auto
    have c1: "confined tree at ?p {} s s1" using v by (intro confined_same) auto
    obtain s2 r2 where 2: "unlink_existing P v s1 = (s2, r2)" by fastforce
    note ue = unlink_existing_step [OF v(5,4) p v(3) 2]
    note c2 = confined_trans [OF c1 conjunct1 [OF ue]]
    show ?thesis
    proof (cases r2)
      case (Inl e)
      with run 1 2 r1 tg c2 show ?thesis by (auto simp: symlink_def)
    next
      case (Inr u)
      with run 1 2 r1 tg have "and_do (map_step_err (install_failure \<circ> errno_text P)
          (symlinkat P target (parent_fd v) (leaf v) s2)) (\<lambda>s _.
        and_do (s, symlink_time (mtime_ns (metadata rec))) (\<lambda>s tm.
          map_step_err (install_failure \<circ> errno_text P) (utimensat P (parent_fd v) (leaf v) tm s))) = (s', r)"
        by (simp add: symlink_def)
      from place_link [OF _ v(4) p v(3) this] ue confined_trans [OF c2] v(3) tg show ?thesis by auto
    qed
  qed
qed

lemma open_leaf_step:
  assumes v: "at s (parent_fd v) = Some (butlast (components p))" "leaf v = last (components p)"
    and p: "path_ok p" and run: "open_leaf P v s = (s', r)"
  shows "tree s' = tree s \<and> keeps at s s' \<and>
    (\<forall>fd. r = Inr fd \<longrightarrow> at s' fd = Some (components p) \<and> is_dir (tree s (components p)))"
proof -
  obtain s1 r1 where 1: "openat P (parent_fd v) (last (components p))
      [RDONLY, DIRECTORY, NOFOLLOW, CLOEXEC] 0 s = (s1, r1)" by fastforce
  from open_law [OF v(1) path_ok_split(2) [OF p] _ _ 1] run 1 v(2) show ?thesis
    by (cases r1) (auto simp: open_leaf_def map_step_err_def keeps_def path_ok_split(1) [OF p])
qed

lemma set_directory_metadata_step:
  assumes root: "at s root = Some []" and p: "path_ok p"
    and run: "set_directory_metadata P root p md s = (s', r)"
  shows "confined tree at p {} s s' \<and> (\<forall>u. r = Inr u \<longrightarrow> unprotected p \<and>
    tree s' (components p) = Some (Dir (mode md) (sint (mtime_ns md))))"
proof -
  obtain s1 r1 where 1: "resolve_parent P root p s = (s1, r1)" by fastforce
  note rp = resolved [OF root p 1]
  show ?thesis
  proof (cases r1)
    case (Inl e)
    with rp 1 run show ?thesis by (auto simp: set_directory_metadata_def intro: confined_same)
  next
    case r1: (Inr v)
    with rp have v: "tree s1 = tree s" "keeps at s s1" "unprotected p" "leaf v = last (components p)"
      "at s1 (parent_fd v) = Some (butlast (components p))" by auto
    obtain s2 r2 where 2: "open_leaf P v s1 = (s2, r2)" by fastforce
    note ol = open_leaf_step [OF v(5,4) p 2]
    have c2: "confined tree at p {} s s2"
      using v ol by (intro confined_same) (auto intro: keeps_trans)
    show ?thesis
    proof (cases r2)
      case (Inl e)
      with run 1 2 r1 c2 show ?thesis by (auto simp: set_directory_metadata_def)
    next
      case r2: (Inr fd)
      then have fd: "at s2 fd = Some (components p)" "is_dir (tree s (components p))"
        using ol v(1) by auto
      have run2: "set_file_metadata P fd md s2 = (s', r)"
        using run 1 2 r1 r2 by (simp add: set_directory_metadata_def)
      note sm = set_file_metadata_law [OF fd(1) run2]
      have "confined tree at p {} s2 s'"
        using sm by (intro confined_at v(3)) (auto simp: keeps_off_eq elim: frame_mono)
      note c3 = confined_trans [OF c2 this]
      obtain m t where "tree s2 (components p) = Some (Dir m t)"
        using fd(2) ol v(1) by (cases "tree s (components p)" rule: is_dir.cases) auto
      then have "tree s' (components p) = Some (Dir (mode md) (sint (mtime_ns md)))" if "r = Inr u" for u
        using sm that sec_nsec by fastforce
      with c3 v(3) show ?thesis by blast
    qed
  qed
qed

lemma make_directory_step:
  assumes root: "at s root = Some []" and p: "path_ok p"
    and run: "make_directory P root p md s = (s', r)"
  shows "confined tree at p {} s s' \<and> (\<forall>u. r = Inr u \<longrightarrow> unprotected p \<and> is_dir (tree s' (components p)))"
proof -
  obtain s1 r1 where 1: "resolve_parent P root p s = (s1, r1)" by fastforce
  note rp = resolved [OF root p 1]
  show ?thesis
  proof (cases r1)
    case (Inl e)
    with rp 1 run show ?thesis by (auto simp: make_directory_def intro: confined_same)
  next
    case r1: (Inr v)
    with rp have v: "tree s1 = tree s" "keeps at s s1" "unprotected p" "leaf v = last (components p)"
      "at s1 (parent_fd v) = Some (butlast (components p))" by auto
    obtain s2 r2 where 2: "mkdirat P (parent_fd v) (last (components p)) 448 s1 = (s2, r2)" by fastforce
    note mk = mkdir_law [OF v(5) path_ok_split(2) [OF p] 2, unfolded path_ok_split(1) [OF p]]
    have c1: "confined tree at p {} s s1" using v by (intro confined_same) auto
    have "confined tree at p {} s1 s2"
      using mk by (intro confined_at v(3)) (cases r2, auto simp: keeps_off_def dest: updated_frame)
    note c2 = confined_trans [OF c1 this]
    have at2: "at s2 (parent_fd v) = Some (butlast (components p))" using mk v(5) by blast
    show ?thesis
    proof (cases "\<exists>e. r2 = Inl e \<and> e \<noteq> EXIST")
      case True
      with run 1 2 r1 c2 v(4) show ?thesis by (auto simp: make_directory_def)
    next
      case False
      obtain s3 r3 where 3: "open_leaf P v s2 = (s3, r3)" by fastforce
      note ol = open_leaf_step [OF at2 v(4) p 3]
      have "confined tree at p {} s2 s3" using ol by (intro confined_same) auto
      note c3 = confined_trans [OF c2 this]
      have run3: "and_do (open_leaf P v s2) (\<lambda>s fd.
          map_step_err (install_failure \<circ> errno_text P) (fchmod P fd (mode md OR 448) s)) = (s', r)"
        using run 1 2 r1 v(4) False by (cases r2) (auto simp: make_directory_def)
      show ?thesis
      proof (cases r3)
        case (Inl e)
        with run3 3 c3 show ?thesis by auto
      next
        case r3: (Inr fd)
        then have fd: "at s3 fd = Some (components p)" "is_dir (tree s3 (components p))"
          using ol by auto
        obtain s4 r4 where 4: "fchmod P fd (mode md OR 448) s3 = (s4, r4)" by fastforce
        note ch = chmod_law [OF fd(1) 4]
        have "confined tree at p {} s3 s4"
          using ch by (intro confined_at v(3)) (cases r4, auto simp: fun_upd_frame keeps_off_eq)
        note c4 = confined_trans [OF c3 this]
        have "is_dir (tree s4 (components p))"
          using ch fd(2) by (cases r4; cases "tree s3 (components p)" rule: is_dir.cases) auto
        with c4 v(3) run3 3 4 r3 show ?thesis by (auto simp: map_step_err_def)
      qed
    qed
  qed
qed

lemma install_step:
  assumes root: "at s root = Some []" and p: "path_ok p"
    and dir: "at s (staged_dir f) = Some staging" and n: "component_ok (staged_name f)"
    and fil: "tree s (staging @ [staged_name f]) = Some (File m t c)"
    and run: "install P f root p md s = (s', r)"
  shows "confined tree at p {staging @ [staged_name f]} s s' \<and> (\<forall>u. r = Inr u \<longrightarrow> unprotected p \<and>
    tree s' (components p) = Some (File (mode md) (sint (mtime_ns md)) c))"
proof (cases r)
  case (Inl e)
  with install_law [OF assms] show ?thesis
    unfolding confined_def touched_dirs_def by (auto elim: frame_mono keeps_off_mono)
next
  case (Inr u)
  with install_law [OF assms] have i: "unprotected p"
    "frame (install_names f p) (install_dirs p) (tree s) (tree s')" "keeps_off (install_names f p) at s s'"
    "tree s' (components p) = Some (File (mode md) (sint (mtime_ns md)) c)"
    using sec_nsec by (auto simp: unprotected_def)
  then show ?thesis
    unfolding confined_def touched_def touched_dirs_def by (auto elim: frame_mono keeps_off_mono)
qed

end

end
