(* ===== verification/Installation.thy ===== *)
theory Installation
  imports Commit
begin

text \<open>
  Correctness of the commit stage over the contract \<open>posix_fs\<close>: a commit that succeeds leaves at
  the path of every operation exactly what the operation asks for and changes nothing else (beyond
  times of directories), and a commit that fails has not touched any name outside the paths of its
  operations and the staged files. The invariant follows the stack of waiting directories.
\<close>

section \<open>What a commit is to achieve\<close>

text \<open>\<open>cont\<close> gives the content of each staged file.\<close>

fun action_value :: "('fd StagedFile \<Rightarrow> bytes) \<Rightarrow> 'fd Action \<Rightarrow> node option" where
  "action_value cont DeleteAction = None"
| "action_value cont (MetadataAction md) = Some (Dir (mode md) (sint (mtime_ns md)))"
| "action_value cont (FileAction f md) = Some (File (mode md) (sint (mtime_ns md)) (cont f))"
| "action_value cont (SymlinkAction r) =
     Some (Link (the (symlink_target r)) (sint (mtime_ns (metadata r))))"

fun operation_value :: "('fd StagedFile \<Rightarrow> bytes) \<Rightarrow> Operation \<Rightarrow> 'fd StagedFile option \<Rightarrow> node option" where
  "operation_value cont (Delete i p k) f = None"
| "operation_value cont (UpsertDirectory i r) f =
     Some (Dir (mode (metadata r)) (sint (mtime_ns (metadata r))))"
| "operation_value cont (UpsertFile u i r) f =
     Some (File (mode (metadata r)) (sint (mtime_ns (metadata r))) (cont (the f)))"
| "operation_value cont (UpsertSymlink i r) f =
     Some (Link (the (symlink_target r)) (sint (mtime_ns (metadata r))))"

abbreviation op_name :: "Operation \<Rightarrow> bytes list" where
  "op_name op \<equiv> components (operation_path op)"

fun goal :: "('fd StagedFile \<Rightarrow> bytes) \<Rightarrow> tree \<Rightarrow> 'fd changes \<Rightarrow> tree" where
  "goal cont g [] = g"
| "goal cont g ((i, op, f) # changes) =
     goal cont (g(op_name op := operation_value cont op f)) changes"

definition change_names :: "'fd changes \<Rightarrow> bytes list set" where
  "change_names changes = (\<lambda>(i, op, f). op_name op) ` set changes"

definition change_files :: "'fd changes \<Rightarrow> 'fd StagedFile list" where
  "change_files changes = concat (map (\<lambda>(i, op, f). case f of None \<Rightarrow> [] | Some f \<Rightarrow> [f]) changes)"

text \<open>The shape of a plan: ascending paths, but a deletion may be followed by its replacement.\<close>

fun replaces :: "Operation \<Rightarrow> Operation \<Rightarrow> bool" where
  "replaces (Delete i p k) (UpsertDirectory j r) \<longleftrightarrow> p = path r \<and> k \<noteq> Directory"
| "replaces (Delete i p k) (UpsertFile u j r) \<longleftrightarrow> p = path r \<and> k \<noteq> RegularFile"
| "replaces (Delete i p k) (UpsertSymlink j r) \<longleftrightarrow> p = path r \<and> k \<noteq> Symlink"
| "replaces _ _ \<longleftrightarrow> False"

definition follows :: "Operation option \<Rightarrow> Operation \<Rightarrow> bool" where
  "follows prev op \<longleftrightarrow>
     (case prev of None \<Rightarrow> True | Some q \<Rightarrow> operation_path q < operation_path op \<or> replaces q op)"

fun planned :: "Operation option \<Rightarrow> 'fd changes \<Rightarrow> bool" where
  "planned prev [] \<longleftrightarrow> True"
| "planned prev ((i, op, f) # changes) \<longleftrightarrow>
     follows prev op \<and> path_ok (operation_path op) \<and> is_upsert_file op = (f \<noteq> None) \<and>
     planned (Some op) changes"

lemma change_names_simps [simp]:
  "change_names [] = {}"
  "change_names ((i, op, f) # changes) = insert (op_name op) (change_names changes)"
  by (simp_all add: change_names_def)

lemma change_files_simps [simp]:
  "change_files [] = []"
  "change_files ((i, op, None) # changes) = change_files changes"
  "change_files ((i, op, Some f) # changes) = f # change_files changes"
  by (simp_all add: change_files_def)

lemma replaces_path: "replaces q op \<Longrightarrow> operation_path q = operation_path op"
  by (induction q op rule: replaces.induct) auto

lemma replaces_delete: "replaces q op \<Longrightarrow> \<exists>i p k. q = Delete i p k"
  by (induction q op rule: replaces.induct) auto

lemma follows_le: "follows (Some q) op \<Longrightarrow> operation_path q \<le> operation_path op"
  by (auto simp: follows_def dest: replaces_path)

lemma planned_above:
  "planned (Some q) changes \<Longrightarrow> x \<in> change_names changes \<Longrightarrow> op_name q \<le> x"
proof (induction "Some q" changes arbitrary: q rule: planned.induct)
  case (2 i op f changes)
  then have "op_name q \<le> op_name op"
    using follows_le [of q op] by (auto simp: less_eq_RelativePath_def)
  with 2 show ?case by fastforce
qed simp

lemma planned_path_ok:
  "planned prev changes \<Longrightarrow> x \<in> change_names changes \<Longrightarrow> x \<noteq> []"
  by (induction prev changes rule: planned.induct) (auto simp: path_ok_def)

section \<open>Staged files\<close>

fun action_files :: "'fd Action list \<Rightarrow> 'fd StagedFile list" where
  "action_files [] = []"
| "action_files (FileAction f md # as) = f # action_files as"
| "action_files (_ # as) = action_files as"

lemma action_files_append [simp]: "action_files (as @ bs) = action_files as @ action_files bs"
  by (induction as rule: action_files.induct) auto

fun action_ok :: "RelativePath \<Rightarrow> 'fd Action \<Rightarrow> bool" where
  "action_ok p (SymlinkAction r) \<longleftrightarrow> path r = p"
| "action_ok p _ \<longleftrightarrow> True"

definition pending_files :: "'fd PendingDirectory list \<Rightarrow> 'fd StagedFile list" where
  "pending_files ds = concat (map (\<lambda>d. action_files (actions d)) ds)"

lemma pending_files_simps [simp]:
  "pending_files [] = []" "pending_files (d # ds) = action_files (actions d) @ pending_files ds"
  by (simp_all add: pending_files_def)

definition staged_names :: "'fd StagedFile list \<Rightarrow> bytes list set" where
  "staged_names fs = (\<lambda>f. staging @ [staged_name f]) ` set fs"

lemma staged_names_simps [simp]:
  "staged_names [] = {}" "staged_names (f # fs) = insert (staging @ [staged_name f]) (staged_names fs)"
  "staged_names (fs @ gs) = staged_names fs \<union> staged_names gs"
  by (auto simp: staged_names_def)

lemma unprotected_staging: "unprotected p \<Longrightarrow> prefix q (components p) \<Longrightarrow> \<not> prefix staging q"
  by (auto simp: unprotected_def PROTECTED_COMPONENTS_def dest!: set_mono_prefix)

context posix_fs
begin

definition staged :: "('fd StagedFile \<Rightarrow> bytes) \<Rightarrow> 's \<Rightarrow> 'fd StagedFile \<Rightarrow> bool" where
  "staged cont s f \<longleftrightarrow> at s (staged_dir f) = Some staging \<and> component_ok (staged_name f) \<and>
     (\<exists>m t. tree s (staging @ [staged_name f]) = Some (File m t (cont f)))"

definition ready :: "('fd StagedFile \<Rightarrow> bytes) \<Rightarrow> 'fd \<Rightarrow> 'fd StagedFile list \<Rightarrow> 's \<Rightarrow> bool" where
  "ready cont root files s \<longleftrightarrow> at s root = Some [] \<and> distinct (map staged_name files) \<and>
     (\<forall>f\<in>set files. staged cont s f)"

text \<open>A confined step keeps the root and the staged files it does not use.\<close>

lemma ready_step:
  assumes ready: "ready cont root files s" and p: "path_ok p" and c: "confined tree at p N s s'"
    and N: "N \<subseteq> staged_names used" and sub: "set files' \<subseteq> set files"
    and dist: "distinct (map staged_name (used @ files'))"
  shows "ready cont root files' s'"
proof -
  let ?E = "touched p \<union> N"
  have fr: "frame ?E (touched_dirs p) (tree s) (tree s')" and k: "keeps_off ?E at s s'"
    using c by (simp_all add: confined_def)
  have E: "q \<noteq> [] \<and> \<not> prefix q staging" if mem: "q \<in> ?E" for q
  proof -
    consider "q \<in> touched p" | "q \<in> staged_names used" using mem N by blast
    then show ?thesis
    proof cases
      case 1
      then have "unprotected p" "q = components p" by (auto simp: touched_def split: if_splits)
      with p unprotected_staging [of p q] path_ok_split(3) [OF p] show ?thesis
        by (cases q) (auto simp: prefix_Cons)
    qed (auto simp: staged_names_def)
  qed
  have root: "at s' root = Some []"
    using ready E by (intro keeps_offD [OF k]) (auto simp: ready_def)
  have "staged cont s' f" if "f \<in> set files'" for f
  proof -
    let ?q = "staging @ [staged_name f]"
    have f: "staged cont s f" using that ready sub by (auto simp: ready_def)
    have "at s' (staged_dir f) = Some staging"
      using f E by (intro keeps_offD [OF k]) (auto simp: staged_def)
    moreover have "?q \<notin> ?E"
    proof
      assume "?q \<in> ?E"
      then consider "?q \<in> touched p" | "?q \<in> staged_names used" using N by blast
      then show False
      proof cases
        case 1
        then have "unprotected p" "components p = ?q" by (auto simp: touched_def split: if_splits)
        then show False using unprotected_staging [of p ?q] by simp
      next
        case 2
        then show False using dist that by (auto simp: staged_names_def)
      qed
    qed
    moreover have "?q \<notin> touched_dirs p"
      using unprotected_staging [of p ?q] prefixeq_butlast [of "components p"]
      by (auto simp: touched_dirs_def split: if_splits)
    ultimately show ?thesis
      using f frameD(2) [OF fr, of ?q] by (simp add: staged_def)
  qed
  with root dist show ?thesis by (simp add: ready_def)
qed

lemma confined_Un:
  "confined tree at p N s s' \<Longrightarrow> confined tree at p N' s' s'' \<Longrightarrow> confined tree at p (N \<union> N') s s''"
  by (auto intro: confined_trans elim: confined_mono)

lemma drop_step:
  assumes "ready cont root (f # files) s" and "path_ok p"
  shows "confined tree at p (staged_names [f]) s (drop_staged P f s) \<and>
    ready cont root files (drop_staged P f s)"
proof -
  have "at s (staged_dir f) = Some staging" "component_ok (staged_name f)"
    using assms(1) by (auto simp: ready_def staged_def)
  from drop_staged_law [OF this] have c: "confined tree at p (staged_names [f]) s (drop_staged P f s)"
    by (auto simp: confined_def touched_dirs_def elim: frame_mono keeps_off_mono)
  then show ?thesis
    using ready_step [OF assms c, of "[f]" files] assms(1) by (auto simp: ready_def)
qed

lemma drop_actions_step:
  assumes "ready cont root (action_files as @ files) s" and "path_ok p"
  shows "confined tree at p (staged_names (action_files as)) s (fold (drop_action P) as s) \<and>
    ready cont root files (fold (drop_action P) as s)"
  using assms
proof (induction as arbitrary: s)
  case Nil
  then show ?case by simp
next
  case (Cons a as)
  show ?case
  proof (cases "\<exists>f md. a = FileAction f md")
    case True
    then obtain f md where a: "a = FileAction f md" by blast
    have d: "confined tree at p (staged_names [f]) s (drop_staged P f s)"
      "ready cont root (action_files as @ files) (drop_staged P f s)"
      using drop_step [of cont root f "action_files as @ files" s p] Cons.prems a by auto
    from confined_Un [OF d(1)] Cons.IH [OF d(2) Cons.prems(2)] show ?thesis by (simp add: a)
  next
    case False
    then have "action_files (a # as) = action_files as" "drop_action P a = id"
      by (cases a; auto simp: fun_eq_iff)+
    with Cons show ?thesis by simp
  qed
qed

lemma run_action_step:
  assumes ready: "ready cont root (action_files [a] @ files) s" and p: "path_ok p"
    and a: "action_ok p a" and run: "run_action P root p a s = (s', r)"
  shows "confined tree at p (staged_names (action_files [a])) s s' \<and> ready cont root files s' \<and>
    (\<forall>u. r = Inr u \<longrightarrow> unprotected p \<and> tree s' (components p) = action_value cont a)"
proof -
  have root: "at s root = Some []" using ready by (simp add: ready_def)
  have c: "confined tree at p (staged_names (action_files [a])) s s' \<and>
    (\<forall>u. r = Inr u \<longrightarrow> unprotected p \<and> tree s' (components p) = action_value cont a)"
  proof (cases a)
    case DeleteAction
    with unlink_step [OF root p, of True] run show ?thesis by auto
  next
    case (MetadataAction md)
    with set_directory_metadata_step [OF root p] run show ?thesis by auto
  next
    case (FileAction f md)
    then obtain m t where f: "at s (staged_dir f) = Some staging" "component_ok (staged_name f)"
        "tree s (staging @ [staged_name f]) = Some (File m t (cont f))"
      using ready by (auto simp: ready_def staged_def)
    from install_step [OF root p f] FileAction run show ?thesis by simp
  next
    case (SymlinkAction rec)
    with a p have "path_ok (path rec)" "path rec = p" by simp_all
    with symlink_step [OF root, of rec] SymlinkAction run show ?thesis by auto
  qed
  moreover have "ready cont root files s'"
    using ready_step [OF ready p conjunct1 [OF c], of "action_files [a]" files] ready
    by (auto simp: ready_def)
  ultimately show ?thesis by blast
qed

lemma run_actions_step:
  assumes "ready cont root (action_files as @ files) s" and p: "path_ok p"
    and "list_all (action_ok p) as" and "run_actions P root p as s = (s', r)"
  shows "confined tree at p (staged_names (action_files as)) s s' \<and> ready cont root files s' \<and>
    (\<forall>u. r = Inr u \<and> as \<noteq> [] \<longrightarrow> unprotected p \<and> tree s' (components p) = action_value cont (last as))"
  using assms
proof (induction as arbitrary: s)
  case Nil
  then show ?case by simp
next
  case (Cons a as)
  obtain s1 r1 where 1: "run_action P root p a s = (s1, r1)" by fastforce
  have files: "action_files (a # as) = action_files [a] @ action_files as"
    using action_files_append [of "[a]" as] by simp
  have a: "confined tree at p (staged_names (action_files [a])) s s1"
    "ready cont root (action_files as @ files) s1"
    "r1 = Inr u \<Longrightarrow> unprotected p \<and> tree s1 (components p) = action_value cont a" for u
    using run_action_step [of cont root a "action_files as @ files" s p s1 r1] Cons.prems 1
    by (auto simp: files)
  show ?case
  proof (cases r1)
    case (Inl e)
    with 1 Cons.prems have "s' = fold (drop_action P) as s1" "r = Inl e" by auto
    with drop_actions_step [OF a(2) p] confined_Un [OF a(1)] show ?thesis by (simp add: files)
  next
    case (Inr u)
    with 1 Cons.prems have "run_actions P root p as s1 = (s', r)" by simp
    with Cons.IH [OF a(2) p] Cons.prems have
      "confined tree at p (staged_names (action_files as)) s1 s'" "ready cont root files s'"
      "r = Inr u \<and> as \<noteq> [] \<Longrightarrow> unprotected p \<and> tree s' (components p) = action_value cont (last as)" for u
      by auto
    moreover have "s' = s1 \<and> r = Inr ()" if "as = []"
      using that \<open>run_actions P root p as s1 = (s', r)\<close> by simp
    ultimately show ?thesis
      using confined_Un [OF a(1)] a(3) [OF Inr] by (auto simp: files)
  qed
qed

end

section \<open>The invariant of a commit\<close>

text \<open>
  \<open>g\<close> is the tree the operations applied so far ask for and \<open>X\<close> the names they were about. Off the
  stack the tree is \<open>g\<close>, on the stack the last action of the entry will make it so; a finished
  directory is not touched again.
\<close>

abbreviation dir_name :: "'fd PendingDirectory \<Rightarrow> bytes list" where
  "dir_name d \<equiv> components (pending_path d)"

definition pend :: "'fd PendingDirectory list \<Rightarrow> bytes list set" where
  "pend ds = dir_name ` set ds"

lemma pend_simps [simp]: "pend [] = {}" "pend (d # ds) = insert (dir_name d) (pend ds)"
  by (simp_all add: pend_def)

definition holds ::
    "('fd StagedFile \<Rightarrow> bytes) \<Rightarrow> tree \<Rightarrow> bytes list set \<Rightarrow> 'fd PendingDirectory list \<Rightarrow> tree \<Rightarrow> bool" where
  "holds cont g X ds t \<longleftrightarrow>
     (\<forall>q. \<not> prefix staging q \<and> q \<notin> pend ds \<longrightarrow> same_dir (g q) (t q) \<and> (q \<in> X \<longrightarrow> t q = g q)) \<and>
     (\<forall>d\<in>set ds. g (dir_name d) = action_value cont (last (actions d)))"

definition quiet :: "tree \<Rightarrow> bytes list set \<Rightarrow> 'fd PendingDirectory list \<Rightarrow> bytes list set \<Rightarrow> bool" where
  "quiet g X ds Y \<longleftrightarrow>
     (\<forall>q\<in>X. q \<notin> pend ds \<and> is_dir (g q) \<longrightarrow> (\<forall>x\<in>pend ds \<union> Y. butlast x \<noteq> q))"

definition stack_ok :: "bytes list set \<Rightarrow> 'fd PendingDirectory list \<Rightarrow> Operation option \<Rightarrow> bool" where
  "stack_ok X ds prev \<longleftrightarrow>
     sorted_wrt (\<lambda>d e. strict_prefix (dir_name e) (dir_name d)) ds \<and>
     (\<forall>d\<in>set ds. path_ok (pending_path d) \<and> actions d \<noteq> [] \<and>
        list_all (action_ok (pending_path d)) (actions d) \<and> dir_name d \<in> X \<and>
        (\<exists>q. prev = Some q \<and> prefix (dir_name d) (op_name q)))"

definition linked :: "'fd PendingDirectory list \<Rightarrow> Operation option \<Rightarrow> 'fd changes \<Rightarrow> bool" where
  "linked ds prev changes \<longleftrightarrow>
     (\<forall>j p k i op f rest. prev = Some (Delete j p k) \<and> changes = (i, op, f) # rest \<and>
        replaces (Delete j p k) op \<longrightarrow>
        (if k = Directory then \<exists>d ds'. ds = d # ds' \<and> pending_path d = p \<and> actions d = [DeleteAction]
         else components p \<notin> pend ds))"

text \<open>What remains true of the names a confined step on \<open>p\<close> is not about.\<close>

lemma holds_elsewhere:
  assumes h: "holds cont g X ds (tree s)" and c: "confined tree at p N s s'"
    and N: "N \<subseteq> staged_names used" and p: "unprotected p"
    and quiet: "quiet g X ds Y" and in_p: "components p \<in> pend ds \<union> Y"
    and q: "\<not> prefix staging q" "q \<notin> pend ds" "q \<noteq> components p"
  shows "same_dir (g q) (tree s' q) \<and> (q \<in> X \<longrightarrow> tree s' q = g q)"
proof -
  have fr: "frame (touched p \<union> N) (touched_dirs p) (tree s) (tree s')" using c by (simp add: confined_def)
  have qE: "q \<notin> touched p \<union> N"
    using q N p by (auto simp: touched_def staged_names_def)
  have same: "same_dir (g q) (tree s' q)"
    using h q frameD(1) [OF fr qE] same_dir_trans unfolding holds_def by blast
  moreover have "tree s' q = g q" if "q \<in> X"
  proof (cases "is_dir (g q)")
    case True
    then have "butlast (components p) \<noteq> q" using quiet that q(2) in_p by (auto simp: quiet_def)
    moreover have "q \<noteq> staging" using q(1) by auto
    ultimately have "q \<notin> touched_dirs p" by (auto simp: touched_dirs_def)
    then show ?thesis using frameD(2) [OF fr qE] h q that unfolding holds_def by auto
  next
    case False
    then show ?thesis using same same_dir_eq by blast
  qed
  ultimately show ?thesis by blast
qed

context posix_fs
begin

definition inv ::
    "('fd StagedFile \<Rightarrow> bytes) \<Rightarrow> 'fd \<Rightarrow> tree \<Rightarrow> bytes list set \<Rightarrow> Operation option \<Rightarrow> 'fd changes \<Rightarrow>
     'fd PendingDirectory list \<Rightarrow> 's \<Rightarrow> bool" where
  "inv cont root g X prev changes ds s \<longleftrightarrow>
     ready cont root (pending_files ds @ change_files changes) s \<and> holds cont g X ds (tree s) \<and>
     quiet g X ds (change_names changes) \<and> stack_ok X ds prev \<and> linked ds prev changes \<and>
     planned prev changes"

lemma quiet_pop:
  assumes qt: "quiet g X (d # ds) (change_names changes)"
    and chain: "\<And>e. e \<in> set ds \<Longrightarrow> strict_prefix (dir_name e) (dir_name d)"
    and leave: "\<And>y. y \<in> change_names changes \<Longrightarrow> \<not> prefix (dir_name d) y"
  shows "quiet g X ds (change_names changes)"
  unfolding quiet_def
proof (intro ballI impI)
  fix q y
  assume q: "q \<in> X" "q \<notin> pend ds \<and> is_dir (g q)" and y: "y \<in> pend ds \<union> change_names changes"
  show "butlast y \<noteq> q"
  proof (cases "q = dir_name d")
    case True
    from y consider "y \<in> pend ds" | "y \<in> change_names changes" by blast
    then show ?thesis
    proof cases
      case 1
      then have "length y < length (dir_name d)" using chain by (auto simp: pend_def dest!: prefix_length_less)
      then show ?thesis using True by (auto dest!: arg_cong [of _ _ length])
    next
      case 2
      then show ?thesis using leave [OF 2] True prefixeq_butlast [of y] by auto
    qed
  next
    case False
    then show ?thesis using qt q y by (auto simp: quiet_def)
  qed
qed

lemma linked_pop:
  assumes ln: "linked (d # ds) prev changes" and leave: "\<And>y. y \<in> change_names changes \<Longrightarrow> \<not> prefix (dir_name d) y"
  shows "linked ds prev changes"
  unfolding linked_def
proof (intro allI impI, elim conjE)
  fix j p k i op f rest
  assume *: "prev = Some (Delete j p k)" "changes = (i, op, f) # rest" "replaces (Delete j p k) op"
  have "op_name op = components p" using replaces_path [OF *(3)] by simp
  moreover have "op_name op \<in> change_names changes" using *(2) by simp
  ultimately have "\<not> prefix (dir_name d) (components p)" using leave by auto
  then have "pending_path d \<noteq> p" by auto
  then show "if k = Directory then \<exists>d ds'. ds = d # ds' \<and> pending_path d = p \<and> actions d = [DeleteAction]
      else components p \<notin> pend ds"
    using ln * by (auto simp: linked_def split: if_splits)
qed

lemma pop_inv:
  assumes inv: "inv cont root g X prev changes (d # ds) s"
    and run: "finish_directory P root d s = (s', Inr u)"
    and leave: "\<And>y. y \<in> change_names changes \<Longrightarrow> \<not> prefix (dir_name d) y"
  shows "inv cont root g X prev changes ds s'"
proof -
  let ?x = "dir_name d"
  from inv have rd: "ready cont root (action_files (actions d) @ (pending_files ds @ change_files changes)) s"
    and h: "holds cont g X (d # ds) (tree s)" and qt: "quiet g X (d # ds) (change_names changes)"
    and st: "stack_ok X (d # ds) prev" and ln: "linked (d # ds) prev changes" and pl: "planned prev changes"
    by (simp_all add: inv_def)
  from st have d: "path_ok (pending_path d)" "actions d \<noteq> []"
    "list_all (action_ok (pending_path d)) (actions d)" "?x \<in> X"
    and chain: "\<And>e. e \<in> set ds \<Longrightarrow> strict_prefix (dir_name e) ?x"
    by (auto simp: stack_ok_def)
  from run_actions_step [OF rd d(1,3)] run d(2) have
    c: "confined tree at (pending_path d) (staged_names (action_files (actions d))) s s'"
    and rd': "ready cont root (pending_files ds @ change_files changes) s'"
    and safe: "unprotected (pending_path d)" and val: "tree s' ?x = action_value cont (last (actions d))"
    by (auto simp: finish_directory_def)
  have "holds cont g X ds (tree s')"
    unfolding holds_def
  proof (intro conjI allI ballI impI)
    fix q
    assume q: "\<not> prefix staging q \<and> q \<notin> pend ds"
    have "same_dir (g q) (tree s' q) \<and> (q \<in> X \<longrightarrow> tree s' q = g q)"
    proof (cases "q = ?x")
      case True
      then show ?thesis using val h by (simp add: holds_def)
    next
      case False
      then show ?thesis
        using q by (intro holds_elsewhere [OF h c order.refl safe qt]) auto
    qed
    then show "same_dir (g q) (tree s' q)" "q \<in> X \<Longrightarrow> tree s' q = g q" by simp_all
  next
    fix e
    assume "e \<in> set ds"
    then show "g (dir_name e) = action_value cont (last (actions e))" using h by (simp add: holds_def)
  qed
  moreover have "quiet g X ds (change_names changes)" using quiet_pop [OF qt chain leave] .
  moreover have "stack_ok X ds prev" using st by (auto simp: stack_ok_def)
  moreover have "linked ds prev changes" using linked_pop [OF ln leave] .
  ultimately show ?thesis using rd' pl by (simp add: inv_def)
qed

lemma finish_while_inv:
  assumes "inv cont root g X prev changes ds s"
    and "finish_while P root leaving ds s = ((s', ds'), Inr u)"
    and "\<And>d y. d \<in> set ds \<Longrightarrow> leaving (pending_path d) \<Longrightarrow> y \<in> change_names changes \<Longrightarrow>
      \<not> prefix (dir_name d) y"
  shows "inv cont root g X prev changes ds' s' \<and> set ds' \<subseteq> set ds \<and>
    (case ds' of [] \<Rightarrow> True | d # _ \<Rightarrow> \<not> leaving (pending_path d))"
  using assms
proof (induction ds arbitrary: s)
  case Nil
  then show ?case by simp
next
  case (Cons d ds)
  show ?case
  proof (cases "leaving (pending_path d)")
    case False
    with Cons.prems show ?thesis by auto
  next
    case True
    then obtain s1 where 1: "finish_directory P root d s = (s1, Inr ())"
        and more: "finish_while P root leaving ds s1 = ((s', ds'), Inr u)"
      using Cons.prems(2) by (auto split: prod.splits sum.splits)
    have "inv cont root g X prev changes ds s1"
      using Cons.prems(3) True by (intro pop_inv [OF Cons.prems(1) 1]) auto
    from Cons.IH [OF this more] Cons.prems(3) show ?thesis by auto
  qed
qed

text \<open>
  The three ways an operation is taken: done at once, put on the stack, or added to the entry on
  top of the stack.
\<close>

lemma immediate_inv:
  assumes inv: "inv cont root g X prev ((i, op, f) # changes) ds s"
    and rd: "ready cont root (pending_files ds @ change_files changes) s'"
    and val: "tree s' (op_name op) = v" "\<not> is_dir v"
    and other: "\<And>q. \<not> prefix staging q \<Longrightarrow> q \<notin> pend ds \<Longrightarrow> q \<noteq> op_name op \<Longrightarrow>
      same_dir (g q) (tree s' q) \<and> (q \<in> X \<longrightarrow> tree s' q = g q)"
    and off: "op_name op \<notin> pend ds" and below: "\<And>d. d \<in> set ds \<Longrightarrow> prefix (dir_name d) (op_name op)"
    and del: "\<And>j p. op \<noteq> Delete j p Directory"
  shows "inv cont root (g(op_name op := v)) (insert (op_name op) X) (Some op) changes ds s'"
proof -
  let ?p = "op_name op"
  from inv have h: "holds cont g X ds (tree s)" and qt: "quiet g X ds (insert ?p (change_names changes))"
    and st: "stack_ok X ds prev" and pl: "planned (Some op) changes"
    by (simp_all add: inv_def)
  have off': "\<And>d. d \<in> set ds \<Longrightarrow> dir_name d \<noteq> ?p"
    using off unfolding pend_def by (metis image_eqI)
  have "holds cont (g(?p := v)) (insert ?p X) ds (tree s')"
    using other val off' h by (auto simp: holds_def)
  moreover have "quiet (g(?p := v)) (insert ?p X) ds (change_names changes)"
    using qt val(2) by (auto simp: quiet_def)
  moreover have "stack_ok (insert ?p X) ds (Some op)"
    using st below by (auto simp: stack_ok_def)
  moreover have "linked ds (Some op) changes"
    using off del by (auto simp: linked_def)
  ultimately show ?thesis using rd pl by (simp add: inv_def)
qed

lemma push_inv:
  assumes inv: "inv cont root g X prev ((i, op, f) # changes) ds s"
    and rd: "ready cont root (pending_files ds @ change_files changes) s'"
    and a: "action_files [a] = []" "action_ok (operation_path op) a"
    and other: "\<And>q. \<not> prefix staging q \<Longrightarrow> q \<notin> pend ds \<Longrightarrow> q \<noteq> op_name op \<Longrightarrow>
      same_dir (g q) (tree s' q) \<and> (q \<in> X \<longrightarrow> tree s' q = g q)"
    and off: "op_name op \<notin> pend ds" and below: "\<And>d. d \<in> set ds \<Longrightarrow> prefix (dir_name d) (op_name op)"
    and del: "\<And>j p k. op = Delete j p k \<Longrightarrow> k = Directory \<and> a = DeleteAction"
  shows "inv cont root (g(op_name op := action_value cont a)) (insert (op_name op) X) (Some op) changes
    (\<lparr>pending_path = operation_path op, actions = [a]\<rparr> # ds) s'"
proof -
  let ?p = "op_name op" and ?d = "\<lparr>pending_path = operation_path op, actions = [a]\<rparr>"
  from inv have h: "holds cont g X ds (tree s)" and qt: "quiet g X ds (insert ?p (change_names changes))"
    and st: "stack_ok X ds prev" and pl: "planned (Some op) changes" and ok: "path_ok (operation_path op)"
    by (simp_all add: inv_def)
  have off': "\<And>d. d \<in> set ds \<Longrightarrow> dir_name d \<noteq> ?p"
    using off unfolding pend_def by (metis image_eqI)
  have "holds cont (g(?p := action_value cont a)) (insert ?p X) (?d # ds) (tree s')"
    using other off' h by (auto simp: holds_def)
  moreover have "quiet (g(?p := action_value cont a)) (insert ?p X) (?d # ds) (change_names changes)"
    using qt by (auto simp: quiet_def)
  moreover have "stack_ok (insert ?p X) (?d # ds) (Some op)"
    using st below off' a(2) ok by (auto simp: stack_ok_def strict_prefix_def)
  moreover have "linked (?d # ds) (Some op) changes"
    using del by (auto simp: linked_def)
  ultimately show ?thesis using rd pl a(1) by (simp add: inv_def)
qed

lemma append_inv:
  assumes inv: "inv cont root g X prev ((i, op, f) # changes) (d # ds) s"
    and d: "pending_path d = operation_path op" "actions d = [DeleteAction]"
    and a: "action_files [a] = (case f of None \<Rightarrow> [] | Some f \<Rightarrow> [f])" "action_ok (operation_path op) a"
    and del: "\<And>j p k. op \<noteq> Delete j p k"
  shows "inv cont root (g(op_name op := action_value cont a)) (insert (op_name op) X) (Some op) changes
    (d\<lparr>actions := actions d @ [a]\<rparr> # ds) s"
proof -
  let ?p = "op_name op" and ?d = "d\<lparr>actions := actions d @ [a]\<rparr>"
  from inv have h: "holds cont g X (d # ds) (tree s)"
    and qt: "quiet g X (d # ds) (insert ?p (change_names changes))"
    and st: "stack_ok X (d # ds) prev" and pl: "planned (Some op) changes"
    and rd: "ready cont root (pending_files (d # ds) @ change_files ((i, op, f) # changes)) s"
    by (simp_all add: inv_def)
  have "ready cont root (pending_files (?d # ds) @ change_files changes) s"
    using rd d a(1) by (cases f) (auto simp: ready_def)
  moreover have "holds cont (g(?p := action_value cont a)) (insert ?p X) (?d # ds) (tree s)"
  proof -
    have "dir_name e \<noteq> ?p" if "e \<in> set ds" for e
      using st that d(1) by (auto simp: stack_ok_def)
    then show ?thesis using h d by (auto simp: holds_def pend_def)
  qed
  moreover have "quiet (g(?p := action_value cont a)) (insert ?p X) (?d # ds) (change_names changes)"
    using qt d by (auto simp: quiet_def)
  moreover have "stack_ok (insert ?p X) (?d # ds) (Some op)"
  proof -
    have "prefix (dir_name e) ?p" if "e \<in> set ds" for e
      using st that d(1) by (auto simp: stack_ok_def strict_prefix_def)
    then show ?thesis using st d a(2) by (auto simp: stack_ok_def)
  qed
  moreover have "linked (?d # ds) (Some op) changes"
    using del by (auto simp: linked_def)
  ultimately show ?thesis using pl by (simp add: inv_def)
qed

lemma top_of_stack:
  assumes inv: "inv cont root g X prev ((i, op, f) # changes) ds s"
  shows "op_name op \<notin> pend ds \<or>
    (\<exists>d ds' j r. ds = d # ds' \<and> pending_path d = operation_path op \<and> actions d = [DeleteAction] \<and>
       (op = UpsertSymlink j r \<or> (\<exists>u. op = UpsertFile u j r)))"
proof (rule disjCI)
  assume "\<not> (\<exists>d ds' j r. ds = d # ds' \<and> pending_path d = operation_path op \<and>
    actions d = [DeleteAction] \<and> (op = UpsertSymlink j r \<or> (\<exists>u. op = UpsertFile u j r)))"
  note no_top = this
  from inv have st: "stack_ok X ds prev" and ln: "linked ds prev ((i, op, f) # changes)"
    and fl: "follows prev op" by (simp_all add: inv_def)
  show "op_name op \<notin> pend ds"
  proof (cases prev)
    case None
    with st show ?thesis by (auto simp: stack_ok_def pend_def)
  next
    case (Some q)
    with fl consider "operation_path q < operation_path op" | "replaces q op" by (auto simp: follows_def)
    then show ?thesis
    proof cases
      case 1
      have "dir_name d \<le> op_name q" if "d \<in> set ds" for d
        using st that Some by (auto simp: stack_ok_def intro: prefix_imp_le)
      with 1 show ?thesis by (fastforce simp: pend_def less_RelativePath_def)
    next
      case 2
      then obtain j p k where q: "q = Delete j p k" using replaces_delete by blast
      have k: "k = Directory \<Longrightarrow> \<exists>j r. op = UpsertSymlink j r \<or> (\<exists>u. op = UpsertFile u j r)"
        using 2 q by (cases op) auto
      have p: "operation_path op = p" using replaces_path [OF 2] q by simp
      have *: "if k = Directory then \<exists>d ds'. ds = d # ds' \<and> pending_path d = p \<and> actions d = [DeleteAction]
          else components p \<notin> pend ds"
        using ln 2 unfolding linked_def Some q by blast
      show ?thesis
      proof (cases "k = Directory")
        case True
        with * k no_top p show ?thesis by auto
      next
        case False
        with * p show ?thesis by simp
      qed
    qed
  qed
qed

lemma ready_after:
  assumes "inv cont root g X prev ((i, op, f) # changes) ds s" and "confined tree at (operation_path op) N s s'"
    and "N \<subseteq> staged_names (case f of None \<Rightarrow> [] | Some f \<Rightarrow> [f])"
  shows "ready cont root (pending_files ds @ change_files changes) s'"
proof -
  have r: "ready cont root (pending_files ds @ change_files ((i, op, f) # changes)) s"
    and p: "path_ok (operation_path op)" using assms(1) by (simp_all add: inv_def)
  show ?thesis
    using r by (intro ready_step [OF r p assms(2,3)]) (cases f; auto simp: ready_def)+
qed

lemma elsewhere_after:
  assumes "inv cont root g X prev ((i, op, f) # changes) ds s" and "confined tree at (operation_path op) N s s'"
    and "N \<subseteq> staged_names used" and "unprotected (operation_path op)"
    and "\<not> prefix staging q" "q \<notin> pend ds" "q \<noteq> op_name op"
  shows "same_dir (g q) (tree s' q) \<and> (q \<in> X \<longrightarrow> tree s' q = g q)"
  using assms(1) by (intro holds_elsewhere [OF _ assms(2-4) _ _ assms(5-7)]) (auto simp: inv_def)

lemma perform_replacing_inv:
  assumes inv: "inv cont root g X prev ((i, op, f) # changes) (d # ds) s"
    and top: "pending_path d = operation_path op" "actions d = [DeleteAction]" "op = UpsertSymlink j r \<or> (\<exists>u. op = UpsertFile u j r)"
    and run: "perform P root (d # ds) op f s = ((s', ds'), Inr u)"
  shows "inv cont root (g(op_name op := operation_value cont op f)) (insert (op_name op) X) (Some op) changes ds' s'"
proof -
  have f: "is_upsert_file op = (f \<noteq> None)" using inv by (auto simp: inv_def ready_def)
  have rep: "replacing_directory (d # ds) (operation_path op)" using top by (simp add: replacing_directory_def)
  show ?thesis
  proof (cases "op = UpsertSymlink j r")
    case True
    with run rep top f append_inv [OF inv top(1,2), of "SymlinkAction r"]
    show ?thesis by (auto simp: defer_action_def)
  next
    case False
    with top(3) obtain u' where op: "op = UpsertFile u' j r" by blast
    with f obtain g' where "f = Some g'" by auto
    with op run rep top append_inv [OF inv top(1,2), of "FileAction g' (metadata r)"]
    show ?thesis by (auto simp: defer_action_def)
  qed
qed

lemma defer_new: "p \<notin> pending_path ` set ds \<Longrightarrow> defer_action p a ds = \<lparr>pending_path = p, actions = [a]\<rparr> # ds"
  by (auto simp: defer_action_def split: list.splits)

lemma perform_delete_inv:
  assumes inv: "inv cont root g X prev ((i, op, f) # changes) ds s"
    and below: "\<And>d. d \<in> set ds \<Longrightarrow> prefix (dir_name d) (op_name op)"
    and off: "op_name op \<notin> pend ds" and op: "op = Delete j q k"
    and run: "perform P root ds op f s = ((s', ds'), Inr u)"
  shows "inv cont root (g(op_name op := None)) (insert (op_name op) X) (Some op) changes ds' s'"
proof (cases "k = Directory")
  case True
  have "f = None" "holds cont g X ds (tree s)" using inv op by (auto simp: inv_def ready_def)
  then have "inv cont root (g(op_name op := action_value cont DeleteAction)) (insert (op_name op) X)
      (Some op) changes (\<lparr>pending_path = operation_path op, actions = [DeleteAction]\<rparr> # ds) s"
    using op True
    by (intro push_inv [OF inv ready_after [OF inv confined_refl empty_subsetI] _ _ _ off below])
      (auto simp: holds_def)
  moreover have "defer_action (operation_path op) DeleteAction ds = \<lparr>pending_path = operation_path op, actions = [DeleteAction]\<rparr> # ds"
    using off by (intro defer_new) (auto simp: pend_def)
  ultimately show ?thesis using run op True by simp
next
  case False
  have root: "at s root = Some []" and p: "path_ok (operation_path op)" using inv by (auto simp: inv_def ready_def)
  have ul: "unlink P root (operation_path op) False s = (s', Inr u)" "ds' = ds"
    using run op False by (auto split: prod.splits)
  note step = unlink_step [OF root p ul(1)]
  note c = conjunct1 [OF step]
  show ?thesis
    unfolding ul(2) using step op False
    by (intro immediate_inv [OF inv ready_after [OF inv c] _ _ elsewhere_after [OF inv c, of "[]"] off below]) auto
qed

lemma perform_file_inv:
  assumes inv: "inv cont root g X prev ((i, op, f) # changes) ds s"
    and below: "\<And>d. d \<in> set ds \<Longrightarrow> prefix (dir_name d) (op_name op)"
    and off: "op_name op \<notin> pend ds" and op: "op = UpsertFile u' j rec" and f: "f = Some sf"
    and run: "install P sf root (operation_path op) (metadata rec) s = (s', Inr u)"
  shows "inv cont root (g(op_name op := operation_value cont op f)) (insert (op_name op) X) (Some op) changes ds s'"
proof -
  have root: "at s root = Some []" and p: "path_ok (operation_path op)" using inv by (auto simp: inv_def ready_def)
  from inv f obtain m t where st: "at s (staged_dir sf) = Some staging" "component_ok (staged_name sf)"
      "tree s (staging @ [staged_name sf]) = Some (File m t (cont sf))"
    by (auto simp: inv_def ready_def staged_def)
  note step = install_step [OF root p st run]
  note c = conjunct1 [OF step]
  show ?thesis
    using step op f
    by (intro immediate_inv [OF inv ready_after [OF inv c] _ _ elsewhere_after [OF inv c, of "[sf]"] off below]) auto
qed

lemma perform_inv:
  assumes inv: "inv cont root g X prev ((i, op, f) # changes) ds s"
    and below: "\<And>d. d \<in> set ds \<Longrightarrow> prefix (dir_name d) (op_name op)"
    and run: "perform P root ds op f s = ((s', ds'), Inr u)"
  shows "inv cont root (g(op_name op := operation_value cont op f)) (insert (op_name op) X) (Some op)
    changes ds' s'"
proof (cases "op_name op \<in> pend ds")
  case True
  with top_of_stack [OF inv] obtain d ds0 j r where top: "ds = d # ds0" "pending_path d = operation_path op"
      "actions d = [DeleteAction]" "op = UpsertSymlink j r \<or> (\<exists>u. op = UpsertFile u j r)" by blast
  show ?thesis by (rule perform_replacing_inv [OF inv [unfolded top(1)] top(2-4) run [unfolded top(1)]])
next
  case off: False
  have root: "at s root = Some []" and p: "path_ok (operation_path op)" and f: "is_upsert_file op = (f \<noteq> None)"
    using inv by (auto simp: inv_def ready_def)
  have rep: "\<not> replacing_directory ds (operation_path op)"
    using off by (auto simp: replacing_directory_def split: list.splits)
  show ?thesis
  proof (cases op)
    case (Delete j q k)
    with perform_delete_inv [OF inv below off Delete run] show ?thesis by simp
  next
    case (UpsertDirectory j rec)
    have "defer_action (operation_path op) a ds = \<lparr>pending_path = operation_path op, actions = [a]\<rparr> # ds" for a
      using off by (intro defer_new) (auto simp: pend_def)
    then have mk: "make_directory P root (operation_path op) (metadata rec) s = (s', Inr ())"
      and ds': "ds' = \<lparr>pending_path = operation_path op, actions = [MetadataAction (metadata rec)]\<rparr> # ds"
      using run UpsertDirectory by (auto split: prod.splits sum.splits)
    note step = make_directory_step [OF root p mk]
    note c = conjunct1 [OF step]
    have "inv cont root (g(op_name op := action_value cont (MetadataAction (metadata rec))))
        (insert (op_name op) X) (Some op) changes ds' s'"
      unfolding ds' using step UpsertDirectory
      by (intro push_inv [OF inv ready_after [OF inv c] _ _ elsewhere_after [OF inv c, of "[]"] off below]) auto
    with UpsertDirectory show ?thesis by simp
  next
    case (UpsertFile u' j rec)
    with f obtain sf where sf: "f = Some sf" by auto
    have "install P sf root (operation_path op) (metadata rec) s = (s', Inr u)" "ds' = ds"
      using run rep UpsertFile sf by (auto split: prod.splits)
    with perform_file_inv [OF inv below off UpsertFile sf] show ?thesis by simp
  next
    case (UpsertSymlink j rec)
    have sy: "symlink P root rec s = (s', Inr u)" "ds' = ds"
      using run rep UpsertSymlink by (auto split: prod.splits)
    have c: "confined tree at (operation_path op) {} s s'"
      and v: "unprotected (operation_path op)" "tree s' (op_name op) = operation_value cont op f"
      using symlink_step [OF root _ sy(1)] p UpsertSymlink by auto
    show ?thesis
      unfolding sy(2) using v UpsertSymlink
      by (intro immediate_inv [OF inv ready_after [OF inv c] _ _ elsewhere_after [OF inv c, of "[]"] off below]) auto
  qed
qed

lemma apply_inv:
  assumes inv: "inv cont root g X prev ((i, op, f) # changes) (pending c) s"
    and c: "committer_root c = root" "previous c = map_option operation_path prev"
    and run: "committer_apply P c op f s = ((s', c'), Inr u)"
  shows "inv cont root (g(op_name op := operation_value cont op f)) (insert (op_name op) X) (Some op)
      changes (pending c') s' \<and>
    committer_root c' = root \<and> previous c' = Some (operation_path op)"
proof -
  let ?leaving = "\<lambda>d. \<not> prefix (components d) (op_name op)"
  from run c(1) obtain s1 ds1 ds2 where
    fw: "finish_while P root ?leaving (pending c) s = ((s1, ds1), Inr ())" and
    pf: "perform P root ds1 op f s1 = ((s', ds2), Inr u)" and
    c': "c' = c\<lparr>pending := ds2, previous := Some (operation_path op)\<rparr>"
    by (auto simp: committer_apply_def Let_def split: if_splits prod.splits sum.splits option.splits)
  have st: "stack_ok X (pending c) prev" and pl: "planned prev ((i, op, f) # changes)"
    using inv by (simp_all add: inv_def)
  have leave: "\<not> prefix (dir_name d) y"
    if d: "d \<in> set (pending c)" "?leaving (pending_path d)"
      and y: "y \<in> change_names ((i, op, f) # changes)" for d y
  proof
    assume pre: "prefix (dir_name d) y"
    from st d(1) obtain q where q: "prev = Some q" "prefix (dir_name d) (op_name q)"
      by (auto simp: stack_ok_def)
    have "op_name q \<le> op_name op"
      using pl q(1) follows_le [of q op] by (simp add: less_eq_RelativePath_def)
    then have "dir_name d \<le> op_name op" using prefix_imp_le [OF q(2)] by (rule order_trans [rotated])
    moreover have "op_name op \<le> y"
      using y pl planned_above [of op changes y] by auto
    ultimately have "prefix (dir_name d) (op_name op)"
      using prefix_convex [of "dir_name d" "dir_name d" y "op_name op"] pre by simp
    with d(2) show False by simp
  qed
  from finish_while_inv [OF inv fw leave] have inv1: "inv cont root g X prev ((i, op, f) # changes) ds1 s1"
    and top: "case ds1 of [] \<Rightarrow> True | d # _ \<Rightarrow> prefix (dir_name d) (op_name op)"
    by (auto split: list.splits)
  have "prefix (dir_name d) (op_name op)" if "d \<in> set ds1" for d
  proof (cases ds1)
    case (Cons e es)
    have "prefix (dir_name d) (dir_name e)"
      using inv1 that Cons by (auto simp: inv_def stack_ok_def strict_prefix_def)
    with top Cons show ?thesis using prefix_order.trans by auto
  qed (use that in simp)
  from perform_inv [OF inv1 this pf] c' c show ?thesis by simp
qed

theorem commit_loop_correct:
  assumes "inv cont root g X prev changes (pending c) s"
    and "committer_root c = root" and "previous c = map_option operation_path prev"
    and "commit_loop P c changes s = (s', Inr u)"
  shows "\<forall>q. \<not> prefix staging q \<longrightarrow> same_dir (goal cont g changes q) (tree s' q) \<and>
    (q \<in> X \<union> change_names changes \<longrightarrow> tree s' q = goal cont g changes q)"
  using assms
proof (induction changes arbitrary: g X prev c s)
  case Nil
  from Nil.prems(4) obtain c' where fin: "committer_finish P c s = ((s', c'), Inr ())"
    by (auto split: prod.splits sum.splits)
  then obtain ds' where fw: "finish_while P root (\<lambda>_. True) (pending c) s = ((s', ds'), Inr ())"
    using Nil.prems(2) by (auto simp: committer_finish_def split: prod.splits)
  from finish_while_inv [OF Nil.prems(1) fw] have i: "inv cont root g X prev [] ds' s'"
    and "ds' = []" by (auto split: list.splits)
  then have "holds cont g X [] (tree s')" by (simp add: inv_def)
  then show ?case by (auto simp: holds_def)
next
  case (Cons x changes)
  obtain i op f where x: "x = (i, op, f)" by (cases x)
  from Cons.prems(4) x obtain s1 c1 where ap: "committer_apply P c op f s = ((s1, c1), Inr ())"
    and rest: "commit_loop P c1 changes s1 = (s', Inr u)"
    by (auto split: prod.splits sum.splits)
  from apply_inv [OF Cons.prems(1) [unfolded x] Cons.prems(2,3) ap]
  have "inv cont root (g(op_name op := operation_value cont op f)) (insert (op_name op) X) (Some op)
      changes (pending c1) s1" "committer_root c1 = root" "previous c1 = map_option operation_path (Some op)"
    by simp_all
  from Cons.IH [OF this rest] show ?case
    unfolding x goal.simps change_names_simps Un_insert_left Un_insert_right .
qed

theorem commit_correct:
  assumes "at s root = Some []" and "planned None changes"
    and "distinct (map staged_name (change_files changes))"
    and "\<And>f. f \<in> set (change_files changes) \<Longrightarrow> staged cont s f"
    and "commit P root changes s = (s', Inr u)" and "\<not> prefix staging q"
  shows "same_dir (goal cont (tree s) changes q) (tree s' q) \<and>
    (q \<in> change_names changes \<longrightarrow> tree s' q = goal cont (tree s) changes q)"
proof -
  have "inv cont root (tree s) {} None changes [] s"
    using assms(1-4) by (auto simp: inv_def ready_def holds_def quiet_def stack_ok_def linked_def)
  from commit_loop_correct [of cont root "tree s" "{}" None changes "committer_new root" s s' u] this assms(5,6)
  show ?thesis by (simp add: committer_new_def commit_def)
qed

end

section \<open>Confinement, whatever the outcome\<close>

text \<open>The names a list of changes may alter, and a stack whose entries are about such names.\<close>

definition alterable :: "RelativePath set \<Rightarrow> 'fd StagedFile list \<Rightarrow> bytes list set" where
  "alterable ps files = (\<Union>p\<in>ps. touched p) \<union> staged_names files"

definition stack_paths_ok :: "'fd PendingDirectory list \<Rightarrow> bool" where
  "stack_paths_ok ds \<longleftrightarrow>
     (\<forall>d\<in>set ds. path_ok (pending_path d) \<and> list_all (action_ok (pending_path d)) (actions d))"

definition change_paths :: "'fd changes \<Rightarrow> RelativePath set" where
  "change_paths changes = (\<lambda>(i, op, f). operation_path op) ` set changes"

lemma change_paths_simps [simp]:
  "change_paths [] = {}"
  "change_paths ((i, op, f) # changes) = insert (operation_path op) (change_paths changes)"
  by (simp_all add: change_paths_def)

lemma alterable_mono: "ps \<subseteq> qs \<Longrightarrow> set fs \<subseteq> set gs \<Longrightarrow> alterable ps fs \<subseteq> alterable qs gs"
  by (auto simp: alterable_def staged_names_def)

lemma frame_UNIV_trans:
  "frame E UNIV t t' \<Longrightarrow> frame E' UNIV t' t'' \<Longrightarrow> E \<subseteq> F \<Longrightarrow> E' \<subseteq> F \<Longrightarrow> frame F UNIV t t''"
  by (rule frame_chain [of F UNIV t t']) (auto elim: frame_mono)

lemma frame_weaken: "frame E M t t' \<Longrightarrow> E \<subseteq> F \<Longrightarrow> frame F UNIV t t'"
  by (auto elim: frame_mono)

context posix_fs
begin

lemma confined_alter:
  assumes "confined tree at p N s s'" and "N \<subseteq> staged_names fs" and "p \<in> ps"
  shows "frame (alterable ps fs) UNIV (tree s) (tree s')"
  using assms by (auto simp: confined_def alterable_def elim!: frame_weaken)

lemma finish_while_confined:
  assumes "ready cont root (pending_files ds @ files) s" and "stack_paths_ok ds"
    and "finish_while P root leaving ds s = ((s', ds'), r)"
  shows "frame (alterable (pending_path ` set ds) (pending_files ds)) UNIV (tree s) (tree s') \<and>
    ready cont root (pending_files ds' @ files) s' \<and> set ds' \<subseteq> set ds"
  using assms
proof (induction ds arbitrary: s)
  case Nil
  then show ?case by simp
next
  case (Cons d ds)
  show ?case
  proof (cases "leaving (pending_path d)")
    case False
    with Cons.prems show ?thesis by auto
  next
    case True
    obtain s1 r1 where 1: "finish_directory P root d s = (s1, r1)" by fastforce
    have a: "confined tree at (pending_path d) (staged_names (action_files (actions d))) s s1"
      "ready cont root (pending_files ds @ files) s1"
      using run_actions_step [of cont root "actions d" "pending_files ds @ files" s "pending_path d" s1 r1]
        Cons.prems 1 by (auto simp: finish_directory_def stack_paths_ok_def)
    have f1: "frame (alterable (pending_path ` set (d # ds)) (pending_files (d # ds))) UNIV (tree s) (tree s1)"
      using a(1) by (rule confined_alter) auto
    show ?thesis
    proof (cases r1)
      case (Inl e)
      with 1 True Cons.prems a f1 show ?thesis by auto
    next
      case (Inr u)
      with 1 True Cons.prems have more: "finish_while P root leaving ds s1 = ((s', ds'), r)" by simp
      from Cons.IH [OF a(2) _ more] Cons.prems(2)
      have f2: "frame (alterable (pending_path ` set ds) (pending_files ds)) UNIV (tree s1) (tree s')"
        and "ready cont root (pending_files ds' @ files) s'" "set ds' \<subseteq> set ds"
        by (auto simp: stack_paths_ok_def)
      with frame_UNIV_trans [OF f1 f2 order.refl alterable_mono] show ?thesis by auto
    qed
  qed
qed

lemma ready_permute:
  "ready cont root fs s \<Longrightarrow> distinct (map staged_name gs) \<Longrightarrow> set gs \<subseteq> set fs \<Longrightarrow> ready cont root gs s"
  by (auto simp: ready_def)

abbreviation opt_file :: "'fd StagedFile option \<Rightarrow> 'fd StagedFile list" where
  "opt_file f \<equiv> (case f of None \<Rightarrow> [] | Some f \<Rightarrow> [f])"

lemma defer_confined:
  assumes "stack_paths_ok ds" and "path_ok p" and "action_ok p a"
  shows "stack_paths_ok (defer_action p a ds) \<and>
    set (pending_files (defer_action p a ds)) = set (action_files [a] @ pending_files ds) \<and>
    pending_path ` set (defer_action p a ds) \<subseteq> insert p (pending_path ` set ds) \<and>
    (distinct (map staged_name (action_files [a] @ pending_files ds @ files)) \<longrightarrow>
     distinct (map staged_name (pending_files (defer_action p a ds) @ files)))"
  using assms by (cases ds) (auto simp: stack_paths_ok_def defer_action_def)

text \<open>An operation that is carried out at once, and one that waits for its directory.\<close>

lemma done_confined:
  assumes ready: "ready cont root (opt_file f @ pending_files ds @ files) s" and p: "path_ok p"
    and c: "confined tree at p (staged_names (opt_file f)) s s'"
  shows "frame (alterable {p} (opt_file f)) UNIV (tree s) (tree s') \<and> ready cont root (pending_files ds @ files) s'"
proof
  show "frame (alterable {p} (opt_file f)) UNIV (tree s) (tree s')" using c by (rule confined_alter) auto
  show "ready cont root (pending_files ds @ files) s'"
    using ready by (intro ready_step [OF ready p c order.refl]) (auto simp: ready_def)
qed

lemma deferred_confined:
  assumes ready: "ready cont root (opt_file f @ pending_files ds @ files) s" and st: "stack_paths_ok ds" and p: "path_ok p"
    and a: "action_ok p a" "action_files [a] = opt_file f"
    and ds': "ds' = defer_action p a ds" and c: "confined tree at p {} s s'"
  shows "frame (alterable {p} (opt_file f)) UNIV (tree s) (tree s') \<and>
    ready cont root (pending_files ds' @ files) s' \<and> stack_paths_ok ds' \<and>
    pending_path ` set ds' \<subseteq> insert p (pending_path ` set ds) \<and>
    set (pending_files ds') \<subseteq> set (opt_file f @ pending_files ds)"
proof -
  have d: "stack_paths_ok ds'" "set (pending_files ds') = set (opt_file f @ pending_files ds)"
    "pending_path ` set ds' \<subseteq> insert p (pending_path ` set ds)"
    "distinct (map staged_name (pending_files ds' @ files))"
    using defer_confined [OF st p a(1), of files] ready unfolding ds' a(2) by (auto simp: ready_def)
  have "ready cont root (opt_file f @ pending_files ds @ files) s'"
    using ready by (intro ready_step [OF ready p c, of "[]"]) (auto simp: ready_def)
  from ready_permute [OF this d(4)] d(2) have "ready cont root (pending_files ds' @ files) s'" by auto
  moreover have "frame (alterable {p} (opt_file f)) UNIV (tree s) (tree s')"
    using c by (rule confined_alter) auto
  ultimately show ?thesis using d by blast
qed

lemma perform_confined:
  assumes ready: "ready cont root (opt_file f @ pending_files ds @ files) s" and st: "stack_paths_ok ds"
    and p: "path_ok (operation_path op)" and f: "is_upsert_file op = (f \<noteq> None)"
    and run: "perform P root ds op f s = ((s', ds'), r)"
  shows "frame (alterable {operation_path op} (opt_file f)) UNIV (tree s) (tree s') \<and>
    ready cont root (pending_files ds' @ files) s' \<and> stack_paths_ok ds' \<and>
    pending_path ` set ds' \<subseteq> insert (operation_path op) (pending_path ` set ds) \<and>
    set (pending_files ds') \<subseteq> set (opt_file f @ pending_files ds)"
proof -
  have root: "at s root = Some []" using ready by (simp add: ready_def)
  have step: ?thesis if "confined tree at (operation_path op) (staged_names (opt_file f)) s s'" and "ds' = ds"
    using done_confined [OF ready p that(1)] that(2) st by auto
  note push = deferred_confined [OF ready st p]
  show ?thesis
  proof (cases op)
    case (Delete i q k)
    show ?thesis
    proof (cases "k = Directory")
      case True
      with run Delete f show ?thesis by (intro push [of DeleteAction]) (auto split: option.splits)
    next
      case False
      with run Delete have ul: "unlink P root (operation_path op) False s = (s', r)" "ds' = ds"
        by (auto split: prod.splits)
      from confined_mono [OF conjunct1 [OF unlink_step [OF root p ul(1)]] empty_subsetI] ul(2)
      show ?thesis by (rule step)
    qed
  next
    case (UpsertDirectory i rec)
    obtain s1 r1 where mk: "make_directory P root (operation_path op) (metadata rec) s = (s1, r1)" by fastforce
    note c = conjunct1 [OF make_directory_step [OF root p mk]]
    show ?thesis
    proof (cases r1)
      case (Inl e)
      with run UpsertDirectory mk c show ?thesis by (intro step) (auto elim: confined_mono)
    next
      case (Inr u)
      with run UpsertDirectory mk c f show ?thesis
        by (intro push [of "MetadataAction (metadata rec)"]) (auto split: option.splits)
    qed
  next
    case (UpsertFile u i rec)
    with f obtain sf where sf: "f = Some sf" by auto
    show ?thesis
    proof (cases "replacing_directory ds (path rec)")
      case True
      with run UpsertFile sf show ?thesis by (intro push [of "FileAction sf (metadata rec)"]) auto
    next
      case False
      then have ins: "install P sf root (operation_path op) (metadata rec) s = (s', r)" "ds' = ds"
        using run UpsertFile sf by (auto split: prod.splits)
      obtain m t where "at s (staged_dir sf) = Some staging" "component_ok (staged_name sf)"
          "tree s (staging @ [staged_name sf]) = Some (File m t (cont sf))"
        using ready sf by (auto simp: ready_def staged_def)
      from install_step [OF root p this ins(1)] ins(2) sf show ?thesis by (intro step) auto
    qed
  next
    case (UpsertSymlink i rec)
    show ?thesis
    proof (cases "replacing_directory ds (path rec)")
      case True
      with run UpsertSymlink f show ?thesis
        by (intro push [of "SymlinkAction rec"]) (auto split: option.splits)
    next
      case False
      then have sy: "symlink P root rec s = (s', r)" "ds' = ds"
        using run UpsertSymlink by (auto split: prod.splits)
      from symlink_step [OF root _ sy(1)] p UpsertSymlink sy(2) show ?thesis
        by (intro step) (auto elim: confined_mono)
    qed
  qed
qed

lemma drop_file_confined:
  assumes "ready cont root (opt_file f @ files) s" and "path_ok p"
  shows "frame (staged_names (opt_file f)) UNIV (tree s) (tree (drop_file P f s)) \<and>
    ready cont root files (drop_file P f s)"
proof (cases f)
  case None
  with assms show ?thesis by (simp add: drop_file_def)
next
  case (Some sf)
  then have rd: "ready cont root (sf # files) s" using assms(1) by simp
  then have "at s (staged_dir sf) = Some staging" "component_ok (staged_name sf)"
    by (auto simp: ready_def staged_def)
  from drop_staged_law [OF this] drop_step [OF rd assms(2)] Some show ?thesis
    by (auto simp: drop_file_def elim: frame_weaken)
qed

lemma committer_apply_confined:
  assumes ready: "ready cont root (opt_file f @ pending_files (pending c) @ files) s"
    and st: "stack_paths_ok (pending c)" and p: "path_ok (operation_path op)"
    and c: "committer_root c = root" and run: "committer_apply P c op f s = ((s', c'), r)"
    and ps: "pending_path ` set (pending c) \<subseteq> ps" "operation_path op \<in> ps"
    and fs: "set (opt_file f @ pending_files (pending c)) \<subseteq> set gs"
  shows "frame (alterable ps gs) UNIV (tree s) (tree s') \<and>
    ready cont root (pending_files (pending c') @ files) s' \<and> stack_paths_ok (pending c') \<and>
    committer_root c' = root \<and> pending_path ` set (pending c') \<subseteq> ps \<and>
    set (pending_files (pending c')) \<subseteq> set gs"
proof -
  let ?leaving = "\<lambda>d. \<not> prefix (components d) (op_name op)"
  have sub: "staged_names (opt_file f) \<subseteq> alterable ps gs"
    using fs by (auto simp: alterable_def staged_names_def split: option.splits)
  obtain s1 ds1 r1 where fw: "finish_while P root ?leaving (pending c) s = ((s1, ds1), r1)"
    by (metis surj_pair)
  have rd: "ready cont root (pending_files (pending c) @ (opt_file f @ files)) s"
    using ready by (rule ready_permute) (use ready in \<open>auto simp: ready_def\<close>)
  note w = finish_while_confined [OF rd st fw]
  have rd1: "ready cont root (opt_file f @ (pending_files ds1 @ files)) s1"
    using w by (auto intro: ready_permute simp: ready_def)
  have st1: "stack_paths_ok ds1" using w st by (auto simp: stack_paths_ok_def)
  have f1: "frame (alterable ps gs) UNIV (tree s) (tree s1)"
    using w fs ps(1) by (intro frame_weaken [OF conjunct1 [OF w]] alterable_mono) auto
  have fs1: "set (pending_files ds1) \<subseteq> set gs"
    using w fs by (auto simp: pending_files_def)
  have ps1: "pending_path ` set ds1 \<subseteq> ps" using w ps(1) by auto
  show ?thesis
  proof (cases "(case previous c of None \<Rightarrow> False | Some q \<Rightarrow> operation_path op < q) \<or>
      is_upsert_file op \<noteq> (f \<noteq> None)")
    case True
    then have "s' = drop_file P f s" "c' = c"
      using run by (auto simp: committer_apply_def Let_def split: if_splits)
    with drop_file_confined [OF ready p] sub ps st c fs show ?thesis
      by (auto elim: frame_weaken)
  next
    case ok: False
    show ?thesis
    proof (cases r1)
      case (Inl e)
      then have "s' = drop_file P f s1" "c' = c\<lparr>pending := ds1\<rparr>"
        using run fw ok c by (auto simp: committer_apply_def Let_def split: if_splits option.splits)
      with drop_file_confined [OF rd1 p] f1 c ps1 st1 fs1 sub show ?thesis
        by (auto elim!: frame_UNIV_trans)
    next
      case (Inr u)
      obtain s2 ds2 r2 where pf: "perform P root ds1 op f s1 = ((s2, ds2), r2)" by (metis surj_pair)
      have "is_upsert_file op = (f \<noteq> None)" using ok by simp
      note pc = perform_confined [OF rd1 st1 p this pf]
      have "s' = s2" "c' = c\<lparr>pending := ds2, previous := Some (operation_path op)\<rparr>"
        using run fw ok c Inr pf by (auto simp: committer_apply_def Let_def split: if_splits option.splits)
      moreover have "alterable {operation_path op} (opt_file f) \<subseteq> alterable ps gs"
        using ps fs by (intro alterable_mono) auto
      then have "frame (alterable ps gs) UNIV (tree s) (tree s2)"
        using f1 pc by (auto elim!: frame_UNIV_trans)
      moreover have "pending_path ` set ds2 \<subseteq> insert (operation_path op) (pending_path ` set ds1)"
        using pc by simp
      then have "pending_path ` set ds2 \<subseteq> ps" using ps(2) ps1 by (meson insert_subset order_trans)
      moreover have "set (pending_files ds2) \<subseteq> set (opt_file f @ pending_files ds1)" using pc by simp
      then have "set (pending_files ds2) \<subseteq> set gs" using fs fs1 by auto
      ultimately show ?thesis using pc c by simp
    qed
  qed
qed

lemma drop_files_confined:
  assumes "ready cont root (fs @ files) s"
  shows "frame (staged_names fs) UNIV (tree s) (tree (fold (drop_staged P) fs s)) \<and>
    ready cont root files (fold (drop_staged P) fs s)"
  using assms
proof (induction fs arbitrary: s)
  case Nil
  then show ?case by simp
next
  case (Cons f fs)
  have ok: "path_ok (RelativePath [[65]])" by (simp add: path_ok_def component_ok_def)
  have "ready cont root (opt_file (Some f) @ (fs @ files)) s" using Cons.prems by simp
  from drop_file_confined [OF this ok]
  have d: "frame (staged_names [f]) UNIV (tree s) (tree (drop_staged P f s))"
    "ready cont root (fs @ files) (drop_staged P f s)"
    by (simp_all add: drop_file_def)
  from frame_UNIV_trans [OF d(1) conjunct1 [OF Cons.IH [OF d(2)]]] Cons.IH [OF d(2)]
  show ?case by auto
qed

lemma fold_drop_action: "fold (drop_action P) as s = fold (drop_staged P) (action_files as) s"
proof (induction as arbitrary: s)
  case (Cons a as)
  then show ?case by (cases a) simp_all
qed simp

lemma drop_pending_eq: "drop_pending P ds s = fold (drop_staged P) (pending_files ds) s"
  by (induction ds arbitrary: s) (simp_all add: drop_pending_def fold_drop_action)

lemma drop_changes_eq: "drop_changes P changes s = fold (drop_staged P) (change_files changes) s"
proof (induction changes arbitrary: s)
  case (Cons x changes)
  obtain i op f where "x = (i, op, f)" by (cases x)
  with Cons show ?case by (cases f) (simp_all add: drop_changes_def drop_file_def)
qed (simp add: drop_changes_def)

lemma commit_loop_confined:
  assumes "ready cont root (change_files changes @ pending_files (pending c)) s"
    and "stack_paths_ok (pending c)" and "\<And>p. p \<in> change_paths changes \<Longrightarrow> path_ok p"
    and "committer_root c = root" and "commit_loop P c changes s = (s', r)"
    and "pending_path ` set (pending c) \<union> change_paths changes \<subseteq> ps"
    and "set (change_files changes @ pending_files (pending c)) \<subseteq> set gs"
  shows "frame (alterable ps gs) UNIV (tree s) (tree s')"
  using assms
proof (induction changes arbitrary: c s)
  case Nil
  obtain s1 ds1 r1 where fw: "finish_while P root (\<lambda>_. True) (pending c) s = ((s1, ds1), r1)"
    by (metis surj_pair)
  have w: "frame (alterable (pending_path ` set (pending c)) (pending_files (pending c))) UNIV (tree s) (tree s1)"
    "ready cont root (pending_files ds1) s1" "set ds1 \<subseteq> set (pending c)"
    using finish_while_confined [of cont root "pending c" "[]" s, OF _ Nil.prems(2) fw] Nil.prems(1) by auto
  have f1: "frame (alterable ps gs) UNIV (tree s) (tree s1)"
    using Nil.prems(6,7) by (intro frame_weaken [OF w(1)] alterable_mono) auto
  have "staged_names (pending_files ds1) \<subseteq> alterable ps gs"
    using w(3) Nil.prems(7) by (auto simp: alterable_def staged_names_def pending_files_def)
  then have "frame (alterable ps gs) UNIV (tree s) (tree (drop_pending P ds1 s1))"
    using f1 drop_files_confined [of cont root "pending_files ds1" "[]" s1] w(2)
    by (auto simp: drop_pending_eq elim!: frame_UNIV_trans)
  moreover have "s' = s1 \<or> s' = drop_pending P ds1 s1"
    using Nil.prems(4,5) fw by (cases r1) (auto simp: committer_finish_def)
  ultimately show ?case using f1 by auto
next
  case (Cons x changes)
  obtain i op f where x: "x = (i, op, f)" by (cases x)
  have files: "change_files (x # changes) = opt_file f @ change_files changes" by (cases f) (simp_all add: x)
  have pok: "path_ok (operation_path op)" and ps: "pending_path ` set (pending c) \<subseteq> ps" "operation_path op \<in> ps"
    "change_paths changes \<subseteq> ps" using Cons.prems(3,6) by (auto simp: x)
  have gs: "set (opt_file f @ pending_files (pending c)) \<subseteq> set gs" "set (change_files changes) \<subseteq> set gs"
    using Cons.prems(7) unfolding files by auto
  obtain s1 c1 r1 where ap: "committer_apply P c op f s = ((s1, c1), r1)" by (metis surj_pair)
  have rd: "ready cont root (opt_file f @ pending_files (pending c) @ change_files changes) s"
    using Cons.prems(1) by (rule ready_permute) (use Cons.prems(1) in \<open>auto simp: files ready_def\<close>)
  have a: "frame (alterable ps gs) UNIV (tree s) (tree s1)"
    "ready cont root (pending_files (pending c1) @ change_files changes) s1"
    "stack_paths_ok (pending c1)" "committer_root c1 = root"
    "pending_path ` set (pending c1) \<subseteq> ps" "set (pending_files (pending c1)) \<subseteq> set gs"
    using committer_apply_confined [OF rd Cons.prems(2) pok Cons.prems(4) ap ps(1,2) gs(1)] by blast+
  have rd1: "ready cont root (change_files changes @ pending_files (pending c1)) s1"
    using a(2) by (rule ready_permute) (use a(2) in \<open>auto simp: ready_def\<close>)
  show ?case
  proof (cases r1)
    case (Inr u)
    have "commit_loop P c1 changes s1 = (s', r)" using Cons.prems(5) x ap Inr by simp
    then have "frame (alterable ps gs) UNIV (tree s1) (tree s')"
      using Cons.prems(3) a(5,6) ps(3) gs(2) by (intro Cons.IH [OF rd1 a(3) _ a(4)]) (auto simp: x)
    with a(1) show ?thesis by (auto elim: frame_UNIV_trans)
  next
    case (Inl e)
    let ?s2 = "drop_changes P changes s1"
    have s': "s' = drop_pending P (pending c1) ?s2" using Cons.prems(5) x ap Inl by simp
    have sub: "staged_names (change_files changes) \<subseteq> alterable ps gs"
        "staged_names (pending_files (pending c1)) \<subseteq> alterable ps gs"
      using a(6) gs(2) by (auto simp: alterable_def staged_names_def)
    note d1 = drop_files_confined [OF rd1, folded drop_changes_eq]
    have "ready cont root (pending_files (pending c1) @ []) ?s2" using d1 by simp
    note d2 = drop_files_confined [OF this, folded drop_pending_eq]
    from frame_UNIV_trans [OF a(1) conjunct1 [OF d1] order.refl sub(1)]
    have "frame (alterable ps gs) UNIV (tree s) (tree ?s2)" .
    from frame_UNIV_trans [OF this conjunct1 [OF d2] order.refl sub(2)] s' show ?thesis by simp
  qed
qed

theorem commit_confined:
  assumes "at s root = Some []" and "\<And>p. p \<in> change_paths changes \<Longrightarrow> path_ok p"
    and "distinct (map staged_name (change_files changes))"
    and "\<And>f. f \<in> set (change_files changes) \<Longrightarrow> staged cont s f"
    and "commit P root changes s = (s', r)"
    and "q \<notin> alterable (change_paths changes) (change_files changes)"
  shows "same_dir (tree s q) (tree s' q)"
proof -
  have "ready cont root (change_files changes @ pending_files (pending (committer_new root))) s"
    using assms(1,3,4) by (simp add: ready_def committer_new_def)
  then have "frame (alterable (change_paths changes) (change_files changes)) UNIV (tree s) (tree s')"
    using assms(2,5)
    by (intro commit_loop_confined [where c = "committer_new root" and changes = changes])
      (auto simp: committer_new_def commit_def stack_paths_ok_def)
  then show ?thesis using assms(6) frameD(1) by blast
qed

end

end
