(* ===== verification/Kernel.thy ===== *)
theory Kernel
  imports Installation
begin

text \<open>
  A concrete system that meets the contract \<open>posix_fs\<close>: a finite list of names with their nodes, a
  table of descriptors and a clock. It interprets the locale, so every law has an instance, and it
  evaluates, so the properties of the destination side can be run on a small tree.
\<close>

record kernel =
  nodes :: "(bytes list \<times> node) list"
  fds :: "bytes list list"
  clock :: int

definition kernel_tree :: "kernel \<Rightarrow> tree" where
  "kernel_tree k = map_of (nodes k)"

definition kernel_at :: "kernel \<Rightarrow> nat \<Rightarrow> bytes list option" where
  "kernel_at k fd = (if fd < length (fds k) then Some (fds k ! fd) else None)"

definition set_node :: "bytes list \<Rightarrow> node option \<Rightarrow> kernel \<Rightarrow> kernel" where
  "set_node q x k =
     k\<lparr>nodes := (case x of None \<Rightarrow> [] | Some n \<Rightarrow> [(q, n)]) @ filter (\<lambda>e. fst e \<noteq> q) (nodes k)\<rparr>"

definition touch :: "bytes list \<Rightarrow> kernel \<Rightarrow> kernel" where
  "touch d k = (case kernel_tree k d of Some (Dir m t) \<Rightarrow> set_node d (Some (Dir m (clock k))) k | _ \<Rightarrow> k)"

definition put :: "bytes list \<Rightarrow> node option \<Rightarrow> kernel \<Rightarrow> kernel" where
  "put q x k = touch (butlast q) (set_node q x k)"

definition new_fd :: "bytes list \<Rightarrow> kernel \<Rightarrow> kernel \<times> (Errno + nat)" where
  "new_fd q k = (k\<lparr>fds := fds k @ [q]\<rparr>, Inr (length (fds k)))"

text \<open>Bad descriptors, directories where none may be, and directories that are not empty.\<close>

abbreviation EBADF :: Errno where "EBADF \<equiv> OtherErrno 9"
abbreviation EISDIR :: Errno where "EISDIR \<equiv> OtherErrno 21"
abbreviation EINVAL :: Errno where "EINVAL \<equiv> OtherErrno 22"
abbreviation ENOTEMPTY :: Errno where "ENOTEMPTY \<equiv> OtherErrno 39"

definition with_fd :: "nat \<Rightarrow> kernel \<Rightarrow> (bytes list \<Rightarrow> kernel \<times> (Errno + 'a)) \<Rightarrow> kernel \<times> (Errno + 'a)" where
  "with_fd fd k f = (case kernel_at k fd of None \<Rightarrow> (k, Inl EBADF) | Some q \<Rightarrow> f q)"

definition k_openat :: "nat \<Rightarrow> bytes \<Rightarrow> OFlag list \<Rightarrow> u32 \<Rightarrow> kernel \<Rightarrow> kernel \<times> (Errno + nat)" where
  "k_openat fd name flags m k = with_fd fd k (\<lambda>d. let q = d @ [name] in
     case kernel_tree k q of
       None \<Rightarrow> if CREATE \<in> set flags then new_fd q (put q (Some (File m (clock k) [])) k) else (k, Inl NOENT)
     | Some n \<Rightarrow>
         if CREATE \<in> set flags \<and> EXCL \<in> set flags then (k, Inl EXIST)
         else if is_link (Some n) then (k, Inl LOOP)
         else if DIRECTORY \<in> set flags \<and> \<not> is_dir (Some n) then (k, Inl NOTDIR)
         else if WRONLY \<in> set flags \<and> is_dir (Some n) then (k, Inl EISDIR)
         else new_fd q k)"

definition k_mkdirat :: "nat \<Rightarrow> bytes \<Rightarrow> u32 \<Rightarrow> kernel \<Rightarrow> kernel \<times> (Errno + unit)" where
  "k_mkdirat fd name m k = with_fd fd k (\<lambda>d. let q = d @ [name] in
     if kernel_tree k q \<noteq> None then (k, Inl EXIST) else (put q (Some (Dir m (clock k))) k, Inr ()))"

definition k_empty :: "kernel \<Rightarrow> bytes list \<Rightarrow> bool" where
  "k_empty k q \<longleftrightarrow> list_all (\<lambda>e. fst e = [] \<or> butlast (fst e) \<noteq> q) (nodes k)"

definition k_unlinkat :: "nat \<Rightarrow> bytes \<Rightarrow> bool \<Rightarrow> kernel \<Rightarrow> kernel \<times> (Errno + unit)" where
  "k_unlinkat fd name removedir k = with_fd fd k (\<lambda>d. let q = d @ [name] in
     case kernel_tree k q of
       None \<Rightarrow> (k, Inl NOENT)
     | Some n \<Rightarrow>
         if removedir \<noteq> is_dir (Some n) then (k, Inl (if removedir then NOTDIR else EISDIR))
         else if removedir \<and> \<not> k_empty k q then (k, Inl ENOTEMPTY)
         else (put q None k, Inr ()))"

definition k_symlinkat :: "bytes \<Rightarrow> nat \<Rightarrow> bytes \<Rightarrow> kernel \<Rightarrow> kernel \<times> (Errno + unit)" where
  "k_symlinkat target fd name k = with_fd fd k (\<lambda>d. let q = d @ [name] in
     if kernel_tree k q \<noteq> None then (k, Inl EXIST) else (put q (Some (Link target (clock k))) k, Inr ()))"

definition k_renameat :: "nat \<Rightarrow> bytes \<Rightarrow> nat \<Rightarrow> bytes \<Rightarrow> kernel \<Rightarrow> kernel \<times> (Errno + unit)" where
  "k_renameat fd1 n1 fd2 n2 k = with_fd fd1 k (\<lambda>d1. with_fd fd2 k (\<lambda>d2.
     let q1 = d1 @ [n1]; q2 = d2 @ [n2] in
     if \<not> is_file (kernel_tree k q1) then (k, Inl EINVAL)
     else if is_dir (kernel_tree k q2) then (k, Inl EISDIR)
     else let n = kernel_tree k q1; k' = put q2 n (put q1 None k)
          in (k'\<lparr>fds := map (\<lambda>p. if p = q1 then q2 else p) (fds k')\<rparr>, Inr ())))"

definition k_change :: "nat \<Rightarrow> (node \<Rightarrow> node) \<Rightarrow> kernel \<Rightarrow> kernel \<times> (Errno + unit)" where
  "k_change fd f k = with_fd fd k (\<lambda>q. (set_node q (map_option f (kernel_tree k q)) k, Inr ()))"

definition k_utimensat :: "nat \<Rightarrow> bytes \<Rightarrow> int \<times> int \<Rightarrow> kernel \<Rightarrow> kernel \<times> (Errno + unit)" where
  "k_utimensat fd name tm k = with_fd fd k (\<lambda>d. let q = d @ [name] in
     case kernel_tree k q of
       None \<Rightarrow> (k, Inl NOENT)
     | Some n \<Rightarrow> (set_node q (Some (set_mtime tm n)) k, Inr ()))"

definition k_fstat :: "nat \<Rightarrow> kernel \<Rightarrow> Errno + Stat" where
  "k_fstat fd k =
     (case kernel_at k fd of
        None \<Rightarrow> Inl EBADF
      | Some q \<Rightarrow> Inr \<lparr>st_dev = 1, st_ino = word_of_nat fd, st_uid = 0, st_mode = 448,
                       st_regular = is_file (kernel_tree k q)\<rparr>)"

fun append_content :: "int \<Rightarrow> bytes \<Rightarrow> node \<Rightarrow> node" where
  "append_content now b (File m t c) = File m now (c @ b)"
| "append_content now b n = n"

definition kernel_posix :: "(kernel, nat) posix" where
  "kernel_posix = \<lparr>
     dup = (\<lambda>fd k. with_fd fd k (\<lambda>q. new_fd q k)),
     openat = k_openat, mkdirat = k_mkdirat, unlinkat = k_unlinkat, symlinkat = k_symlinkat,
     renameat = k_renameat,
     fchmod = (\<lambda>fd m. k_change fd (set_mode m)),
     futimens = (\<lambda>fd tm. k_change fd (set_mtime tm)),
     utimensat = k_utimensat,
     fstat = k_fstat,
     write_fd = (\<lambda>fd b k. k_change fd (append_content (clock k) b) k),
     geteuid = 0,
     errno_text = (\<lambda>e. ''os error'')\<rparr>"

section \<open>The laws\<close>

lemma map_of_filter_ne: "map_of (filter (\<lambda>e. fst e \<noteq> q) xs) = (map_of xs)(q := None)"
  by (induction xs) (auto simp: fun_eq_iff)

lemma kernel_tree_set_node [simp]: "kernel_tree (set_node q x k) = (kernel_tree k)(q := x)"
  by (cases x) (simp_all add: kernel_tree_def set_node_def map_of_filter_ne)

lemma fds_simps [simp]: "fds (set_node q x k) = fds k" "fds (touch d k) = fds k" "fds (put q x k) = fds k"
  by (simp_all add: set_node_def touch_def put_def split: option.split node.split)

lemma kernel_tree_fds [simp]: "kernel_tree (k\<lparr>fds := x\<rparr>) = kernel_tree k"
  by (simp add: kernel_tree_def)

lemma kernel_at_cong: "fds k' = fds k \<Longrightarrow> kernel_at k' = kernel_at k"
  by (simp add: kernel_at_def fun_eq_iff)

lemma put_updated: "q \<noteq> [] \<Longrightarrow> updated q x (kernel_tree k) (kernel_tree (put q x k))"
proof -
  assume "q \<noteq> []"
  then have "butlast q \<noteq> q" by (cases q rule: rev_cases) auto
  then show ?thesis
    by (simp add: updated_def put_def touch_def split: option.split node.split)
qed

lemma new_fd_law:
  assumes "new_fd q k = (k', r)"
  shows "kernel_tree k' = kernel_tree k \<and> (\<forall>f p. kernel_at k f = Some p \<longrightarrow> kernel_at k' f = Some p) \<and>
    (\<exists>fd. r = Inr fd \<and> kernel_at k' fd = Some q)"
proof -
  have k': "k' = k\<lparr>fds := fds k @ [q]\<rparr>" and r: "r = Inr (length (fds k))"
    using assms by (simp_all add: new_fd_def)
  have "kernel_at k' f = Some p" if "kernel_at k f = Some p" for f p
  proof -
    have "f < length (fds k)" "fds k ! f = p"
      using that by (simp_all add: kernel_at_def split: if_split_asm)
    then show ?thesis by (simp add: k' kernel_at_def nth_append)
  qed
  moreover have "kernel_at k' (length (fds k)) = Some q" by (simp add: k' kernel_at_def)
  ultimately show ?thesis using r k' by simp
qed

lemma k_empty_no_entries: "k_empty k q \<Longrightarrow> no_entries (kernel_tree k) q"
  by (fastforce simp: k_empty_def no_entries_def kernel_tree_def list_all_iff map_of_eq_None_iff)

lemma kernel_at_fds [simp]:
  "kernel_at (set_node q x k) = kernel_at k" "kernel_at (put q x k) = kernel_at k"
  by (rule kernel_at_cong, simp)+

lemma with_fd_at: "kernel_at k fd = Some q \<Longrightarrow> with_fd fd k f = f q"
  by (simp add: with_fd_def)

lemma k_change_law:
  assumes "kernel_at k fd = Some q" and "k_change fd f k = (k', u)"
  shows "kernel_at k' = kernel_at k \<and> u = Inr () \<and>
    kernel_tree k' = (kernel_tree k)(q := map_option f (kernel_tree k q))"
  using assms by (auto simp: k_change_def with_fd_at)

lemma k_open_create:
  assumes at: "kernel_at k fd = Some d" and fl: "CREATE \<in> set flags" "EXCL \<in> set flags"
    and o: "k_openat fd name flags m k = (k', r)"
  shows "(\<forall>f p. kernel_at k f = Some p \<longrightarrow> kernel_at k' f = Some p) \<and>
    (case r of
       Inl e \<Rightarrow> kernel_tree k' = kernel_tree k
     | Inr fd' \<Rightarrow> kernel_at k' fd' = Some (d @ [name]) \<and> kernel_tree k (d @ [name]) = None \<and>
         (\<exists>md t. updated (d @ [name]) (Some (File md t [])) (kernel_tree k) (kernel_tree k')))"
proof (cases "kernel_tree k (d @ [name])")
  case None
  let ?k = "put (d @ [name]) (Some (File m (clock k) [])) k"
  have "new_fd (d @ [name]) ?k = (k', r)"
    using o None fl by (simp add: k_openat_def with_fd_at [OF at] Let_def)
  note n = new_fd_law [OF this]
  have "updated (d @ [name]) (Some (File m (clock k) [])) (kernel_tree k) (kernel_tree ?k)"
    by (rule put_updated) simp
  then have "\<exists>md t. updated (d @ [name]) (Some (File md t [])) (kernel_tree k) (kernel_tree k')"
    using n by metis
  moreover obtain fd' where "r = Inr fd'" "kernel_at k' fd' = Some (d @ [name])" using n by blast
  ultimately show ?thesis using n None by simp
next
  case (Some n)
  then show ?thesis using o fl by (auto simp: k_openat_def with_fd_at [OF at] Let_def)
qed

lemma k_open_existing:
  assumes at: "kernel_at k fd = Some d" and fl: "CREATE \<notin> set flags"
    and o: "k_openat fd name flags m k = (k', r)"
  shows "kernel_tree k' = kernel_tree k \<and> (\<forall>f p. kernel_at k f = Some p \<longrightarrow> kernel_at k' f = Some p) \<and>
    (\<forall>fd'. r = Inr fd' \<longrightarrow> kernel_at k' fd' = Some (d @ [name]) \<and> kernel_tree k (d @ [name]) \<noteq> None \<and>
       \<not> is_link (kernel_tree k (d @ [name])) \<and>
       (DIRECTORY \<in> set flags \<longrightarrow> is_dir (kernel_tree k (d @ [name]))))"
proof (cases "\<exists>n. kernel_tree k (d @ [name]) = Some n \<and> new_fd (d @ [name]) k = (k', r) \<and>
    \<not> is_link (Some n) \<and> (DIRECTORY \<in> set flags \<longrightarrow> is_dir (Some n))")
  case True
  then obtain n where n: "kernel_tree k (d @ [name]) = Some n" "\<not> is_link (Some n)"
      "DIRECTORY \<in> set flags \<longrightarrow> is_dir (Some n)"
    and nf: "new_fd (d @ [name]) k = (k', r)" by blast
  show ?thesis using new_fd_law [OF nf] n by auto
next
  case False
  then have "k' = k \<and> (\<exists>e. r = Inl e)"
    using o fl by (auto simp: k_openat_def with_fd_at [OF at] Let_def split: option.split_asm if_split_asm)
  then show ?thesis by auto
qed

lemma k_open_dir_error:
  assumes at: "kernel_at k fd = Some d" and fl: "DIRECTORY \<in> set flags" "CREATE \<notin> set flags"
    and o: "k_openat fd name flags m k = (k', Inl e)"
    and n: "is_file (kernel_tree k (d @ [name])) \<or> is_link (kernel_tree k (d @ [name]))"
  shows "e = LOOP \<or> e = NOTDIR"
  using o fl n
  by (auto simp: k_openat_def with_fd_at [OF at] Let_def new_fd_def split: option.split_asm if_split_asm
        elim: is_file.elims)

lemma k_put_law:
  assumes "kernel_at k fd = Some d"
    and "f = (\<lambda>q. if g q then (k, Inl (err q)) else (put q (x q) k, Inr ()))"
    and "with_fd fd k (\<lambda>d. f (d @ [name])) = (k', u)"
  shows "kernel_at k' = kernel_at k \<and>
    (case u of Inl e \<Rightarrow> kernel_tree k' = kernel_tree k \<and> e = err (d @ [name]) \<and> g (d @ [name])
     | Inr _ \<Rightarrow> \<not> g (d @ [name]) \<and> updated (d @ [name]) (x (d @ [name])) (kernel_tree k) (kernel_tree k'))"
  using assms put_updated [of "d @ [name]"] by (auto simp: with_fd_at split: if_split_asm)

lemma k_mkdir_law:
  assumes at: "kernel_at k fd = Some d" and o: "k_mkdirat fd name m k = (k', u)"
  shows "(\<forall>f p. kernel_at k f = Some p \<longrightarrow> kernel_at k' f = Some p) \<and>
    (case u of
       Inl e \<Rightarrow> kernel_tree k' = kernel_tree k \<and> (e = EXIST \<longrightarrow> kernel_tree k (d @ [name]) \<noteq> None)
     | Inr _ \<Rightarrow> kernel_tree k (d @ [name]) = None \<and>
         (\<exists>md t. updated (d @ [name]) (Some (Dir md t)) (kernel_tree k) (kernel_tree k')))"
  using k_put_law [OF at refl, where g = "\<lambda>q. kernel_tree k q \<noteq> None" and err = "\<lambda>_. EXIST"
      and x = "\<lambda>_. Some (Dir m (clock k))" and name = name and k' = k' and u = u] o
  by (auto simp: k_mkdirat_def Let_def split: sum.split_asm)

lemma k_symlink_law:
  assumes at: "kernel_at k fd = Some d" and o: "k_symlinkat target fd name k = (k', u)"
  shows "(\<forall>f p. kernel_at k f = Some p \<longrightarrow> kernel_at k' f = Some p) \<and>
    (case u of
       Inl e \<Rightarrow> kernel_tree k' = kernel_tree k
     | Inr _ \<Rightarrow> kernel_tree k (d @ [name]) = None \<and>
         (\<exists>t. updated (d @ [name]) (Some (Link target t)) (kernel_tree k) (kernel_tree k')))"
  using k_put_law [OF at refl, where g = "\<lambda>q. kernel_tree k q \<noteq> None" and err = "\<lambda>_. EXIST"
      and x = "\<lambda>_. Some (Link target (clock k))" and name = name and k' = k' and u = u] o
  by (auto simp: k_symlinkat_def Let_def split: sum.split_asm)

lemma k_unlink_law:
  assumes at: "kernel_at k fd = Some d" and o: "k_unlinkat fd name removedir k = (k', u)"
  shows "(\<forall>f p. kernel_at k f = Some p \<and> \<not> prefix (d @ [name]) p \<longrightarrow> kernel_at k' f = Some p) \<and>
    (case u of
       Inl e \<Rightarrow> kernel_tree k' = kernel_tree k \<and> (e = NOENT \<longrightarrow> kernel_tree k (d @ [name]) = None)
     | Inr _ \<Rightarrow> updated (d @ [name]) None (kernel_tree k) (kernel_tree k') \<and>
         kernel_tree k (d @ [name]) \<noteq> None \<and>
         (if removedir then is_dir (kernel_tree k (d @ [name])) \<and> no_entries (kernel_tree k) (d @ [name])
          else \<not> is_dir (kernel_tree k (d @ [name]))))"
proof (cases "kernel_tree k (d @ [name])")
  case None
  then show ?thesis using o by (auto simp: k_unlinkat_def with_fd_at [OF at])
next
  case (Some n)
  then show ?thesis
    using o k_empty_no_entries [of k "d @ [name]"] put_updated [of "d @ [name]" None k]
    by (auto simp: k_unlinkat_def with_fd_at [OF at] Let_def split: if_split_asm)
qed

lemma k_rename_law:
  assumes at1: "kernel_at k fd1 = Some d1" and at2: "kernel_at k fd2 = Some d2"
    and f: "is_file (kernel_tree k (d1 @ [n1]))" and ne: "d1 @ [n1] \<noteq> d2 @ [n2]"
    and o: "k_renameat fd1 n1 fd2 n2 k = (k', u)"
  shows "(\<forall>f p. kernel_at k f = Some p \<and> p \<noteq> d1 @ [n1] \<and> p \<noteq> d2 @ [n2] \<longrightarrow> kernel_at k' f = Some p) \<and>
    (case u of
       Inl e \<Rightarrow> kernel_tree k' = kernel_tree k \<and> (\<forall>f p. kernel_at k f = Some p \<longrightarrow> kernel_at k' f = Some p)
     | Inr _ \<Rightarrow> \<not> is_dir (kernel_tree k (d2 @ [n2])) \<and>
         (\<exists>t. updated (d1 @ [n1]) None (kernel_tree k) t \<and>
              updated (d2 @ [n2]) (kernel_tree k (d1 @ [n1])) t (kernel_tree k')))"
proof (cases "is_dir (kernel_tree k (d2 @ [n2]))")
  case True
  then show ?thesis using o f by (auto simp: k_renameat_def with_fd_at [OF at1] with_fd_at [OF at2])
next
  case False
  let ?a = "put (d1 @ [n1]) None k" and ?n = "kernel_tree k (d1 @ [n1])"
  let ?b = "put (d2 @ [n2]) ?n ?a"
  have k': "k' = ?b\<lparr>fds := map (\<lambda>p. if p = d1 @ [n1] then d2 @ [n2] else p) (fds ?b)\<rparr>" and u: "u = Inr ()"
    using o f False by (simp_all add: k_renameat_def with_fd_at [OF at1] with_fd_at [OF at2] Let_def)
  have "updated (d1 @ [n1]) None (kernel_tree k) (kernel_tree ?a)"
    by (rule put_updated) simp
  moreover have "updated (d2 @ [n2]) ?n (kernel_tree ?a) (kernel_tree ?b)"
    by (rule put_updated) simp
  moreover have "kernel_tree k' = kernel_tree ?b" by (simp add: k')
  moreover have "kernel_at k' f = Some p" if "kernel_at k f = Some p" "p \<noteq> d1 @ [n1]" for f p
    using that by (auto simp: k' kernel_at_def split: if_split_asm)
  ultimately show ?thesis using u False by auto
qed

lemmas kernel_laws =
  k_open_create k_open_existing k_open_dir_error k_mkdir_law k_symlink_law k_unlink_law k_rename_law

interpretation kern: posix_fs kernel_posix kernel_tree kernel_at
proof (unfold_locales, unfold kernel_posix_def posix.simps)
  fix k k' :: kernel and fd d r
  assume at: "kernel_at k fd = Some d" and "with_fd fd k (\<lambda>q. new_fd q k) = (k', r)"
  then have "new_fd d k = (k', r)" by (simp add: with_fd_at)
  from new_fd_law [OF this] show "kernel_tree k' = kernel_tree k \<and>
      (\<forall>f p. kernel_at k f = Some p \<longrightarrow> kernel_at k' f = Some p) \<and>
      (\<forall>fd'. r = Inr fd' \<longrightarrow> kernel_at k' fd' = Some d)" by auto
next
  fix k k' :: kernel and fd q m u
  assume at: "kernel_at k fd = Some q" and c: "k_change fd (set_mode m) k = (k', u)"
  show "kernel_at k' = kernel_at k \<and> (case u of Inl e \<Rightarrow> kernel_tree k' = kernel_tree k
     | Inr _ \<Rightarrow> kernel_tree k' = (kernel_tree k)(q := map_option (set_mode m) (kernel_tree k q)))"
    using k_change_law [OF at c] by simp
next
  fix k k' :: kernel and fd q tm u
  assume at: "kernel_at k fd = Some q" and c: "k_change fd (set_mtime tm) k = (k', u)"
  show "kernel_at k' = kernel_at k \<and> (case u of Inl e \<Rightarrow> kernel_tree k' = kernel_tree k
     | Inr _ \<Rightarrow> kernel_tree k' = (kernel_tree k)(q := map_option (set_mtime tm) (kernel_tree k q)))"
    using k_change_law [OF at c] by simp
next
  fix k k' :: kernel and fd d name tm u
  assume at: "kernel_at k fd = Some d" and c: "k_utimensat fd name tm k = (k', u)"
  show "kernel_at k' = kernel_at k \<and> (case u of Inl e \<Rightarrow> kernel_tree k' = kernel_tree k
     | Inr _ \<Rightarrow> kernel_tree k (d @ [name]) \<noteq> None \<and> kernel_tree k' =
         (kernel_tree k)(d @ [name] := map_option (set_mtime tm) (kernel_tree k (d @ [name]))))"
    using c by (auto simp: k_utimensat_def with_fd_at [OF at] Let_def split: option.split_asm)
next
  fix k :: kernel and fd q st
  assume "kernel_at k fd = Some q" and "k_fstat fd k = Inr st"
  then show "st_regular st = is_file (kernel_tree k q)" by (auto simp: k_fstat_def)
next
  fix k k' :: kernel and fd q md t c b u
  assume at: "kernel_at k fd = Some q" and n: "kernel_tree k q = Some (File md t c)"
    and w: "k_change fd (append_content (clock k) b) k = (k', u)"
  show "kernel_at k' = kernel_at k \<and> (\<forall>p. p \<noteq> q \<longrightarrow> kernel_tree k' p = kernel_tree k p) \<and>
      (case u of Inl e \<Rightarrow> \<exists>t' c'. kernel_tree k' q = Some (File md t' c')
       | Inr _ \<Rightarrow> \<exists>t'. kernel_tree k' q = Some (File md t' (c @ b)))"
    using k_change_law [OF at w] n by simp
qed (rule kernel_laws, assumption+)+

interpretation kern: reliable_fs kernel_posix kernel_tree kernel_at
proof (unfold_locales, unfold kernel_posix_def posix.simps)
  fix k :: kernel and fd d name flags m
  assume at: "kernel_at k fd = Some d" and fl: "CREATE \<notin> set flags" "WRONLY \<notin> set flags"
    and n: "if DIRECTORY \<in> set flags then is_dir (kernel_tree k (d @ [name]))
       else kernel_tree k (d @ [name]) \<noteq> None \<and> \<not> is_link (kernel_tree k (d @ [name]))"
  then obtain x where "kernel_tree k (d @ [name]) = Some x" "\<not> is_link (Some x)"
    "DIRECTORY \<in> set flags \<Longrightarrow> is_dir (Some x)"
    by (cases "kernel_tree k (d @ [name])" rule: is_dir.cases) (auto split: if_splits)
  then show "\<exists>s' fd'. k_openat fd name flags m k = (s', Inr fd')"
    using fl by (simp add: k_openat_def with_fd_at [OF at] new_fd_def Let_def)
next
  fix k :: kernel and fd d name flags m
  assume at: "kernel_at k fd = Some d" and fl: "CREATE \<notin> set flags"
    and n: "is_link (kernel_tree k (d @ [name]))"
  then obtain x where "kernel_tree k (d @ [name]) = Some x" "is_link (Some x)"
    by (cases "kernel_tree k (d @ [name])") auto
  then show "\<exists>s'. k_openat fd name flags m k = (s', Inl LOOP)"
    using fl by (simp add: k_openat_def with_fd_at [OF at] Let_def)
qed (auto simp: with_fd_at new_fd_def k_openat_def k_fstat_def Let_def)

end
