(* ===== verification/Resolution.thy ===== *)
theory Resolution
  imports Kernel
begin

text \<open>
  What the path gates accept, and what they answer on every tree: the properties of
  \<open>filesystem/paths.rs\<close>.
\<close>

section \<open>The lexical gate\<close>

text \<open>The wire form of a path, its components joined by slashes.\<close>

fun join_slash :: "bytes list \<Rightarrow> bytes" where
  "join_slash [] = []"
| "join_slash [c] = c"
| "join_slash (c # cs) = c @ 47 # join_slash cs"

lemma split_slash_not_Nil [simp]: "split_slash bs \<noteq> []"
  by (induction bs) (auto split: list.splits)

lemma join_split: "join_slash (split_slash bs) = bs"
proof (induction bs)
  case (Cons b bs)
  then show ?case by (cases "split_slash bs" rule: join_slash.cases) auto
qed simp

lemma split_no_slash: "c \<in> set (split_slash bs) \<Longrightarrow> 47 \<notin> set c"
  by (induction bs arbitrary: c) (fastforce split: list.splits if_splits)+

lemma split_word: "47 \<notin> set c \<Longrightarrow> split_slash c = [c]"
  by (induction c) auto

lemma split_join_word: "47 \<notin> set c \<Longrightarrow> split_slash (c @ 47 # bs) = c # split_slash bs"
  by (induction c) auto

lemma split_join: "cs \<noteq> [] \<Longrightarrow> \<forall>c\<in>set cs. 47 \<notin> set c \<Longrightarrow> split_slash (join_slash cs) = cs"
  by (induction cs rule: join_slash.induct) (auto simp: split_word split_join_word)

lemma error_codes [simp]:
  "code (quic_sync_error_new c ph d) = c" "code (with_context e ctx) = code e"
  "code (limit_exceeded d) = ResourceLimitExceeded"
  by (simp_all add: quic_sync_error_new_def with_context_def limit_exceeded_def)

lemma reject_components_Inl:
  "reject_components p cs = Inl e \<Longrightarrow> code e = PathConfinementViolation"
  by (induction cs) (auto split: if_splits)

text \<open>
  C30. The lexical gate accepts exactly the wire forms of safe paths: a byte string decodes to a path
  if and only if it is the components of that path joined by slashes, every component names one
  entry (not empty, not a dot component, no NUL), none of them is administratively protected, and
  both limits hold. So decoding loses nothing, and no two byte strings decode to the same path.
\<close>

theorem decode_relative_path_iff:
  "decode_relative_path wire limits = Inr p \<longleftrightarrow>
     path_ok p \<and> wire = join_slash (components p) \<and> unprotected p \<and>
     length wire \<le> unat (max_path_bytes limits) \<and>
     length (components p) \<le> unat (max_components limits)"
proof -
  have split: "split_slash wire = components p \<longleftrightarrow> wire = join_slash (components p)" if p: "path_ok p"
  proof
    assume "split_slash wire = components p"
    then show "wire = join_slash (components p)" using join_split [of wire] by simp
  next
    assume "wire = join_slash (components p)"
    moreover have "\<forall>c\<in>set (components p). 47 \<notin> set c" "components p \<noteq> []"
      using p by (simp_all add: path_ok_def list_all_iff component_ok_def)
    ultimately show "split_slash wire = components p" using split_join by simp
  qed
  have "decode_relative_path wire limits = Inr p \<longleftrightarrow>
      length wire \<le> unat (max_path_bytes limits) \<and>
      length (split_slash wire) \<le> unat (max_components limits) \<and>
      p = RelativePath (split_slash wire) \<and> path_ok p \<and> unprotected p"
    by (auto simp: decode_relative_path_def Let_def result_simps relative_path_new_Inr
        reject_protected_Inr unprotected_def)
  also have "\<dots> \<longleftrightarrow> length wire \<le> unat (max_path_bytes limits) \<and>
      length (components p) \<le> unat (max_components limits) \<and>
      split_slash wire = components p \<and> path_ok p \<and> unprotected p"
    by (cases p) auto
  finally show ?thesis using split by blast
qed

lemma relative_path_new_ok:
  "list_all component_ok (split_slash wire) \<Longrightarrow>
     relative_path_new (split_slash wire) = Inr (RelativePath (split_slash wire))"
  by (simp add: relative_path_new_Inr path_ok_def)

text \<open>
  Which error a refused byte string gives: exceeding a limit is reported before the components
  are looked at, an unacceptable component as an invalid path, and a protected one as a violation of
  confinement.
\<close>

lemma decode_relative_path_error:
  "decode_relative_path wire limits = Inl e \<Longrightarrow>
     code e =
       (if length wire > unat (max_path_bytes limits) \<or>
           length (split_slash wire) > unat (max_components limits) then ResourceLimitExceeded
        else if \<not> list_all component_ok (split_slash wire) then ErrorCode.InvalidPath
        else PathConfinementViolation)"
  by (auto simp: decode_relative_path_def Let_def result_simps relative_path_new_Inr
      reject_protected_def path_ok_def relative_path_new_ok dest: reject_components_Inl split: if_splits)

section \<open>The filesystem gate\<close>

text \<open>What resolution answers on a tree: \<open>None\<close> if it succeeds, otherwise the code of its error.\<close>

fun walk_outcome :: "tree \<Rightarrow> bytes list \<Rightarrow> bytes list \<Rightarrow> ErrorCode option" where
  "walk_outcome t d [] = None"
| "walk_outcome t d (c # cs) =
     (if is_dir (t (d @ [c])) then walk_outcome t (d @ [c]) cs
      else if t (d @ [c]) = None then Some Io else Some PathConfinementViolation)"

definition resolve_outcome :: "tree \<Rightarrow> RelativePath \<Rightarrow> ErrorCode option" where
  "resolve_outcome t p =
     (if unprotected p then walk_outcome t [] (butlast (components p)) else Some PathConfinementViolation)"

fun failed_with :: "QuicSyncError + 'a \<Rightarrow> ErrorCode option" where
  "failed_with (Inl e) = Some (code e)"
| "failed_with (Inr x) = None"

lemma walk_outcome_None: "walk_outcome t d cs = None \<longleftrightarrow> dirs_along t d cs"
  by (induction cs arbitrary: d) auto

lemma other_kinds: "\<not> is_dir x \<Longrightarrow> x \<noteq> None \<Longrightarrow> is_file x \<or> is_link x"
  by (cases x rule: is_dir.cases) auto

context reliable_fs
begin

lemma open_dir_outcome:
  assumes at: "at s fd = Some d" and c: "component_ok c"
    and run: "openat P fd c DIRECTORY_FLAGS 0 s = (s', r)"
  shows "case r of
      Inr fd' \<Rightarrow> is_dir (tree s (d @ [c])) \<and> at s' fd' = Some (d @ [c]) \<and> tree s' = tree s
    | Inl e \<Rightarrow> \<not> is_dir (tree s (d @ [c])) \<and>
        (if tree s (d @ [c]) = None then e = NOENT else e = LOOP \<or> e = NOTDIR)"
proof (cases r)
  case (Inr fd')
  with open_law [OF at c _ _ run] show ?thesis by simp
next
  case (Inl e)
  have "\<not> is_dir (tree s (d @ [c]))"
    using open_ok [OF at c, of DIRECTORY_FLAGS 0] run Inl by (auto simp: DIRECTORY_FLAGS_def)
  moreover have "e = NOENT" if "tree s (d @ [c]) = None"
    using open_missing [OF at c _ that, of DIRECTORY_FLAGS 0] run Inl by simp
  moreover have "e = LOOP \<or> e = NOTDIR" if "tree s (d @ [c]) \<noteq> None"
    using open_dir_error [OF at c _ _ _ run [unfolded Inl] other_kinds] that calculation(1) by simp
  ultimately show ?thesis using Inl by simp
qed

lemma open_ancestors_outcome:
  assumes "at s fd = Some d" and "list_all component_ok cs"
  shows "failed_with (snd (open_ancestors P p fd cs s)) = walk_outcome (tree s) d cs"
  using assms
proof (induction cs arbitrary: s fd d)
  case (Cons c cs)
  then have at: "at s fd = Some d" and c: "component_ok c" and cs: "list_all component_ok cs"
    by simp_all
  obtain s1 r1 where 1: "openat P fd c DIRECTORY_FLAGS 0 s = (s1, r1)" by fastforce
  note o = open_dir_outcome [OF at c 1]
  show ?case
  proof (cases r1)
    case (Inl e)
    with o 1 show ?thesis by (auto simp: open_directory_def map_step_err_def)
  next
    case (Inr fd1)
    with o have "at s1 fd1 = Some (d @ [c])" "tree s1 = tree s" "is_dir (tree s (d @ [c]))" by simp_all
    with Cons.IH [OF this(1) cs] 1 Inr show ?thesis by (simp add: open_directory_def map_step_err_def)
  qed
qed simp

lemma path_ok_butlast: "path_ok p \<Longrightarrow> list_all component_ok (butlast (components p))"
  by (auto simp: path_ok_def list_all_iff dest: in_set_butlastD)

lemma dup_outcome:
  assumes "at s root = Some []"
  obtains s1 fd where "dup P root s = (s1, Inr fd)" "at s1 fd = Some []" "tree s1 = tree s"
  using dup_ok [OF assms] dup_law [OF assms] by fastforce

lemma resolve_parent_outcome:
  assumes root: "at s root = Some []" and p: "path_ok p"
  shows "failed_with (snd (resolve_parent P root p s)) = resolve_outcome (tree s) p"
proof (cases "reject_protected p")
  case (Inl e)
  then have "\<not> unprotected p" using reject_protected_Inr [of p "()"] by (auto simp: unprotected_def)
  moreover have "code e = PathConfinementViolation"
    using Inl by (simp add: reject_protected_def reject_components_Inl)
  ultimately show ?thesis using Inl by (simp add: resolve_parent_def resolve_outcome_def)
next
  case (Inr u)
  then have up: "unprotected p" by (simp add: reject_protected_Inr unprotected_def)
  obtain s1 fd where 1: "dup P root s = (s1, Inr fd)" "at s1 fd = Some []" "tree s1 = tree s"
    using dup_outcome [OF root] .
  obtain s2 r2 where 2: "open_ancestors P p fd (butlast (components p)) s1 = (s2, r2)" by fastforce
  show ?thesis
    using open_ancestors_outcome [OF 1(2) path_ok_butlast [OF p], of p] 1 2 up Inr
    by (cases r2) (simp_all add: resolve_parent_def resolve_outcome_def duplicate_def map_step_err_def)
qed

lemma open_basis_ancestors_outcome:
  assumes "at s fd = Some d" and "list_all component_ok cs"
    and "open_basis_ancestors P fd cs s = (s', r)"
  shows "tree s' = tree s \<and>
    (if dirs_along (tree s) d cs then \<exists>fd'. r = Inr (Some fd') \<and> at s' fd' = Some (d @ cs) else r = Inr None)"
  using assms
proof (induction cs arbitrary: s fd d)
  case (Cons c cs)
  then have at: "at s fd = Some d" and c: "component_ok c" and cs: "list_all component_ok cs"
    by simp_all
  obtain s1 r1 where 1: "openat P fd c DIRECTORY_FLAGS 0 s = (s1, r1)" by fastforce
  note o = open_dir_outcome [OF at c 1]
  have t: "tree s1 = tree s" using open_law [OF at c _ _ 1] by simp
  show ?case
  proof (cases r1)
    case (Inl e)
    with o have "e = NOENT \<or> e = NOTDIR \<or> e = LOOP" "\<not> is_dir (tree s (d @ [c]))"
      by (auto split: if_splits)
    with 1 Inl t Cons.prems(3) show ?thesis by auto
  next
    case (Inr fd1)
    with o have "at s1 fd1 = Some (d @ [c])" "is_dir (tree s (d @ [c]))" by simp_all
    moreover have "open_basis_ancestors P fd1 cs s1 = (s', r)" using Cons.prems(3) 1 Inr by simp
    ultimately show ?thesis using Cons.IH [OF _ cs, of s1 fd1 "d @ [c]"] t by (auto split: if_splits)
  qed
qed auto

lemma open_leaf_outcome:
  assumes at: "at s fd = Some d" and c: "component_ok c"
    and run: "openat P fd c [RDONLY, NOFOLLOW, NONBLOCK, CLOEXEC] 0 s = (s', r)"
  shows "tree s' = tree s \<and> (case r of
      Inl e \<Rightarrow> \<not> is_file (tree s (d @ [c])) \<and> (e = NOENT \<or> e = LOOP)
    | Inr fd' \<Rightarrow> at s' fd' = Some (d @ [c]) \<and> tree s (d @ [c]) \<noteq> None)"
proof -
  let ?F = "[RDONLY, NOFOLLOW, NONBLOCK, CLOEXEC]" and ?n = "tree s (d @ [c])"
  have l: "tree s' = tree s" "r = Inr fd' \<Longrightarrow> at s' fd' = Some (d @ [c]) \<and> ?n \<noteq> None" for fd'
    using open_law [OF at c _ _ run] by simp_all
  have "e = NOENT \<and> ?n = None \<or> e = LOOP \<and> is_link ?n" if "r = Inl e" for e
  proof (cases "?n = None \<or> is_link ?n")
    case False
    then show ?thesis using open_ok [OF at c, of ?F 0] run that by simp
  next
    case True
    then show ?thesis
      using open_missing [OF at c, of ?F 0] open_link [OF at c, of ?F 0] run that by auto
  qed
  moreover have "\<not> is_file x" if "x = None \<or> is_link x" for x :: "node option"
    using that by (cases x rule: is_link.cases) auto
  ultimately show ?thesis using l by (cases r) auto
qed

lemma open_regular_outcome:
  assumes root: "at s root = Some []" and p: "path_ok p" and run: "open_regular P root p s = (s', r)"
  shows "tree s' = tree s \<and> (case r of
      Inl e \<Rightarrow> \<not> unprotected p \<and> code e = PathConfinementViolation
    | Inr b \<Rightarrow> unprotected p \<and>
        (if dirs_along (tree s) [] (butlast (components p)) \<and> is_file (tree s (components p))
         then \<exists>fd. b = Some fd \<and> at s' fd = Some (components p) else b = None))"
proof (cases "reject_protected p")
  case (Inl e)
  then have "\<not> unprotected p" using reject_protected_Inr [of p "()"] by (auto simp: unprotected_def)
  moreover have "code e = PathConfinementViolation"
    using Inl by (simp add: reject_protected_def reject_components_Inl)
  ultimately show ?thesis using Inl run by (auto simp: open_regular_def)
next
  case (Inr u)
  then have up: "unprotected p" by (simp add: reject_protected_Inr unprotected_def)
  obtain s1 fd where 1: "dup P root s = (s1, Inr fd)" "at s1 fd = Some []" "tree s1 = tree s"
    using dup_outcome [OF root] .
  obtain s2 r2 where 2: "open_basis_ancestors P fd (butlast (components p)) s1 = (s2, r2)" by fastforce
  note b = open_basis_ancestors_outcome [OF 1(2) path_ok_butlast [OF p] 2]
  show ?thesis
  proof (cases "dirs_along (tree s) [] (butlast (components p))")
    case False
    with b 1 2 up Inr run show ?thesis by (auto simp: open_regular_def duplicate_def map_step_err_def)
  next
    case True
    with b 1(3) obtain fd2 where fd2: "r2 = Inr (Some fd2)" "at s2 fd2 = Some (butlast (components p))"
      and t2: "tree s2 = tree s" by auto
    obtain s3 r3 where 3: "openat P fd2 (last (components p)) [RDONLY, NOFOLLOW, NONBLOCK, CLOEXEC] 0 s2 = (s3, r3)"
      by fastforce
    note l = open_leaf_outcome [OF fd2(2) path_ok_split(2) [OF p] 3, unfolded path_ok_split(1) [OF p] t2]
    show ?thesis
    proof (cases r3)
      case (Inl e)
      with l 1 2 3 fd2 up Inr run show ?thesis
        by (auto simp: open_regular_def duplicate_def map_step_err_def)
    next
      case r3: (Inr fd3)
      with l have at3: "at s3 fd3 = Some (components p)" and t3: "tree s3 = tree s"
        and ne: "tree s3 (components p) \<noteq> None" by simp_all
      obtain st where st: "fstat P fd3 s3 = Inr st" using stat_ok [OF at3 ne] by blast
      have "st_regular st = is_file (tree s (components p))" using stat_law [OF at3 st] t3 by simp
      with st at3 t3 1 2 3 fd2 r3 True up Inr run show ?thesis
        by (auto simp: open_regular_def duplicate_def map_step_err_def split: if_splits)
    qed
  qed
qed

end

section \<open>Properties\<close>

text \<open>
  C22. Resolution never leaves the root. Whatever the tree holds, symbolic links included, the
  descriptor that \<open>resolve_parent\<close> returns is at the directory spelled by the path's own components
  below the root, every ancestor on the way is a directory and not a link, no component is
  protected, and the tree is not changed.
\<close>

theorem resolve_parent_stays_inside:
  assumes "posix_fs P tree at" and "at s root = Some []" and "path_ok p"
    and "resolve_parent P root p s = (s', Inr parent)"
  shows "tree s' = tree s \<and> unprotected p \<and>
    at s' (parent_fd parent) = Some (butlast (components p)) \<and> leaf parent = last (components p) \<and>
    (\<forall>q. strict_prefix q (components p) \<and> q \<noteq> [] \<longrightarrow> is_dir (tree s q))"
proof -
  note r = posix_fs.resolve_parent_law [OF assms]
  have "is_dir (tree s q)" if "strict_prefix q (components p)" "q \<noteq> []" for q
  proof -
    have "prefix q (butlast (components p))" using that(1)
      by (cases "components p" rule: rev_cases) (auto simp: strict_prefix_def)
    then show ?thesis using r that(2) by (simp add: dirs_along_prefix)
  qed
  then show ?thesis using r by (simp add: unprotected_def)
qed

text \<open>
  C29. On a system without exhausted resources the answer of \<open>resolve_parent\<close> is determined by the
  tree: it succeeds exactly when no component is protected and every ancestor is a directory; an
  ancestor that is a link or a file is a confinement violation, a missing one an I/O error.
\<close>

theorem resolve_parent_decides:
  assumes "reliable_fs P tree at" and "at s root = Some []" and "path_ok p"
  shows "failed_with (snd (resolve_parent P root p s)) = resolve_outcome (tree s) p"
  using reliable_fs.resolve_parent_outcome [OF assms] .

text \<open>
  C31. The basis of a delta is found without following links: \<open>open_regular\<close> gives a descriptor
  exactly when the path's ancestors are directories and the path itself is a regular file, no basis
  when it is anything else, and an error only for a protected path; the tree is not changed.
\<close>

theorem open_regular_decides:
  assumes "reliable_fs P tree at" and "at s root = Some []" and "path_ok p"
    and "open_regular P root p s = (s', r)"
  shows "tree s' = tree s \<and> (case r of
      Inl e \<Rightarrow> \<not> unprotected p \<and> code e = PathConfinementViolation
    | Inr b \<Rightarrow> unprotected p \<and>
        (if dirs_along (tree s) [] (butlast (components p)) \<and> is_file (tree s (components p))
         then \<exists>fd. b = Some fd \<and> at s' fd = Some (components p) else b = None))"
  using reliable_fs.open_regular_outcome [OF assms] .

subsection \<open>The properties at a sample tree\<close>

text \<open>A root with a directory that holds a file, and a link beside it.\<close>

definition sample_tree :: kernel where [samples]:
  "sample_tree = \<lparr>
     nodes = [([], Dir 493 0), ([[97]], Dir 493 1), ([[97], [98]], File 420 2 [1]), ([[99]], Link [47] 3)],
     fds = [[]], clock = 100\<rparr>"

lemma sample_tree_root: "kernel_at sample_tree 0 = Some []"
  by code_simp

lemma sample_path_ok: "path_ok sample_path" "path_ok (RelativePath [[99], [98]])"
  by (simp_all add: samples path_ok_def component_ok_def)

theorem resolve_parent_stays_inside_witness:
  "\<exists>s' parent. resolve_parent kernel_posix 0 sample_path sample_tree = (s', Inr parent) \<and>
     kernel_at s' (parent_fd parent) = Some [[97]] \<and> is_dir (kernel_tree sample_tree [[97]])"
proof -
  have "\<not> isl (snd (resolve_parent kernel_posix 0 sample_path sample_tree))" by code_simp
  then obtain s' parent where r: "resolve_parent kernel_posix 0 sample_path sample_tree = (s', Inr parent)"
    by (metis prod.collapse sum.collapse(2))
  from resolve_parent_stays_inside [OF kern.posix_fs_axioms sample_tree_root sample_path_ok(1) r]
  show ?thesis using r by (auto simp: sample_path_def)
qed

theorem resolve_parent_decides_witness:
  "failed_with (snd (resolve_parent kernel_posix 0 (RelativePath [[99], [98]]) sample_tree)) =
     Some PathConfinementViolation"
  unfolding resolve_parent_decides [OF kern.reliable_fs_axioms sample_tree_root sample_path_ok(2)]
  by code_simp

theorem open_regular_decides_witness:
  "\<exists>s' fd. open_regular kernel_posix 0 sample_path sample_tree = (s', Inr (Some fd)) \<and>
     kernel_at s' fd = Some [[97], [98]]"
proof -
  obtain s' r where r: "open_regular kernel_posix 0 sample_path sample_tree = (s', r)" by fastforce
  have "unprotected sample_path" by code_simp
  moreover have "dirs_along (kernel_tree sample_tree) [] (butlast (components sample_path))"
    "is_file (kernel_tree sample_tree (components sample_path))" by code_simp+
  ultimately show ?thesis
    using open_regular_decides [OF kern.reliable_fs_axioms sample_tree_root sample_path_ok(1) r] r
    by (cases r) (auto simp: sample_path_def)
qed

end
