(* ===== verification/Destination.thy ===== *)
theory Destination
  imports Resolution "HOL-Library.Multiset"
begin

text \<open>
  From a plan to a commit: the operations of a plan as a list of changes, what receiving the
  content of a file does to the system, and that staging in any order gives the same pending commit.
\<close>

section \<open>Plans as lists of changes\<close>

fun planned_ops :: "Operation option \<Rightarrow> Operation list \<Rightarrow> bool" where
  "planned_ops prev [] \<longleftrightarrow> True"
| "planned_ops prev (op # ops) \<longleftrightarrow> follows prev op \<and> planned_ops (Some op) ops"

definition staged_ok :: "'fd changes \<Rightarrow> bool" where
  "staged_ok changes \<longleftrightarrow> (\<forall>(i, op, f) \<in> set changes. is_upsert_file op = (f \<noteq> None))"

abbreviation change_ops :: "'fd changes \<Rightarrow> Operation list" where
  "change_ops changes \<equiv> map (\<lambda>(i, op, f). op) changes"

lemma planned_iff:
  "planned prev changes \<longleftrightarrow> planned_ops prev (change_ops changes) \<and> staged_ok changes \<and>
     (\<forall>op \<in> set (change_ops changes). path_ok (operation_path op))"
  by (induction prev changes rule: planned.induct) (auto simp: staged_ok_def)

lemma planned_ops_append:
  "planned_ops prev (xs @ ys) \<longleftrightarrow>
     planned_ops prev xs \<and> planned_ops (if xs = [] then prev else Some (last xs)) ys"
  by (induction xs arbitrary: prev) auto

lemma replaces_upsert:
  "replaces (Delete i (path r) k) (upsert_operation u j r) \<longleftrightarrow> k \<noteq> record_kind r"
  by (auto simp: upsert_operation_def split: EntryKind.splits)

lemma planned_change:
  assumes "pred_option (\<lambda>r. path r = p) a" and "pred_option (\<lambda>r. path r = p) b"
    and "\<And>q. prev = Some q \<Longrightarrow> operation_path q < p"
  shows "planned_ops prev (number n (change a b))"
  using assms by (cases a; cases b; cases prev) (auto simp: change_cases follows_def replaces_upsert)

lemma planned_changes:
  assumes "sorted_wrt (<) ps" and "\<And>q p. prev = Some q \<Longrightarrow> p \<in> set ps \<Longrightarrow> operation_path q < p"
  shows "planned_ops prev (number n (concat (map (\<lambda>p. change (index S p) (index D p)) ps)))"
  using assms
proof (induction ps arbitrary: prev n)
  case (Cons p ps)
  let ?x = "number n (change (index S p) (index D p))"
  have x: "planned_ops prev ?x"
    by (rule planned_change [OF index_path index_path]) (use Cons.prems(2) in simp)
  have path: "operation_path op = p" if "op \<in> set ?x" for op
    using number_mem [OF that] change_path [OF _ index_path index_path] by blast
  have "planned_ops (if ?x = [] then prev else Some (last ?x))
      (number m (concat (map (\<lambda>p. change (index S p) (index D p)) ps)))" for m
    using Cons.prems path [OF last_in_set] by (intro Cons.IH) (auto split: if_splits)
  with x show ?case by (simp add: number_append planned_ops_append)
qed simp

lemma plan_planned: "planned_ops None (number n (diff S D))"
  unfolding diff_def
  by (rule planned_changes) (auto simp: index_paths_def)

section \<open>The goal of a plan\<close>

text \<open>What the source holds at a record, \<open>content\<close> giving the bytes of its files.\<close>

definition entry_node :: "(RelativePath \<Rightarrow> bytes) \<Rightarrow> IndexRecord \<Rightarrow> node" where
  "entry_node content r =
     (let md = metadata r; t = sint (mtime_ns md) in
      case kind md of
        Directory \<Rightarrow> Dir (mode md) t
      | RegularFile \<Rightarrow> File (mode md) t (content (path r))
      | Symlink \<Rightarrow> Link (the (symlink_target r)) t)"

text \<open>Every staged file holds the source's content of the path it is staged for.\<close>

definition staged_content ::
    "(RelativePath \<Rightarrow> bytes) \<Rightarrow> ('fd StagedFile \<Rightarrow> bytes) \<Rightarrow> 'fd changes \<Rightarrow> bool" where
  "staged_content content cont changes \<longleftrightarrow>
     (\<forall>(i, op, f) \<in> set changes. case f of None \<Rightarrow> True | Some f \<Rightarrow> cont f = content (operation_path op))"

text \<open>The kind of the operation is that of its record.\<close>

fun op_kind_ok :: "Operation \<Rightarrow> bool" where
  "op_kind_ok (Delete i p k) \<longleftrightarrow> True"
| "op_kind_ok (UpsertDirectory i r) \<longleftrightarrow> record_kind r = Directory"
| "op_kind_ok (UpsertFile u i r) \<longleftrightarrow> record_kind r = RegularFile"
| "op_kind_ok (UpsertSymlink i r) \<longleftrightarrow> record_kind r = Symlink"

lemma upsert_kind_ok [simp]: "op_kind_ok (upsert_operation u i r)"
  by (auto simp: upsert_operation_def split: EntryKind.splits)

lemma operation_value_entry:
  assumes "op_kind_ok op" and "is_upsert_file op = (f \<noteq> None)"
    and "\<And>g. f = Some g \<Longrightarrow> cont g = content (operation_path op)"
  shows "operation_value cont op f =
    map_option (entry_node content) (apply_operation m op (operation_path op))"
  using assms by (cases op) (auto simp: entry_node_def record_kind_def Let_def)

lemma apply_elsewhere: "p \<noteq> operation_path op \<Longrightarrow> apply_operation m op p = m p"
  by (cases op) auto

lemma goal_applies:
  assumes "\<And>op. op \<in> set (change_ops changes) \<Longrightarrow> op_kind_ok op" and "staged_ok changes"
    and "staged_content content cont changes"
  shows "goal cont g changes (components p) =
    (if p \<in> operation_path ` set (change_ops changes)
     then map_option (entry_node content) (foldl apply_operation m (change_ops changes) p)
     else g (components p))"
proof -
  have *: "g (components p) = map_option (entry_node content) (m p) \<or> \<not> seen \<Longrightarrow>
      goal cont g changes (components p) =
        (if seen \<or> p \<in> operation_path ` set (change_ops changes)
         then map_option (entry_node content) (foldl apply_operation m (change_ops changes) p)
         else g (components p))" for seen
    using assms
  proof (induction changes arbitrary: g m seen)
    case (Cons x changes)
    obtain i op f where x: "x = (i, op, f)" by (cases x)
    have v: "operation_value cont op f =
        map_option (entry_node content) (apply_operation m op (operation_path op))"
      using Cons.prems(2-4) x
      by (intro operation_value_entry) (auto simp: staged_ok_def staged_content_def)
    let ?seen = "seen \<or> p = operation_path op"
    have "(g(op_name op := operation_value cont op f)) (components p) =
        map_option (entry_node content) (apply_operation m op p) \<or> \<not> ?seen"
    proof (cases "p = operation_path op")
      case True
      then show ?thesis by (simp add: v)
    next
      case False
      then have "components p \<noteq> op_name op" using RelativePath.expand by blast
      with False Cons.prems(1) show ?thesis by (simp add: apply_elsewhere)
    qed
    moreover have "staged_ok changes" "staged_content content cont changes"
      using Cons.prems(3,4) by (simp_all add: staged_ok_def staged_content_def)
    ultimately have "goal cont (g(op_name op := operation_value cont op f)) changes (components p) =
        (if ?seen \<or> p \<in> operation_path ` set (change_ops changes)
         then map_option (entry_node content) (foldl apply_operation (apply_operation m op) (change_ops changes) p)
         else (g(op_name op := operation_value cont op f)) (components p))"
      using Cons.prems(2) x by (intro Cons.IH) auto
    then show ?case using x RelativePath.expand [of p "operation_path op"] by auto
  qed (auto split: if_splits)
  show ?thesis using * [of False] by simp
qed

lemma goal_elsewhere: "q \<notin> change_names changes \<Longrightarrow> goal cont g changes q = g q"
  by (induction cont g changes rule: goal.induct) auto

section \<open>Receiving a file\<close>

lemma copy_all_Inr:
  "copy_all P content fd s = (s', Inr u) \<Longrightarrow> content = map Inr (map projr content)"
  by (induction P content fd s rule: copy_all.induct) (auto simp: result_simps)

lemma hex_digit_ok: "d < 16 \<Longrightarrow> hex_lower d \<noteq> 0 \<and> hex_lower d \<noteq> 47"
  by (rule nibble_cases, assumption) code_simp

lemma hex_name_ok: "component_ok (staged_file_name rnd)"
proof -
  have "0 \<notin> set (format_02x b) \<and> 47 \<notin> set (format_02x b)" for b
    using hex_digit_ok [OF nibbles(1) [of b]] hex_digit_ok [OF nibbles(2) [of b]]
    by (auto simp: format_02x_def)
  then show ?thesis
    by (auto simp: component_ok_def staged_file_name_def bytes_of_def)
qed

context posix_fs
begin

lemma copy_all_law:
  assumes "at s fd = Some q" and "tree s q = Some (File md t c)" and "copy_all P content fd s = (s', r)"
  shows "at s' = at s \<and> (\<forall>p. p \<noteq> q \<longrightarrow> tree s' p = tree s p) \<and>
    (\<exists>t' c'. tree s' q = Some (File md t' c') \<and> (r = Inr () \<longrightarrow> c' = c @ concat (map projr content)))"
  using assms
proof (induction content arbitrary: s t c)
  case (Cons x content)
  show ?case
  proof (cases x)
    case (Inl e)
    with Cons.prems show ?thesis by auto
  next
    case (Inr chunk)
    obtain s1 r1 where 1: "write_fd P fd chunk s = (s1, r1)" by fastforce
    note w = write_law [OF Cons.prems(1,2) 1]
    show ?thesis
    proof (cases r1)
      case (Inl e)
      with w 1 Inr Cons.prems show ?thesis by (auto simp: map_step_err_def)
    next
      case r1: (Inr u)
      with w obtain t1 where t1: "tree s1 q = Some (File md t1 (c @ chunk))" "at s1 = at s"
        "\<forall>p. p \<noteq> q \<longrightarrow> tree s1 p = tree s p" by auto
      have "copy_all P content fd s1 = (s', r)"
        using Cons.prems(3) 1 Inr r1 by (simp add: map_step_err_def)
      from Cons.IH [OF _ t1(1) this] t1 Cons.prems(1) Inr show ?thesis by auto
    qed
  qed
qed auto

lemma receive_law:
  assumes at: "at s directory = Some staging"
    and run: "receive_in P directory (Some rnd) content s = (s', r)"
  shows "frame {staging @ [staged_file_name rnd]} {staging} (tree s) (tree s') \<and>
    keeps_off {staging @ [staged_file_name rnd]} at s s' \<and>
    (\<forall>f. r = Inr f \<longrightarrow> f = \<lparr>staged_dir = directory, staged_name = staged_file_name rnd\<rparr> \<and>
       keeps at s s' \<and> content = map Inr (map projr content) \<and>
       tree s (staging @ [staged_name f]) = None \<and>
       (\<exists>md t. tree s' (staging @ [staged_name f]) = Some (File md t (concat (map projr content)))))"
proof -
  let ?n = "staged_file_name rnd" and ?q = "staging @ [staged_file_name rnd]"
  let ?f = "\<lparr>staged_dir = directory, staged_name = ?n\<rparr>"
  obtain s1 r1 where 1: "openat P directory ?n [WRONLY, CREATE, EXCL, NOFOLLOW, CLOEXEC] 384 s = (s1, r1)"
    by fastforce
  note c = create_law [OF at hex_name_ok _ _ 1]
  have k1: "keeps at s s1" using c by (simp add: keeps_def)
  show ?thesis
  proof (cases r1)
    case (Inl e)
    with c k1 1 run show ?thesis by (auto simp: receive_in_def map_step_err_def keeps_imp_off)
  next
    case (Inr fd)
    with c obtain md t where fd: "at s1 fd = Some ?q" and none: "tree s ?q = None"
      and up: "updated ?q (Some (File md t [])) (tree s) (tree s1)" by auto
    have fr1: "frame {?q} {staging} (tree s) (tree s1)" and q1: "tree s1 ?q = Some (File md t [])"
      using updated_frame [OF up] by simp_all
    obtain s2 r2 where 2: "copy_all P content fd s1 = (s2, r2)" by fastforce
    from copy_all_law [OF fd q1 2] obtain t2 c2 where at2: "at s2 = at s1"
      and same: "\<forall>p. p \<noteq> ?q \<longrightarrow> tree s2 p = tree s1 p" and q2: "tree s2 ?q = Some (File md t2 c2)"
      and c2: "r2 = Inr () \<longrightarrow> c2 = concat (map projr content)" by auto
    have k2: "keeps at s s2" using k1 at2 by (simp add: keeps_def)
    have "frame {?q} {staging} (tree s1) (tree s2)" using same by (auto simp: frame_def)
    note fr2 = frame_chain [OF fr1 this]
    show ?thesis
    proof (cases r2)
      case r2: (Inr u)
      have "content = map Inr (map projr content)" by (rule copy_all_Inr [OF 2 [unfolded r2]])
      with fr2 k2 q2 c2 none 1 2 r2 Inr run show ?thesis
        by (auto simp: receive_in_def map_step_err_def Let_def keeps_imp_off)
    next
      case r2: (Inl e)
      have s': "s' = drop_staged P ?f s2" "r = Inl (staging_failure e)"
        using run 1 2 r2 Inr by (simp_all add: receive_in_def map_step_err_def Let_def)
      have "at s2 (staged_dir ?f) = Some staging" using keepsD [OF k2 at] by simp
      from drop_staged_law [OF this] have d: "frame {?q} {staging} (tree s2) (tree s')"
        "keeps_off {?q} at s2 s'" using s' hex_name_ok by simp_all
      show ?thesis
        using frame_chain [OF fr2 d(1)] keeps_off_trans [OF keeps_imp_off [OF k2] d(2)] s'(2) by simp
    qed
  qed
qed

end

section \<open>Staging a list of changes\<close>

text \<open>\<open>PendingCommit::stage\<close> for one operation after the other.\<close>

fun stage_all ::
    "('s, 'fd) posix \<Rightarrow> (Operation \<times> 'fd StagedFile option) list \<Rightarrow> 'fd changes \<Rightarrow> 's \<Rightarrow>
     's \<times> (QuicSyncError + 'fd changes)" where
  "stage_all P [] changes s = (s, Inr changes)"
| "stage_all P ((op, f) # xs) changes s =
     and_do (stage_change P op f changes s) (\<lambda>s changes. stage_all P xs changes s)"

definition entry :: "Operation \<times> 'fd StagedFile option \<Rightarrow> OperationId \<times> Operation \<times> 'fd StagedFile option" where
  "entry x = (operation_id (fst x), x)"

lemma insert_change_set:
  "i \<notin> fst ` set changes \<Longrightarrow> set (insert_change i v changes) = insert (i, v) (set changes)"
  by (induction i v changes rule: insert_change.induct) auto

lemma insert_change_sorted:
  "sorted_wrt (<) (map fst changes) \<Longrightarrow> sorted_wrt (<) (map fst (insert_change i v changes)) \<and>
     fst ` set (insert_change i v changes) = insert i (fst ` set changes)"
  by (induction i v changes rule: insert_change.induct) auto

definition stageable :: "(Operation \<times> 'fd StagedFile option) list \<Rightarrow> OperationId set \<Rightarrow> bool" where
  "stageable xs used \<longleftrightarrow> (\<forall>(op, f) \<in> set xs. is_upsert_file op = (f \<noteq> None)) \<and>
     distinct (map (operation_id \<circ> fst) xs) \<and> (operation_id \<circ> fst) ` set xs \<inter> used = {}"

lemma stageable_simps [simp]:
  "stageable [] used"
  "stageable ((op, f) # xs) used \<longleftrightarrow> is_upsert_file op = (f \<noteq> None) \<and> operation_id op \<notin> used \<and>
     stageable xs (insert (operation_id op) used)"
  by (auto simp: stageable_def)

lemma stage_change_Inr:
  "stage_change P op f changes s = (s', Inr c) \<longleftrightarrow> s' = s \<and> is_upsert_file op = (f \<noteq> None) \<and>
     operation_id op \<notin> fst ` set changes \<and> c = insert_change (operation_id op) (op, f) changes"
  by (auto simp: stage_change_def)

lemma stage_all_ok:
  assumes "sorted_wrt (<) (map fst changes)"
  shows "(\<exists>s' c. stage_all P xs changes s = (s', Inr c)) \<longleftrightarrow> stageable xs (fst ` set changes)"
  using assms
proof (induction xs arbitrary: changes)
  case (Cons x xs)
  obtain op f where x: "x = (op, f)" by (cases x)
  let ?c = "insert_change (operation_id op) (op, f) changes"
  have "sorted_wrt (<) (map fst ?c)" "fst ` set ?c = insert (operation_id op) (fst ` set changes)"
    using insert_change_sorted [OF Cons.prems] by blast+
  with Cons.IH [of ?c] show ?case by (auto simp: x result_simps stage_change_Inr)
qed simp

lemma stage_all_result:
  assumes "stage_all P xs changes s = (s', Inr c)" and "sorted_wrt (<) (map fst changes)"
  shows "s' = s \<and> sorted_wrt (<) (map fst c) \<and> set c = set changes \<union> entry ` set xs"
  using assms
proof (induction xs arbitrary: changes)
  case (Cons x xs)
  obtain op f where x: "x = (op, f)" by (cases x)
  let ?c = "insert_change (operation_id op) (op, f) changes"
  have new: "operation_id op \<notin> fst ` set changes" and run: "stage_all P xs ?c s = (s', Inr c)"
    using Cons.prems(1) by (auto simp: x result_simps stage_change_Inr)
  have "sorted_wrt (<) (map fst ?c)" using insert_change_sorted [OF Cons.prems(2)] by blast
  from Cons.IH [OF run this] show ?case by (auto simp: x entry_def insert_change_set [OF new])
qed simp

lemma keyed_unique:
  assumes "sorted_wrt (<) (map fst a)" and "sorted_wrt (<) (map fst b)" and "set a = set b"
  shows "a = (b :: ('k :: linorder \<times> 'v) list)"
proof -
  have recover: "c = map (\<lambda>k. (k, the (map_of c k))) (map fst c)"
    if "sorted_wrt (<) (map fst c)" for c :: "('k \<times> 'v) list"
  proof -
    have d: "distinct (map fst c)" using that by (simp add: strict_sorted_iff)
    have "map_of c (fst x) = Some (snd x)" if "x \<in> set c" for x
      using map_of_is_SomeI [OF d] that by (metis prod.collapse)
    then have "map (\<lambda>k. (k, the (map_of c k))) (map fst c) = map (\<lambda>x. x) c"
      unfolding map_map by (intro map_cong) simp_all
    then show ?thesis by simp
  qed
  have "map fst a = map fst b"
    using assms by (intro strict_sorted_equal) (auto simp: image_iff)
  moreover have "map_of a = map_of b"
    using assms by (simp add: map_of_inject_set strict_sorted_iff)
  ultimately show ?thesis using recover [OF assms(1)] recover [OF assms(2)] by simp
qed

lemma stageable_permute: "mset xs = mset ys \<Longrightarrow> stageable xs used \<longleftrightarrow> stageable ys used"
  using mset_eq_setD [of xs ys] mset_eq_imp_distinct_iff [of "map (operation_id \<circ> fst) xs" "map (operation_id \<circ> fst) ys"]
  by (simp add: stageable_def mset_map)

text \<open>
  C34. The order in which transfers finish does not matter: staging the same operations in any order
  gives the same pending commit, whose operations stand in the order of their ids. Staging succeeds
  exactly when the ids are distinct and precisely the file upserts bring a staged file, and it
  changes nothing on the filesystem.
\<close>

theorem stage_any_order:
  assumes "mset xs = mset ys"
  shows "(stage_all P xs [] s = (s', Inr changes) \<longleftrightarrow> stage_all P ys [] s = (s', Inr changes)) \<and>
    (stage_all P xs [] s = (s', Inr changes) \<longrightarrow>
      s' = s \<and> sorted_wrt (<) (map fst changes) \<and> set changes = entry ` set xs) \<and>
    ((\<exists>s' changes. stage_all P xs [] s = (s', Inr changes)) \<longleftrightarrow> stageable xs {})"
proof -
  have one: "stage_all P zs [] s = (s', Inr changes)"
    if e: "mset zs = mset ws" and w: "stage_all P ws [] s = (s', Inr changes)" for zs ws
  proof -
    note rw = stage_all_result [OF w]
    have "stageable ws {}" using stage_all_ok [of "[]" P ws s] w by auto
    then have "stageable zs {}" using stageable_permute [OF e] by simp
    then obtain s1 c where z: "stage_all P zs [] s = (s1, Inr c)" using stage_all_ok [of "[]" P zs s] by auto
    note rz = stage_all_result [OF z]
    have "c = changes" using rw rz mset_eq_setD [OF e] by (intro keyed_unique) auto
    with z rz rw show ?thesis by simp
  qed
  have "stage_all P xs [] s = (s', Inr changes) \<longleftrightarrow> stage_all P ys [] s = (s', Inr changes)"
    using one [OF assms] one [OF assms [symmetric]] by blast
  moreover have "(\<exists>s' changes. stage_all P xs [] s = (s', Inr changes)) \<longleftrightarrow> stageable xs {}"
    using stage_all_ok [of "[]" P xs s] by simp
  ultimately show ?thesis using stage_all_result [of P xs "[]" s s' changes] by simp
qed

end
