(* ===== verification/Synchronise.thy ===== *)
theory Synchronise
  imports Destination
begin

text \<open>
  The properties of the destination side over any system that meets the contract \<open>posix_fs\<close>: times,
  staged files, single installations, whole commits, and the end-to-end statement that a plan
  computed from two indexes, staged in any order and committed, leaves the source's entries at the
  destination. The witnesses run on the concrete system of \<open>Kernel\<close>.
\<close>

section \<open>Times and staged files\<close>

lemma modified_time_ok:
  assumes "i64_ok (sint n div 1000000000)"
  shows "\<exists>tm. modified_time n = Inr tm"
proof (cases "sint n < 0")
  case True
  define x where "x = - sint n"
  then have x: "sint n = - x" "\<bar>sint n\<bar> = x" using True by simp_all
  have "(- x) div 1000000000 =
      (if x mod 1000000000 = 0 then - (x div 1000000000) else - (x div 1000000000) - 1)"
    by (simp add: zdiv_zminus1_eq_if)
  moreover have "i64_ok ((- x) div 1000000000)" using assms x(1) by simp
  moreover have "0 \<le> x div 1000000000" using True x(1) by simp
  ultimately have "x div 1000000000 < 2 ^ 64" "i64_ok (- (x div 1000000000))"
    "x mod 1000000000 \<noteq> 0 \<Longrightarrow> i64_ok (- (x div 1000000000) - 1)"
    by (auto simp: i64_ok_def split: if_splits)
  then show ?thesis
    using True by (simp add: modified_time_def Let_def epoch_checked_sub_def x(2))
next
  case False
  then show ?thesis
    using assms by (simp add: modified_time_def Let_def epoch_checked_add_def i64_ok_def)
qed

text \<open>
  C35. Modification times are set to the nanosecond: for files and directories, where the code works
  on the magnitude and subtracts from the epoch, and for symbolic links, where it divides with
  \<open>div_euclid\<close>, the result is the floor of the time in seconds and the nanoseconds above it, and it
  is refused exactly when the seconds do not fit in 64 bits. The two routines agree on every input.
\<close>

theorem times_exact:
  "(modified_time n = Inr tm \<longleftrightarrow>
     i64_ok (sint n div 1000000000) \<and> tm = (sint n div 1000000000, sint n mod 1000000000)) \<and>
   (symlink_time n = Inr tm \<longleftrightarrow>
     i64_ok (sint n div 1000000000) \<and> tm = (sint n div 1000000000, sint n mod 1000000000))"
proof -
  have "modified_time n = Inr tm \<Longrightarrow>
      i64_ok (sint n div 1000000000) \<and> tm = (sint n div 1000000000, sint n mod 1000000000)" for tm
    using modified_time_Inr by (cases tm) auto
  then have "modified_time n = Inr tm \<longleftrightarrow>
      i64_ok (sint n div 1000000000) \<and> tm = (sint n div 1000000000, sint n mod 1000000000)"
    using modified_time_ok [of n] by blast
  then show ?thesis by (auto simp: symlink_time_def Let_def)
qed

text \<open>What it means that a staged file with content \<open>c\<close> waits in the staging directory.\<close>

definition waits ::
    "('s \<Rightarrow> tree) \<Rightarrow> ('s \<Rightarrow> 'fd \<Rightarrow> bytes list option) \<Rightarrow> 's \<Rightarrow> 'fd StagedFile \<Rightarrow> bytes \<Rightarrow> bool" where
  "waits tree at s f c \<longleftrightarrow> at s (staged_dir f) = Some staging \<and> component_ok (staged_name f) \<and>
     (\<exists>m t. tree s (staging @ [staged_name f]) = Some (File m t c))"

lemma staged_waits:
  "posix_fs P tree at \<Longrightarrow> posix_fs.staged tree at cont s f \<longleftrightarrow> waits tree at s f (cont f)"
  by (simp add: posix_fs.staged_def waits_def)

text \<open>
  C33. Receiving a file touches one fresh name of the staging directory and nothing else, whether it
  succeeds or not. On success the name did not exist before, it now holds exactly the bytes that
  were read, in order, and no chunk of the input was an error.
\<close>

theorem receive_stages:
  assumes "posix_fs P tree at" and "at s directory = Some staging"
    and "receive_in P directory (Some rnd) content s = (s', r)"
  shows "frame {staging @ [staged_file_name rnd]} {staging} (tree s) (tree s') \<and>
    (\<forall>f. r = Inr f \<longrightarrow> tree s (staging @ [staged_name f]) = None \<and>
       (\<exists>chunks. content = map Inr chunks \<and> waits tree at s' f (concat chunks)))"
proof -
  note law = posix_fs.receive_law [OF assms]
  have "tree s (staging @ [staged_name f]) = None \<and>
      (\<exists>chunks. content = map Inr chunks \<and> waits tree at s' f (concat chunks))" if "r = Inr f" for f
  proof -
    from law that have f: "f = \<lparr>staged_dir = directory, staged_name = staged_file_name rnd\<rparr>"
      and k: "keeps at s s'" and c: "content = map Inr (map projr content)"
      and none: "tree s (staging @ [staged_name f]) = None"
      and q: "\<exists>md t. tree s' (staging @ [staged_name f]) = Some (File md t (concat (map projr content)))"
      by blast+
    have "waits tree at s' f (concat (map projr content))"
      using q f keepsD [OF k assms(2)] hex_name_ok by (simp add: waits_def)
    with none c show ?thesis by blast
  qed
  with law show ?thesis by blast
qed

text \<open>
  C32. Installing a staged file is all or nothing. On success the target, which was not a directory,
  is a regular file with the staged content and the record's mode and time, inside real directories
  and outside the protected names; on failure the target and everything else outside the staging
  directory is as it was. In both cases no other name changes, apart from the times of the two
  directories.
\<close>

theorem install_atomic:
  assumes "posix_fs P tree at" and "at s root = Some []" and "path_ok p" and "waits tree at s f c"
    and "install P f root p md s = (s', r)"
  shows "case r of
      Inl e \<Rightarrow> frame {staging @ [staged_name f]} {staging} (tree s) (tree s')
    | Inr _ \<Rightarrow> frame {components p, staging @ [staged_name f]} {butlast (components p), staging} (tree s) (tree s') \<and>
        tree s' (components p) = Some (File (mode md) (sint (mtime_ns md)) c) \<and>
        kind md = RegularFile \<and> unprotected p \<and> \<not> is_dir (tree s (components p)) \<and>
        dirs_along (tree s) [] (butlast (components p))"
proof -
  from assms(4) obtain m t where w: "at s (staged_dir f) = Some staging" "component_ok (staged_name f)"
    "tree s (staging @ [staged_name f]) = Some (File m t c)" by (auto simp: waits_def)
  from posix_fs.install_law [OF assms(1-3) w assms(5)] show ?thesis
    by (cases r) (auto simp: unprotected_def dest: sec_nsec)
qed

section \<open>Commits\<close>

text \<open>
  C20. A commit that succeeds has done exactly what was staged. With the operations in the order of a
  plan, every path an operation names stands afterwards for what the last operation on it asks for
  (nothing for a deletion, otherwise the entry with its content, mode and time), and every other
  name outside the staging directory is unchanged up to the times of directories. This covers the
  deferred work: directories that are deleted or replaced once they are empty, and directory times
  that are set after their entries.
\<close>

theorem commit_installs:
  assumes "posix_fs P tree at" and "at s root = Some []" and "planned None changes"
    and "distinct (map staged_name (change_files changes))"
    and "\<forall>f \<in> set (change_files changes). waits tree at s f (cont f)"
    and "commit P root changes s = (s', Inr u)" and "\<not> prefix staging q"
  shows "same_dir (goal cont (tree s) changes q) (tree s' q) \<and>
    (q \<in> change_names changes \<longrightarrow> tree s' q = goal cont (tree s) changes q)"
  using posix_fs.commit_correct [OF assms(1-4) _ assms(6,7)] assms(5)
  by (simp add: staged_waits [OF assms(1)])

text \<open>
  C21. No commit reaches outside its operations. Whatever the operations, in whatever order, and
  whether the commit succeeds or stops at any error, a name that is neither the unprotected path of
  an operation nor one of the staged files stands for what it did before, up to the time of a
  directory.
\<close>

theorem commit_stays_confined:
  assumes "posix_fs P tree at" and "at s root = Some []" and "\<forall>p \<in> change_paths changes. path_ok p"
    and "distinct (map staged_name (change_files changes))"
    and "\<forall>f \<in> set (change_files changes). waits tree at s f (cont f)"
    and "commit P root changes s = (s', r)"
    and "q \<notin> alterable (change_paths changes) (change_files changes)"
  shows "same_dir (tree s q) (tree s' q)"
  using posix_fs.commit_confined [OF assms(1,2) _ assms(4) _ assms(6,7), of cont] assms(3,5)
  by (simp add: staged_waits [OF assms(1)])

section \<open>From two indexes to a synchronised tree\<close>

lemma plan_result:
  assumes "ascending (map path S)" and "ascending (map path D)"
  shows "plan (index_stream S) (index_stream D) None = (number 0 (diff S D), Inr ())"
  using plan_start [OF complete_index_stream complete_index_stream, of S D] merge_diff [OF assms]
  by simp

lemma number_ids_ascend:
  assumes "length fs \<le> 2 ^ 64" and "\<And>f i. f \<in> set fs \<Longrightarrow> operation_id (f i) = i"
  shows "sorted_wrt (<) (map operation_id (number 0 fs))"
proof -
  have "operation_id_get (OperationId (word_of_nat i)) < operation_id_get (OperationId (word_of_nat j))"
    if "i < j" "j < length fs" for i j
    using that assms(1) by (simp add: of_nat_word_less_iff take_bit_nat_eq_self)
  moreover have "map operation_id (number 0 fs) = map (\<lambda>k. OperationId (0 + word_of_nat k)) [0..<length fs]"
    by (rule number_ids) (rule assms(2))
  ultimately show ?thesis by (auto simp: sorted_wrt_iff_nth_less less_OperationId_def)
qed

lemma foldl_apply_elsewhere:
  "p \<notin> operation_path ` set ops \<Longrightarrow> foldl apply_operation m ops p = m p"
  by (induction ops arbitrary: m) (auto simp: apply_elsewhere)

lemma entry_node_cong:
  "(record_kind r = RegularFile \<longrightarrow> old (path r) = content (path r)) \<Longrightarrow> entry_node old r = entry_node content r"
  by (simp add: entry_node_def record_kind_def Let_def split: EntryKind.split)

lemma plan_op:
  assumes "op \<in> set (number n (diff S D))"
  shows "op_kind_ok op \<and> (\<exists>r \<in> set S \<union> set D. operation_path op = path r)"
proof -
  from number_mem [OF assms] obtain f i where f: "f \<in> set (diff S D)" and op: "op = f i" by blast
  from f obtain p where p: "f \<in> set (change (index S p) (index D p))" by (auto simp: diff_mem)
  then have "index S p \<noteq> None \<or> index D p \<noteq> None"
    by (cases "index S p"; cases "index D p") (auto simp: change_cases)
  then have "\<exists>r \<in> set S \<union> set D. p = path r" using index_Some by fast
  moreover have "operation_path op = p" using change_path [OF p index_path index_path] op by simp
  moreover have "op_kind_ok op" using diff_shape [OF f] op by auto
  ultimately show ?thesis by simp
qed

lemma staged_plan:
  assumes run: "stage_all P xs [] s0 = (s1, Inr changes)" and ops: "mset (map fst xs) = mset (number 0 (diff S D))"
    and len: "length (diff S D) \<le> 2 ^ 64"
  shows "change_ops changes = number 0 (diff S D) \<and> staged_ok changes"
proof -
  let ?key = "\<lambda>op. (operation_id op, op)"
  note r = stage_all_result [OF run, simplified]
  have keys: "map operation_id (change_ops changes) = map fst changes"
    using r by (auto simp: entry_def)
  have mf: "map fst (map ?key zs) = map operation_id zs" for zs by (simp add: comp_def)
  have "map ?key (change_ops changes) = map ?key (number 0 (diff S D))"
  proof (rule keyed_unique)
    show "sorted_wrt (<) (map fst (map ?key (change_ops changes)))" unfolding mf keys using r by simp
    have "sorted_wrt (<) (map operation_id (number 0 (diff S D)))"
      using len by (rule number_ids_ascend) (auto simp: diff_mem dest: change_ids)
    then show "sorted_wrt (<) (map fst (map ?key (number 0 (diff S D))))" unfolding mf .
    have "set (change_ops changes) = fst ` set xs" using r by (simp add: image_image entry_def case_prod_beta)
    also have "\<dots> = set (number 0 (diff S D))" using mset_eq_setD [OF ops] by simp
    finally show "set (map ?key (change_ops changes)) = set (map ?key (number 0 (diff S D)))"
      by (simp only: set_map)
  qed
  then have "map snd (map ?key (change_ops changes)) = map snd (map ?key (number 0 (diff S D)))" by simp
  then have "change_ops changes = number 0 (diff S D)" unfolding map_map by (simp add: comp_def)
  moreover have "stageable xs {}" using stage_all_ok [of "[]" P xs s0] run by auto
  then have "staged_ok changes" using r by (auto simp: stageable_def staged_ok_def entry_def)
  ultimately show ?thesis by simp
qed

text \<open>
  What stands at the path of a record after a commit, in terms of the indexes: \<open>W\<close> are the paths the plan
  names.
\<close>

lemma settled_entry:
  assumes S: "ascending (map path S)" and D: "ascending (map path D)" and r: "r \<in> set S \<union> set D"
    and same: "\<And>p. p \<notin> W \<Longrightarrow> index S p = index D p"
    and fin: "same_dir (if path r \<in> W then map_option (entry_node content) (index S (path r)) else t (components (path r)))
        (t' (components (path r)))"
      "path r \<in> W \<Longrightarrow> t' (components (path r)) = map_option (entry_node content) (index S (path r))"
    and dest: "\<forall>r \<in> set D. t (components (path r)) = Some (entry_node old r)"
    and digests: "\<forall>r \<in> set S \<inter> set D. record_kind r = RegularFile \<longrightarrow> old (path r) = content (path r)"
  shows "same_dir (map_option (entry_node content) (index S (path r))) (t' (components (path r))) \<and>
    (index S (path r) \<noteq> index D (path r) \<longrightarrow> t' (components (path r)) = map_option (entry_node content) (index S (path r)))"
proof (cases "path r \<in> W")
  case True
  with fin show ?thesis by simp
next
  case False
  then have e: "index S (path r) = index D (path r)" by (rule same)
  then obtain x where x: "index S (path r) = Some x" "x \<in> set S" "x \<in> set D" "path x = path r"
    using r index_mem [OF S] index_mem [OF D] index_Some by (metis UnE)
  have "entry_node old x = entry_node content x"
    using digests x(2,3) by (intro entry_node_cong) blast
  then have "t (components (path x)) = Some (entry_node content x)" using dest x(3) by simp
  then have "t (components (path r)) = Some (entry_node content x)" using x(4) by simp
  moreover have "index D (path r) = Some x" using e x(1) by simp
  ultimately show ?thesis using x(1) False fin(1) by simp
qed

lemma sync_correct:
  assumes fs: "posix_fs P tree at" and root: "at s root = Some []"
    and S: "ascending (map path S)" and D: "ascending (map path D)"
    and paths: "\<forall>r \<in> set S \<union> set D. path_ok (path r) \<and> unprotected (path r)"
    and plan: "plan (index_stream S) (index_stream D) None = (ops, r)" and len: "length ops \<le> 2 ^ 64"
    and xs: "mset (map fst xs) = mset ops" and stage: "stage_all P xs [] s = (s, Inr changes)"
    and files: "distinct (map staged_name (change_files changes))"
    and wait: "\<forall>f \<in> set (change_files changes). waits tree at s f (cont f)"
    and sent: "staged_content content cont changes"
    and dest: "\<forall>r \<in> set D. tree s (components (path r)) = Some (entry_node old r)"
    and digests: "\<forall>r \<in> set S \<inter> set D. record_kind r = RegularFile \<longrightarrow> old (path r) = content (path r)"
    and commit: "commit P root changes s = (s', Inr u)"
  shows "(\<forall>r \<in> set S. same_dir (Some (entry_node content r)) (tree s' (components (path r))) \<and>
        (r \<notin> set D \<longrightarrow> tree s' (components (path r)) = Some (entry_node content r))) \<and>
    (\<forall>r \<in> set D. path r \<notin> path ` set S \<longrightarrow> tree s' (components (path r)) = None) \<and>
    (\<forall>q. q \<notin> (components \<circ> path) ` (set S \<union> set D) \<and> \<not> prefix staging q \<longrightarrow>
        same_dir (tree s q) (tree s' q))"
proof -
  have ops: "ops = number 0 (diff S D)" using plan plan_result [OF S D] by simp
  from staged_plan [OF stage] xs len ops have co: "change_ops changes = ops" and so: "staged_ok changes"
    by simp_all
  have kinds: "op_kind_ok op" and op_in: "\<exists>r \<in> set S \<union> set D. operation_path op = path r"
    if "op \<in> set (change_ops changes)" for op
    using plan_op [of op 0 S D] that co ops by simp_all
  have "path_ok (operation_path op)" if "op \<in> set (change_ops changes)" for op
    using op_in [OF that] paths by auto
  then have planned: "planned None changes"
    unfolding planned_iff using plan_planned [of 0 S D] co ops so by simp
  have fin: "same_dir (goal cont (tree s) changes q) (tree s' q) \<and>
      (q \<in> change_names changes \<longrightarrow> tree s' q = goal cont (tree s) changes q)" if "\<not> prefix staging q" for q
    using posix_fs.commit_correct [OF fs root planned files _ commit that] wait
    by (simp add: staged_waits [OF fs])
  have ix: "foldl apply_operation (index D) ops = index S" unfolding ops by (rule diff_applies)
  have goal: "goal cont (tree s) changes (components p) =
      (if p \<in> operation_path ` set ops then map_option (entry_node content) (index S p)
       else tree s (components p))" for p
    using goal_applies [OF kinds so sent, of "tree s" p "index D"] ix co by simp
  have names: "change_names changes = components ` operation_path ` set ops"
    unfolding co [symmetric] change_names_def by force
  have off: "\<not> prefix staging (components (path r))" if "r \<in> set S \<union> set D" for r
    using paths that unprotected_staging by blast
  have same: "index S p = index D p" if "p \<notin> operation_path ` set ops" for p
    using ix foldl_apply_elsewhere [OF that, of "index D"] by simp
  have at_p: "same_dir (map_option (entry_node content) (index S (path r))) (tree s' (components (path r))) \<and>
      (index S (path r) \<noteq> index D (path r) \<longrightarrow>
        tree s' (components (path r)) = map_option (entry_node content) (index S (path r)))"
    if r: "r \<in> set S \<union> set D" for r
    using fin [OF off [OF r]] goal [of "path r"] names
    by (intro settled_entry [OF S D r same _ _ dest digests]) auto
  show ?thesis
  proof (intro conjI ballI allI impI)
    fix r assume r: "r \<in> set S"
    have i: "index S (path r) = Some r" using index_mem [OF S r] .
    show "same_dir (Some (entry_node content r)) (tree s' (components (path r)))"
      using at_p [of r] r i by simp
    assume "r \<notin> set D"
    then have "index D (path r) \<noteq> Some r" using index_Some by blast
    then show "tree s' (components (path r)) = Some (entry_node content r)" using at_p [of r] r i by simp
  next
    fix r assume r: "r \<in> set D" and "path r \<notin> path ` set S"
    then have "index S (path r) = None" by (simp add: index_eq_None)
    then show "tree s' (components (path r)) = None"
      using at_p [of r] r index_mem [OF D r] by simp
  next
    fix q assume q: "q \<notin> (components \<circ> path) ` (set S \<union> set D) \<and> \<not> prefix staging q"
    have "change_names changes \<subseteq> (components \<circ> path) ` (set S \<union> set D)"
      unfolding names using op_in co by force
    then have "q \<notin> change_names changes" using q by blast
    then show "same_dir (tree s q) (tree s' q)" using fin q goal_elsewhere by metis
  qed
qed

text \<open>
  C5. A synchronisation that completes leaves the source at the destination. The plan of two indexes,
  its operations staged in whatever order their transfers finish, with the source's content in every
  staged file, and committed: afterwards every entry of the source stands at its path with its kind,
  content, mode and time (for a directory that was already there and did not change, up to its
  time), every entry that only the destination had is gone, and no name outside the two indexes
  and the staging directory is changed. That equal records of files describe equal content is the
  assumption on the digest.
\<close>

theorem sync_installs_source:
  assumes fs: "posix_fs P tree at" and root: "at s root = Some []"
    and S: "ascending (map path S)" and D: "ascending (map path D)"
    and paths: "\<forall>r \<in> set S \<union> set D. path_ok (path r) \<and> unprotected (path r)"
    and plan: "plan (index_stream S) (index_stream D) None = (ops, r)" and len: "length ops \<le> 2 ^ 64"
    and xs: "mset (map fst xs) = mset ops" and stage: "stage_all P xs [] s = (s, Inr changes)"
    and files: "distinct (map staged_name (change_files changes))"
    and wait: "\<forall>f \<in> set (change_files changes). waits tree at s f (cont f)"
    and sent: "staged_content content cont changes"
    and dest: "\<forall>r \<in> set D. tree s (components (path r)) = Some (entry_node old r)"
    and digests: "\<forall>r \<in> set S \<inter> set D. record_kind r = RegularFile \<longrightarrow> old (path r) = content (path r)"
    and commit: "commit P root changes s = (s', Inr u)"
  shows "(\<forall>r \<in> set S. same_dir (Some (entry_node content r)) (tree s' (components (path r))) \<and>
        (r \<notin> set D \<longrightarrow> tree s' (components (path r)) = Some (entry_node content r))) \<and>
    (\<forall>r \<in> set D. path r \<notin> path ` set S \<longrightarrow> tree s' (components (path r)) = None) \<and>
    (\<forall>q. q \<notin> (components \<circ> path) ` (set S \<union> set D) \<and> \<not> prefix staging q \<longrightarrow>
        same_dir (tree s q) (tree s' q))"
  by (rule sync_correct [OF assms])

subsection \<open>The properties at a sample tree\<close>

text \<open>
  The destination holds a file where the source has a directory with a file in it; the new file's
  content is staged.
\<close>

definition sample_kernel :: kernel where [samples]:
  "sample_kernel = \<lparr>
     nodes = [([], Dir 493 0), ([[97]], File 420 5 [1]), (staging, Dir 448 2),
       (staging @ [[110]], File 384 3 [9, 9])],
     fds = [[], staging], clock = 100\<rparr>"

definition sample_staged :: "nat StagedFile" where [samples]:
  "sample_staged = \<lparr>staged_dir = 1, staged_name = [110]\<rparr>"

definition sample_changes :: "nat changes" where [samples]:
  "sample_changes = [(OperationId 0, Delete (OperationId 0) (RelativePath [[97]]) RegularFile, None),
    (OperationId 1, UpsertDirectory (OperationId 1) sample_dir, None),
    (OperationId 2, UpsertFile False (OperationId 2) sample_file, Some sample_staged)]"

text \<open>The same operations in the order in which their transfers may finish.\<close>

definition sample_arrivals :: "(Operation \<times> nat StagedFile option) list" where [samples]:
  "sample_arrivals = [(UpsertFile False (OperationId 2) sample_file, Some sample_staged),
    (Delete (OperationId 0) (RelativePath [[97]]) RegularFile, None),
    (UpsertDirectory (OperationId 1) sample_dir, None)]"

abbreviation sample_content :: "'a \<Rightarrow> bytes" where
  "sample_content \<equiv> \<lambda>_. [9, 9]"

lemma ran_ok: "\<not> isl (snd m) \<Longrightarrow> \<exists>s x. m = (s, Inr x)"
  by (cases m; cases "snd m") auto

lemma sample_commit_ok: "\<not> isl (snd (commit kernel_posix 0 sample_changes sample_kernel))"
  by code_simp

lemma sample_commit:
  obtains k' where "commit kernel_posix 0 sample_changes sample_kernel = (k', Inr ())"
  using ran_ok [OF sample_commit_ok] by auto

lemma sample_root: "kernel_at sample_kernel 0 = Some []"
  by code_simp

lemma sample_change_files: "change_files sample_changes = [sample_staged]"
  by (simp add: sample_changes_def)

lemma sample_waits: "waits kernel_tree kernel_at sample_kernel sample_staged (sample_content x)"
  by (simp add: waits_def samples kernel_at_def kernel_tree_def component_ok_def bytes_of_def)

lemma sample_planned: "planned None sample_changes"
  by (simp add: samples follows_def less_RelativePath_def path_ok_def component_ok_def)

theorem install_atomic_witness:
  "\<exists>k' r. install kernel_posix sample_staged 0 (RelativePath [[98]]) (sample_meta RegularFile) sample_kernel = (k', r) \<and>
     r = Inr () \<and> kernel_tree k' [[98]] = Some (File 420 5 [9, 9])"
proof -
  obtain k' r where run: "install kernel_posix sample_staged 0 (RelativePath [[98]]) (sample_meta RegularFile)
      sample_kernel = (k', r)" by fastforce
  have "\<not> isl (snd (install kernel_posix sample_staged 0 (RelativePath [[98]]) (sample_meta RegularFile) sample_kernel))"
    by code_simp
  with run have r: "r = Inr ()" by (cases r) auto
  have "path_ok (RelativePath [[98]])" by (simp add: path_ok_def component_ok_def)
  from install_atomic [OF kern.posix_fs_axioms sample_root this sample_waits run] run r
  show ?thesis by (auto simp: sample_meta_def)
qed

theorem receive_stages_witness:
  "\<exists>k' f. receive_in kernel_posix 1 (Some [7]) [Inr [1], Inr [2, 3]] sample_kernel = (k', Inr f) \<and>
     waits kernel_tree kernel_at k' f [1, 2, 3]"
proof -
  let ?run = "receive_in kernel_posix 1 (Some [7]) [Inr [1], Inr [2, 3]] sample_kernel"
  have "\<not> isl (snd ?run)" by code_simp
  from ran_ok [OF this] obtain k' f where run: "?run = (k', Inr f)" by blast
  have at: "kernel_at sample_kernel 1 = Some staging" by code_simp
  have "waits kernel_tree kernel_at k' f [1, 2, 3]"
    using conjunct2 [OF receive_stages [OF kern.posix_fs_axioms at run]] by auto
  with run show ?thesis by (intro exI conjI)
qed

theorem stage_any_order_witness:
  "stage_all kernel_posix sample_arrivals [] sample_kernel = (sample_kernel, Inr sample_changes)"
proof -
  have "mset sample_arrivals = mset (map snd sample_changes)"
    by (simp add: sample_arrivals_def sample_changes_def)
  moreover have "stage_all kernel_posix (map snd sample_changes) [] sample_kernel = (sample_kernel, Inr sample_changes)"
    by (simp add: sample_changes_def stage_change_def less_OperationId_def)
  ultimately show ?thesis
    using stage_any_order [of sample_arrivals "map snd sample_changes" kernel_posix sample_kernel
        sample_kernel sample_changes] by simp
qed

lemma sample_goal:
  "goal sample_content (kernel_tree sample_kernel) sample_changes [[97], [98]] = Some (File 420 5 [9, 9])"
  "goal sample_content (kernel_tree sample_kernel) sample_changes [[97]] = Some (Dir 420 5)"
  by (simp_all add: samples)

lemma sample_names:
  "[[97], [98]] \<in> change_names sample_changes" "[[97]] \<in> change_names sample_changes"
  "\<not> prefix staging [[97], [98]]" "\<not> prefix staging [[97]]"
  by (simp_all add: samples bytes_of_def)

theorem commit_installs_witness:
  "\<exists>k'. commit kernel_posix 0 sample_changes sample_kernel = (k', Inr ()) \<and>
     kernel_tree k' [[97], [98]] = Some (File 420 5 [9, 9]) \<and> kernel_tree k' [[97]] = Some (Dir 420 5)"
proof -
  obtain k' where run: "commit kernel_posix 0 sample_changes sample_kernel = (k', Inr ())"
    by (rule sample_commit)
  have f: "distinct (map staged_name (change_files sample_changes))"
    "\<forall>f \<in> set (change_files sample_changes). waits kernel_tree kernel_at sample_kernel f (sample_content f)"
    by (simp_all add: sample_change_files sample_waits)
  note c = commit_installs [OF kern.posix_fs_axioms sample_root sample_planned f run]
  have "kernel_tree k' [[97], [98]] = Some (File 420 5 [9, 9])"
    using conjunct2 [OF c [OF sample_names(3)]] sample_names(1) sample_goal(1) by simp
  moreover have "kernel_tree k' [[97]] = Some (Dir 420 5)"
    using conjunct2 [OF c [OF sample_names(4)]] sample_names(2) sample_goal(2) by simp
  ultimately show ?thesis using run by (intro exI conjI)
qed

theorem commit_stays_confined_witness:
  "\<exists>k'. commit kernel_posix 0 sample_changes sample_kernel = (k', Inr ()) \<and>
     same_dir (Some (Dir 493 0)) (kernel_tree k' [])"
proof -
  obtain k' where run: "commit kernel_posix 0 sample_changes sample_kernel = (k', Inr ())"
    by (rule sample_commit)
  have "\<forall>p \<in> change_paths sample_changes. path_ok p" "distinct (map staged_name (change_files sample_changes))"
    "\<forall>f \<in> set (change_files sample_changes). waits kernel_tree kernel_at sample_kernel f (sample_content f)"
    by (simp_all add: sample_change_files sample_waits)
      (simp add: samples path_ok_def component_ok_def)
  note c = commit_stays_confined [OF kern.posix_fs_axioms sample_root this run]
  have "[] \<notin> alterable (change_paths sample_changes) (change_files sample_changes)"
    by (auto simp: alterable_def touched_def samples)
  from c [OF this] run show ?thesis
    by (auto simp: sample_kernel_def kernel_tree_def)
qed

theorem sync_installs_source_witness:
  "\<exists>k'. commit kernel_posix 0 sample_changes sample_kernel = (k', Inr ()) \<and>
     kernel_tree k' [[97], [98]] = Some (File 420 5 [9, 9]) \<and> kernel_tree k' [[97]] = Some (Dir 420 5)"
proof -
  let ?S = "[sample_dir, sample_file]" and ?D = "[sample_old]"
  obtain k' where run: "commit kernel_posix 0 sample_changes sample_kernel = (k', Inr ())"
    by (rule sample_commit)
  have paths: "\<forall>r \<in> set ?S \<union> set ?D. path_ok (path r) \<and> unprotected (path r)"
    by (simp add: samples path_ok_def component_ok_def unprotected_def PROTECTED_COMPONENTS_def bytes_of_def)
  have len: "length sample_ops \<le> 2 ^ 64" by simp
  have xs: "mset (map fst sample_arrivals) = mset sample_ops"
    by (simp add: sample_arrivals_def)
  have stage: "stage_all kernel_posix sample_arrivals [] sample_kernel = (sample_kernel, Inr sample_changes)"
    by (simp add: sample_arrivals_def sample_changes_def stage_change_def less_OperationId_def)
  have files: "distinct (map staged_name (change_files sample_changes))"
    "\<forall>f \<in> set (change_files sample_changes). waits kernel_tree kernel_at sample_kernel f (sample_content f)"
    by (simp_all add: sample_change_files sample_waits)
  have sent: "staged_content sample_content sample_content sample_changes"
    by (simp add: staged_content_def sample_changes_def)
  have dest: "\<forall>r \<in> set ?D. kernel_tree sample_kernel (components (path r)) = Some (entry_node (\<lambda>_. [1]) r)"
    by (simp add: samples kernel_tree_def entry_node_def)
  have digests: "\<forall>r \<in> set ?S \<inter> set ?D. record_kind r = RegularFile \<longrightarrow> [1] = sample_content (path r)"
    by (simp add: samples)
  note sync = sync_installs_source [where content = sample_content and cont = sample_content and old = "\<lambda>_. [1]",
      OF kern.posix_fs_axioms sample_root sample_ascending paths sample_plan len xs stage files sent dest
        digests run]
  have nd: "sample_dir \<notin> set ?D" and nf: "sample_file \<notin> set ?D" by (simp_all add: samples)
  have "kernel_tree k' (components (path sample_dir)) = Some (entry_node sample_content sample_dir)"
    by (rule mp [OF conjunct2 [OF bspec [OF conjunct1 [OF sync]]] nd]) simp
  moreover have "kernel_tree k' (components (path sample_file)) = Some (entry_node sample_content sample_file)"
    by (rule mp [OF conjunct2 [OF bspec [OF conjunct1 [OF sync]]] nf]) simp
  moreover have "components (path sample_dir) = [[97]]" "components (path sample_file) = [[97], [98]]"
    "entry_node sample_content sample_dir = Dir 420 5" "entry_node sample_content sample_file = File 420 5 [9, 9]"
    by (simp_all add: samples entry_node_def)
  ultimately have "kernel_tree k' [[97]] = Some (Dir 420 5)" "kernel_tree k' [[97], [98]] = Some (File 420 5 [9, 9])"
    by simp_all
  then show ?thesis using run by (intro exI conjI)
qed

end
