(* ===== verification/Ignore.thy ===== *)
theory Ignore
  imports Resolution
begin

text \<open>
  The ignore policy of a traversal, \<open>crates/quicsync-core/src/filesystem/ignore.rs\<close>. The matcher of
  the crate \<open>ignore\<close> is the parameter \<open>gitignore\<close>: a builder that takes rule lines, and what a built
  matcher says about a path. A \<open>PathBuf\<close> that the module builds is the list of its components.
\<close>

type_synonym path_buf = "bytes list"

datatype Match = MatchNone | MatchIgnore | MatchWhitelist

record ('b, 'm) gitignore =
  gitignore_builder_new :: "path_buf \<Rightarrow> 'b"
  gitignore_add_line :: "path_buf option \<Rightarrow> bytes \<Rightarrow> 'b \<Rightarrow> string + 'b"
  gitignore_build :: "'b \<Rightarrow> string + 'm"
  matched_path_or_any_parents :: "'m \<Rightarrow> path_buf \<Rightarrow> bool \<Rightarrow> Match"

datatype IgnoreDecision = Managed | Ignored | Protected

record 'm ScopedRuleSet =
  scope :: "RelativePath option"
  matcher :: 'm

record 'm IgnorePolicy =
  scoped :: "'m ScopedRuleSet list"

section \<open>Paths and text\<close>

definition components_to_path :: "bytes list \<Rightarrow> path_buf" where
  "components_to_path cs = foldl (\<lambda>p c. p @ [c]) [] cs"

definition relative_to_path :: "RelativePath option \<Rightarrow> path_buf" where
  "relative_to_path p = (case p of None \<Rightarrow> [] | Some p \<Rightarrow> components_to_path (components p))"

fun strip_prefix :: "bytes list \<Rightarrow> bytes list \<Rightarrow> bytes list option" where
  "strip_prefix [] cs = Some cs"
| "strip_prefix (d # ds) (c # cs) = (if d = c then strip_prefix ds cs else None)"
| "strip_prefix (d # ds) [] = None"

definition scoped_path :: "RelativePath \<Rightarrow> RelativePath option \<Rightarrow> path_buf option" where
  "scoped_path p scp =
     (case (case scp of None \<Rightarrow> Some (components p)
            | Some d \<Rightarrow> strip_prefix (components d) (components p)) of
        None \<Rightarrow> None
      | Some cs \<Rightarrow> if cs = [] then None else Some (components_to_path cs))"

definition is_protected :: "RelativePath \<Rightarrow> bool" where
  "is_protected p = list_ex (\<lambda>c. c \<in> set PROTECTED_COMPONENTS) (components p)"

text \<open>\<open>str::lines\<close>: a line ends at a newline, before which one carriage return is dropped.\<close>

definition strip_cr :: "bytes \<Rightarrow> bytes" where
  "strip_cr l = (if l \<noteq> [] \<and> last l = 13 then butlast l else l)"

function str_lines :: "bytes \<Rightarrow> bytes list" where
  "str_lines bs =
     (if bs = [] then []
      else case dropWhile (\<lambda>b. b \<noteq> 10) bs of
          [] \<Rightarrow> [bs]
        | _ # rest \<Rightarrow> strip_cr (takeWhile (\<lambda>b. b \<noteq> 10) bs) # str_lines rest)"
  by pat_completeness auto
termination
proof (relation "measure length")
  fix bs x rest
  assume "dropWhile (\<lambda>b. b \<noteq> (10::u8)) bs = x # rest"
  then show "(rest, bs) \<in> measure length"
    using length_dropWhile_le [of "\<lambda>b. b \<noteq> 10" bs] by simp
qed simp

declare str_lines.simps [simp del]

text \<open>The text of the error of \<open>str::from_utf8\<close>.\<close>

function utf8_error_text :: "nat \<Rightarrow> bytes \<Rightarrow> string" where
  "utf8_error_text i [] = ''''"
| "utf8_error_text i (a # tail) =
     (let (n, ok) = utf8_step a tail in
      if ok then utf8_error_text (i + n) (drop n (a # tail))
      else if utf8_width a \<noteq> 0 \<and> n = length (a # tail)
        then ''incomplete utf-8 byte sequence from index '' @ decimal i
        else ''invalid utf-8 sequence of '' @ decimal n @ '' bytes from index '' @ decimal i)"
  by pat_completeness auto
termination
proof (relation "measure (length \<circ> snd)")
  fix i a tail x n ok
  assume "x = utf8_step a tail" and "(n, ok) = x"
  then have "0 < n" using utf8_step_pos [of a tail] by (metis fst_conv)
  then show "((i + n, drop n (a # tail)), i, a # tail) \<in> measure (length \<circ> snd)" by simp
qed simp

section \<open>The policy\<close>

definition policy_failure :: "string \<Rightarrow> QuicSyncError" where
  "policy_failure d = quic_sync_error_new InvalidConfiguration None d"

definition build_matcher ::
    "('b, 'm) gitignore \<Rightarrow> RelativePath option \<Rightarrow> bytes \<Rightarrow> QuicSyncError + 'm" where
  "build_matcher G scp contents =
     (let builder = gitignore_builder_new G (relative_to_path scp) in
      if \<not> utf8_valid contents
      then Inl (policy_failure (''ignore-policy rule file is not valid UTF-8: '' @ utf8_error_text 0 contents))
      else
        let origin = map_option (\<lambda>s. relative_to_path (Some s) @ [bytes_of ''.gitignore'']) scp in
        and_then (try_fold (\<lambda>b line. map_err (\<lambda>e. policy_failure (''invalid ignore-policy rule: '' @ e))
            (gitignore_add_line G origin line b)) builder (str_lines contents)) (\<lambda>b.
          map_err (\<lambda>e. policy_failure (''cannot build ignore-policy matcher: '' @ e)) (gitignore_build G b)))"

definition policy_empty :: "'m IgnorePolicy" where
  "policy_empty = \<lparr>scoped = []\<rparr>"

definition add_ignore_contents ::
    "('b, 'm) gitignore \<Rightarrow> 'm IgnorePolicy \<Rightarrow> RelativePath option \<Rightarrow> bytes \<Rightarrow> QuicSyncError + 'm IgnorePolicy" where
  "add_ignore_contents G pol scp contents =
     and_then (build_matcher G scp contents) (\<lambda>m.
       Inr (pol\<lparr>scoped := scoped pol @ [\<lparr>scope = scp, matcher = m\<rparr>]\<rparr>))"

text \<open>\<open>configured_exclusions.join\<close> with a newline.\<close>

fun join_lines :: "bytes list \<Rightarrow> bytes" where
  "join_lines [] = []"
| "join_lines [l] = l"
| "join_lines (l # ls) = l @ 10 # join_lines ls"

definition with_configured_exclusions ::
    "('b, 'm) gitignore \<Rightarrow> bytes list \<Rightarrow> QuicSyncError + 'm IgnorePolicy" where
  "with_configured_exclusions G exclusions =
     (if exclusions \<noteq> [] then add_ignore_contents G policy_empty None (join_lines exclusions)
      else Inr policy_empty)"

definition checkpoint :: "'m IgnorePolicy \<Rightarrow> nat" where
  "checkpoint pol = length (scoped pol)"

definition restore :: "'m IgnorePolicy \<Rightarrow> nat \<Rightarrow> 'm IgnorePolicy" where
  "restore pol n = pol\<lparr>scoped := take n (scoped pol)\<rparr>"

text \<open>One iteration of the loop of \<open>decision\<close>: the last rule set that matches decides.\<close>

definition apply_rules ::
    "('b, 'm) gitignore \<Rightarrow> RelativePath \<Rightarrow> bool \<Rightarrow> bool \<Rightarrow> 'm ScopedRuleSet \<Rightarrow> bool" where
  "apply_rules G p is_directory ignored rules =
     (case scoped_path p (scope rules) of
        None \<Rightarrow> ignored
      | Some sp \<Rightarrow>
          (case matched_path_or_any_parents G (matcher rules) sp is_directory of
             MatchNone \<Rightarrow> ignored
           | MatchIgnore \<Rightarrow> True
           | MatchWhitelist \<Rightarrow> False))"

definition decision ::
    "('b, 'm) gitignore \<Rightarrow> 'm IgnorePolicy \<Rightarrow> RelativePath \<Rightarrow> EntryKind \<Rightarrow> IgnoreDecision" where
  "decision G pol p k =
     (if is_protected p then Protected
      else if foldl (apply_rules G p (k = Directory)) False (scoped pol) then Ignored
      else Managed)"

definition manages ::
    "('b, 'm) gitignore \<Rightarrow> 'm IgnorePolicy \<Rightarrow> RelativePath \<Rightarrow> EntryKind \<Rightarrow> bool" where
  "manages G pol p k \<longleftrightarrow> decision G pol p k = Managed"

section \<open>Facts the traversal uses\<close>

lemma components_to_path_eq [simp]: "components_to_path cs = cs"
proof -
  have "foldl (\<lambda>p c. p @ [c]) ps cs = ps @ cs" for ps
    by (induction cs arbitrary: ps) auto
  then show ?thesis by (simp add: components_to_path_def)
qed

lemma relative_to_path_simps [simp]:
  "relative_to_path None = []" "relative_to_path (Some p) = components p"
  by (simp_all add: relative_to_path_def)

lemma strip_prefix_Some: "strip_prefix ds cs = Some es \<longleftrightarrow> cs = ds @ es"
  by (induction ds cs rule: strip_prefix.induct) auto

lemma is_protected_iff: "is_protected p \<longleftrightarrow> \<not> unprotected p"
  by (auto simp: is_protected_def unprotected_def list_ex_iff)

lemma decision_Managed:
  "decision G pol p k = Managed \<longleftrightarrow>
     unprotected p \<and> \<not> foldl (apply_rules G p (k = Directory)) False (scoped pol)"
  by (simp add: decision_def is_protected_iff)

lemma add_ignore_contents_scoped:
  "add_ignore_contents G pol scp contents = Inr pol' \<Longrightarrow>
     \<exists>m. build_matcher G scp contents = Inr m \<and> scoped pol' = scoped pol @ [\<lparr>scope = scp, matcher = m\<rparr>]"
  by (auto simp: add_ignore_contents_def result_simps)

end
