(* ===== verification/Scan.thy ===== *)
theory Scan
  imports Ignore Planner
begin

text \<open>
  Indexing a root, \<open>crates/quicsync-core/src/filesystem/scan.rs\<close> and \<open>metadata.rs\<close>. What the
  standard library reads from the filesystem during a scan is the parameter \<open>fs_view\<close>, one function
  per call on the path below the root; the root does not change while it is scanned. BLAKE3 is the
  function \<open>blake3\<close> of the bytes that were absorbed.
\<close>

section \<open>Metadata and digests\<close>

datatype FileType = DirType | RegularType | SymlinkType | SpecialType

type_synonym i64 = "64 word"

record RawMetadata =
  file_type :: FileType
  permissions_mode :: u32
  raw_mtime :: i64
  raw_mtime_nsec :: i64
  raw_len :: u64

text \<open>
  The entries of a directory and the reads of a file arrive one by one, each of them possibly an
  error; a file ends where its list of reads does.
\<close>

record fs_view =
  view_root :: bytes
  read_dir :: "path_buf \<Rightarrow> string + (string + bytes) list"
  symlink_metadata :: "path_buf \<Rightarrow> string + RawMetadata"
  read_file :: "path_buf \<Rightarrow> string + bytes"
  read_link :: "path_buf \<Rightarrow> string + bytes"
  open_file :: "path_buf \<Rightarrow> string + (string + bytes) list"

definition join_path :: "bytes \<Rightarrow> bytes \<Rightarrow> bytes" where
  "join_path r p = (if r = [] \<or> last r = 47 then r @ p else r @ 47 # p)"

definition display :: "fs_view \<Rightarrow> path_buf \<Rightarrow> string" where
  "display V p = lossy_text (join_path (view_root V) (join_slash p))"

definition io_failure :: "string \<Rightarrow> QuicSyncError" where
  "io_failure d = quic_sync_error_new Io None d"

definition read_symlink_target :: "fs_view \<Rightarrow> path_buf \<Rightarrow> QuicSyncError + bytes" where
  "read_symlink_target V p =
     map_err (\<lambda>e. io_failure (''cannot read symbolic link '' @ quoted (display V p) @ '': '' @ e))
       (read_link V p)"

text \<open>\<open>metadata.mtime() as i128 * 1_000_000_000 + metadata.mtime_nsec() as i128\<close>.\<close>

definition metadata_mtime_ns :: "RawMetadata \<Rightarrow> i128" where
  "metadata_mtime_ns md = scast (raw_mtime md) * 1000000000 + scast (raw_mtime_nsec md)"

definition metadata_from ::
    "fs_view \<Rightarrow> path_buf \<Rightarrow> RawMetadata \<Rightarrow> QuicSyncError + (EntryMetadata \<times> bytes option)" where
  "metadata_from V p md =
     and_then (case file_type md of
         DirType \<Rightarrow> Inr Directory
       | RegularType \<Rightarrow> Inr RegularFile
       | SymlinkType \<Rightarrow> Inr Symlink
       | SpecialType \<Rightarrow> Inl (quic_sync_error_new UnsupportedFilesystem None
           (''unsupported filesystem entry '' @ quoted (display V p)))) (\<lambda>k.
     and_then (if k = Symlink then map_ok Some (read_symlink_target V p) else Inr None) (\<lambda>target.
       Inr (\<lparr>kind = k, mode = permissions_mode md AND 0xFFF, mtime_ns = metadata_mtime_ns md,
             entry_size = (case target of None \<Rightarrow> raw_len md | Some t \<Rightarrow> word_of_nat (length t))\<rparr>,
            target)))"

definition metadata_for :: "fs_view \<Rightarrow> path_buf \<Rightarrow> QuicSyncError + (EntryMetadata \<times> bytes option)" where
  "metadata_for V p =
     and_then (map_err (\<lambda>e. io_failure (''cannot inspect '' @ quoted (display V p) @ '': '' @ e))
       (symlink_metadata V p)) (metadata_from V p)"

text \<open>The loop of \<open>digest_file\<close>: absorb what is read until a read returns nothing.\<close>

fun absorb :: "fs_view \<Rightarrow> path_buf \<Rightarrow> bytes \<Rightarrow> (string + bytes) list \<Rightarrow> QuicSyncError + bytes" where
  "absorb V p absorbed [] = Inr absorbed"
| "absorb V p absorbed (Inl e # later) =
     Inl (io_failure (''cannot read file '' @ quoted (display V p) @ '': '' @ e))"
| "absorb V p absorbed (Inr chunk # later) =
     (if chunk = [] then Inr absorbed else absorb V p (absorbed @ chunk) later)"

definition digest_file :: "(bytes \<Rightarrow> bytes) \<Rightarrow> fs_view \<Rightarrow> path_buf \<Rightarrow> QuicSyncError + Digest" where
  "digest_file blake3 V p =
     and_then (map_err (\<lambda>e. io_failure (''cannot open file '' @ quoted (display V p) @ '': '' @ e))
       (open_file V p)) (\<lambda>later.
     map_ok (\<lambda>absorbed. Digest (blake3 absorbed)) (absorb V p [] later))"

definition digest_symlink_target :: "(bytes \<Rightarrow> bytes) \<Rightarrow> bytes \<Rightarrow> Digest" where
  "digest_symlink_target blake3 target = Digest (blake3 target)"

definition digest_for ::
    "(bytes \<Rightarrow> bytes) \<Rightarrow> fs_view \<Rightarrow> path_buf \<Rightarrow> EntryKind \<Rightarrow> bytes option \<Rightarrow> QuicSyncError + Digest option" where
  "digest_for blake3 V p k target =
     (case k of
        Directory \<Rightarrow> Inr None
      | RegularFile \<Rightarrow> map_ok Some (digest_file blake3 V p)
      | Symlink \<Rightarrow> Inr (map_option (digest_symlink_target blake3) target))"

section \<open>The traversal\<close>

text \<open>What has been sent, how many messages the consumer still accepts, and the active policy.\<close>

record 'm Scanner =
  emitted :: index_channel
  scan_accepts :: "nat option"
  policy :: "'m IgnorePolicy"

definition consumer_closed :: QuicSyncError where
  "consumer_closed = quic_sync_error_new OperationFailed None ''index consumer closed''"

definition blocking_send :: "'m Scanner \<Rightarrow> QuicSyncError + IndexMessage \<Rightarrow> 'm Scanner \<times> (unit + unit)" where
  "blocking_send st m =
     (case scan_accepts st of
        Some 0 \<Rightarrow> (st, Inl ())
      | Some (Suc n) \<Rightarrow> (st\<lparr>emitted := emitted st @ [m], scan_accepts := Some n\<rparr>, Inr ())
      | None \<Rightarrow> (st\<lparr>emitted := emitted st @ [m]\<rparr>, Inr ()))"

definition emit :: "'m Scanner \<Rightarrow> IndexMessage \<Rightarrow> 'm Scanner \<times> (QuicSyncError + unit)" where
  "emit st m = map_step_err (\<lambda>_. consumer_closed) (blocking_send st (Inr m))"

definition append_component ::
    "RelativePath option \<Rightarrow> bytes \<Rightarrow> Limits \<Rightarrow> QuicSyncError + RelativePath" where
  "append_component pre name limits =
     (let cs = (case pre of None \<Rightarrow> [] | Some p \<Rightarrow> components p) @ [name];
          path_bytes = sum_list (map length cs) + (length cs - 1)
      in if length cs > unat (max_components limits)
         then Inl (limit_exceeded (''path of '' @ decimal (length cs) @ '' components exceeds the '' @
                decimal (unat (max_components limits)) @ ''-component limit''))
         else if path_bytes > unat (max_path_bytes limits)
         then Inl (limit_exceeded (''path of '' @ decimal path_bytes @ '' bytes exceeds the '' @
                decimal (unat (max_path_bytes limits)) @ ''-byte limit''))
         else map_err (\<lambda>e. quic_sync_error_new ErrorCode.InvalidPath None
                (''invalid directory entry path: '' @ path_error_display e)) (relative_path_new cs))"

text \<open>The enumeration of a directory, collected and sorted by name.\<close>

definition read_entries :: "fs_view \<Rightarrow> path_buf \<Rightarrow> QuicSyncError + bytes list" where
  "read_entries V d =
     and_then (map_err (\<lambda>e. io_failure (''cannot read directory '' @ quoted (display V d) @ '': '' @ e))
       (read_dir V d)) (\<lambda>found.
     and_then (try_fold (\<lambda>ns x. map_err (\<lambda>e.
           io_failure (''cannot enumerate directory '' @ quoted (display V d) @ '': '' @ e))
           (map_ok (\<lambda>n. ns @ [n]) x)) [] found) (\<lambda>names.
       Inr (sort names)))"

abbreviation gitignore_name :: bytes where
  "gitignore_name \<equiv> bytes_of ''.gitignore''"

definition discover_ignore ::
    "('b, 'm) gitignore \<Rightarrow> fs_view \<Rightarrow> RelativePath option \<Rightarrow> path_buf \<Rightarrow> bytes list \<Rightarrow> 'm Scanner \<Rightarrow>
     'm Scanner \<times> (QuicSyncError + unit)" where
  "discover_ignore G V scp d entries st =
     (case find (\<lambda>n. n = gitignore_name) entries of
        None \<Rightarrow> (st, Inr ())
      | Some n \<Rightarrow>
          and_do (st, map_err (\<lambda>e. io_failure (''cannot inspect ignore file: '' @ e))
            (symlink_metadata V (d @ [n]))) (\<lambda>st md.
          if file_type md = RegularType
          then and_do (st, map_err (\<lambda>e. io_failure (''cannot read ignore file: '' @ e))
                 (read_file V (d @ [n]))) (\<lambda>st contents.
               and_do (st, add_ignore_contents G (policy st) scp contents) (\<lambda>st pol.
                 (st\<lparr>policy := pol\<rparr>, Inr ())))
          else (st, Inr ())))"

text \<open>
  The loop body of \<open>scan_directory\<close> up to the recursive call: \<open>Inr None\<close> is \<open>continue\<close>, \<open>Inr\<close> with a
  path and a flag is a record that was emitted and whether it is a directory.
\<close>

definition scan_entry ::
    "('b, 'm) gitignore \<Rightarrow> (bytes \<Rightarrow> bytes) \<Rightarrow> fs_view \<Rightarrow> Limits \<Rightarrow> RelativePath option \<Rightarrow> bytes \<Rightarrow>
     'm Scanner \<Rightarrow> 'm Scanner \<times> (QuicSyncError + (RelativePath \<times> bool) option)" where
  "scan_entry G blake3 V limits scp name st =
     (if scan_accepts st = Some 0 then (st, Inl consumer_closed)
      else
        and_do (st, append_component scp name limits) (\<lambda>st p.
        let full_path = relative_to_path scp @ [name] in
        and_do (st, map_err (\<lambda>e. with_context e (path_context p)) (metadata_for V full_path)) (\<lambda>st (md, target).
        if decision G (policy st) p (kind md) \<noteq> Managed then (st, Inr None)
        else
          and_do (st, digest_for blake3 V full_path (kind md) target) (\<lambda>st dg.
          and_do (emit st (Record \<lparr>path = p, metadata = md, digest = dg, symlink_target = target\<rparr>)) (\<lambda>st _.
            (st, Inr (Some (p, kind md = Directory))))))))"

lemma append_component_Inr:
  "append_component scp name limits = Inr p \<longleftrightarrow>
     p = RelativePath (relative_to_path scp @ [name]) \<and> path_ok p \<and>
     length (components p) \<le> unat (max_components limits) \<and>
     sum_list (map length (components p)) + (length (components p) - 1) \<le> unat (max_path_bytes limits)"
  by (cases scp)
    (auto simp: append_component_def Let_def result_simps relative_path_new_Inr relative_to_path_def)

lemma scan_entry_depth:
  assumes "scan_entry G blake3 V limits scp name st = (st', Inr (Some (p, b)))"
  shows "length (components p) = Suc (length (relative_to_path scp)) \<and>
    length (components p) \<le> unat (max_components limits)"
  using assms
  by (auto simp: scan_entry_def Let_def result_simps append_component_Inr split: if_splits prod.splits)

text \<open>
  A directory is scanned completely, its subdirectories included, before the next one; the number of
  components a path may have bounds the depth of the recursion.
\<close>

fun scan_entries ::
    "(RelativePath \<Rightarrow> 'm Scanner \<Rightarrow> 'm Scanner \<times> (QuicSyncError + unit)) \<Rightarrow> ('b, 'm) gitignore \<Rightarrow>
     (bytes \<Rightarrow> bytes) \<Rightarrow> fs_view \<Rightarrow> Limits \<Rightarrow> RelativePath option \<Rightarrow> bytes list \<Rightarrow>
     'm Scanner \<Rightarrow> 'm Scanner \<times> (QuicSyncError + unit)" where
  "scan_entries sub G blake3 V limits scp [] st = (st, Inr ())"
| "scan_entries sub G blake3 V limits scp (name # names) st =
     and_do (scan_entry G blake3 V limits scp name st) (\<lambda>st found.
     and_do (case found of
               Some (p, is_directory) \<Rightarrow> if is_directory then sub p st else (st, Inr ())
             | None \<Rightarrow> (st, Inr ())) (\<lambda>st _.
       scan_entries sub G blake3 V limits scp names st))"

lemma scan_entries_cong [fundef_cong]:
  assumes "G = G'" and "blake3 = blake3'" and "V = V'" and "limits = limits'" and "scp = scp'"
    and "names = names'" and "st = st'"
    and sub: "\<And>p st. length (components p) = Suc (length (relative_to_path scp')) \<Longrightarrow>
      length (components p) \<le> unat (max_components limits') \<Longrightarrow> sub p st = sub' p st"
  shows "scan_entries sub G blake3 V limits scp names st =
    scan_entries sub' G' blake3' V' limits' scp' names' st'"
  unfolding assms(1-7)
proof (induction names' arbitrary: st')
  case (Cons name names)
  show ?case
    unfolding scan_entries.simps
  proof (intro and_do_cong refl)
    fix s found
    assume e: "scan_entry G' blake3' V' limits' scp' name st' = (s, Inr found)"
    show "(case found of Some (p, d) \<Rightarrow> if d then sub p s else (s, Inr ()) | None \<Rightarrow> (s, Inr ())) =
        (case found of Some (p, d) \<Rightarrow> if d then sub' p s else (s, Inr ()) | None \<Rightarrow> (s, Inr ()))"
      using scan_entry_depth [of G' blake3' V' limits' scp' name st' s] e sub
      by (cases found) auto
  qed (rule Cons.IH)
qed simp

function scan_directory ::
    "('b, 'm) gitignore \<Rightarrow> (bytes \<Rightarrow> bytes) \<Rightarrow> fs_view \<Rightarrow> Limits \<Rightarrow> RelativePath option \<Rightarrow> 'm Scanner \<Rightarrow>
     'm Scanner \<times> (QuicSyncError + unit)" where
  "scan_directory G blake3 V limits scp st =
     (let d = relative_to_path scp; mark = checkpoint (policy st) in
      and_do (st, read_entries V d) (\<lambda>st entries.
      and_do (discover_ignore G V scp d entries st) (\<lambda>st _.
      and_do (scan_entries (\<lambda>p st. scan_directory G blake3 V limits (Some p) st)
                G blake3 V limits scp entries st) (\<lambda>st _.
        (st\<lparr>policy := restore (policy st) mark\<rparr>, Inr ())))))"
  by pat_completeness auto
termination
  by (relation "measure (\<lambda>(G, b, V, limits, scp, st).
      Suc (unat (max_components limits)) - length (relative_to_path scp))")
    (auto simp: relative_to_path_def)

declare scan_directory.simps [simp del]

definition scan_root ::
    "('b, 'm) gitignore \<Rightarrow> (bytes \<Rightarrow> bytes) \<Rightarrow> fs_view \<Rightarrow> bytes list \<Rightarrow> Limits \<Rightarrow> nat option \<Rightarrow>
     index_channel \<times> (QuicSyncError + unit)" where
  "scan_root G blake3 V exclusions limits accepting =
     (let st = \<lparr>emitted = [], scan_accepts = accepting, policy = policy_empty\<rparr>;
          (st, result) =
            and_do (st, with_configured_exclusions G exclusions) (\<lambda>st pol.
            and_do (scan_directory G blake3 V limits None (st\<lparr>policy := pol\<rparr>)) (\<lambda>st _.
              emit st End))
      in case result of
           Inl e \<Rightarrow> (emitted (fst (blocking_send st (Inl e))), Inl e)
         | Inr _ \<Rightarrow> (emitted st, Inr ()))"

section \<open>What a scan is to list\<close>

text \<open>The rules a directory brings with its own ignore file, and those in force inside it.\<close>

definition own_rules :: "('b, 'm) gitignore \<Rightarrow> fs_view \<Rightarrow> bytes list \<Rightarrow> 'm ScopedRuleSet list" where
  "own_rules G V d =
     (let scp = if d = [] then None else Some (RelativePath d); f = d @ [gitignore_name] in
      case (read_entries V d, symlink_metadata V f, read_file V f) of
        (Inr es, Inr md, Inr contents) \<Rightarrow>
          if gitignore_name \<in> set es \<and> file_type md = RegularType
          then case build_matcher G scp contents of Inr m \<Rightarrow> [\<lparr>scope = scp, matcher = m\<rparr>] | Inl _ \<Rightarrow> []
          else []
      | _ \<Rightarrow> [])"

definition inherited :: "('b, 'm) gitignore \<Rightarrow> fs_view \<Rightarrow> 'm ScopedRuleSet list \<Rightarrow> bytes list \<Rightarrow> 'm ScopedRuleSet list" where
  "inherited G V base d = base @ concat (map (own_rules G V) (butlast (prefixes d)))"

definition rules_in :: "('b, 'm) gitignore \<Rightarrow> fs_view \<Rightarrow> 'm ScopedRuleSet list \<Rightarrow> bytes list \<Rightarrow> 'm ScopedRuleSet list" where
  "rules_in G V base d = inherited G V base d @ own_rules G V d"

definition listed :: "fs_view \<Rightarrow> bytes list \<Rightarrow> bool" where
  "listed V q \<longleftrightarrow> q \<noteq> [] \<and> (\<exists>es. read_entries V (butlast q) = Inr es \<and> last q \<in> set es)"

definition kind_at :: "fs_view \<Rightarrow> bytes list \<Rightarrow> EntryKind option" where
  "kind_at V q = (case metadata_for V q of Inr (md, _) \<Rightarrow> Some (kind md) | Inl _ \<Rightarrow> None)"

definition managed_at :: "('b, 'm) gitignore \<Rightarrow> fs_view \<Rightarrow> 'm ScopedRuleSet list \<Rightarrow> bytes list \<Rightarrow> bool" where
  "managed_at G V base q \<longleftrightarrow> listed V q \<and>
     (\<exists>k. kind_at V q = Some k \<and>
        manages G \<lparr>scoped = rules_in G V base (butlast q)\<rparr> (RelativePath q) k)"

text \<open>
  A path below \<open>d\<close> is to be listed when it and every directory between it and \<open>d\<close> is managed by the
  rules in force where it stands, and all but the last are directories.
\<close>

definition below ::
    "('b, 'm) gitignore \<Rightarrow> fs_view \<Rightarrow> 'm ScopedRuleSet list \<Rightarrow> bytes list \<Rightarrow> bytes list \<Rightarrow> bool" where
  "below G V base d cs \<longleftrightarrow> strict_prefix d cs \<and>
     (\<forall>q. prefix q cs \<and> strict_prefix d q \<longrightarrow>
        managed_at G V base q \<and> (q \<noteq> cs \<longrightarrow> kind_at V q = Some Directory))"

definition scanned_record :: "(bytes \<Rightarrow> bytes) \<Rightarrow> fs_view \<Rightarrow> Limits \<Rightarrow> IndexRecord \<Rightarrow> bool" where
  "scanned_record blake3 V limits r \<longleftrightarrow>
     path_ok (path r) \<and> unprotected (path r) \<and>
     length (components (path r)) \<le> unat (max_components limits) \<and>
     length (join_slash (components (path r))) \<le> unat (max_path_bytes limits) \<and>
     metadata_for V (components (path r)) = Inr (metadata r, symlink_target r) \<and>
     digest_for blake3 V (components (path r)) (record_kind r) (symlink_target r) = Inr (digest r)"

definition distinct_entries :: "fs_view \<Rightarrow> bool" where
  "distinct_entries V \<longleftrightarrow> (\<forall>d es. read_entries V d = Inr es \<longrightarrow> distinct es)"

section \<open>Order and shape of the listed paths\<close>

lemma length_join_slash:
  "cs \<noteq> [] \<Longrightarrow> length (join_slash cs) = sum_list (map length cs) + (length cs - 1)"
  by (induction cs rule: join_slash.induct) auto

lemma siblings_less:
  assumes "n < m" and "prefix (d @ [n]) a" and "prefix (d @ [m]) b"
  shows "a < (b :: bytes list)"
  using assms by (auto simp: prefix_def)

lemma between_child:
  assumes "prefix (d @ [n]) cs"
  shows "prefix q cs \<and> strict_prefix d q \<longleftrightarrow> q = d @ [n] \<or> (prefix q cs \<and> strict_prefix (d @ [n]) q)"
    (is "?L \<longleftrightarrow> ?R")
proof
  from assms obtain es where cs: "cs = d @ n # es" by (auto simp: prefix_def)
  assume ?L
  then obtain r where q: "q = d @ r" and r: "r \<noteq> []"
    by (auto elim: strict_prefixE')
  have "prefix r (n # es)" using \<open>?L\<close> by (simp add: cs q)
  with r obtain r' where "r = n # r'" by (cases r) auto
  with q \<open>?L\<close> show ?R by (cases r') (auto simp: strict_prefix_def)
next
  assume ?R
  moreover have "strict_prefix d (d @ [n])" by (simp add: strict_prefix_def)
  ultimately show ?L using assms prefix_order.less_trans by blast
qed

lemma below_child:
  assumes "managed_at G V base (d @ [n])"
  shows "prefix (d @ [n]) cs \<and> below G V base d cs \<longleftrightarrow>
    cs = d @ [n] \<or> (kind_at V (d @ [n]) = Some Directory \<and> below G V base (d @ [n]) cs)"
    (is "?L \<longleftrightarrow> ?R")
proof
  assume l: ?L
  show ?R
  proof (cases "cs = d @ [n]")
    case False
    then have "strict_prefix (d @ [n]) cs" using l by (simp add: strict_prefix_def)
    moreover have "kind_at V (d @ [n]) = Some Directory"
      using l False between_child [of d n cs "d @ [n]"] by (auto simp: below_def)
    moreover have "managed_at G V base q \<and> (q \<noteq> cs \<longrightarrow> kind_at V q = Some Directory)"
      if "prefix q cs \<and> strict_prefix (d @ [n]) q" for q
      using l that between_child [of d n cs q] by (simp add: below_def)
    ultimately show ?thesis by (simp add: below_def)
  qed simp
next
  assume r: ?R
  have d: "strict_prefix d (d @ [n])" by (simp add: strict_prefix_def)
  have pre: "prefix (d @ [n]) cs" using r by (auto simp: below_def strict_prefix_def)
  moreover have "strict_prefix d cs" using d pre by (rule prefix_order.less_le_trans)
  moreover have "managed_at G V base q \<and> (q \<noteq> cs \<longrightarrow> kind_at V q = Some Directory)"
    if "prefix q cs \<and> strict_prefix d q" for q
    using r that assms between_child [OF pre, of q] by (auto simp: below_def strict_prefix_def)
  ultimately show ?L by (simp add: below_def)
qed

lemma not_below_child:
  assumes "\<not> managed_at G V base (d @ [n])" and "prefix (d @ [n]) cs"
  shows "\<not> below G V base d cs"
proof
  assume b: "below G V base d cs"
  have "strict_prefix d (d @ [n])" by (simp add: strict_prefix_def)
  with b assms(2) have "managed_at G V base (d @ [n])" by (auto simp: below_def)
  with assms(1) show False ..
qed

lemma below_first:
  assumes "below G V base d cs"
  shows "\<exists>n es. read_entries V d = Inr es \<and> n \<in> set es \<and> prefix (d @ [n]) cs"
proof -
  from assms obtain r where "cs = d @ r" "r \<noteq> []" by (auto simp: below_def strict_prefix_def prefix_def)
  then obtain n where n: "prefix (d @ [n]) cs" by (cases r) (auto simp: prefix_def)
  have "managed_at G V base (d @ [n])"
    using assms n not_below_child by blast
  then show ?thesis using n by (auto simp: managed_at_def listed_def)
qed

section \<open>The traversal lists exactly what it is to list\<close>

lemma inherited_snoc: "inherited G V base (d @ [n]) = rules_in G V base d"
proof -
  have "prefixes d = butlast (prefixes d) @ [d]"
    by (cases d rule: rev_cases) (simp_all add: prefixes_snoc)
  then have "concat (map (own_rules G V) (prefixes d)) =
      concat (map (own_rules G V) (butlast (prefixes d) @ [d]))" by (rule arg_cong)
  then show ?thesis by (simp add: inherited_def rules_in_def prefixes_snoc)
qed

lemma scope_of: "relative_to_path scp = d \<Longrightarrow> scp \<noteq> Some (RelativePath []) \<Longrightarrow>
    scp = (if d = [] then None else Some (RelativePath d))"
  by (cases scp) (auto simp: relative_to_path_def intro: RelativePath.expand)

lemma emit_result:
  "emit st m = (st', r) \<Longrightarrow> policy st' = policy st \<and>
     (case r of Inl e \<Rightarrow> st' = st | Inr _ \<Rightarrow> emitted st' = emitted st @ [Inr m])"
  by (auto simp: emit_def blocking_send_def map_step_err_def split: option.splits nat.splits)

lemma discover_rules:
  assumes "discover_ignore G V scp d es st = (st', Inr u)" and "relative_to_path scp = d"
    and "scp \<noteq> Some (RelativePath [])" and "read_entries V d = Inr es"
  shows "emitted st' = emitted st \<and> scoped (policy st') = scoped (policy st) @ own_rules G V d"
proof -
  note scp = scope_of [OF assms(2,3)]
  show ?thesis
  proof (cases "find (\<lambda>n. n = gitignore_name) es")
    case None
    then have "gitignore_name \<notin> set es" by (auto simp: find_None_iff)
    with None assms show ?thesis
      by (auto simp: discover_ignore_def own_rules_def Let_def split: sum.splits)
  next
    case (Some n)
    then have n: "n = gitignore_name" "gitignore_name \<in> set es"
      by (auto simp: find_Some_iff) (metis nth_mem)
    obtain md where md: "symlink_metadata V (d @ [gitignore_name]) = Inr md"
      using assms(1) Some n by (cases "symlink_metadata V (d @ [gitignore_name])") (auto simp: discover_ignore_def)
    show ?thesis
    proof (cases "file_type md = RegularType")
      case False
      with assms Some n md show ?thesis
        by (auto simp: discover_ignore_def own_rules_def Let_def split: sum.splits)
    next
      case True
      with assms(1) Some n md obtain contents m where c: "read_file V (d @ [gitignore_name]) = Inr contents"
        and m: "build_matcher G scp contents = Inr m"
        and st': "st' = st\<lparr>policy := (policy st)\<lparr>scoped := scoped (policy st) @ [\<lparr>scope = scp, matcher = m\<rparr>]\<rparr>\<rparr>"
        by (auto simp: discover_ignore_def result_simps add_ignore_contents_def)
      have "own_rules G V d = [\<lparr>scope = scp, matcher = m\<rparr>]"
        using assms(4) n(2) md True c m by (simp add: own_rules_def Let_def scp [symmetric])
      then show ?thesis by (simp add: st')
    qed
  qed
qed

lemma scan_entry_result:
  assumes run: "scan_entry G blake3 V limits scp name st = (st', r)"
    and d: "relative_to_path scp = d" and pol: "scoped (policy st) = rules_in G V base d"
    and es: "read_entries V d = Inr es" "name \<in> set es"
  shows "policy st' = policy st \<and> (case r of
      Inl e \<Rightarrow> emitted st' = emitted st
    | Inr None \<Rightarrow> st' = st \<and> \<not> managed_at G V base (d @ [name])
    | Inr (Some (p, b)) \<Rightarrow> p = RelativePath (d @ [name]) \<and> path_ok p \<and> managed_at G V base (d @ [name]) \<and>
        b = (kind_at V (d @ [name]) = Some Directory) \<and>
        (\<exists>rec. emitted st' = emitted st @ [Inr (Record rec)] \<and> path rec = p \<and>
           scanned_record blake3 V limits rec))"
proof -
  let ?q = "d @ [name]"
  have ls: "listed V ?q" using es by (simp add: listed_def)
  show ?thesis
  proof (cases "scan_accepts st = Some 0")
    case True
    with run show ?thesis by (auto simp: scan_entry_def)
  next
    case acc: False
    show ?thesis
    proof (cases "append_component scp name limits")
      case (Inl e)
      with run acc show ?thesis by (auto simp: scan_entry_def)
    next
      case (Inr p)
      then have p: "p = RelativePath ?q" "path_ok p" "length (components p) \<le> unat (max_components limits)"
        "length (join_slash (components p)) \<le> unat (max_path_bytes limits)"
        using d by (auto simp: append_component_Inr length_join_slash)
      show ?thesis
      proof (cases "metadata_for V ?q")
        case (Inl e)
        with run acc Inr d show ?thesis by (auto simp: scan_entry_def Let_def)
      next
        case md: (Inr x)
        obtain md target where x: "x = (md, target)" by (cases x)
        have k: "kind_at V ?q = Some (kind md)" using md x by (simp add: kind_at_def)
        have dec: "managed_at G V base ?q \<longleftrightarrow> decision G (policy st) p (kind md) = Managed"
          using ls k p(1) pol by (simp add: managed_at_def manages_def decision_def)
        show ?thesis
        proof (cases "decision G (policy st) p (kind md) = Managed")
          case False
          with run acc Inr d md x dec show ?thesis by (auto simp: scan_entry_def Let_def)
        next
          case True
          then have up: "unprotected p" by (simp add: decision_Managed)
          show ?thesis
          proof (cases "digest_for blake3 V ?q (kind md) target")
            case (Inl e)
            with run acc Inr d md x True show ?thesis by (auto simp: scan_entry_def Let_def)
          next
            case dg: (Inr dg)
            let ?rec = "\<lparr>path = p, metadata = md, digest = dg, symlink_target = target\<rparr>"
            obtain s1 r1 where em: "emit st (Record ?rec) = (s1, r1)" by fastforce
            have st': "st' = s1" "r = map_ok (\<lambda>_. Some (p, kind md = Directory)) r1"
              using run acc Inr d md x True dg em by (cases r1; auto simp: scan_entry_def Let_def)+
            have rec: "scanned_record blake3 V limits ?rec"
              using p up md x dg by (simp add: scanned_record_def record_kind_def)
            show ?thesis
            proof (cases r1)
              case (Inl e)
              with emit_result [OF em] st' show ?thesis by simp
            next
              case r1: (Inr u)
              then have "emitted st' = emitted st @ [Inr (Record ?rec)]" "policy st' = policy st"
                using emit_result [OF em] st' by simp_all
              moreover have "path ?rec = p" by simp
              ultimately show ?thesis using st'(2) r1 p dec True k rec by auto
            qed
          qed
        qed
      qed
    qed
  qed
qed

text \<open>
  The invariant of the traversal below \<open>d\<close>, where \<open>C\<close> is the set of paths it covers: what it sends
  are records of entries below \<open>d\<close> in ascending order, and if it succeeds exactly those of \<open>C\<close>.
\<close>

definition covers ::
    "(bytes \<Rightarrow> bytes) \<Rightarrow> fs_view \<Rightarrow> Limits \<Rightarrow> bytes list set \<Rightarrow> bytes list set \<Rightarrow> 'm Scanner \<Rightarrow>
     'm Scanner \<times> (QuicSyncError + unit) \<Rightarrow> bool" where
  "covers blake3 V limits A C st res \<longleftrightarrow>
     (\<exists>S. emitted (fst res) = emitted st @ map (\<lambda>r. Inr (Record r)) S \<and>
        (\<forall>r \<in> set S. scanned_record blake3 V limits r \<and> components (path r) \<in> A) \<and>
        (distinct_entries V \<longrightarrow> ascending (map path S)) \<and>
        (snd res = Inr () \<longrightarrow> policy (fst res) = policy st \<and> (components \<circ> path) ` set S = C))"

lemma lists_mono:
  "covers blake3 V limits A C st res \<Longrightarrow> A \<subseteq> A' \<Longrightarrow> (snd res = Inr () \<Longrightarrow> C = C') \<Longrightarrow>
     covers blake3 V limits A' C' st res"
  unfolding covers_def by blast

lemma lists_seq:
  assumes 1: "covers blake3 V limits A C st (s1, Inr ())" and 2: "covers blake3 V limits B E s1 res"
    and less: "\<And>a b. distinct_entries V \<Longrightarrow> a \<in> A \<Longrightarrow> b \<in> B \<Longrightarrow> a < b"
  shows "covers blake3 V limits (A \<union> B) (C \<union> E) st res"
proof -
  from 1 obtain S where S: "emitted s1 = emitted st @ map (\<lambda>r. Inr (Record r)) S"
    "\<forall>r \<in> set S. scanned_record blake3 V limits r \<and> components (path r) \<in> A"
    "distinct_entries V \<longrightarrow> ascending (map path S)" "policy s1 = policy st" "(components \<circ> path) ` set S = C"
    by (auto simp: covers_def)
  from 2 obtain T where T: "emitted (fst res) = emitted s1 @ map (\<lambda>r. Inr (Record r)) T"
    "\<forall>r \<in> set T. scanned_record blake3 V limits r \<and> components (path r) \<in> B"
    "distinct_entries V \<longrightarrow> ascending (map path T)"
    "snd res = Inr () \<longrightarrow> policy (fst res) = policy s1 \<and> (components \<circ> path) ` set T = E"
    by (auto simp: covers_def)
  have "ascending (map path (S @ T))" if "distinct_entries V"
    using S(2,3) T(2,3) less that by (auto simp: sorted_wrt_append less_RelativePath_def)
  then show ?thesis
    unfolding covers_def using S T by (intro exI [of _ "S @ T"]) (simp add: image_Un, blast)
qed

lemma lists_entry:
  assumes sub: "\<And>p st. length (components p) = Suc (length d) \<Longrightarrow>
      length (components p) \<le> unat (max_components limits) \<Longrightarrow> path_ok p \<Longrightarrow>
      scoped (policy st) = inherited G V base (components p) \<Longrightarrow>
      covers blake3 V limits {cs. strict_prefix (components p) cs}
        {cs. below G V base (components p) cs} st (sub p st)"
    and d: "relative_to_path scp = d" and es: "read_entries V d = Inr es" "name \<in> set es"
    and pol: "scoped (policy st) = rules_in G V base d"
    and run: "scan_entry G blake3 V limits scp name st = (s1, Inr found)"
  shows "covers blake3 V limits {cs. prefix (d @ [name]) cs} {cs. prefix (d @ [name]) cs \<and> below G V base d cs} st
    (case found of Some (p, b) \<Rightarrow> if b then sub p s1 else (s1, Inr ()) | None \<Rightarrow> (s1, Inr ()))"
proof (cases found)
  case None
  with scan_entry_result [OF run d pol es] have "s1 = st" "\<not> managed_at G V base (d @ [name])" by simp_all
  then show ?thesis using None not_below_child by (fastforce simp: covers_def)
next
  case (Some x)
  then obtain p b where f: "found = Some (p, b)" by (cases x) auto
  with scan_entry_result [OF run d pol es] obtain rec where p: "p = RelativePath (d @ [name])" "path_ok p"
    and m: "managed_at G V base (d @ [name])" and b: "b = (kind_at V (d @ [name]) = Some Directory)"
    and em: "emitted s1 = emitted st @ [Inr (Record rec)]" and rec: "path rec = p" "scanned_record blake3 V limits rec"
    and pl: "policy s1 = policy st" by auto
  have one: "covers blake3 V limits {d @ [name]} {d @ [name]} st (s1, Inr ())"
    unfolding covers_def using em rec p pl by (intro exI [of _ "[rec]"]) simp
  show ?thesis
  proof (cases b)
    case False
    with one below_child [OF m] b f show ?thesis by (auto elim!: lists_mono)
  next
    case True
    have "length (components p) \<le> unat (max_components limits)"
      using scan_entry_depth [of G blake3 V limits scp name st s1 p b] run f by simp
    then have "covers blake3 V limits {cs. strict_prefix (d @ [name]) cs}
        {cs. below G V base (d @ [name]) cs} s1 (sub p s1)"
      using sub [of p s1] p pol pl by (simp add: inherited_snoc)
    from lists_seq [OF one this] have "covers blake3 V limits ({d @ [name]} \<union> {cs. strict_prefix (d @ [name]) cs})
        ({d @ [name]} \<union> {cs. below G V base (d @ [name]) cs}) st (sub p s1)"
      by (auto intro: strict_prefix_imp_less)
    then have "covers blake3 V limits {cs. prefix (d @ [name]) cs}
        {cs. prefix (d @ [name]) cs \<and> below G V base d cs} st (sub p s1)"
      using below_child [OF m] True b by (elim lists_mono) (auto simp: strict_prefix_def)
    with f True show ?thesis by simp
  qed
qed

lemma lists_entries:
  assumes sub: "\<And>p st. length (components p) = Suc (length d) \<Longrightarrow>
      length (components p) \<le> unat (max_components limits) \<Longrightarrow> path_ok p \<Longrightarrow>
      scoped (policy st) = inherited G V base (components p) \<Longrightarrow>
      covers blake3 V limits {cs. strict_prefix (components p) cs}
        {cs. below G V base (components p) cs} st (sub p st)"
    and d: "relative_to_path scp = d" and es: "read_entries V d = Inr es" "set names \<subseteq> set es"
    and pol: "scoped (policy st) = rules_in G V base d"
    and srt: "sorted names" "distinct_entries V \<longrightarrow> distinct names"
  shows "covers blake3 V limits {cs. \<exists>n \<in> set names. prefix (d @ [n]) cs}
    {cs. \<exists>n \<in> set names. prefix (d @ [n]) cs \<and> below G V base d cs} st
    (scan_entries sub G blake3 V limits scp names st)"
  using es(2) pol srt
proof (induction names arbitrary: st)
  case Nil
  show ?case by (simp add: covers_def)
next
  case (Cons name names)
  let ?A = "{cs. \<exists>n \<in> set (name # names). prefix (d @ [n]) cs}"
  let ?C = "{cs. \<exists>n \<in> set (name # names). prefix (d @ [n]) cs \<and> below G V base d cs}"
  from Cons.prems(1) have name: "name \<in> set es" by simp
  obtain s1 r1 where 1: "scan_entry G blake3 V limits scp name st = (s1, r1)" by fastforce
  show ?case
  proof (cases r1)
    case (Inl e)
    with scan_entry_result [OF 1 d Cons.prems(2) es(1) name] 1 show ?thesis
      by (simp add: covers_def)
  next
    case (Inr found)
    let ?m = "case found of Some (p, b) \<Rightarrow> if b then sub p s1 else (s1, Inr ()) | None \<Rightarrow> (s1, Inr ())"
    obtain s2 r2 where 2: "?m = (s2, r2)" by fastforce
    have step: "covers blake3 V limits {cs. prefix (d @ [name]) cs}
        {cs. prefix (d @ [name]) cs \<and> below G V base d cs} st (s2, r2)"
      using lists_entry [OF sub d es(1) name Cons.prems(2) 1 [unfolded Inr]] unfolding 2 .
    show ?thesis
    proof (cases r2)
      case (Inl e)
      have "scan_entries sub G blake3 V limits scp (name # names) st = (s2, Inl e)"
        using 1 2 Inr Inl by simp
      moreover have "covers blake3 V limits ?A ?C st (s2, Inl e)"
        using step unfolding Inl by (rule lists_mono) auto
      ultimately show ?thesis by simp
    next
      case r2: (Inr u)
      then have l1: "covers blake3 V limits {cs. prefix (d @ [name]) cs}
          {cs. prefix (d @ [name]) cs \<and> below G V base d cs} st (s2, Inr ())" using step by simp
      then have "policy s2 = policy st" by (auto simp: covers_def)
      then have "covers blake3 V limits {cs. \<exists>n \<in> set names. prefix (d @ [n]) cs}
          {cs. \<exists>n \<in> set names. prefix (d @ [n]) cs \<and> below G V base d cs} s2
          (scan_entries sub G blake3 V limits scp names s2)"
        using Cons.prems by (intro Cons.IH) auto
      from lists_seq [OF l1 this] have "covers blake3 V limits ?A ?C st (scan_entries sub G blake3 V limits scp names s2)"
      proof (rule lists_mono)
        fix a b
        assume "distinct_entries V" "a \<in> {cs. prefix (d @ [name]) cs}"
          "b \<in> {cs. \<exists>n \<in> set names. prefix (d @ [n]) cs}"
        then obtain n where n: "n \<in> set names" "prefix (d @ [n]) b" "prefix (d @ [name]) a" by blast
        have "name \<le> n" using Cons.prems(3) n(1) by simp
        moreover have "name \<noteq> n" using Cons.prems(4) n(1) \<open>distinct_entries V\<close> by auto
        ultimately have "name < n" by simp
        then show "a < b" by (rule siblings_less [OF _ n(3,2)])
      qed auto
      then show ?thesis using 1 2 Inr r2 by simp
    qed
  qed
qed

lemma discover_emitted:
  "discover_ignore G V scp d es st = (st', r) \<Longrightarrow> emitted st' = emitted st"
  by (cases r)
    (auto simp: discover_ignore_def result_simps split: option.splits if_splits)

lemma restore_mark:
  "scoped pol = scoped old @ own \<Longrightarrow> restore pol (checkpoint old) = (old :: 'm IgnorePolicy)"
  by (cases pol; cases old) (simp add: restore_def checkpoint_def)

lemma lists_directory:
  assumes "scoped (policy st) = inherited G V base (relative_to_path scp)" and "scp \<noteq> Some (RelativePath [])"
  shows "covers blake3 V limits {cs. strict_prefix (relative_to_path scp) cs}
    {cs. below G V base (relative_to_path scp) cs} st (scan_directory G blake3 V limits scp st)"
  using assms
proof (induction "Suc (unat (max_components limits)) - length (relative_to_path scp)"
    arbitrary: scp st rule: less_induct)
  case less
  let ?d = "relative_to_path scp" and ?sub = "\<lambda>p st. scan_directory G blake3 V limits (Some p) st"
  have sub: "covers blake3 V limits {cs. strict_prefix (components p) cs}
        {cs. below G V base (components p) cs} st (?sub p st)"
    if "length (components p) = Suc (length ?d)" "length (components p) \<le> unat (max_components limits)"
      "path_ok p" "scoped (policy st) = inherited G V base (components p)" for p st
  proof -
    have "p \<noteq> RelativePath []" using that(3) by (auto simp: path_ok_def)
    then show ?thesis using less.hyps [of "Some p" st] that by simp
  qed
  show ?case
  proof (cases "read_entries V ?d")
    case (Inl e)
    then show ?thesis by (simp add: scan_directory.simps [of _ _ _ _ scp] covers_def)
  next
    case (Inr es)
    obtain s1 r1 where 1: "discover_ignore G V scp ?d es st = (s1, r1)" by fastforce
    show ?thesis
    proof (cases r1)
      case (Inl e)
      with Inr 1 discover_emitted [OF 1] show ?thesis
        by (simp add: scan_directory.simps [of _ _ _ _ scp] covers_def)
    next
      case r1: (Inr u)
      from discover_rules [OF 1 [unfolded r1] refl less.prems(2) Inr]
      have em: "emitted s1 = emitted st" and pol: "scoped (policy s1) = scoped (policy st) @ own_rules G V ?d"
        by simp_all
      have rules: "scoped (policy s1) = rules_in G V base ?d" using pol less.prems(1) by (simp add: rules_in_def)
      have srt: "sorted es" "distinct_entries V \<longrightarrow> distinct es"
        using Inr by (auto simp: read_entries_def result_simps distinct_entries_def)
      obtain s2 r2 where 2: "scan_entries ?sub G blake3 V limits scp es s1 = (s2, r2)" by fastforce
      have l: "covers blake3 V limits {cs. strict_prefix ?d cs} {cs. below G V base ?d cs} s1 (s2, r2)"
        using lists_entries [OF sub refl Inr order.refl rules srt] unfolding 2
      proof (rule lists_mono)
        show "{cs. \<exists>n\<in>set es. prefix (?d @ [n]) cs} \<subseteq> {cs. strict_prefix ?d cs}"
          by (auto simp: prefix_def strict_prefix_def)
        show "{cs. \<exists>n\<in>set es. prefix (?d @ [n]) cs \<and> below G V base ?d cs} = {cs. below G V base ?d cs}"
          using below_first [of G V base ?d] Inr by fastforce
      qed
      have run: "scan_directory G blake3 V limits scp st =
          (case r2 of Inl e \<Rightarrow> (s2, Inl e)
           | Inr _ \<Rightarrow> (s2\<lparr>policy := restore (policy s2) (checkpoint (policy st))\<rparr>, Inr ()))"
        using Inr 1 r1 2 by (cases r2) (simp_all add: scan_directory.simps [of _ _ _ _ scp] Let_def)
      show ?thesis
      proof (cases r2)
        case (Inl e)
        then show ?thesis using l em run by (simp add: covers_def)
      next
        case r2: (Inr v)
        then have "policy s2 = policy s1" using l by (auto simp: covers_def)
        then have "restore (policy s2) (checkpoint (policy st)) = policy st"
          using restore_mark [OF pol] by simp
        then show ?thesis using l em run r2 by (simp add: covers_def) blast
      qed
    qed
  qed
qed

section \<open>The index of a root\<close>

text \<open>The rules that the configured exclusions give.\<close>

definition configured_rules :: "('b, 'm) gitignore \<Rightarrow> bytes list \<Rightarrow> 'm ScopedRuleSet list" where
  "configured_rules G exclusions =
     (case with_configured_exclusions G exclusions of Inr pol \<Rightarrow> scoped pol | Inl _ \<Rightarrow> [])"

lemma scan_root_cases:
  assumes "scan_root G blake3 V exclusions limits accepting = (ch, r)"
  shows "\<exists>S. (\<forall>rec \<in> set S. scanned_record blake3 V limits rec) \<and>
    (distinct_entries V \<longrightarrow> ascending (map path S)) \<and>
    (case r of
       Inl e \<Rightarrow> ch = map (\<lambda>rec. Inr (Record rec)) S \<or> ch = map (\<lambda>rec. Inr (Record rec)) S @ [Inl e]
     | Inr _ \<Rightarrow> ch = index_stream S \<and>
         (components \<circ> path) ` set S = {cs. below G V (configured_rules G exclusions) [] cs})"
proof -
  let ?st = "\<lparr>emitted = [], scan_accepts = accepting, policy = policy_empty\<rparr>"
  have send: "emitted (fst (blocking_send st m)) = emitted st \<or> emitted (fst (blocking_send st m)) = emitted st @ [m]"
    for st :: "'b Scanner" and m
    by (auto simp: blocking_send_def split: option.splits nat.splits)
  show ?thesis
  proof (cases "with_configured_exclusions G exclusions")
    case (Inl e)
    with assms send [of ?st "Inl e"] show ?thesis
      by (intro exI [of _ "[]"]) (auto simp: scan_root_def Let_def)
  next
    case (Inr pol)
    let ?s = "?st\<lparr>policy := pol\<rparr>"
    obtain s1 r1 where 1: "scan_directory G blake3 V limits None ?s = (s1, r1)" by fastforce
    have "scoped (policy ?s) = inherited G V (configured_rules G exclusions) (relative_to_path None)"
      using Inr by (simp add: configured_rules_def inherited_def relative_to_path_def)
    from lists_directory [OF this, of blake3 limits] 1 obtain S where S: "emitted s1 = map (\<lambda>rec. Inr (Record rec)) S"
      "\<forall>rec \<in> set S. scanned_record blake3 V limits rec" "distinct_entries V \<longrightarrow> ascending (map path S)"
      "r1 = Inr () \<longrightarrow> (components \<circ> path) ` set S = {cs. below G V (configured_rules G exclusions) [] cs}"
      by (auto simp: covers_def relative_to_path_def)
    show ?thesis
    proof (cases r1)
      case (Inl e)
      with assms Inr 1 send [of s1 "Inl e"] S show ?thesis
        by (intro exI [of _ S]) (auto simp: scan_root_def Let_def)
    next
      case r1: (Inr u)
      obtain s2 r2 where 2: "emit s1 End = (s2, r2)" by fastforce
      note em = emit_result [OF 2]
      show ?thesis
      proof (cases r2)
        case (Inl e)
        with assms Inr 1 2 r1 em send [of s2 "Inl e"] S show ?thesis
          by (intro exI [of _ S]) (auto simp: scan_root_def Let_def)
      next
        case r2: (Inr v)
        with assms Inr 1 2 r1 em S show ?thesis
          by (intro exI [of _ S]) (auto simp: scan_root_def Let_def index_stream_def)
      qed
    qed
  qed
qed

section \<open>Properties\<close>

text \<open>
  C9. A scan that succeeds sends a complete index, and the index is exact. Provided a directory does
  not list a name twice, the records come in strictly ascending order of their paths, as the planner
  requires; every record describes its entry as the filesystem shows it, within the limits and
  outside the protected names; and the listed paths are exactly those that are managed, with every
  directory above them, by the ignore rules in force where they stand.
\<close>

theorem scan_exact:
  assumes "scan_root G blake3 V exclusions limits accepting = (ch, Inr u)" and "distinct_entries V"
  shows "\<exists>S. ch = index_stream S \<and> ascending (map path S) \<and>
    (\<forall>r \<in> set S. scanned_record blake3 V limits r) \<and>
    (\<forall>cs. cs \<in> (components \<circ> path) ` set S \<longleftrightarrow> below G V (configured_rules G exclusions) [] cs)"
  using scan_root_cases [OF assms(1)] assms(2) by fastforce

text \<open>
  C37. A scan that fails never looks complete: the end marker is not among the messages it sent, only
  records, and after them at most the error, so the planner on the other end of the channel fails
  too instead of taking the missing entries for deletions.
\<close>

theorem scan_failure_visible:
  assumes "scan_root G blake3 V exclusions limits accepting = (ch, Inl e)"
  shows "Inr End \<notin> set ch \<and> \<not> complete S ch \<and> (\<forall>d. Inl d \<in> set ch \<longrightarrow> d = e)"
proof -
  from scan_root_cases [OF assms] obtain T where
    "ch = map (\<lambda>rec. Inr (Record rec)) T \<or> ch = map (\<lambda>rec. Inr (Record rec)) T @ [Inl e]" by auto
  then have "Inr End \<notin> set ch" "\<forall>d. Inl d \<in> set ch \<longrightarrow> d = e" by auto
  moreover from this(1) have "\<not> complete S ch" by (auto simp: complete_def)
  ultimately show ?thesis by simp
qed

text \<open>
  Modification times are read without overflow: for every value the operating system can report,
  the 128-bit nanoseconds are the exact sum of the seconds and the nanoseconds.
\<close>

lemma mtime_no_overflow:
  "sint (metadata_mtime_ns md) = sint (raw_mtime md) * 1000000000 + sint (raw_mtime_nsec md)"
proof -
  have r: "- (2 ^ 63) \<le> sint w \<and> sint w < 2 ^ 63" for w :: i64
    using sint_range_size [of w] by (simp add: word_size)
  have "(scast (raw_mtime md) * 1000000000 + scast (raw_mtime_nsec md) :: i128) =
      word_of_int (sint (raw_mtime md) * 1000000000 + sint (raw_mtime_nsec md))"
    by (simp only: scast_eq of_int_add of_int_mult of_int_numeral)
  then have "sint (scast (raw_mtime md) * 1000000000 + scast (raw_mtime_nsec md) :: i128) =
      signed_take_bit 127 (sint (raw_mtime md) * 1000000000 + sint (raw_mtime_nsec md))"
    by (simp only: sint_sbintrunc') simp
  also have "\<dots> = sint (raw_mtime md) * 1000000000 + sint (raw_mtime_nsec md)"
    using r [of "raw_mtime md"] r [of "raw_mtime_nsec md"] by (intro signed_take_bit_int_eq_self) auto
  finally show ?thesis by (simp add: metadata_mtime_ns_def)
qed

subsection \<open>The properties at a sample root\<close>

text \<open>A matcher whose rules are names, and a root with an ignored file and a protected directory.\<close>

definition sample_gitignore :: "(bytes list, bytes list) gitignore" where [samples]:
  "sample_gitignore = \<lparr>gitignore_builder_new = (\<lambda>_. []), gitignore_add_line = (\<lambda>_ l b. Inr (b @ [l])),
     gitignore_build = Inr,
     matched_path_or_any_parents = (\<lambda>m p _. if last p \<in> set m then MatchIgnore else MatchNone)\<rparr>"

definition sample_view :: fs_view where [samples]:
  "sample_view = \<lparr>view_root = [47],
     read_dir = (\<lambda>d. if d = [] then Inr [Inr [120], Inr [97], Inr gitignore_name, Inr (bytes_of ''.git'')]
       else if d = [[97]] then Inr [Inr [98]] else Inl ''gone''),
     symlink_metadata = (\<lambda>q. Inr \<lparr>file_type = if q \<in> {[[97]], [bytes_of ''.git'']} then DirType else RegularType,
       permissions_mode = 420, raw_mtime = 5, raw_mtime_nsec = 0, raw_len = 1\<rparr>),
     read_file = (\<lambda>_. Inr [120]), read_link = (\<lambda>_. Inl ''no link''), open_file = (\<lambda>_. Inr [Inr [1]])\<rparr>"

definition broken_view :: fs_view where [samples]:
  "broken_view = sample_view\<lparr>read_dir := (\<lambda>d. if d = [] then Inr [Inr [97]] else Inl ''gone'')\<rparr>"

definition small_limits :: Limits where [samples]:
  "small_limits = DEFAULT_LIMITS\<lparr>max_path_bytes := 20, max_components := 4\<rparr>"

lemma sample_scan_ok:
  "map_prod (map (map_sum code (\<lambda>m. case m of Record r \<Rightarrow> components (path r) | End \<Rightarrow> []))) id
     (scan_root sample_gitignore id sample_view [] small_limits None) =
     ([Inr [gitignore_name], Inr [[97]], Inr [[97], [98]], Inr []], Inr ())"
  by code_simp

lemma sample_scan:
  obtains ch where "scan_root sample_gitignore id sample_view [] small_limits None = (ch, Inr ())"
  using sample_scan_ok by (cases "scan_root sample_gitignore id sample_view [] small_limits None") simp

lemma sample_distinct: "distinct_entries sample_view"
  by (auto simp: distinct_entries_def read_entries_def result_simps sample_view_def bytes_of_def split: if_splits)

theorem scan_exact_witness:
  "\<exists>S. scan_root sample_gitignore id sample_view [] small_limits None = (index_stream S, Inr ()) \<and>
     ascending (map path S)"
proof -
  obtain ch where run: "scan_root sample_gitignore id sample_view [] small_limits None = (ch, Inr ())"
    by (rule sample_scan)
  from scan_exact [OF run sample_distinct] run show ?thesis by auto
qed

theorem scan_failure_visible_witness:
  "\<exists>ch e. scan_root sample_gitignore id broken_view [] small_limits None = (ch, Inl e) \<and> Inr End \<notin> set ch"
proof -
  let ?run = "scan_root sample_gitignore id broken_view [] small_limits None"
  have "isl (snd ?run)" by code_simp
  then obtain ch e where run: "?run = (ch, Inl e)" by (cases ?run; cases "snd ?run") auto
  from scan_failure_visible [OF run] run show ?thesis by blast
qed

end
