(* ===== verification/Loading.thy ===== *)
theory Loading
  imports Config Scan
begin

text \<open>
  Loading the configuration of a source or a destination, the second half of
  \<open>crates/quicsync-core/src/config.rs\<close>. The parameter \<open>host\<close> holds what the code reads from outside:
  the metadata and contents of files, the effective user, the TOML reader and the parser of socket
  addresses; an error is its text.
\<close>

section \<open>The outside\<close>

record HostMetadata =
  host_is_dir :: bool
  host_is_file :: bool
  host_is_symlink :: bool
  host_uid :: u32
  host_mode :: u32
  host_dev :: u64
  host_ino :: u64

record RawSourceConfig =
  raw_root_id :: bytes
  raw_destination :: bytes
  raw_peer_pin :: bytes
  raw_global_exclusions :: "bytes list"
  raw_source_limits :: RawLimits

record RawDestinationRoot =
  raw_id :: bytes
  raw_path :: bytes
  raw_authorized_peers :: "bytes list"

record RawDestinationConfig =
  raw_listen_address :: bytes
  raw_roots :: "RawDestinationRoot list"
  raw_destination_limits :: RawLimits

text \<open>
  \<open>host_open_dir\<close> opens with \<open>O_DIRECTORY | O_NOFOLLOW\<close>, \<open>host_open\<close> with \<open>O_NOFOLLOW\<close>;
  \<open>host_fstat\<close> and \<open>host_read_to_string\<close> act on the opened file.
\<close>

record ('fd, 'addr) host =
  host_symlink_metadata :: "bytes \<Rightarrow> string + HostMetadata"
  host_metadata :: "bytes \<Rightarrow> string + HostMetadata"
  host_open_dir :: "bytes \<Rightarrow> string + 'fd"
  host_open :: "bytes \<Rightarrow> string + 'fd"
  host_fstat :: "'fd \<Rightarrow> string + HostMetadata"
  host_read_to_string :: "'fd \<Rightarrow> string + bytes"
  host_geteuid :: u32
  source_from_toml :: "bytes \<Rightarrow> string + RawSourceConfig"
  destination_from_toml :: "bytes \<Rightarrow> string + RawDestinationConfig"
  address_from_str :: "bytes \<Rightarrow> string + 'addr"

section \<open>Validated configuration\<close>

record 'fd ValidatedRoot =
  root_path :: bytes
  root_directory :: 'fd
  root_device :: u64
  root_inode :: u64

definition root_identity :: "'fd ValidatedRoot \<Rightarrow> u64 \<times> u64" where
  "root_identity r = (root_device r, root_inode r)"

record ('fd, 'addr) SourceConfig =
  source_root :: "'fd ValidatedRoot"
  source_root_id :: RootId
  source_destination :: 'addr
  source_peer_pin :: PeerPin
  source_global_exclusions :: "bytes list"
  source_limits :: Limits
  source_private_key :: bytes

record 'fd DestinationRoot =
  destination_id :: RootId
  destination_root :: "'fd ValidatedRoot"
  authorized_peers :: "PeerPin list"

record ('fd, 'addr) DestinationConfig =
  listen_address :: 'addr
  roots :: "'fd DestinationRoot list"
  destination_limits :: Limits
  destination_private_key :: bytes

definition destination_authorize :: "('fd, 'addr) DestinationConfig \<Rightarrow> PeerPin \<Rightarrow> bytes \<Rightarrow> bool" where
  "destination_authorize config peer root_id =
     list_ex (\<lambda>root. root_id_str (destination_id root) = root_id \<and> peer \<in> set (authorized_peers root))
       (roots config)"

section \<open>Secure files\<close>

text \<open>A path between single quotes, as \<open>'{}'\<close> with \<open>path.display()\<close> prints it.\<close>

definition quoted_path :: "bytes \<Rightarrow> string" where
  "quoted_path p = quoted (lossy_text p)"

definition reject_symlink :: "('fd, 'addr) host \<Rightarrow> bytes \<Rightarrow> string \<Rightarrow> QuicSyncError + unit" where
  "reject_symlink H p description =
     and_then (map_err (\<lambda>e. invalid (''cannot inspect '' @ description @ '' '' @ quoted_path p @ '': '' @ e))
       (host_symlink_metadata H p)) (\<lambda>m.
     if host_is_symlink m
     then Inl (invalid (description @ '' '' @ quoted_path p @ '' must not be a symbolic link''))
     else Inr ())"

definition validate_owner :: "('fd, 'addr) host \<Rightarrow> bytes \<Rightarrow> HostMetadata \<Rightarrow> QuicSyncError + unit" where
  "validate_owner H p m =
     (if host_uid m \<noteq> host_geteuid H
      then Inl (invalid (quoted_path p @ '' is not owned by the current user'')) else Inr ())"

text \<open>\<open>18\<close> is \<open>0o022\<close>, \<open>511\<close> is \<open>0o777\<close> and \<open>384\<close> is \<open>0o600\<close>.\<close>

definition open_secure_file :: "('fd, 'addr) host \<Rightarrow> bytes \<Rightarrow> QuicSyncError + 'fd" where
  "open_secure_file H p =
     and_then (map_err (\<lambda>e. invalid (''cannot open '' @ quoted_path p @ '': '' @ e)) (host_open H p)) (\<lambda>fd.
     and_then (map_err (\<lambda>e. invalid (''cannot inspect '' @ quoted_path p @ '': '' @ e)) (host_fstat H fd)) (\<lambda>m.
     if \<not> host_is_file m then Inl (invalid (quoted_path p @ '' is not a regular file''))
     else and_then (validate_owner H p m) (\<lambda>_.
       if host_mode m AND 18 \<noteq> 0 then Inl (invalid (quoted_path p @ '' is writable by another user''))
       else Inr fd)))"

definition open_root :: "('fd, 'addr) host \<Rightarrow> bytes \<Rightarrow> QuicSyncError + 'fd ValidatedRoot" where
  "open_root H p =
     and_then (reject_symlink H p ''root'') (\<lambda>_.
     and_then (map_err (\<lambda>e. invalid (''cannot open root '' @ quoted_path p @ '': '' @ e)) (host_open_dir H p)) (\<lambda>fd.
     and_then (map_err (\<lambda>e. invalid (''cannot inspect root '' @ quoted_path p @ '': '' @ e)) (host_fstat H fd)) (\<lambda>m.
     if \<not> host_is_dir m then Inl (invalid (''root '' @ quoted_path p @ '' is not a directory''))
     else Inr \<lparr>root_path = p, root_directory = fd, root_device = host_dev m, root_inode = host_ino m\<rparr>)))"

definition ADMIN_DIRECTORY :: bytes where "ADMIN_DIRECTORY = bytes_of ''.quicsync''"
definition PRIVATE_KEY :: bytes where "PRIVATE_KEY = bytes_of ''identity.key''"
definition SOURCE_CONFIG :: bytes where "SOURCE_CONFIG = bytes_of ''source.toml''"
definition DESTINATION_CONFIG :: bytes where "DESTINATION_CONFIG = bytes_of ''destination.toml''"

definition validate_admin_directory :: "('fd, 'addr) host \<Rightarrow> bytes \<Rightarrow> QuicSyncError + bytes" where
  "validate_admin_directory H root =
     (let p = join_path root ADMIN_DIRECTORY in
      and_then (reject_symlink H p ''administrative directory'') (\<lambda>_.
      and_then (map_err (\<lambda>e. invalid (''cannot inspect administrative directory '' @ quoted_path p @ '': '' @ e))
        (host_metadata H p)) (\<lambda>m.
      if \<not> host_is_dir m then Inl (invalid (''administrative path '' @ quoted_path p @ '' is not a directory''))
      else and_then (validate_owner H p m) (\<lambda>_.
        if host_mode m AND 18 \<noteq> 0
        then Inl (invalid (''administrative directory '' @ quoted_path p @ '' is writable by another user''))
        else Inr p))))"

definition validate_private_key :: "('fd, 'addr) host \<Rightarrow> bytes \<Rightarrow> QuicSyncError + bytes" where
  "validate_private_key H admin =
     (let p = join_path admin PRIVATE_KEY in
      and_then (open_secure_file H p) (\<lambda>fd.
      and_then (map_err (\<lambda>e. invalid (''cannot inspect private key: '' @ e)) (host_fstat H fd)) (\<lambda>m.
      if host_mode m AND 511 \<noteq> 384
      then Inl (invalid (''private key '' @ quoted_path p @ '' must have mode 0600''))
      else Inr p)))"

definition read_toml ::
    "('fd, 'addr) host \<Rightarrow> (bytes \<Rightarrow> string + 'raw) \<Rightarrow> bytes \<Rightarrow> QuicSyncError + 'raw" where
  "read_toml H from_toml p =
     and_then (open_secure_file H p) (\<lambda>fd.
     and_then (map_err (\<lambda>e. invalid (''cannot read '' @ quoted_path p @ '': '' @ e)) (host_read_to_string H fd))
       (\<lambda>contents.
     map_err (\<lambda>e. invalid (''cannot parse '' @ quoted_path p @ '': '' @ e)) (from_toml contents)))"

definition parse_address :: "('fd, 'addr) host \<Rightarrow> string \<Rightarrow> bytes \<Rightarrow> QuicSyncError + 'addr" where
  "parse_address H name v =
     map_err (\<lambda>e. invalid (''invalid '' @ name @ '': '' @ e)) (address_from_str H v)"

section \<open>Loading\<close>

definition load_source :: "('fd, 'addr) host \<Rightarrow> bytes \<Rightarrow> QuicSyncError + ('fd, 'addr) SourceConfig" where
  "load_source H root =
     and_then (open_root H root) (\<lambda>root.
     and_then (validate_admin_directory H (root_path root)) (\<lambda>admin.
     and_then (validate_private_key H admin) (\<lambda>private_key.
     and_then (read_toml H (source_from_toml H) (join_path admin SOURCE_CONFIG)) (\<lambda>raw.
     and_then (validate_exclusions (raw_global_exclusions raw)) (\<lambda>global_exclusions.
     and_then (root_id_parse (raw_root_id raw)) (\<lambda>root_id.
     and_then (parse_address H ''destination'' (raw_destination raw)) (\<lambda>destination.
     and_then (peer_pin_parse (raw_peer_pin raw)) (\<lambda>peer_pin.
     and_then (raw_limits_resolve (raw_source_limits raw)) (\<lambda>limits.
     Inr \<lparr>source_root = root, source_root_id = root_id, source_destination = destination,
        source_peer_pin = peer_pin, source_global_exclusions = global_exclusions,
        source_limits = limits, source_private_key = private_key\<rparr>)))))))))"

text \<open>One authorized peer of a root: the pins collected so far and the next text.\<close>

definition add_pin :: "RootId \<Rightarrow> PeerPin list \<Rightarrow> bytes \<Rightarrow> QuicSyncError + PeerPin list" where
  "add_pin rid pins v =
     and_then (peer_pin_parse v) (\<lambda>pin.
     if pin \<in> set pins
     then Inl (invalid (''destination root '' @ quoted (text_of (root_id_str rid)) @
            '' contains a duplicate peer pin''))
     else Inr (pins @ [pin]))"

text \<open>
  One configured root: the roots collected so far stand for the source's two sets as well, of the
  ids and of the filesystem identities seen.
\<close>

definition add_root ::
    "('fd, 'addr) host \<Rightarrow> bytes \<Rightarrow> 'fd DestinationRoot list \<Rightarrow> RawDestinationRoot \<Rightarrow>
     QuicSyncError + 'fd DestinationRoot list" where
  "add_root H setup rs raw =
     and_then (root_id_parse (raw_id raw)) (\<lambda>rid.
     if rid \<in> set (map destination_id rs)
     then Inl (invalid (''duplicate root ID '' @ quoted (text_of (root_id_str rid))))
     else if raw_authorized_peers raw = []
     then Inl (invalid (''destination root '' @ quoted (text_of (root_id_str rid)) @
            '' has no authorized peers''))
     else
       let p = (if raw_path raw \<noteq> [] \<and> hd (raw_path raw) = 47 then raw_path raw
                else join_path setup (raw_path raw)) in
       and_then (open_root H p) (\<lambda>root.
       if root_identity root \<in> set (map (\<lambda>r. root_identity (destination_root r)) rs)
       then Inl (invalid ''the same destination root is configured more than once'')
       else and_then (try_fold (add_pin rid) [] (raw_authorized_peers raw)) (\<lambda>pins.
         Inr (rs @ [\<lparr>destination_id = rid, destination_root = root, authorized_peers = pins\<rparr>]))))"

definition load_destination ::
    "('fd, 'addr) host \<Rightarrow> bytes \<Rightarrow> QuicSyncError + ('fd, 'addr) DestinationConfig" where
  "load_destination H setup =
     and_then (open_root H setup) (\<lambda>setup_root.
     and_then (validate_admin_directory H (root_path setup_root)) (\<lambda>admin.
     and_then (validate_private_key H admin) (\<lambda>private_key.
     and_then (read_toml H (destination_from_toml H) (join_path admin DESTINATION_CONFIG)) (\<lambda>raw.
     if raw_roots raw = [] then Inl (invalid ''at least one destination root is required'')
     else
       and_then (try_fold (add_root H (root_path setup_root)) [] (raw_roots raw)) (\<lambda>rs.
       and_then (parse_address H ''listen_address'' (raw_listen_address raw)) (\<lambda>listen.
       and_then (raw_limits_resolve (raw_destination_limits raw)) (\<lambda>limits.
       Inr \<lparr>listen_address = listen, roots = rs, destination_limits = limits,
          destination_private_key = private_key\<rparr>)))))))"

section \<open>What a loaded configuration guarantees\<close>

definition root_id_ok :: "RootId \<Rightarrow> bool" where
  "root_id_ok i \<longleftrightarrow>
     root_id_str i \<noteq> [] \<and> length (root_id_str i) \<le> 128 \<and> list_all root_id_byte (root_id_str i)"

definition pin_ok :: "PeerPin \<Rightarrow> bool" where
  "pin_ok p \<longleftrightarrow> length (pin_bytes p) = 32"

text \<open>A regular file of the current user, opened without following a link, with mode \<open>0600\<close>.\<close>

definition key_secure :: "('fd, 'addr) host \<Rightarrow> bytes \<Rightarrow> bool" where
  "key_secure H p \<longleftrightarrow>
     (\<exists>fd m. host_open H p = Inr fd \<and> host_fstat H fd = Inr m \<and> host_is_file m \<and>
        host_uid m = host_geteuid H \<and> host_mode m AND 511 = 384)"

definition root_opened :: "('fd, 'addr) host \<Rightarrow> 'fd ValidatedRoot \<Rightarrow> bool" where
  "root_opened H r \<longleftrightarrow>
     (\<exists>m l. host_fstat H (root_directory r) = Inr m \<and> host_is_dir m \<and>
        root_identity r = (host_dev m, host_ino m) \<and>
        host_symlink_metadata H (root_path r) = Inr l \<and> \<not> host_is_symlink l)"

definition source_config_ok :: "('fd, 'addr) host \<Rightarrow> ('fd, 'addr) SourceConfig \<Rightarrow> bool" where
  "source_config_ok H c \<longleftrightarrow>
     root_opened H (source_root c) \<and> root_id_ok (source_root_id c) \<and> pin_ok (source_peer_pin c) \<and>
     limits_ok (source_limits c) \<and> distinct (source_global_exclusions c) \<and>
     list_all (\<lambda>x. x \<noteq> [] \<and> 0 \<notin> set x) (source_global_exclusions c) \<and>
     key_secure H (source_private_key c)"

definition destination_root_ok :: "('fd, 'addr) host \<Rightarrow> 'fd DestinationRoot \<Rightarrow> bool" where
  "destination_root_ok H r \<longleftrightarrow>
     root_opened H (destination_root r) \<and> root_id_ok (destination_id r) \<and>
     authorized_peers r \<noteq> [] \<and> distinct (authorized_peers r) \<and> list_all pin_ok (authorized_peers r)"

definition roots_ok :: "('fd, 'addr) host \<Rightarrow> 'fd DestinationRoot list \<Rightarrow> bool" where
  "roots_ok H rs \<longleftrightarrow>
     list_all (destination_root_ok H) rs \<and> distinct (map destination_id rs) \<and>
     distinct (map (\<lambda>r. root_identity (destination_root r)) rs)"

definition destination_config_ok :: "('fd, 'addr) host \<Rightarrow> ('fd, 'addr) DestinationConfig \<Rightarrow> bool" where
  "destination_config_ok H c \<longleftrightarrow>
     roots c \<noteq> [] \<and> roots_ok H (roots c) \<and> limits_ok (destination_limits c) \<and> key_secure H (destination_private_key c)"

lemma root_id_parse_Inr: "root_id_parse v = Inr i \<longleftrightarrow> i = RootId v \<and> root_id_ok i"
  by (auto simp: root_id_parse_def root_id_ok_def)

lemma parse_hex_length: "parse_hex_pairs v = Inr bs \<Longrightarrow> length bs = length v div 2"
  by (induction v arbitrary: bs rule: parse_hex_pairs.induct) (auto simp: result_simps)

lemma peer_pin_parse_ok: "peer_pin_parse v = Inr p \<Longrightarrow> pin_ok p"
  by (auto simp: peer_pin_parse_def pin_ok_def result_simps dest: parse_hex_length split: if_splits)

lemma open_root_ok: "open_root H p = Inr r \<Longrightarrow> root_opened H r \<and> root_path r = p"
  by (auto simp: open_root_def root_opened_def root_identity_def reject_symlink_def result_simps split: if_splits)

lemma validate_private_key_ok: "validate_private_key H admin = Inr p \<Longrightarrow> key_secure H p"
  by (auto simp: validate_private_key_def key_secure_def open_secure_file_def validate_owner_def
      result_simps Let_def split: if_splits)

lemma raw_limits_resolve_ok: "raw_limits_resolve r = Inr l \<Longrightarrow> limits_ok l"
  by (simp add: raw_limits_resolve_def limits_validate_Inr)

lemma validate_exclusions_fold:
  "try_fold validate_exclusion seen vs = Inr out \<Longrightarrow> distinct seen \<Longrightarrow>
     distinct vs \<and> set vs \<inter> set seen = {} \<and> list_all (\<lambda>x. x \<noteq> [] \<and> 0 \<notin> set x) vs"
  by (induction vs arbitrary: seen)
    (auto simp: validate_exclusion_def result_simps split: if_splits; fastforce)+

lemma validate_exclusions_ok:
  "validate_exclusions vs = Inr ws \<Longrightarrow> ws = vs \<and> distinct vs \<and> list_all (\<lambda>x. x \<noteq> [] \<and> 0 \<notin> set x) vs"
  by (auto simp: validate_exclusions_def result_simps dest: validate_exclusions_fold)

lemma add_pin_Inr:
  "add_pin i pins v = Inr out \<longleftrightarrow> (\<exists>pin. peer_pin_parse v = Inr pin \<and> pin \<notin> set pins \<and> out = pins @ [pin])"
  by (auto simp: add_pin_def result_simps)

lemma add_pins_ok:
  "try_fold (add_pin i) pins vs = Inr out \<Longrightarrow> distinct pins \<and> list_all pin_ok pins \<Longrightarrow>
     distinct out \<and> list_all pin_ok out \<and> length out = length pins + length vs"
proof (induction vs arbitrary: pins)
  case (Cons v vs)
  then obtain pin where "peer_pin_parse v = Inr pin" "pin \<notin> set pins"
      "try_fold (add_pin i) (pins @ [pin]) vs = Inr out"
    by (auto simp: add_pin_Inr result_simps)
  with Cons.IH [of "pins @ [pin]"] Cons.prems(2) show ?case by (simp add: peer_pin_parse_ok)
qed simp

lemma add_root_ok:
  assumes "add_root H setup rs raw = Inr rs'" and "roots_ok H rs"
  shows "roots_ok H rs' \<and> length rs' = Suc (length rs)"
proof -
  from assms(1) obtain rid root pins where
      rid: "root_id_parse (raw_id raw) = Inr rid" "rid \<notin> set (map destination_id rs)"
    and root: "root_opened H root" "root_identity root \<notin> set (map (\<lambda>r. root_identity (destination_root r)) rs)"
    and peers: "raw_authorized_peers raw \<noteq> []" "try_fold (add_pin rid) [] (raw_authorized_peers raw) = Inr pins"
    and out: "rs' = rs @ [\<lparr>destination_id = rid, destination_root = root, authorized_peers = pins\<rparr>]"
    by (auto simp: add_root_def Let_def result_simps dest: open_root_ok split: if_splits)
  from add_pins_ok [OF peers(2)] peers(1) have "distinct pins" "list_all pin_ok pins" "pins \<noteq> []" by auto
  with rid root assms(2) show ?thesis
    unfolding out by (auto simp: roots_ok_def destination_root_ok_def root_id_parse_Inr)
qed

lemma add_roots_ok:
  "try_fold (add_root H setup) rs raws = Inr rs' \<Longrightarrow> roots_ok H rs \<Longrightarrow>
     roots_ok H rs' \<and> length rs' = length rs + length raws"
proof (induction raws arbitrary: rs)
  case (Cons raw raws)
  then obtain mid where mid: "add_root H setup rs raw = Inr mid" "try_fold (add_root H setup) mid raws = Inr rs'"
    by (auto simp: result_simps)
  from add_root_ok [OF mid(1) Cons.prems(2)] Cons.IH [OF mid(2)] show ?case by simp
qed simp

text \<open>
  C25. What loading guarantees. A source configuration that loads has a directory root that is no symbolic
  link, a valid root id, a pin of 32 bytes, limits within their bounds, distinct non-empty
  exclusions without NUL and a private key readable by the user alone. A destination configuration
  that loads has at least one root; each root has a valid id, at least one peer and no repeated
  pin; no two roots share an id or a directory.\<close>

theorem loaded_configuration_valid:
  "(load_source H p = Inr s \<longrightarrow> source_config_ok H s) \<and>
   (load_destination H p = Inr d \<longrightarrow> destination_config_ok H d)"
proof (intro conjI impI)
  assume "load_source H p = Inr s"
  then show "source_config_ok H s"
    by (auto simp: load_source_def source_config_ok_def result_simps root_id_parse_Inr
        dest: open_root_ok validate_private_key_ok peer_pin_parse_ok raw_limits_resolve_ok validate_exclusions_ok)
next
  assume load: "load_destination H p = Inr d"
  have "roots_ok H []" by (simp add: roots_ok_def)
  with load show "destination_config_ok H d"
    by (auto simp: load_destination_def destination_config_ok_def result_simps 
        dest: validate_private_key_ok raw_limits_resolve_ok add_roots_ok split: if_splits)
qed

text \<open>A host for concrete inputs: a path of more than eleven bytes is a file, any other a directory.\<close>

definition sample_host_meta :: "bytes \<Rightarrow> HostMetadata" where
  "sample_host_meta p =
     (let f = drop 11 p \<noteq> [] in
      \<lparr>host_is_dir = \<not> f, host_is_file = f, host_is_symlink = False, host_uid = 7,
       host_mode = (if f then 384 else 493), host_dev = 1, host_ino = word_of_nat (length p)\<rparr>)"

definition sample_raw_limits :: RawLimits where
  "sample_raw_limits = \<lparr>raw_frame_bytes = None, raw_path_bytes = None, raw_components = None,
     raw_parallel_hashes = None, raw_parallel_transfers = Some 2, raw_inflight_bytes = None\<rparr>"

definition sample_host :: "(bytes, bytes) host" where
  "sample_host =
     \<lparr>host_symlink_metadata = (\<lambda>p. Inr (sample_host_meta p)), host_metadata = (\<lambda>p. Inr (sample_host_meta p)),
      host_open_dir = Inr, host_open = Inr, host_fstat = (\<lambda>p. Inr (sample_host_meta p)),
      host_read_to_string = (\<lambda>_. Inr []), host_geteuid = 7,
      source_from_toml = (\<lambda>_. Inr \<lparr>raw_root_id = [97], raw_destination = [49],
        raw_peer_pin = replicate 64 49, raw_global_exclusions = [[97]], raw_source_limits = sample_raw_limits\<rparr>),
      destination_from_toml = (\<lambda>_. Inr \<lparr>raw_listen_address = [49],
        raw_roots = [\<lparr>raw_id = [97], raw_path = [46], raw_authorized_peers = [replicate 64 49, replicate 64 50]\<rparr>,
          \<lparr>raw_id = [98], raw_path = [47, 98, 99, 100], raw_authorized_peers = [replicate 64 49]\<rparr>],
        raw_destination_limits = sample_raw_limits\<rparr>),
      address_from_str = Inr\<rparr>"

theorem loaded_configuration_valid_witness:
  "\<exists>s d. load_source sample_host [47] = Inr s \<and> load_destination sample_host [47] = Inr d \<and>
     source_config_ok sample_host s \<and> destination_config_ok sample_host d"
proof -
  have "is_ok (load_source sample_host [47])" by code_simp
  moreover have "is_ok (load_destination sample_host [47])" by code_simp
  ultimately obtain s d where "load_source sample_host [47] = Inr s" "load_destination sample_host [47] = Inr d"
    unfolding is_ok_iff by blast
  with loaded_configuration_valid [of sample_host "[47]" s d] show ?thesis by blast
qed

end
