(* ===== verification/Auth.thy ===== *)
theory Auth
  imports Samples Config
begin

text \<open>
  Identities, pins and authorization, \<open>crates/quicsync-core/src/auth.rs\<close>. The cryptographic
  libraries are parameters: \<open>sha256\<close>, and the record \<open>ed25519\<close> for key pairs. The files of an
  identity are reached through the record \<open>id_store\<close>, one function per call of the standard library.
  TLS itself is not modelled; the certificate verifiers it is configured with are.
\<close>

section \<open>Fingerprints\<close>

datatype Fingerprint = Fingerprint (fingerprint_bytes: bytes)

definition fingerprint_ok :: "Fingerprint \<Rightarrow> bool" where
  "fingerprint_ok f \<longleftrightarrow> length (fingerprint_bytes f) = 32"

datatype FingerprintParseError = FingerprintParseError

fun split_colon :: "bytes \<Rightarrow> bytes list" where
  "split_colon [] = [[]]"
| "split_colon (b # bs) =
     (if b = 58 then [] # split_colon bs
      else case split_colon bs of p # ps \<Rightarrow> (b # p) # ps | [] \<Rightarrow> [[b]])"

text \<open>
  \<open>char::to_digit\<close> and \<open>u8::from_str_radix(s, 16)\<close> for a string of two bytes: a leading plus sign is
  accepted when a digit follows it.
\<close>

definition to_digit16 :: "u8 \<Rightarrow> u8 option" where
  "to_digit16 c =
     (if 48 \<le> c \<and> c \<le> 57 then Some (c - 48)
      else if 97 \<le> c \<and> c \<le> 102 then Some (c - 87)
      else if 65 \<le> c \<and> c \<le> 70 then Some (c - 55)
      else None)"

definition from_str_radix16 :: "u8 \<Rightarrow> u8 \<Rightarrow> u8 option" where
  "from_str_radix16 a b =
     (if a = 43 then to_digit16 b
      else case (to_digit16 a, to_digit16 b) of
          (Some hi, Some lo) \<Rightarrow> Some (hi * 16 + lo)
        | _ \<Rightarrow> None)"

text \<open>
  \<open>&compact[i..i + 2]\<close> panics unless both ends are character boundaries, which a position is when the
  text ends there or no continuation byte stands there.
\<close>

definition char_boundary :: "bytes \<Rightarrow> bool" where
  "char_boundary tail \<longleftrightarrow> tail = [] \<or> \<not> (0x80 \<le> hd tail \<and> hd tail \<le> 0xBF)"

text \<open>The loop over the 32 pairs; \<open>None\<close> is a panic.\<close>

fun parse_pairs :: "nat \<Rightarrow> bytes \<Rightarrow> (FingerprintParseError + bytes) option" where
  "parse_pairs 0 cs = Some (Inr [])"
| "parse_pairs (Suc n) (a # b # cs) =
     (if \<not> char_boundary (a # b # cs) \<or> \<not> char_boundary cs then None
      else case from_str_radix16 a b of
          None \<Rightarrow> Some (Inl FingerprintParseError)
        | Some v \<Rightarrow> map_option (map_ok (\<lambda>bs. v # bs)) (parse_pairs n cs))"
| "parse_pairs (Suc n) cs = None"

definition fingerprint_from_str :: "bytes \<Rightarrow> (FingerprintParseError + Fingerprint) option" where
  "fingerprint_from_str v =
     (let compact =
        (if length v = 95
         then let groups = split_colon v in
           if length groups \<noteq> 32 \<or> list_ex (\<lambda>g. length g \<noteq> 2) groups then Inl FingerprintParseError
           else Inr (concat groups)
         else if length v = 64 then Inr v
         else Inl FingerprintParseError)
      in case compact of
           Inl e \<Rightarrow> Some (Inl e)
         | Inr c \<Rightarrow> map_option (map_ok Fingerprint) (parse_pairs 32 c))"

definition format_02X :: "u8 \<Rightarrow> bytes" where
  "format_02X b = [hex_upper (drop_bit 4 b), hex_upper (b AND 15)]"

fun write_groups :: "bytes \<Rightarrow> bytes" where
  "write_groups [] = []"
| "write_groups [b] = format_02X b"
| "write_groups (b # bs) = format_02X b @ 58 # write_groups bs"

definition fingerprint_display :: "Fingerprint \<Rightarrow> bytes" where
  "fingerprint_display f = write_groups (fingerprint_bytes f)"

text \<open>What \<open>quicsync init\<close> and \<open>quicsyncd init\<close> print.\<close>

definition init_output :: "Fingerprint \<Rightarrow> bytes" where
  "init_output f = concat (map format_02x (fingerprint_bytes f))"

section \<open>DER\<close>

definition be_bytes :: "nat \<Rightarrow> bytes" where
  "be_bytes n = rev (to_le_bytes 8 (word_of_nat n :: usize))"

definition der :: "u8 \<Rightarrow> bytes \<Rightarrow> bytes" where
  "der tag v =
     tag # (if length v < 128 then [word_of_nat (length v)]
            else let first = dropWhile (\<lambda>b. b = 0) (be_bytes (length v));
                     tail = (if first = [] then [last (be_bytes (length v))] else first)
                 in (0x80 OR word_of_nat (length tail)) # tail) @ v"

definition der_sequence :: "bytes list \<Rightarrow> bytes" where
  "der_sequence vs = der 0x30 (concat vs)"

text \<open>\<open>checked_mul(256)\<close> and \<open>checked_add\<close> on \<open>usize\<close>.\<close>

definition checked_shift :: "nat \<Rightarrow> u8 \<Rightarrow> nat option" where
  "checked_shift len b =
     (if len * 256 < 2 ^ 64 \<and> len * 256 + unat b < 2 ^ 64 then Some (len * 256 + unat b) else None)"

fun der_length :: "nat \<Rightarrow> bytes \<Rightarrow> nat option" where
  "der_length len [] = Some len"
| "der_length len (b # bs) = (case checked_shift len b of None \<Rightarrow> None | Some l \<Rightarrow> der_length l bs)"

definition split_at_checked :: "nat \<Rightarrow> bytes \<Rightarrow> unit + (bytes \<times> bytes)" where
  "split_at_checked n bs = (if n \<le> length bs then Inr (take n bs, drop n bs) else Inl ())"

fun der_value :: "bytes \<Rightarrow> unit + (u8 \<times> bytes \<times> bytes)" where
  "der_value (tag # first_length # tail) =
     and_then (if first_length AND 0x80 = 0 then Inr (unat first_length, tail)
       else
         let length_bytes = unat (first_length AND 0x7F) in
         if length_bytes = 0 \<or> length_bytes > 8 then Inl ()
         else
           and_then (split_at_checked length_bytes tail) (\<lambda>(encoded, after).
           if hd encoded = 0 then Inl ()
           else and_then (ok_or () (der_length 0 encoded)) (\<lambda>len.
             if len < 128 then Inl () else Inr (len, after)))) (\<lambda>(len, content).
     and_then (split_at_checked len content) (\<lambda>(v, remaining).
       Inr (tag, v, remaining)))"
| "der_value _ = Inl ()"

definition fingerprint_spki :: "(bytes \<Rightarrow> bytes) \<Rightarrow> bytes \<Rightarrow> Fingerprint" where
  "fingerprint_spki sha256 spki = Fingerprint (sha256 spki)"

text \<open>\<open>tbs = der_value(tbs)?.2\<close>, and its repetition.\<close>

definition der_skip :: "bytes \<Rightarrow> unit + bytes" where
  "der_skip bs = map_ok (\<lambda>(_, _, remaining). remaining) (der_value bs)"

definition fingerprint_certificate :: "(bytes \<Rightarrow> bytes) \<Rightarrow> bytes \<Rightarrow> unit + Fingerprint" where
  "fingerprint_certificate sha256 certificate =
     and_then (der_value certificate) (\<lambda>(certificate_tag, certificate_value, remaining).
     if certificate_tag \<noteq> 0x30 \<or> remaining \<noteq> [] then Inl ()
     else
       and_then (der_value certificate_value) (\<lambda>(tbs_tag, tbs, _).
       if tbs_tag \<noteq> 0x30 then Inl ()
       else
         and_then (if tbs \<noteq> [] \<and> hd tbs = 0xA0 then der_skip tbs else Inr tbs) (\<lambda>tbs.
         and_then (try_fold (\<lambda>bs _. der_skip bs) tbs [0..<5]) (\<lambda>spki_start.
         and_then (der_value spki_start) (\<lambda>(spki_tag, _, spki_remaining).
         if spki_tag \<noteq> 0x30 then Inl ()
         else Inr (fingerprint_spki sha256
                (take (length spki_start - length spki_remaining) spki_start)))))))"

definition configuration_error :: "string \<Rightarrow> QuicSyncError" where
  "configuration_error d = quic_sync_error_new InvalidConfiguration None d"

definition from_certificate_der :: "(bytes \<Rightarrow> bytes) \<Rightarrow> bytes \<Rightarrow> QuicSyncError + Fingerprint" where
  "from_certificate_der sha256 certificate =
     map_err (\<lambda>_. quic_sync_error_new AuthenticationFailed (Some Handshake)
       ''peer supplied a malformed certificate'') (fingerprint_certificate sha256 certificate)"

section \<open>Certificates\<close>

text \<open>
  The key pairs of the \<open>ring\<close> crate and its random source, as the code uses them: \<open>from_pkcs8\<close> may
  reject its input, \<open>generate_pkcs8\<close> and \<open>random_fill\<close> may fail.
\<close>

record 'k ed25519 =
  from_pkcs8 :: "bytes \<Rightarrow> 'k option"
  public_key :: "'k \<Rightarrow> bytes"
  sign_with :: "'k \<Rightarrow> bytes \<Rightarrow> bytes"
  generate_pkcs8 :: "bytes option"
  random_fill :: "bytes option"

definition ED25519_ALGORITHM :: bytes where
  "ED25519_ALGORITHM = [0x30, 0x05, 0x06, 0x03, 0x2B, 0x65, 0x70]"

definition EMPTY_NAME :: bytes where
  "EMPTY_NAME = [0x30, 0x00]"

definition VALIDITY :: bytes where
  "VALIDITY =
     [0x30, 0x1E, 0x17, 0x0D, 50, 53, 48, 49, 48, 49, 48, 48, 48, 48, 48, 48, 90,
      0x17, 0x0D, 52, 57, 49, 50, 51, 49, 50, 51, 53, 57, 53, 57, 90]"

definition ed25519_spki :: "bytes \<Rightarrow> bytes" where
  "ed25519_spki key = der_sequence [ED25519_ALGORITHM, der 0x03 (0 # key)]"

text \<open>\<open>serial[0] &= 0x7f; if serial[0] == 0 { serial[0] = 1 }\<close>\<close>

definition positive_serial :: "bytes \<Rightarrow> bytes" where
  "positive_serial serial =
     (let serial = serial[0 := serial ! 0 AND 0x7F]
      in if serial ! 0 = 0 then serial[0 := 1] else serial)"

definition self_signed_certificate :: "'k ed25519 \<Rightarrow> 'k \<Rightarrow> QuicSyncError + bytes" where
  "self_signed_certificate ring key_pair =
     and_then (ok_or (configuration_error ''generate certificate serial number'') (random_fill ring))
       (\<lambda>serial.
        let version = der 0xA0 (der 0x02 [2]);
            serial = der 0x02 (positive_serial serial);
            spki = ed25519_spki (public_key ring key_pair);
            tbs = der_sequence
              [version, serial, ED25519_ALGORITHM, EMPTY_NAME, VALIDITY, EMPTY_NAME, spki];
            signature = der 0x03 (0 # sign_with ring key_pair tbs)
        in Inr (der_sequence [tbs, ED25519_ALGORITHM, signature]))"

section \<open>Persisted identities\<close>

record Identity =
  certificate :: bytes
  private_key :: bytes
  fingerprint :: Fingerprint

definition identity_from_der ::
    "(bytes \<Rightarrow> bytes) \<Rightarrow> 'k ed25519 \<Rightarrow> bytes \<Rightarrow> bytes \<Rightarrow> QuicSyncError + Identity" where
  "identity_from_der sha256 ring cert key =
     and_then (ok_or (configuration_error ''parse identity private key'') (from_pkcs8 ring key))
       (\<lambda>key_pair.
     and_then (map_err (\<lambda>_. configuration_error ''parse identity certificate'')
         (fingerprint_certificate sha256 cert)) (\<lambda>certificate_fingerprint.
     let key_fingerprint = fingerprint_spki sha256 (ed25519_spki (public_key ring key_pair)) in
     if certificate_fingerprint \<noteq> key_fingerprint
     then Inl (configuration_error ''identity certificate does not match identity private key'')
     else Inr \<lparr>certificate = cert, private_key = key, fingerprint = key_fingerprint\<rparr>))"

text \<open>
  The identity directory as the code reaches it. An I/O error is its text. \<open>identity.crt\<close> and
  \<open>identity.key\<close> are the two files named in it; \<open>create_new\<close> is \<open>OpenOptions\<close> with \<open>write\<close> and
  \<open>create_new\<close>, given the permission bits of the new file, and \<open>write_all_sync\<close> is \<open>write_all\<close>
  followed by \<open>sync_all\<close> on the file just created. \<open>438\<close>, \<open>384\<close>, \<open>448\<close> and \<open>63\<close> are \<open>0o666\<close>
  (the default of \<open>OpenOptions\<close>), \<open>0o600\<close>, \<open>0o700\<close> and \<open>0o077\<close>.
\<close>

datatype id_file = CERTIFICATE_FILE | PRIVATE_KEY_FILE

record id_metadata =
  is_regular :: bool
  is_directory :: bool
  meta_uid :: u32
  meta_mode :: u32

record 's id_store =
  create_dir_all :: "'s \<Rightarrow> 's \<times> (string + unit)"
  directory_metadata :: "'s \<Rightarrow> string + id_metadata"
  set_permissions :: "'s \<Rightarrow> u32 \<Rightarrow> 's \<times> (string + unit)"
  file_exists :: "'s \<Rightarrow> id_file \<Rightarrow> bool"
  file_symlink_metadata :: "'s \<Rightarrow> id_file \<Rightarrow> string + id_metadata"
  file_metadata :: "'s \<Rightarrow> id_file \<Rightarrow> string + id_metadata"
  file_read :: "'s \<Rightarrow> id_file \<Rightarrow> string + bytes"
  create_new :: "'s \<Rightarrow> id_file \<Rightarrow> u32 \<Rightarrow> 's \<times> (string + unit)"
  write_all_sync :: "'s \<Rightarrow> id_file \<Rightarrow> bytes \<Rightarrow> 's \<times> (string + unit)"
  remove_file :: "'s \<Rightarrow> id_file \<Rightarrow> 's \<times> (string + unit)"
  geteuid :: u32

definition identity_error :: "string \<Rightarrow> string \<Rightarrow> QuicSyncError" where
  "identity_error action e = configuration_error (action @ '': '' @ e)"

definition map_do_err :: "('e \<Rightarrow> 'f) \<Rightarrow> 's \<times> ('e + 'a) \<Rightarrow> 's \<times> ('f + 'a)" where
  "map_do_err f m = (fst m, map_err f (snd m))"

definition write_new :: "'s id_store \<Rightarrow> 's \<Rightarrow> id_file \<Rightarrow> bytes \<Rightarrow> 's \<times> (QuicSyncError + unit)" where
  "write_new fs s f contents =
     and_do (map_do_err (identity_error ''create identity file'') (create_new fs s f 438)) (\<lambda>s _.
     map_do_err (identity_error ''persist identity file'') (write_all_sync fs s f contents))"

definition write_new_private_key ::
    "'s id_store \<Rightarrow> 's \<Rightarrow> bytes \<Rightarrow> 's \<times> (QuicSyncError + unit)" where
  "write_new_private_key fs s contents =
     and_do (map_do_err (identity_error ''create identity private key'')
       (create_new fs s PRIVATE_KEY_FILE 384)) (\<lambda>s _.
     map_do_err (identity_error ''persist identity private key'')
       (write_all_sync fs s PRIVATE_KEY_FILE contents))"

definition set_directory_permissions :: "'s id_store \<Rightarrow> 's \<Rightarrow> 's \<times> (QuicSyncError + unit)" where
  "set_directory_permissions fs s =
     (case directory_metadata fs s of
        Inl e \<Rightarrow> (s, Inl (identity_error ''inspect identity directory'' e))
      | Inr m \<Rightarrow>
          if meta_uid m \<noteq> geteuid fs
          then (s, Inl (configuration_error ''identity directory must be owned by the current user''))
          else map_do_err (identity_error ''secure identity directory'') (set_permissions fs s 448))"

definition check_private_key_permissions :: "'s id_store \<Rightarrow> 's \<Rightarrow> QuicSyncError + unit" where
  "check_private_key_permissions fs s =
     and_then (map_err (identity_error ''inspect identity private key'')
       (file_metadata fs s PRIVATE_KEY_FILE)) (\<lambda>m.
     if meta_uid m \<noteq> geteuid fs
     then Inl (configuration_error ''identity private key must be owned by the current user'')
     else if meta_mode m AND 63 \<noteq> 0
     then Inl (configuration_error
       ''identity private key must not be accessible by group or other users'')
     else Inr ())"

definition check_regular_file :: "'s id_store \<Rightarrow> 's \<Rightarrow> id_file \<Rightarrow> string \<Rightarrow> QuicSyncError + unit" where
  "check_regular_file fs s f name =
     and_then (map_err (identity_error ''inspect identity file'') (file_symlink_metadata fs s f)) (\<lambda>m.
     if \<not> is_regular m then Inl (configuration_error (name @ '' must be a regular file''))
     else Inr ())"

definition identity_load ::
    "(bytes \<Rightarrow> bytes) \<Rightarrow> 'k ed25519 \<Rightarrow> 's id_store \<Rightarrow> 's \<Rightarrow> QuicSyncError + Identity" where
  "identity_load sha256 ring fs s =
     and_then (check_regular_file fs s CERTIFICATE_FILE ''identity certificate'') (\<lambda>_.
     and_then (check_regular_file fs s PRIVATE_KEY_FILE ''identity private key'') (\<lambda>_.
     and_then (check_private_key_permissions fs s) (\<lambda>_.
     and_then (map_err (identity_error ''read identity certificate'')
       (file_read fs s CERTIFICATE_FILE)) (\<lambda>cert.
     and_then (map_err (identity_error ''read identity private key'')
       (file_read fs s PRIVATE_KEY_FILE)) (\<lambda>key.
     identity_from_der sha256 ring cert key)))))"

text \<open>The first half of \<open>create\<close> makes the key and its certificate, the second half stores them.\<close>

definition generate_identity :: "'k ed25519 \<Rightarrow> QuicSyncError + (bytes \<times> bytes)" where
  "generate_identity ring =
     and_then (ok_or (configuration_error ''generate identity key'') (generate_pkcs8 ring)) (\<lambda>key.
     and_then (ok_or (configuration_error ''parse generated identity key'') (from_pkcs8 ring key))
       (\<lambda>key_pair.
     map_ok (Pair key) (self_signed_certificate ring key_pair)))"

definition identity_create ::
    "(bytes \<Rightarrow> bytes) \<Rightarrow> 'k ed25519 \<Rightarrow> 's id_store \<Rightarrow> 's \<Rightarrow> 's \<times> (QuicSyncError + Identity)" where
  "identity_create sha256 ring fs s =
     and_do (s, generate_identity ring) (\<lambda>s (key, cert).
     and_do (write_new_private_key fs s key) (\<lambda>s _.
     case write_new fs s CERTIFICATE_FILE cert of
       (s, Inl e) \<Rightarrow> (fst (remove_file fs s PRIVATE_KEY_FILE), Inl e)
     | (s, Inr _) \<Rightarrow> (s, identity_from_der sha256 ring cert key)))"

definition identity_load_or_create ::
    "(bytes \<Rightarrow> bytes) \<Rightarrow> 'k ed25519 \<Rightarrow> 's id_store \<Rightarrow> 's \<Rightarrow> 's \<times> (QuicSyncError + Identity)" where
  "identity_load_or_create sha256 ring fs s =
     and_do (map_do_err (identity_error ''create identity directory'') (create_dir_all fs s)) (\<lambda>s _.
     and_do (s, map_err (identity_error ''inspect identity directory'') (directory_metadata fs s))
       (\<lambda>s m.
     if \<not> is_directory m
     then (s, Inl (configuration_error ''identity directory must not be a symbolic link''))
     else and_do (set_directory_permissions fs s) (\<lambda>s _.
       case (file_exists fs s CERTIFICATE_FILE, file_exists fs s PRIVATE_KEY_FILE) of
         (True, True) \<Rightarrow> (s, identity_load sha256 ring fs s)
       | (False, False) \<Rightarrow> identity_create sha256 ring fs s
       | _ \<Rightarrow> (s, Inl (configuration_error
             ''identity certificate and private key must either both exist or both be absent'')))))"

section \<open>Grants\<close>

datatype Direction = SourceToDestination | DestinationToSource

text \<open>The \<open>PeerPin\<close> of \<open>auth.rs\<close>; that of \<open>config.rs\<close> is \<open>PeerPin\<close> in \<open>Config\<close>.\<close>

datatype auth_pin = AuthPin (auth_pin_fingerprint: Fingerprint)

definition auth_pin_from_str :: "bytes \<Rightarrow> (FingerprintParseError + auth_pin) option" where
  "auth_pin_from_str v = map_option (map_ok AuthPin) (fingerprint_from_str v)"

datatype PeerGrant = PeerGrant (grant_pin: auth_pin) (grant_root: bytes) (grant_direction: Direction)

record Authorization =
  authorized_peer :: Fingerprint
  authorized_root :: bytes
  authorized_direction :: Direction

datatype Authorizer = Authorizer (grants: "PeerGrant set")

definition validate_root_id :: "bytes \<Rightarrow> QuicSyncError + unit" where
  "validate_root_id root_id =
     (if root_id = [] \<or> length root_id > 255 \<or>
         list_ex (\<lambda>b. \<not> is_ascii_alphanumeric b \<and> b \<noteq> 45 \<and> b \<noteq> 95 \<and> b \<noteq> 46) root_id
      then Inl (configuration_error
        ''root ID must be 1-255 ASCII letters, digits, dots, dashes, or underscores'')
      else Inr ())"

definition add_grant :: "PeerGrant set \<Rightarrow> PeerGrant \<Rightarrow> QuicSyncError + PeerGrant set" where
  "add_grant validated grant =
     and_then (validate_root_id (grant_root grant)) (\<lambda>_.
     if grant \<in> validated then Inl (configuration_error ''duplicate peer authorization grant'')
     else Inr (insert grant validated))"

definition authorizer_new :: "PeerGrant list \<Rightarrow> QuicSyncError + Authorizer" where
  "authorizer_new gs = map_ok Authorizer (try_fold add_grant {} gs)"

definition authorizer_authorize ::
    "Authorizer \<Rightarrow> Fingerprint \<Rightarrow> bytes \<Rightarrow> Direction \<Rightarrow> QuicSyncError + Authorization" where
  "authorizer_authorize a peer root_id direction =
     (if PeerGrant (AuthPin peer) root_id direction \<in> grants a
      then Inr \<lparr>authorized_peer = peer, authorized_root = root_id, authorized_direction = direction\<rparr>
      else Inl (quic_sync_error_new AuthorizationDenied (Some Handshake)
        ''peer is not authorized for requested root and direction''))"

section \<open>TLS verifiers\<close>

datatype tls_error = BadEncoding | UnknownIssuer

definition verify_pin ::
    "(bytes \<Rightarrow> bytes) \<Rightarrow> bytes \<Rightarrow> (Fingerprint \<Rightarrow> bool) \<Rightarrow> tls_error + unit" where
  "verify_pin sha256 cert accepted =
     and_then (map_err (\<lambda>_. BadEncoding) (fingerprint_certificate sha256 cert)) (\<lambda>f.
     if accepted f then Inr () else Inl UnknownIssuer)"

datatype PinnedServerVerifier = PinnedServerVerifier (expected_server: Fingerprint)

datatype PinnedClientVerifier = PinnedClientVerifier (allowed_clients: "Fingerprint set")

definition verify_server_cert ::
    "(bytes \<Rightarrow> bytes) \<Rightarrow> PinnedServerVerifier \<Rightarrow> bytes \<Rightarrow> tls_error + unit" where
  "verify_server_cert sha256 v cert = verify_pin sha256 cert (\<lambda>f. f = expected_server v)"

definition verify_client_cert ::
    "(bytes \<Rightarrow> bytes) \<Rightarrow> PinnedClientVerifier \<Rightarrow> bytes \<Rightarrow> tls_error + unit" where
  "verify_client_cert sha256 v cert = verify_pin sha256 cert (\<lambda>f. f \<in> allowed_clients v)"

text \<open>The verifiers that \<open>client_tls\<close> and \<open>server_tls\<close> install.\<close>

definition client_tls_verifier :: "auth_pin \<Rightarrow> PinnedServerVerifier" where
  "client_tls_verifier expected = PinnedServerVerifier (auth_pin_fingerprint expected)"

definition server_tls_verifier :: "auth_pin list \<Rightarrow> QuicSyncError + PinnedClientVerifier" where
  "server_tls_verifier allowed =
     (let pins = set (map auth_pin_fingerprint allowed) in
      if pins = {} then Inl (configuration_error ''server TLS requires at least one allowed peer pin'')
      else Inr (PinnedClientVerifier pins))"

section \<open>DER: lengths\<close>

primrec le_value :: "bytes \<Rightarrow> nat" where
  "le_value [] = 0"
| "le_value (b # bs) = unat b + 256 * le_value bs"

lemma le_value_append: "le_value (bs @ cs) = le_value bs + 256 ^ length bs * le_value cs"
  by (induction bs) (auto simp: algebra_simps)

lemma le_value_bound: "le_value bs < 256 ^ length bs"
proof (induction bs)
  case (Cons b bs)
  have "unat b < 256" using unsigned_less [of b] by simp
  then show ?case using Cons by simp
qed simp

lemma le_value_zeros [simp]: "le_value (replicate n 0) = 0"
  by (induction n) auto

lemma unat_from_le_bytes:
  "length bs \<le> 8 \<Longrightarrow> unat (from_le_bytes bs :: u64) = le_value bs"
proof (induction bs)
  case Nil
  show ?case by simp
next
  case (Cons b bs)
  let ?r = "from_le_bytes bs :: u64"
  have r: "unat ?r = le_value bs" using Cons by simp
  have "le_value bs < 256 ^ length bs" by (rule le_value_bound)
  also have "\<dots> \<le> 256 ^ 7" using Cons.prems by (intro power_increasing) auto
  finally have small: "unat ?r * 256 < 2 ^ 64" using r by simp
  have b: "unat b < 256" using unsigned_less [of b] by simp
  have "(ucast b OR push_bit 8 ?r :: u64) = ucast b + push_bit 8 ?r"
    by (rule disjunctive_add [symmetric]) (auto simp: bit_push_bit_iff bit_unsigned_iff dest: bit_imp_le_length)
  moreover have "unat (ucast b :: u64) = unat b"
    using b by (simp add: unsigned_ucast_eq take_bit_nat_eq_self)
  moreover have "unat (push_bit 8 ?r) = unat ?r * 256"
    using small by (simp add: push_bit_eq_mult unat_word_ariths)
  moreover have "unat ?r * 256 + unat b < 2 ^ 64" using small b r \<open>le_value bs < 256 ^ length bs\<close>
    \<open>256 ^ length bs \<le> (256 :: nat) ^ 7\<close> by simp
  ultimately show ?case using r
    by (simp add: unat_word_ariths)
qed

lemma le_value_to_le_bytes: "le_value (to_le_bytes 8 w) = unat (w :: u64)"
  using unat_from_le_bytes [of "to_le_bytes 8 w"] by simp

lemma der_length_rev: "length bs + length cs \<le> 8 \<Longrightarrow>
    der_length (le_value cs) (rev bs) = Some (le_value (bs @ cs))"
proof (induction bs arbitrary: cs rule: rev_induct)
  case Nil
  show ?case by simp
next
  case (snoc b bs)
  have "le_value (b # cs) < 256 ^ length (b # cs)" by (rule le_value_bound)
  also have "\<dots> \<le> 256 ^ 8" using snoc.prems by (intro power_increasing) auto
  finally have "le_value cs * 256 + unat b < 2 ^ 64" by simp
  then show ?case using snoc.IH [of "b # cs"] snoc.prems by (simp add: checked_shift_def algebra_simps)
qed

lemma der_length_value: "length bs \<le> 8 \<Longrightarrow> der_length 0 bs = Some (le_value (rev bs))"
  using der_length_rev [of "rev bs" "[]"] by simp

text \<open>The digits of a length without their leading zeros, and back.\<close>

abbreviation length_digits :: "nat \<Rightarrow> bytes" where
  "length_digits n \<equiv> dropWhile (\<lambda>b. b = 0) (be_bytes n)"

lemma length_be_bytes [simp]: "length (be_bytes n) = 8"
  by (simp add: be_bytes_def)

lemma be_bytes_value: "n < 2 ^ 64 \<Longrightarrow> le_value (rev (be_bytes n)) = n"
  by (simp add: be_bytes_def le_value_to_le_bytes unat_of_nat take_bit_nat_eq_self)

lemma leading_zeros: "replicate (length bs - length (dropWhile (\<lambda>b. b = 0) bs)) 0 @ dropWhile (\<lambda>b. b = 0) bs = (bs :: bytes)"
  by (induction bs) (auto simp: Suc_diff_le length_dropWhile_le)

lemma length_digits_value:
  assumes "n < 2 ^ 64"
  shows "le_value (rev (length_digits n)) = n" and "length (length_digits n) \<le> 8"
proof -
  have "le_value (rev (be_bytes n)) = le_value (rev (length_digits n))"
    by (subst leading_zeros [symmetric]) (simp add: le_value_append)
  then show "le_value (rev (length_digits n)) = n" using be_bytes_value [OF assms] by simp
  show "length (length_digits n) \<le> 8" using length_dropWhile_le [of _ "be_bytes n"] by simp
qed

lemma length_digits_unique:
  assumes "length bs \<le> 8" and "bs \<noteq> []" and "hd bs \<noteq> 0"
  shows "length_digits (le_value (rev bs)) = bs"
proof -
  define full where "full = replicate (8 - length bs) 0 @ bs"
  have len: "length (rev full) = 8" using assms(1) by (simp add: full_def)
  have "le_value (rev full) = le_value (rev bs)" by (simp add: full_def le_value_append)
  moreover have "unat (from_le_bytes (rev full) :: u64) = le_value (rev full)"
    using len by (intro unat_from_le_bytes) simp
  ultimately have "be_bytes (le_value (rev bs)) = rev (to_le_bytes 8 (from_le_bytes (rev full) :: u64))"
    by (metis be_bytes_def of_nat_unat ucast_id)
  also have "\<dots> = full"
    using to_le_from_le [of "rev full", where 'a = 64] len by simp
  finally show ?thesis using assms by (cases bs) (auto simp: full_def dropWhile_append)
qed

lemma and_7f_small: "(0x80 OR word_of_nat n :: u8) AND 0x7F = word_of_nat n"
    "(0x80 OR word_of_nat n :: u8) AND 0x80 \<noteq> 0" if "n < 128"
proof -
  have "bits_below 7 (word_of_nat n :: u8)"
    using that by (simp add: bits_below_unat unat_of_nat take_bit_nat_eq_self)
  then have b: "bit (word_of_nat n :: u8) k \<Longrightarrow> k < 7" for k by (rule bits_belowD)
  show "(0x80 OR word_of_nat n :: u8) AND 0x7F = word_of_nat n"
    by (rule bit_word_eqI) (auto simp: and_0x7f bit_take_bit_iff bit_or_iff bit_0x80 dest: b)
  show "(0x80 OR word_of_nat n :: u8) AND 0x80 \<noteq> 0"
    by (simp add: and_0x80_eq_0 bit_or_iff bit_0x80)
qed

lemma length_byte_split: "b AND 0x80 \<noteq> (0 :: u8) \<Longrightarrow> 0x80 OR (b AND 0x7F) = b"
  by (rule bit_word_eqI) (auto simp: and_0x80_eq_0 and_0x7f bit_take_bit_iff bit_or_iff
      bit_0x80 [simplified] less_Suc_eq numeral_nat)

lemma small_length_byte: "n < 128 \<Longrightarrow> (word_of_nat n :: u8) AND 0x80 = 0 \<and> unat (word_of_nat n :: u8) = n"
  by (simp add: and_0x80_eq_0 not_bit_7_below bits_below_unat unat_of_nat take_bit_nat_eq_self)

lemma length_digits_nonempty: "128 \<le> n \<Longrightarrow> n < 2 ^ 64 \<Longrightarrow> length_digits n \<noteq> []"
  using length_digits_value(1) [of n] by fastforce

lemma der_large:
  assumes "128 \<le> length v" and "length v < 2 ^ 64"
  shows "der t v = t # (0x80 OR word_of_nat (length (length_digits (length v)))) # length_digits (length v) @ v"
  using assms length_digits_nonempty [OF assms]
  by (simp add: der_def Let_def del: dropWhile_eq_Nil_conv)

lemma der_value_der:
  assumes "length v < 2 ^ 64"
  shows "der_value (der t v @ rest) = Inr (t, v, rest)"
proof (cases "length v < 128")
  case True
  then show ?thesis using small_length_byte [OF True] by (simp add: der_def split_at_checked_def)
next
  case False
  let ?d = "length_digits (length v)"
  note d = length_digits_value [OF assms]
  have ne: "?d \<noteq> []" using False assms by (intro length_digits_nonempty) auto
  have "hd ?d \<noteq> 0" using hd_dropWhile [OF ne] by simp
  moreover have "unat (word_of_nat (length ?d) :: u8) = length ?d"
    using d(2) small_length_byte [of "length ?d"] by simp
  ultimately show ?thesis
    using False assms ne d and_7f_small [of "length ?d"]
    by (simp add: der_large split_at_checked_def der_length_value Let_def)
qed

lemma der_value_eq:
  assumes "der_value input = Inr (t, v, rest)"
  shows "input = der t v @ rest \<and> length v < 2 ^ 64"
proof -
  from assms obtain b tail where input: "input = t # b # tail"
    by (cases input rule: der_value.cases) (auto simp: result_simps split: prod.splits)
  show ?thesis
  proof (cases "b AND 0x80 = 0")
    case True
    then have "unat b < 128" by (simp add: and_0x80_eq_0 not_bit_7_below bits_below_unat)
    then show ?thesis using assms True input
      by (auto simp: result_simps split_at_checked_def der_def of_nat_unat split: if_splits)
  next
    case False
    let ?n = "unat (b AND 0x7F)"
    let ?d = "take ?n tail"
    from assms False input have n: "0 < ?n" "?n \<le> 8" "?n \<le> length tail" "hd ?d \<noteq> 0"
      by (auto simp: result_simps split_at_checked_def Let_def split: if_splits)
    have len: "length ?d \<le> 8" using n(2) by simp
    from assms False input n have big: "128 \<le> le_value (rev ?d)"
      and v: "v = take (le_value (rev ?d)) (drop ?n tail)"
      and rest: "rest = drop (le_value (rev ?d)) (drop ?n tail)"
      and fits: "le_value (rev ?d) \<le> length (drop ?n tail)"
      by (auto simp: result_simps split_at_checked_def Let_def der_length_value [OF len] split: if_splits)
    have lv: "length v = le_value (rev ?d)" using v fits by simp
    have "le_value (rev ?d) < 256 ^ length (rev ?d)" by (rule le_value_bound)
    also have "\<dots> \<le> 256 ^ 8" using len by (intro power_increasing) auto
    finally have bound: "length v < 2 ^ 64" using lv by simp
    have "length_digits (length v) = ?d"
      unfolding lv using len n by (intro length_digits_unique) auto
    moreover have "length ?d = ?n" using n(3) by simp
    moreover have "(0x80 OR word_of_nat ?n :: u8) = b"
      using length_byte_split [OF False] by (simp add: of_nat_unat)
    ultimately have "der t v = t # b # ?d @ v"
      using der_large [of v t] bound big lv by simp
    moreover have "tail = ?d @ v @ rest" by (simp only: v rest append_take_drop_id)
    ultimately show ?thesis using bound input by simp
  qed
qed

lemma der_value_iff:
  "der_value input = Inr (t, v, rest) \<longleftrightarrow> input = der t v @ rest \<and> length v < 2 ^ 64"
  using der_value_eq der_value_der by blast

lemma length_der: "length v < length (der t v)" "length (der t v) \<le> length v + 10"
proof -
  have "length (length_digits (length v)) \<le> 8"
    using length_dropWhile_le [of _ "be_bytes (length v)"] by simp
  then show "length v < length (der t v)" "length (der t v) \<le> length v + 10"
    by (simp_all add: der_def Let_def del: dropWhile_eq_Nil_conv)
qed

lemma hd_der [simp]: "hd (der t v @ rest) = t" "der t v \<noteq> []"
  by (simp_all add: der_def)

text \<open>
  C38. The DER reader accepts exactly the canonical encodings: it returns a tag, a value and the rest
  of the input precisely when the input is the writer's encoding of that tag and value followed by
  that rest. So reading inverts writing, every length has one accepted form, and no length that
  overflows or runs past the input is accepted.\<close>

theorem der_canonical:
  "der_value input = Inr (t, v, rest) \<longleftrightarrow> input = der t v @ rest \<and> length v < 2 ^ 64"
  by (rule der_value_iff)

lemma der_skip_iff:
  "der_skip input = Inr rest \<longleftrightarrow> (\<exists>t v. input = der t v @ rest \<and> length v < 2 ^ 64)"
  by (auto simp: der_skip_def result_simps der_value_iff)

text \<open>A run of DER values.\<close>

definition der_run :: "(u8 \<times> bytes) list \<Rightarrow> bytes" where
  "der_run tvs = concat (map (\<lambda>(t, v). der t v) tvs)"

lemma der_skips_iff:
  "try_fold (\<lambda>bs _. der_skip bs) input is = Inr rest \<longleftrightarrow>
     (\<exists>tvs. length tvs = length is \<and> input = der_run tvs @ rest \<and>
        (\<forall>(t, v) \<in> set tvs. length v < 2 ^ 64))"
proof (induction "is" arbitrary: input)
  case Nil
  show ?case by (auto simp: der_run_def)
next
  case (Cons i "is")
  have step: "try_fold (\<lambda>bs _. der_skip bs) input (i # is) = Inr rest \<longleftrightarrow>
      (\<exists>mid. der_skip input = Inr mid \<and> try_fold (\<lambda>bs _. der_skip bs) mid is = Inr rest)"
    by (simp add: and_then_eq_Inr)
  show ?case
    unfolding step Cons.IH der_skip_iff
  proof (intro iffI; elim exE conjE)
    fix mid tvs t v
    assume "length tvs = length is" "mid = der_run tvs @ rest" "input = der t v @ mid"
      "\<forall>(t, v) \<in> set tvs. length v < 2 ^ 64" "length v < 2 ^ 64"
    then show "\<exists>tvs. length tvs = length (i # is) \<and> input = der_run tvs @ rest \<and>
        (\<forall>(t, v) \<in> set tvs. length v < 2 ^ 64)"
      by (intro exI [of _ "(t, v) # tvs"]) (simp add: der_run_def)
  next
    fix tvs
    assume len: "length tvs = length (i # is)" and input: "input = der_run tvs @ rest"
      and small: "\<forall>(t, v) \<in> set tvs. length v < 2 ^ 64"
    from len obtain t v tvs' where tvs: "tvs = (t, v) # tvs'" "length tvs' = length is"
      by (cases tvs) auto
    with input small show "\<exists>mid. (\<exists>t v. input = der t v @ mid \<and> length v < 2 ^ 64) \<and>
        (\<exists>tvs. length tvs = length is \<and> mid = der_run tvs @ rest \<and>
          (\<forall>(t, v) \<in> set tvs. length v < 2 ^ 64))"
      by (intro exI [of _ "der_run tvs' @ rest"] conjI exI [of _ t] exI [of _ v] exI [of _ tvs'])
        (simp_all add: der_run_def)
  qed
qed

section \<open>Certificates: where the key is\<close>

text \<open>
  The part of a certificate the program looks at: two nested sequences, an optional version, five
  fields, then the public key.
\<close>

definition certificate_spki :: "bytes \<Rightarrow> bytes \<Rightarrow> bool" where
  "certificate_spki cert spki \<longleftrightarrow>
     (\<exists>version header key others rest.
        cert = der 0x30 (der 0x30 (der_run version @ der_run header @ spki @ others) @ rest) \<and>
        length header = 5 \<and> spki = der 0x30 key \<and>
        (version = [] \<and> fst (hd header) \<noteq> 0xA0 \<or> (\<exists>v. version = [(0xA0, v)])))"

lemma der_run_member: "(t, v) \<in> set tvs \<Longrightarrow> length v < length (der_run tvs)"
proof (induction tvs)
  case (Cons tv tvs)
  then show ?case using length_der(1) [of v t] by (auto simp: der_run_def)
qed simp

lemma and_then_triple:
  "and_then r (\<lambda>(a, b, c). g a b c) = Inr y \<longleftrightarrow> (\<exists>a b c. r = Inr (a, b, c) \<and> g a b c = Inr y)"
  by (cases r) auto

lemma guard_Inr: "(if c then Inl e else r) = Inr y \<longleftrightarrow> \<not> c \<and> r = Inr y"
  by simp

lemma fingerprint_certificate_sound:
  assumes "fingerprint_certificate sha256 cert = Inr f"
  obtains spki where "certificate_spki cert spki" and "f = Fingerprint (sha256 spki)"
proof -
  from assms obtain c rest tbs0 where cert: "der_value cert = Inr (0x30, c, [])"
    and inner: "der_value c = Inr (0x30, tbs0, rest)"
    and later: "and_then (if tbs0 \<noteq> [] \<and> hd tbs0 = 0xA0 then der_skip tbs0 else Inr tbs0) (\<lambda>tbs.
         and_then (try_fold (\<lambda>bs _. der_skip bs) tbs [0..<5]) (\<lambda>spki_start.
         and_then (der_value spki_start) (\<lambda>(spki_tag, _, spki_remaining).
         if spki_tag \<noteq> 0x30 then Inl ()
         else Inr (fingerprint_spki sha256
                (take (length spki_start - length spki_remaining) spki_start))))) = Inr f"
    unfolding fingerprint_certificate_def and_then_triple guard_Inr by auto
  from later obtain tbs start key others where
      version: "(if tbs0 \<noteq> [] \<and> hd tbs0 = 0xA0 then der_skip tbs0 else Inr tbs0) = Inr tbs"
    and skips: "try_fold (\<lambda>bs _. der_skip bs) tbs [0..<5] = Inr start"
    and spki: "der_value start = Inr (0x30, key, others)"
    and f: "f = fingerprint_spki sha256 (take (length start - length others) start)"
    unfolding and_then_eq_Inr [of "if _ then _ else _"] and_then_eq_Inr [of "try_fold _ _ _"]
      and_then_triple guard_Inr by auto
  from skips obtain header where header: "length header = 5" "tbs = der_run header @ start"
    by (auto simp: der_skips_iff simp del: upt_Suc)
  from spki have start: "start = der 0x30 key @ others" by (simp add: der_value_iff)
  obtain vs where vs: "tbs0 = der_run vs @ tbs"
    "vs = [] \<and> fst (hd header) \<noteq> 0xA0 \<or> (\<exists>v. vs = [(0xA0, v)])"
  proof (cases "tbs0 \<noteq> [] \<and> hd tbs0 = 0xA0")
    case True
    with version obtain t v where "tbs0 = der t v @ tbs" by (auto simp: der_skip_iff)
    with True show ?thesis using that [of "[(0xA0, v)]"] by (simp add: der_run_def)
  next
    case False
    obtain t v header' where "header = (t, v) # header'" using header(1) by (cases header) auto
    with False version header(2) show ?thesis using that [of "[]"] by (auto simp: der_run_def)
  qed
  have "cert = der 0x30 (der 0x30 tbs0 @ rest)" using cert inner by (simp add: der_value_iff)
  then have "certificate_spki cert (der 0x30 key)"
    using vs header start unfolding certificate_spki_def by fastforce
  moreover have "f = Fingerprint (sha256 (der 0x30 key))" using f start by (simp add: fingerprint_spki_def)
  ultimately show ?thesis by (rule that)
qed

lemma fingerprint_certificate_complete:
  assumes "certificate_spki cert spki" and len: "length cert < 2 ^ 64"
  shows "fingerprint_certificate sha256 cert = Inr (Fingerprint (sha256 spki))"
proof -
  from assms(1) obtain vs header key others rest where
      cert: "cert = der 0x30 (der 0x30 (der_run vs @ der_run header @ spki @ others) @ rest)"
    and header: "length header = 5" and spki: "spki = der 0x30 key"
    and vs: "vs = [] \<and> fst (hd header) \<noteq> 0xA0 \<or> (\<exists>v. vs = [(0xA0, v)])"
    unfolding certificate_spki_def by blast
  let ?tbs = "der_run header @ spki @ others"
  let ?c = "der 0x30 (der_run vs @ ?tbs) @ rest"
  have c: "length ?c < 2 ^ 64" using len length_der(1) [of ?c "0x30"] cert by simp
  have t: "length (der_run vs @ ?tbs) < 2 ^ 64"
    using c length_der(1) [of "der_run vs @ ?tbs" "0x30"] by simp
  have 1: "der_value cert = Inr (0x30, ?c, [])" using c cert by (simp add: der_value_iff)
  have 2: "der_value ?c = Inr (0x30, der_run vs @ ?tbs, rest)" using t by (simp add: der_value_iff)
  have 3: "(if der_run vs @ ?tbs \<noteq> [] \<and> hd (der_run vs @ ?tbs) = 0xA0 then der_skip (der_run vs @ ?tbs)
      else Inr (der_run vs @ ?tbs)) = Inr ?tbs"
  proof (cases "vs = []")
    case True
    obtain t v header' where "header = (t, v) # header'" using header by (cases header) auto
    with True vs show ?thesis by (simp add: der_run_def)
  next
    case False
    with vs obtain v where "vs = [(0xA0, v)]" by blast
    moreover have "length v < length (der_run vs)" using calculation by (intro der_run_member) simp
    ultimately show ?thesis using t
      by (auto simp: der_run_def der_skip_iff intro!: exI [of _ "0xA0"] exI [of _ v])
  qed
  have 4: "try_fold (\<lambda>bs _. der_skip bs) ?tbs [0..<5] = Inr (spki @ others)"
    unfolding der_skips_iff
    using header t der_run_member by (intro exI [of _ header]) fastforce
  have 5: "der_value (spki @ others) = Inr (0x30, key, others)"
    using t spki length_der(1) [of key "0x30"] by (simp add: der_value_iff)
  show ?thesis
    unfolding fingerprint_certificate_def 1 and_then.simps prod.case
    using 2 3 4 5 by (simp add: fingerprint_spki_def del: upt_Suc)
qed

text \<open>
  C39. Which key a certificate is judged by. A certificate yields a fingerprint exactly when it is a
  DER sequence that starts with a to-be-signed sequence holding an optional version, five fields
  and a public-key sequence, with nothing after the outer sequence, and the fingerprint is the hash
  of that public-key encoding alone; every other input is refused.\<close>

theorem certificate_fingerprint_exact:
  assumes "length cert < 2 ^ 64"
  shows "fingerprint_certificate sha256 cert = Inr f \<longleftrightarrow>
    (\<exists>spki. certificate_spki cert spki \<and> f = Fingerprint (sha256 spki))"
  using assms fingerprint_certificate_sound fingerprint_certificate_complete by metis

text \<open>
  What the program relies on from the key library: public keys of 32 bytes, signatures of 64, the
  16 random bytes it asked for, and generated keys that parse.
\<close>

definition ring_ok :: "'k ed25519 \<Rightarrow> bool" where
  "ring_ok ring \<longleftrightarrow>
     (\<forall>k. length (public_key ring k) = 32) \<and> (\<forall>k m. length (sign_with ring k m) = 64) \<and>
     (\<forall>r. random_fill ring = Some r \<longrightarrow> length r = 16) \<and>
     (\<forall>d. generate_pkcs8 ring = Some d \<longrightarrow> from_pkcs8 ring d \<noteq> None)"

lemma fixed_fields:
  "ED25519_ALGORITHM = der 0x30 [0x06, 0x03, 0x2B, 0x65, 0x70]"
  "EMPTY_NAME = der 0x30 []"
  "VALIDITY = der 0x30 (drop 2 VALIDITY)"
  by (simp_all add: ED25519_ALGORITHM_def EMPTY_NAME_def VALIDITY_def der_def)

lemma length_positive_serial [simp]: "length (positive_serial r) = length r"
  by (simp add: positive_serial_def Let_def)

lemma self_signed_spki:
  assumes ring: "ring_ok ring" and cert: "self_signed_certificate ring k = Inr cert"
  shows "certificate_spki cert (ed25519_spki (public_key ring k))" and "length cert < 2 ^ 64"
proof -
  define spki where "spki = ed25519_spki (public_key ring k)"
  from cert obtain serial where serial: "random_fill ring = Some serial" by (auto simp: self_signed_certificate_def result_simps)
  define header where "header = [(0x02, positive_serial serial), (0x30, [0x06, 0x03, 0x2B, 0x65, 0x70]),
    (0x30, []), (0x30, drop 2 VALIDITY), (0x30 :: u8, [])]"
  define tbs where "tbs = der_run [(0xA0, der 0x02 [2])] @ der_run header @ spki @ []"
  define rest where "rest = ED25519_ALGORITHM @ der 0x03 (0 # sign_with ring k (der 0x30 tbs))"
  have cert_eq: "cert = der 0x30 (der 0x30 tbs @ rest)"
    using cert serial
    by (simp add: self_signed_certificate_def der_sequence_def tbs_def header_def rest_def spki_def
        der_run_def Let_def flip: fixed_fields)
  obtain key where key: "spki = der 0x30 key" by (simp add: spki_def ed25519_spki_def der_sequence_def)
  have hdr: "length header = 5" by (simp add: header_def)
  show "certificate_spki cert (ed25519_spki (public_key ring k))"
    unfolding certificate_spki_def spki_def [symmetric]
    using cert_eq [unfolded tbs_def] hdr key by blast
  have lens: "length (public_key ring k) = 32" "length (sign_with ring k m) = 64" "length serial = 16" for m
    using ring serial by (auto simp: ring_ok_def)
  have "length spki \<le> 7 + 33 + 20"
    using length_der(2) [of 3 "0 # public_key ring k"]
      length_der(2) [of "0x30" "ED25519_ALGORITHM @ der 3 (0 # public_key ring k)"] lens
    by (simp add: spki_def ed25519_spki_def der_sequence_def ED25519_ALGORITHM_def)
  moreover have "length (der 2 (positive_serial serial)) \<le> 26"
    using length_der(2) [of 2 "positive_serial serial"] lens by simp
  moreover have "length (der 0xA0 (der 2 [2])) \<le> 30"
    using length_der(2) [of "0xA0" "der 2 [2]"] length_der(2) [of 2 "[2]"] by simp
  ultimately have "length tbs \<le> 200"
    using length_der(2) [of "0x30" "drop 2 VALIDITY"]
    by (simp add: tbs_def header_def der_run_def VALIDITY_def EMPTY_NAME_def ED25519_ALGORITHM_def
        flip: fixed_fields)
  moreover have "length rest \<le> 100"
    using length_der(2) [of 3 "0 # sign_with ring k (der 0x30 tbs)"] lens
    by (simp add: rest_def ED25519_ALGORITHM_def)
  ultimately have "length cert \<le> 400"
    unfolding cert_eq using length_der(2) [of "0x30" "der 0x30 tbs @ rest"] length_der(2) [of "0x30" tbs]
    by simp
  then show "length cert < 2 ^ 64" by simp
qed

lemma self_signed_fingerprint:
  assumes "ring_ok ring" and "self_signed_certificate ring k = Inr cert"
  shows "fingerprint_certificate sha256 cert = Inr (fingerprint_spki sha256 (ed25519_spki (public_key ring k)))"
  using self_signed_spki [OF assms] by (simp add: fingerprint_certificate_complete fingerprint_spki_def)

section \<open>Fingerprints as text\<close>

lemma nibble_sum: "drop_bit 4 b * 16 + (b AND 15) = (b :: u8)"
  using bits_ident [of 4 b] by (simp add: push_bit_eq_mult take_bit_eq_mask mask_eq_exp_minus_1)

lemma hex_digits:
  assumes "d < 16"
  shows "to_digit16 (hex_upper d) = Some d" "to_digit16 (hex_lower d) = Some d" "hex_digit (hex_lower d) = Inr d"
    "hex_upper d \<noteq> 43 \<and> hex_upper d \<noteq> 58 \<and> hex_upper d < 0x80" "hex_lower d \<noteq> 43 \<and> hex_lower d < 0x80"
  by (rule nibble_cases [OF assms], code_simp)+

text \<open>A printed byte reads back, in either case.\<close>

definition reads_back :: "(u8 \<Rightarrow> bytes) \<Rightarrow> bool" where
  "reads_back fmt \<longleftrightarrow> (\<forall>v. \<exists>a b. fmt v = [a, b] \<and> from_str_radix16 a b = Some v \<and> a < 0x80 \<and> b < 0x80)"

lemma formats_read_back: "reads_back format_02X" "reads_back format_02x"
  unfolding reads_back_def format_02X_def format_02x_def
  using hex_digits nibbles nibble_sum by (simp_all add: from_str_radix16_def)

lemma parse_pairs_concat:
  assumes "reads_back fmt"
  shows "parse_pairs (length bs) (concat (map fmt bs)) = Some (Inr bs)"
proof (induction bs)
  case (Cons v bs)
  have boundary: "char_boundary (concat (map fmt bs))"
  proof (cases bs)
    case (Cons w ws)
    obtain a b where "fmt w = [a, b]" "a < 0x80" using assms unfolding reads_back_def by blast
    then show ?thesis using Cons by (auto simp: char_boundary_def dest: leD)
  qed (simp add: char_boundary_def)
  obtain a b where "fmt v = [a, b]" "from_str_radix16 a b = Some v" "a < 0x80"
    using assms unfolding reads_back_def by blast
  with Cons boundary show ?case by (auto simp: char_boundary_def dest: leD)
qed simp

lemma split_colon_none: "58 \<notin> set bs \<Longrightarrow> split_colon bs = [bs]"
  by (induction bs) auto

lemma split_colon_append: "58 \<notin> set bs \<Longrightarrow> split_colon (bs @ 58 # cs) = bs # split_colon cs"
  by (induction bs) auto

lemma format_no_colon: "58 \<notin> set (format_02X b)"
  using hex_digits(4) nibbles [of b] by (auto simp: format_02X_def)

lemma split_colon_groups: "bs \<noteq> [] \<Longrightarrow> split_colon (write_groups bs) = map format_02X bs"
  by (induction bs rule: write_groups.induct)
    (auto simp: split_colon_none split_colon_append format_no_colon)

lemma length_write_groups: "bs \<noteq> [] \<Longrightarrow> length (write_groups bs) = 3 * length bs - 1"
  by (induction bs rule: write_groups.induct) (auto simp: format_02X_def)

lemma length_concat_format: "length (concat (map format_02x bs)) = 2 * length bs"
  by (induction bs) (auto simp: format_02x_def)

lemma parse_hex_concat: "parse_hex_pairs (concat (map format_02x bs)) = Inr bs"
  by (induction bs) (simp_all add: format_02x_def hex_digits nibbles nibbles_join)

lemma fingerprint_display_parses:
  assumes "fingerprint_ok f"
  shows "fingerprint_from_str (fingerprint_display f) = Some (Inr f)"
proof -
  let ?bs = "fingerprint_bytes f"
  have len: "length ?bs = 32" "?bs \<noteq> []" using assms by (auto simp: fingerprint_ok_def)
  have "length (write_groups ?bs) = 95" using len by (simp add: length_write_groups)
  moreover have "list_ex (\<lambda>g. length g \<noteq> 2) (map format_02X ?bs) = False"
    by (auto simp: list_ex_iff format_02X_def)
  moreover have "parse_pairs 32 (concat (map format_02X ?bs)) = Some (Inr ?bs)"
    using parse_pairs_concat [OF formats_read_back(1), of ?bs] len by simp
  ultimately show ?thesis using len
    by (simp add: fingerprint_from_str_def fingerprint_display_def split_colon_groups Let_def del: map_map)
qed

lemma init_output_pin:
  assumes "fingerprint_ok f"
  shows "peer_pin_parse (init_output f) = Inr (PeerPin (fingerprint_bytes f))"
  using assms by (simp add: fingerprint_ok_def peer_pin_parse_def init_output_def length_concat_format parse_hex_concat)

text \<open>
  Fingerprints survive their texts. The colon-separated display of a fingerprint parses back to
  it, and the line printed by \<open>init\<close> is read back to the same 32 bytes by both readers: the
  fingerprint parser and the pin parser of the configuration files.\<close>

lemma fingerprint_text_roundtrip:
  assumes "fingerprint_ok f"
  shows "fingerprint_from_str (fingerprint_display f) = Some (Inr f) \<and>
    fingerprint_from_str (init_output f) = Some (Inr f) \<and>
    peer_pin_parse (init_output f) = Inr (PeerPin (fingerprint_bytes f))"
proof (intro conjI)
  let ?bs = "fingerprint_bytes f"
  have len: "length ?bs = 32" using assms by (simp add: fingerprint_ok_def)
  show "fingerprint_from_str (fingerprint_display f) = Some (Inr f)"
    using assms by (rule fingerprint_display_parses)
  have "parse_pairs 32 (init_output f) = Some (Inr ?bs)"
    using parse_pairs_concat [OF formats_read_back(2), of ?bs] len by (simp add: init_output_def)
  then show "fingerprint_from_str (init_output f) = Some (Inr f)"
    using len by (simp add: fingerprint_from_str_def init_output_def length_concat_format)
  show "peer_pin_parse (init_output f) = Inr (PeerPin ?bs)" using assms by (rule init_output_pin)
qed

text \<open>
  The parser is not limited to hexadecimal digits: a plus sign may stand in place of the first digit
  of a byte, and a text of the right length in bytes that splits a character makes it panic.
\<close>

theorem fingerprint_parser_laxity:
  "fingerprint_from_str (concat (replicate 32 [43, 49])) = Some (Inr (Fingerprint (replicate 32 1)))"
  "fingerprint_from_str (48 # [0xC3, 0xA9] @ replicate 61 48) = None"
  by code_simp+

section \<open>Grants\<close>

lemma add_grants:
  "try_fold add_grant G gs = Inr G' \<longleftrightarrow>
     list_all (\<lambda>g. validate_root_id (grant_root g) = Inr ()) gs \<and> distinct gs \<and> set gs \<inter> G = {} \<and>
     G' = G \<union> set gs"
  by (induction gs arbitrary: G) (auto simp: add_grant_def result_simps)

text \<open>
  Authorization is exactly the configured grants: a grant list is accepted when its root ids are
  valid and no grant is repeated, and then a request succeeds precisely when its peer, root and
  direction are together in one grant of the list, returning just these; every other request is
  denied with the handshake's authorization error.\<close>

theorem authorize_exactly_grants:
  "(authorizer_new gs = Inr a \<longleftrightarrow>
      list_all (\<lambda>g. validate_root_id (grant_root g) = Inr ()) gs \<and> distinct gs \<and> grants a = set gs) \<and>
   (authorizer_authorize a peer root d = Inr z \<longleftrightarrow>
      PeerGrant (AuthPin peer) root d \<in> grants a \<and>
      z = \<lparr>authorized_peer = peer, authorized_root = root, authorized_direction = d\<rparr>) \<and>
   (authorizer_authorize a peer root d = Inl e \<longleftrightarrow>
      PeerGrant (AuthPin peer) root d \<notin> grants a \<and>
      e = quic_sync_error_new AuthorizationDenied (Some Handshake)
        ''peer is not authorized for requested root and direction'')"
  by (cases a) (auto simp: authorizer_new_def authorizer_authorize_def result_simps add_grants)

text \<open>A key library for concrete inputs: every byte string is a key and its own public key padded to size.\<close>

definition sample_ring :: "bytes ed25519" where
  "sample_ring = \<lparr>from_pkcs8 = Some, public_key = (\<lambda>k. take 32 (k @ replicate 32 0)),
     sign_with = (\<lambda>k m. replicate 64 1), generate_pkcs8 = Some [5, 6], random_fill = Some (replicate 16 0)\<rparr>"

lemma sample_ring_ok: "ring_ok sample_ring"
  by (auto simp: ring_ok_def sample_ring_def min_def)

lemma sample_identity:
  obtains cert where "generate_identity sample_ring = Inr ([5, 6], cert)"
  by (auto simp: generate_identity_def sample_ring_def self_signed_certificate_def Let_def)

lemma pin_member: "f \<in> auth_pin_fingerprint ` set pins \<longleftrightarrow> AuthPin f \<in> set pins"
proof
  assume "f \<in> auth_pin_fingerprint ` set pins"
  then obtain p where "p \<in> set pins" "f = auth_pin_fingerprint p" by blast
  then show "AuthPin f \<in> set pins" by simp
next
  assume "AuthPin f \<in> set pins"
  then show "f \<in> auth_pin_fingerprint ` set pins" by (rule rev_image_eqI) simp
qed

text \<open>
  C23. Pinning. A server or client presenting the certificate made for its key is let in by the
  installed verifier exactly when the pin configured for it, or one of the pins, is the
  fingerprint of that key; the certificate's own contents other than the key play no part.\<close>

theorem pinned_peers_only:
  assumes "ring_ok ring" and "self_signed_certificate ring k = Inr cert"
  shows "(verify_server_cert sha256 (client_tls_verifier pin) cert = Inr () \<longleftrightarrow>
      auth_pin_fingerprint pin = Fingerprint (sha256 (ed25519_spki (public_key ring k)))) \<and>
    (server_tls_verifier pins = Inr v \<longrightarrow>
      (verify_client_cert sha256 v cert = Inr () \<longleftrightarrow>
        AuthPin (Fingerprint (sha256 (ed25519_spki (public_key ring k)))) \<in> set pins))"
  using self_signed_fingerprint [OF assms, of sha256]
  by (auto simp: verify_server_cert_def verify_client_cert_def verify_pin_def client_tls_verifier_def
      server_tls_verifier_def fingerprint_spki_def Let_def pin_member split: if_splits)

theorem pinned_peers_only_witness:
  "\<exists>cert. self_signed_certificate sample_ring [5] = Inr cert \<and>
     verify_server_cert (\<lambda>_. replicate 32 1) (client_tls_verifier (AuthPin (Fingerprint (replicate 32 1)))) cert = Inr () \<and>
     verify_client_cert (\<lambda>_. replicate 32 1) (PinnedClientVerifier {Fingerprint (replicate 32 2)}) cert \<noteq> Inr ()"
proof -
  obtain cert where cert: "self_signed_certificate sample_ring [5] = Inr cert"
    by (auto simp: sample_ring_def self_signed_certificate_def Let_def)
  have "server_tls_verifier [AuthPin (Fingerprint (replicate 32 2))] =
      Inr (PinnedClientVerifier {Fingerprint (replicate 32 2)})"
    by (simp add: server_tls_verifier_def)
  with pinned_peers_only [OF sample_ring_ok cert, of "\<lambda>_. replicate 32 1" "AuthPin (Fingerprint (replicate 32 1))"
      "[AuthPin (Fingerprint (replicate 32 2))]" "PinnedClientVerifier {Fingerprint (replicate 32 2)}"] cert
  show ?thesis by simp
qed

theorem certificate_fingerprint_exact_witness:
  "\<exists>cert spki. length cert < 2 ^ 64 \<and> certificate_spki cert spki \<and>
     fingerprint_certificate (take 32) cert = Inr (Fingerprint (take 32 spki))"
proof -
  obtain cert where cert: "self_signed_certificate sample_ring [5] = Inr cert"
    by (auto simp: sample_ring_def self_signed_certificate_def Let_def)
  note spki = self_signed_spki [OF sample_ring_ok cert]
  with certificate_fingerprint_exact [OF spki(2), of "take 32"] show ?thesis by blast
qed

end
