(* ===== verification/Identities.thy ===== *)
theory Identities
  imports Auth
begin

text \<open>
  The persisted identity of \<open>crates/quicsync-core/src/auth.rs\<close>: the contract \<open>identity_store\<close> of the
  directory that holds it, what \<open>load_or_create\<close> guarantees under that contract, and a directory
  that meets the contract.
\<close>

lemma map_do_err_Inr: "map_do_err f m = (s, Inr x) \<longleftrightarrow> m = (s, Inr x)"
  by (cases m) (auto simp: map_do_err_def result_simps)

lemma identity_from_der_Inr:
  "identity_from_der sha256 ring cert key = Inr i \<longleftrightarrow>
     certificate i = cert \<and> private_key i = key \<and> fingerprint_certificate sha256 cert = Inr (fingerprint i) \<and>
     (\<exists>k. from_pkcs8 ring key = Some k \<and>
       fingerprint i = Fingerprint (sha256 (ed25519_spki (public_key ring k))))"
  by (cases i) (auto simp: identity_from_der_def result_simps Let_def fingerprint_spki_def)

lemma identity_load_Inr:
  "identity_load sha256 ring fs s = Inr i \<Longrightarrow> \<exists>cert key. identity_from_der sha256 ring cert key = Inr i"
  by (auto simp: identity_load_def result_simps)

section \<open>Persisted identities: the contract of the directory\<close>

text \<open>
  What the identity code relies on from the file system. \<open>node s f\<close> is the entry under the name \<open>f\<close>;
  \<open>secured s\<close> says that the directory is a directory of the current user with mode \<open>0o700\<close>. A new
  file belongs to the current user and has at most the permission bits asked for.
\<close>

record id_node =
  node_regular :: bool
  node_owner :: u32
  node_mode :: u32
  node_contents :: bytes

locale identity_store =
  fixes fs :: "'s id_store"
    and node :: "'s \<Rightarrow> id_file \<Rightarrow> id_node option"
    and secured :: "'s \<Rightarrow> bool"
  assumes create_dir_all_node: "create_dir_all fs s = (s', r) \<Longrightarrow> node s' = node s"
    and create_dir_all_secured: "secured s \<Longrightarrow> create_dir_all fs s = (s, Inr ())"
    and secured_metadata:
      "secured s \<Longrightarrow> \<exists>m. directory_metadata fs s = Inr m \<and> is_directory m \<and> meta_uid m = geteuid fs"
    and set_permissions_secures:
      "directory_metadata fs s = Inr m \<Longrightarrow> is_directory m \<Longrightarrow> meta_uid m = geteuid fs \<Longrightarrow>
       set_permissions fs s 448 = (s', Inr ()) \<Longrightarrow> secured s' \<and> node s' = node s"
    and set_permissions_secured: "secured s \<Longrightarrow> set_permissions fs s 448 = (s, Inr ())"
    and exists_node: "file_exists fs s f \<longleftrightarrow> node s f \<noteq> None"
    and node_symlink_metadata:
      "secured s \<Longrightarrow> node s f = Some n \<Longrightarrow>
       \<exists>m. file_symlink_metadata fs s f = Inr m \<and> is_regular m = node_regular n"
    and node_metadata:
      "secured s \<Longrightarrow> node s f = Some n \<Longrightarrow> node_regular n \<Longrightarrow>
       \<exists>m. file_metadata fs s f = Inr m \<and> meta_uid m = node_owner n \<and> meta_mode m = node_mode n"
    and node_read:
      "secured s \<Longrightarrow> node s f = Some n \<Longrightarrow> node_regular n \<Longrightarrow> node_owner n = geteuid fs \<Longrightarrow>
       node_mode n AND 256 \<noteq> 0 \<Longrightarrow> file_read fs s f = Inr (node_contents n)"
    and create_new_node:
      "create_new fs s f w = (s', Inr ()) \<Longrightarrow> node s f = None \<and>
       (\<exists>n. node s' = (node s)(f \<mapsto> n) \<and> node_regular n \<and> node_owner n = geteuid fs \<and>
          node_mode n AND NOT w = 0 \<and> node_contents n = [] \<and>
          (w AND 256 \<noteq> 0 \<longrightarrow> node_mode n AND 256 \<noteq> 0))"
    and create_new_secured: "create_new fs s f w = (s', Inr ()) \<Longrightarrow> secured s \<Longrightarrow> secured s'"
    and write_all_sync_node:
      "node s f = Some n \<Longrightarrow> write_all_sync fs s f c = (s', Inr ()) \<Longrightarrow>
       node s' = (node s)(f \<mapsto> n\<lparr>node_contents := c\<rparr>)"
    and write_all_sync_secured:
      "write_all_sync fs s f c = (s', Inr ()) \<Longrightarrow> secured s \<Longrightarrow> secured s'"
begin

lemma secured_prologue:
  assumes "secured s" and "node s CERTIFICATE_FILE \<noteq> None" and "node s PRIVATE_KEY_FILE \<noteq> None"
  shows "identity_load_or_create sha256 ring fs s = (s, identity_load sha256 ring fs s)"
proof -
  obtain m where "directory_metadata fs s = Inr m" "is_directory m" "meta_uid m = geteuid fs"
    using secured_metadata [OF assms(1)] by blast
  then show ?thesis
    using assms create_dir_all_secured [OF assms(1)] set_permissions_secured [OF assms(1)]
    by (simp add: identity_load_or_create_def set_directory_permissions_def map_do_err_def exists_node)
qed

text \<open>A successful run has secured the directory before it looked at the files.\<close>

lemma load_or_create_cases:
  assumes "identity_load_or_create sha256 ring fs s = (s', Inr i)"
  obtains
    (loaded) "secured s'" "node s' CERTIFICATE_FILE \<noteq> None" "node s' PRIVATE_KEY_FILE \<noteq> None"
      "identity_load sha256 ring fs s' = Inr i" "node s' = node s"
  | (created) s1 where "secured s1" "node s1 = node s" "node s CERTIFICATE_FILE = None"
      "node s PRIVATE_KEY_FILE = None" "identity_create sha256 ring fs s1 = (s', Inr i)"
proof -
  from assms obtain s0 m s1 where
      dir: "create_dir_all fs s = (s0, Inr ())" "directory_metadata fs s0 = Inr m" "is_directory m"
    and perms: "set_directory_permissions fs s0 = (s1, Inr ())"
    and run: "(case (file_exists fs s1 CERTIFICATE_FILE, file_exists fs s1 PRIVATE_KEY_FILE) of
         (True, True) \<Rightarrow> (s1, identity_load sha256 ring fs s1)
       | (False, False) \<Rightarrow> identity_create sha256 ring fs s1
       | _ \<Rightarrow> (s1, Inl (configuration_error
             ''identity certificate and private key must either both exist or both be absent''))) = (s', Inr i)"
    by (auto simp: identity_load_or_create_def result_simps map_do_err_Inr split: if_splits)
  from perms dir have "meta_uid m = geteuid fs" "set_permissions fs s0 448 = (s1, Inr ())"
    by (auto simp: set_directory_permissions_def map_do_err_Inr result_simps split: if_splits)
  with dir have s1: "secured s1" "node s1 = node s"
    using set_permissions_secures [OF dir(2,3)] create_dir_all_node [OF dir(1)] by auto
  show ?thesis
  proof (cases "node s CERTIFICATE_FILE = None")
    case True
    with run s1 have "node s PRIVATE_KEY_FILE = None" "identity_create sha256 ring fs s1 = (s', Inr i)"
      by (auto simp: exists_node split: bool.splits)
    then show ?thesis using s1 True by (intro created)
  next
    case False
    with run s1 have "node s PRIVATE_KEY_FILE \<noteq> None" "s' = s1" "identity_load sha256 ring fs s1 = Inr i"
      by (auto simp: exists_node split: bool.splits)
    then show ?thesis using s1 False by (intro loaded) auto
  qed
qed

lemma new_file_node:
  assumes "create_new fs s f w = (s1, Inr ())" and "write_all_sync fs s1 f c = (s2, Inr ())" and "secured s"
    and "w AND 256 \<noteq> 0"
  obtains n where "secured s2" "node s2 = (node s)(f \<mapsto> n)" "node_regular n" "node_owner n = geteuid fs"
    "node_mode n AND NOT w = 0" "node_mode n AND 256 \<noteq> 0" "node_contents n = c" "node s f = None"
proof -
  from create_new_node [OF assms(1)] assms(4) obtain n where
      n: "node s1 = (node s)(f \<mapsto> n)" "node_regular n" "node_owner n = geteuid fs"
        "node_mode n AND NOT w = 0" "node_mode n AND 256 \<noteq> 0" and none: "node s f = None"
    by blast
  have "secured s2" using assms create_new_secured write_all_sync_secured by blast
  moreover have "node s2 = (node s)(f \<mapsto> n\<lparr>node_contents := c\<rparr>)"
    using write_all_sync_node [OF _ assms(2), of n] n(1) by simp
  ultimately show ?thesis using that [of "n\<lparr>node_contents := c\<rparr>"] n none by simp
qed

lemma node_loads:
  assumes "secured s" and "node s CERTIFICATE_FILE = Some c" and "node s PRIVATE_KEY_FILE = Some k"
    and "node_regular c" "node_owner c = geteuid fs" "node_mode c AND 256 \<noteq> 0"
    and "node_regular k" "node_owner k = geteuid fs" "node_mode k AND 256 \<noteq> 0" "node_mode k AND 63 = 0"
  shows "identity_load sha256 ring fs s = identity_from_der sha256 ring (node_contents c) (node_contents k)"
proof -
  have reg: "check_regular_file fs s f name = Inr ()" if "node s f = Some n" "node_regular n" for f n name
    using node_symlink_metadata [OF assms(1) that(1)] that(2) by (auto simp: check_regular_file_def)
  have "check_private_key_permissions fs s = Inr ()"
    using node_metadata [OF assms(1,3,7)] assms by (auto simp: check_private_key_permissions_def)
  moreover have "file_read fs s CERTIFICATE_FILE = Inr (node_contents c)"
    "file_read fs s PRIVATE_KEY_FILE = Inr (node_contents k)"
    using assms by (auto intro: node_read)
  ultimately show ?thesis using assms reg by (simp add: identity_load_def)
qed

lemma created_loads:
  assumes "identity_create sha256 ring fs s = (s', Inr i)" and "secured s"
  obtains c k where "secured s'" "node s' = (node s)(PRIVATE_KEY_FILE \<mapsto> k, CERTIFICATE_FILE \<mapsto> c)"
    "identity_load sha256 ring fs s' = Inr i" "node_mode k AND 63 = 0" "node_owner k = geteuid fs"
proof -
  from assms(1) obtain key cert s2 where k: "write_new_private_key fs s key = (s2, Inr ())"
    and step: "(case write_new fs s2 CERTIFICATE_FILE cert of
          (s, Inl e) \<Rightarrow> (fst (remove_file fs s PRIVATE_KEY_FILE), Inl e)
        | (s, Inr _) \<Rightarrow> (s, identity_from_der sha256 ring cert key)) = (s', Inr i)"
    by (cases "generate_identity ring") (auto simp: identity_create_def and_do_eq_Inr)
  from step have c: "write_new fs s2 CERTIFICATE_FILE cert = (s', Inr ())"
    and i: "identity_from_der sha256 ring cert key = Inr i"
    by (cases "write_new fs s2 CERTIFICATE_FILE cert"; cases "snd (write_new fs s2 CERTIFICATE_FILE cert)"; simp)+
  from k obtain s1 where "create_new fs s PRIVATE_KEY_FILE 384 = (s1, Inr ())"
      "write_all_sync fs s1 PRIVATE_KEY_FILE key = (s2, Inr ())"
    by (auto simp: write_new_private_key_def result_simps map_do_err_Inr)
  from this assms(2) obtain kn where kn: "secured s2" "node s2 = (node s)(PRIVATE_KEY_FILE \<mapsto> kn)"
      "node_regular kn" "node_owner kn = geteuid fs" "node_mode kn AND NOT 384 = 0"
      "node_mode kn AND 256 \<noteq> 0" "node_contents kn = key"
    by (rule new_file_node) simp_all
  from c obtain s3 where "create_new fs s2 CERTIFICATE_FILE 438 = (s3, Inr ())"
      "write_all_sync fs s3 CERTIFICATE_FILE cert = (s', Inr ())"
    by (auto simp: write_new_def result_simps map_do_err_Inr)
  from this kn(1) obtain cn where cn: "secured s'" "node s' = (node s2)(CERTIFICATE_FILE \<mapsto> cn)"
      "node_regular cn" "node_owner cn = geteuid fs" "node_mode cn AND 256 \<noteq> 0" "node_contents cn = cert"
    by (rule new_file_node) simp_all
  have "node_mode kn AND 63 = (node_mode kn AND NOT 384) AND 63" by (simp add: and.assoc)
  then have own_only: "node_mode kn AND 63 = 0" using kn(5) by simp
  have "identity_load sha256 ring fs s' = Inr i"
    using node_loads [OF cn(1), of cn kn sha256 ring] cn kn own_only i by simp
  then show ?thesis using that [of kn cn] cn kn own_only by simp
qed

text \<open>What a successful run leaves behind, and that the next run finds the same identity.\<close>

lemma load_or_create_stable:
  assumes "identity_load_or_create sha256 ring fs s = (s', Inr i)"
  shows "identity_load_or_create sha256 ring fs s' = (s', Inr i) \<and> secured s' \<and>
    identity_load sha256 ring fs s' = Inr i"
  using assms
proof (cases rule: load_or_create_cases)
  case loaded
  then show ?thesis by (simp add: secured_prologue)
next
  case (created s1)
  from created(5,1) obtain c k where "secured s'"
      "node s' = (node s1)(PRIVATE_KEY_FILE \<mapsto> k, CERTIFICATE_FILE \<mapsto> c)" "identity_load sha256 ring fs s' = Inr i"
    by (rule created_loads)
  then show ?thesis by (simp add: secured_prologue)
qed

lemma load_or_create_private:
  assumes "identity_load_or_create sha256 ring fs s = (s', Inr i)"
  shows "\<exists>k. node s' PRIVATE_KEY_FILE = Some k \<and> node_owner k = geteuid fs \<and> node_mode k AND 63 = 0"
  using assms
proof (cases rule: load_or_create_cases)
  case loaded
  then obtain k where k: "node s' PRIVATE_KEY_FILE = Some k" by blast
  then show ?thesis
    using loaded(4) node_symlink_metadata [OF loaded(1) k] node_metadata [OF loaded(1) k]
    by (auto simp: identity_load_def check_regular_file_def check_private_key_permissions_def result_simps
        split: if_splits)
next
  case (created s1)
  from created(5,1) obtain c k where
      "node s' = (node s1)(PRIVATE_KEY_FILE \<mapsto> k, CERTIFICATE_FILE \<mapsto> c)"
      "node_mode k AND 63 = 0" "node_owner k = geteuid fs"
    by (rule created_loads)
  then show ?thesis by simp
qed

end

section \<open>A directory that keeps the contract\<close>

text \<open>
  The calls of the standard library on one directory of a Unix file system: an entry under the
  directory's own name that may be missing, and the two files. \<open>space\<close> bounds what can still be
  written, so that a write can fail after the file was created; the umask is \<open>0o022\<close>. A node that
  is not regular stands for a symbolic link, whose target is not readable here.
\<close>

record id_dir =
  dir_node :: "id_metadata option"
  dir_files :: "id_file \<Rightarrow> id_node option"
  dir_space :: nat

definition dir_secured :: "u32 \<Rightarrow> id_dir \<Rightarrow> bool" where
  "dir_secured user d \<longleftrightarrow>
     (\<exists>m. dir_node d = Some m \<and> is_directory m \<and> meta_uid m = user \<and> meta_mode m = 448)"

definition dir_store :: "u32 \<Rightarrow> id_dir id_store" where
  "dir_store user =
     \<lparr>create_dir_all = (\<lambda>d. case dir_node d of
          Some m \<Rightarrow> (d, if is_directory m then Inr () else Inl ''File exists'')
        | None \<Rightarrow> (d\<lparr>dir_node := Some \<lparr>is_regular = False, is_directory = True, meta_uid = user, meta_mode = 493\<rparr>\<rparr>, Inr ())),
      directory_metadata = (\<lambda>d. ok_or ''No such file or directory'' (dir_node d)),
      set_permissions = (\<lambda>d w. case dir_node d of
          None \<Rightarrow> (d, Inl ''No such file or directory'')
        | Some m \<Rightarrow> if meta_uid m = user then (d\<lparr>dir_node := Some (m\<lparr>meta_mode := w\<rparr>)\<rparr>, Inr ())
                    else (d, Inl ''Operation not permitted'')),
      file_exists = (\<lambda>d f. dir_files d f \<noteq> None),
      file_symlink_metadata = (\<lambda>d f. map_ok (\<lambda>n. \<lparr>is_regular = node_regular n, is_directory = False,
          meta_uid = node_owner n, meta_mode = node_mode n\<rparr>) (ok_or ''No such file or directory'' (dir_files d f))),
      file_metadata = (\<lambda>d f. map_ok (\<lambda>n. \<lparr>is_regular = node_regular n, is_directory = False,
          meta_uid = node_owner n, meta_mode = node_mode n\<rparr>) (ok_or ''No such file or directory'' (dir_files d f))),
      file_read = (\<lambda>d f. and_then (ok_or ''No such file or directory'' (dir_files d f)) (\<lambda>n.
          if node_regular n \<and> node_owner n = user \<and> node_mode n AND 256 \<noteq> 0 then Inr (node_contents n)
          else Inl ''Permission denied'')),
      create_new = (\<lambda>d f w. if dir_files d f \<noteq> None then (d, Inl ''File exists'')
          else (d\<lparr>dir_files := (dir_files d)(f \<mapsto> \<lparr>node_regular = True, node_owner = user,
                 node_mode = w AND NOT 18, node_contents = []\<rparr>)\<rparr>, Inr ())),
      write_all_sync = (\<lambda>d f c. case dir_files d f of
          None \<Rightarrow> (d, Inl ''Bad file descriptor'')
        | Some n \<Rightarrow>
            let written = take (dir_space d) c in
            (d\<lparr>dir_files := (dir_files d)(f \<mapsto> n\<lparr>node_contents := written\<rparr>),
               dir_space := dir_space d - length written\<rparr>,
             if length c \<le> dir_space d then Inr () else Inl ''No space left on device'')),
      remove_file = (\<lambda>d f. if dir_files d f = None then (d, Inl ''No such file or directory'')
          else (d\<lparr>dir_files := (dir_files d)(f := None)\<rparr>, Inr ())),
      geteuid = user\<rparr>"

lemmas dir_store_simps = dir_store_def id_store.simps dir_secured_def

lemma umask_bits:
  "(w AND NOT 18) AND NOT w = (0 :: u32)" "(w AND NOT 18) AND 256 = (w AND 256 :: u32)"
proof -
  show "(w AND NOT 18) AND NOT w = 0" by (rule bit_word_eqI) (auto simp: bit_and_iff bit_not_iff)
  show "(w AND NOT 18) AND 256 = w AND 256" by (simp add: and.assoc)
qed

interpretation dir: identity_store "dir_store user" dir_files "dir_secured user"
proof (unfold_locales, goal_cases)
  case (10 s f w s')
  let ?n = "\<lparr>node_regular = True, node_owner = user, node_mode = w AND NOT 18, node_contents = []\<rparr>"
  from 10 have "dir_files s f = None" "dir_files s' = (dir_files s)(f \<mapsto> ?n)"
    by (auto simp: dir_store_def split: if_splits)
  then show ?case
    by (intro conjI exI [of _ ?n]) (simp_all add: umask_bits [simplified] dir_store_def)
qed (auto simp: dir_store_def dir_secured_def Let_def split: option.splits if_splits)

text \<open>
  C24. An identity is stable. Whenever \<open>load_or_create\<close> returns an identity, whether it found the files or
  made them, running it again on the directory it left returns the same identity and changes
  nothing; the directory then is the user's alone, the key file is not accessible to others, and
  the fingerprint is at once that of the stored certificate and that of the stored key.\<close>

theorem identity_stable:
  assumes "identity_load_or_create sha256 ring (dir_store user) d = (d', Inr i)"
  shows "identity_load_or_create sha256 ring (dir_store user) d' = (d', Inr i) \<and>
    dir_secured user d' \<and>
    (\<exists>k. dir_files d' PRIVATE_KEY_FILE = Some k \<and> node_owner k = user \<and> node_mode k AND 63 = 0) \<and>
    fingerprint_certificate sha256 (certificate i) = Inr (fingerprint i) \<and>
    (\<exists>key_pair. from_pkcs8 ring (private_key i) = Some key_pair \<and>
       fingerprint i = Fingerprint (sha256 (ed25519_spki (public_key ring key_pair))))"
proof -
  note stable = dir.load_or_create_stable [OF assms]
  then obtain cert key where "identity_from_der sha256 ring cert key = Inr i"
    using identity_load_Inr [of sha256 ring "dir_store user" d' i] by blast
  moreover have "geteuid (dir_store user) = user" by (simp add: dir_store_def)
  ultimately show ?thesis
    using stable dir.load_or_create_private [OF assms] by (auto simp: identity_from_der_Inr)
qed

text \<open>
  The first run makes an identity. Where the directory can be created and there is room for the key
  and the certificate, the key library delivers a key and a serial number, and no identity file
  exists, \<open>load_or_create\<close> succeeds: the certificate it signs is one its own reader accepts, with
  the fingerprint of the generated key.\<close>

lemma first_run:
  assumes "ring_ok ring" and "generate_identity ring = Inr (key, cert)"
    and "dir_node d = None" and "dir_files d = (\<lambda>_. None)" and "length key + length cert \<le> dir_space d"
  shows "\<exists>d' i. identity_load_or_create sha256 ring (dir_store user) d = (d', Inr i) \<and>
    certificate i = cert \<and> private_key i = key \<and>
    map_option node_contents (dir_files d' CERTIFICATE_FILE) = Some cert \<and>
    map_option node_contents (dir_files d' PRIVATE_KEY_FILE) = Some key"
proof -
  from assms(2) obtain k where k: "from_pkcs8 ring key = Some k"
    and cert: "self_signed_certificate ring k = Inr cert"
    by (auto simp: generate_identity_def result_simps)
  have "\<exists>i. identity_from_der sha256 ring cert key = Inr i \<and> certificate i = cert \<and> private_key i = key"
    using self_signed_fingerprint [OF assms(1) cert, of sha256] k
    by (simp add: identity_from_der_def)
  then show ?thesis
    using assms(2-5)
    by (auto simp: identity_load_or_create_def set_directory_permissions_def map_do_err_def
        identity_create_def write_new_private_key_def write_new_def dir_store_def Let_def)
qed

theorem identity_stable_witness:
  "\<exists>d d' i. identity_load_or_create (\<lambda>_. replicate 32 0) sample_ring (dir_store 7) d = (d', Inr i) \<and> d \<noteq> d' \<and>
     identity_load_or_create (\<lambda>_. replicate 32 0) sample_ring (dir_store 7) d' = (d', Inr i)"
proof -
  obtain cert where cert: "generate_identity sample_ring = Inr ([5, 6], cert)" by (rule sample_identity)
  let ?d = "\<lparr>dir_node = None, dir_files = (\<lambda>_. None), dir_space = 2 + length cert\<rparr>"
  obtain d' i where run: "identity_load_or_create (\<lambda>_. replicate 32 0) sample_ring (dir_store 7) ?d = (d', Inr i)"
    using first_run [OF sample_ring_ok cert, of ?d "\<lambda>_. replicate 32 0" 7] by auto
  note stable = identity_stable [OF run]
  then have "d' \<noteq> ?d" by (auto simp: dir_secured_def)
  with run stable show ?thesis by blast
qed

text \<open>
  When storing the certificate fails after its file was created, the key is removed but the partial
  certificate stays, and every later run refuses the directory, however much room there is then.
\<close>

theorem interrupted_create_blocks:
  assumes "generate_identity ring = Inr (key, cert)" and "cert \<noteq> []"
    and "dir_node d = None" and "dir_files d = (\<lambda>_. None)" and "dir_space d = length key"
  shows "\<exists>d' e. identity_load_or_create sha256 ring (dir_store user) d = (d', Inl e) \<and>
    (\<forall>n. snd (identity_load_or_create sha256 ring (dir_store user) (d'\<lparr>dir_space := n\<rparr>)) =
       Inl (configuration_error
         ''identity certificate and private key must either both exist or both be absent''))"
  using assms
  by (auto simp: identity_load_or_create_def set_directory_permissions_def map_do_err_def
      identity_create_def write_new_private_key_def write_new_def dir_store_def Let_def)

end
