(* ===== verification/Transport.thy ===== *)
theory Transport
  imports Loading Identities
begin

text \<open>
  Connections and session streams, \<open>crates/quicsync-core/src/transport/quic.rs\<close>. The QUIC library is
  outside: what it reports about a connection is a \<open>ConnectionError\<close>, what awaiting one of its
  futures comes to is a \<open>waiting\<close> value, and setting up an endpoint goes through the record \<open>quinn\<close>.
\<close>

section \<open>Bounds\<close>

record TransportBounds =
  bound_frame_bytes :: usize
  bound_parallel_transfers :: usize
  bound_inflight_bytes :: usize

definition transport_bounds_new :: "usize \<Rightarrow> usize \<Rightarrow> usize \<Rightarrow> QuicSyncError + TransportBounds" where
  "transport_bounds_new fr transfers inflight =
     (if fr = 0 \<or> transfers = 0 \<or> inflight = 0
      then Inl (quic_sync_error_new InvalidConfiguration None
        ''transport bounds must all be greater than zero'')
      else Inr \<lparr>bound_frame_bytes = fr, bound_parallel_transfers = transfers,
        bound_inflight_bytes = inflight\<rparr>)"

definition from_limits :: "Limits \<Rightarrow> TransportBounds" where
  "from_limits l =
     \<lparr>bound_frame_bytes = max_frame_bytes l, bound_parallel_transfers = max_parallel_transfers l,
      bound_inflight_bytes = max_inflight_bytes l\<rparr>"

text \<open>A \<open>VarInt\<close> holds 62 bits.\<close>

definition VARINT_MAX :: u64 where "VARINT_MAX = 2 ^ 62 - 1"

definition varint_saturating :: "u64 \<Rightarrow> u64" where
  "varint_saturating v = (if v \<le> VARINT_MAX then v else VARINT_MAX)"

record TransportConfig =
  max_concurrent_bidi_streams :: u64
  max_concurrent_uni_streams :: u64
  receive_window :: u64
  stream_receive_window :: u64
  send_window :: u64
  datagram_receive_buffer_size :: "usize option"
  datagram_send_buffer_size :: usize
  max_idle_timeout :: "nat option"
  keep_alive_interval :: "nat option"

text \<open>
  \<open>None\<close> is a panic: with \<open>2 ^ 64 - 1\<close> transfers the sum overflows, and where overflow wraps the
  division is by zero. Times are in seconds.
\<close>

definition tuning :: "TransportBounds \<Rightarrow> TransportConfig option" where
  "tuning b =
     (let transfers = bound_parallel_transfers b; inflight = bound_inflight_bytes b in
      if transfers + 1 = 0 then None
      else
        let per_stream = max (inflight div (transfers + 1)) (bound_frame_bytes b) in
        Some \<lparr>max_concurrent_bidi_streams = varint_saturating (transfers + 1),
          max_concurrent_uni_streams = varint_saturating 1,
          receive_window = varint_saturating inflight,
          stream_receive_window = varint_saturating per_stream,
          send_window = inflight,
          datagram_receive_buffer_size = None,
          datagram_send_buffer_size = 0,
          max_idle_timeout = Some 30,
          keep_alive_interval = Some 5\<rparr>)"

section \<open>Errors of the library and their codes\<close>

text \<open>The text of an error is what it displays as.\<close>

datatype ConnectionError =
    TransportError u64 string
  | ConnectionClosed u64 string
  | ApplicationClosed u64 string
  | LocallyClosed string
  | OtherConnectionError string

fun connection_error_text :: "ConnectionError \<Rightarrow> string" where
  "connection_error_text (TransportError c t) = t"
| "connection_error_text (ConnectionClosed c t) = t"
| "connection_error_text (ApplicationClosed c t) = t"
| "connection_error_text (LocallyClosed t) = t"
| "connection_error_text (OtherConnectionError t) = t"

datatype StreamError = ConnectionLost ConnectionError | OtherStreamError string

datatype AcquireError = AcquireError

definition SESSION_CLOSED :: u64 where "SESSION_CLOSED = 0"

definition is_crypto :: "u64 \<Rightarrow> bool" where
  "is_crypto c \<longleftrightarrow> 0x100 \<le> c \<and> c < 0x200"

definition cancelled :: "string \<Rightarrow> QuicSyncError" where
  "cancelled action = quic_sync_error_new ErrorCode.Cancelled None (action @ '': session was cancelled'')"

definition unavailable :: "string \<Rightarrow> QuicSyncError" where
  "unavailable d = quic_sync_error_new TransportUnavailable None d"

definition authentication :: "string \<Rightarrow> QuicSyncError" where
  "authentication d = quic_sync_error_new AuthenticationFailed (Some Handshake) d"

definition configuration :: "string \<Rightarrow> QuicSyncError" where
  "configuration d = quic_sync_error_new InvalidConfiguration None d"

definition describe_connection :: "ConnectionError \<Rightarrow> string \<Rightarrow> QuicSyncError" where
  "describe_connection e action =
     (let rejected_handshake =
        (case e of TransportError c _ \<Rightarrow> is_crypto c | ConnectionClosed c _ \<Rightarrow> is_crypto c | _ \<Rightarrow> False) in
      if rejected_handshake then authentication (action @ '': peer rejected the TLS handshake'')
      else unavailable (action @ '': '' @ connection_error_text e))"

text \<open>The same mapping for \<open>WriteError\<close>, \<open>ReadError\<close> and \<open>StoppedError\<close>.\<close>

fun describe_stream :: "StreamError \<Rightarrow> string \<Rightarrow> QuicSyncError" where
  "describe_stream (ConnectionLost e) action = describe_connection e action"
| "describe_stream (OtherStreamError t) action = unavailable (action @ '': '' @ t)"

definition describe_closed_stream :: "string \<Rightarrow> string \<Rightarrow> QuicSyncError" where
  "describe_closed_stream t action = unavailable (action @ '': '' @ t)"

fun describe_acquire :: "AcquireError \<Rightarrow> string \<Rightarrow> QuicSyncError" where
  "describe_acquire AcquireError action =
     quic_sync_error_new ErrorCode.Internal None (action @ '': transfer capacity is no longer available'')"

section \<open>Completion\<close>

datatype Completion = Acknowledged | Unknown

fun into_result :: "Completion \<Rightarrow> QuicSyncError + unit" where
  "into_result Acknowledged = Inr ()"
| "into_result Unknown = Inl (quic_sync_error_new CompletionUnknown (Some Complete)
     ''session closed without a completion acknowledgment'')"

section \<open>Sessions\<close>

text \<open>
  The state that the streams of a connection share, as one operation sees it: why the connection
  has ended, if it has; whether the session was cancelled; the transfer permits not taken; and the
  handshake, of which \<open>early_handshake\<close> is the outcome still to come.
\<close>

record Session =
  close_reason :: "ConnectionError option"
  session_bounds :: TransportBounds
  session_cancelled :: bool
  transfer_permits :: nat
  early_handshake :: "bool option"
  handshake_accepted :: "bool option"
  attempted_early :: bool

definition session_new_early :: "TransportBounds \<Rightarrow> bool \<Rightarrow> bool option \<Rightarrow> bool \<Rightarrow> Session" where
  "session_new_early b canc handshake outgoing_early =
     \<lparr>close_reason = None, session_bounds = b, session_cancelled = canc,
      transfer_permits = unat (bound_parallel_transfers b), early_handshake = handshake,
      handshake_accepted = None, attempted_early = outgoing_early\<rparr>"

definition session_new :: "TransportBounds \<Rightarrow> bool \<Rightarrow> Session" where
  "session_new b canc = session_new_early b canc None False"

text \<open>The watcher: an end of the connection that is not its own close cancels the session.\<close>

definition watch_closed :: "Session \<Rightarrow> ConnectionError \<Rightarrow> Session" where
  "watch_closed s e =
     s\<lparr>close_reason := Some e,
       session_cancelled := (session_cancelled s \<or> (case e of LocallyClosed _ \<Rightarrow> False | _ \<Rightarrow> True))\<rparr>"

definition connection_cancel :: "Session \<Rightarrow> Session" where
  "connection_cancel s =
     s\<lparr>session_cancelled := True,
       close_reason := (case close_reason s of None \<Rightarrow> Some (LocallyClosed ''closed'') | Some e \<Rightarrow> Some e)\<rparr>"

fun closed_cleanly_with :: "ConnectionError option \<Rightarrow> bool" where
  "closed_cleanly_with (Some (ApplicationClosed c _)) \<longleftrightarrow> c = SESSION_CLOSED"
| "closed_cleanly_with (Some (LocallyClosed _)) \<longleftrightarrow> True"
| "closed_cleanly_with _ \<longleftrightarrow> False"

definition interrupted_with :: "ConnectionError option \<Rightarrow> string \<Rightarrow> QuicSyncError" where
  "interrupted_with r action =
     (case r of
        Some e \<Rightarrow> if \<not> closed_cleanly_with r then describe_connection e action else cancelled action
      | None \<Rightarrow> cancelled action)"

text \<open>
  What awaiting an operation of the library comes to: the cancellation is seen first, when the
  connection has the given close reason, or the operation is ready. The selection is biased: a
  session already cancelled does not look at the operation.
\<close>

datatype 'r waiting = CancelledFirst "ConnectionError option" | Ready 'r

definition guarded ::
    "bool \<Rightarrow> string \<Rightarrow> ('e \<Rightarrow> string \<Rightarrow> QuicSyncError) \<Rightarrow> ('e + 'a) waiting \<Rightarrow> QuicSyncError + 'a" where
  "guarded canc action describe w =
     (if canc then Inl (cancelled action)
      else case w of
          CancelledFirst _ \<Rightarrow> Inl (cancelled action)
        | Ready r \<Rightarrow> map_err (\<lambda>e. describe e action) r)"

definition guarded_in ::
    "Session \<Rightarrow> string \<Rightarrow> ('e \<Rightarrow> string \<Rightarrow> QuicSyncError) \<Rightarrow> ('e + 'a) waiting \<Rightarrow> QuicSyncError + 'a" where
  "guarded_in s action describe w =
     (if session_cancelled s then Inl (interrupted_with (close_reason s) action)
      else case w of
          CancelledFirst r \<Rightarrow> Inl (interrupted_with r action)
        | Ready r \<Rightarrow> map_err (\<lambda>e. describe e action) r)"

definition guarded_infallible :: "bool \<Rightarrow> string \<Rightarrow> 'a waiting \<Rightarrow> QuicSyncError + 'a" where
  "guarded_infallible canc action w =
     (if canc then Inl (cancelled action)
      else case w of CancelledFirst _ \<Rightarrow> Inl (cancelled action) | Ready v \<Rightarrow> Inr v)"

text \<open>
  The gate of the handshake. The cell is filled once; \<open>w\<close> is what waiting for an early handshake,
  with the outcome \<open>early_handshake\<close>, comes to, and the close reason of the connection then.
\<close>

definition confirm_handshake ::
    "Session \<Rightarrow> ConnectionError option waiting \<Rightarrow> Session \<times> (QuicSyncError + unit)" where
  "confirm_handshake s w =
     and_do (case handshake_accepted s of
         Some a \<Rightarrow> (s, Inr a)
       | None \<Rightarrow>
           (case early_handshake s of
              None \<Rightarrow> (s\<lparr>handshake_accepted := Some True\<rparr>, Inr True)
            | Some a \<Rightarrow>
                (case w of
                   CancelledFirst r \<Rightarrow> (s, Inl (interrupted_with r ''handshake''))
                 | Ready r \<Rightarrow> (s\<lparr>handshake_accepted := Some a, close_reason := r\<rparr>, Inr a)))) (\<lambda>s accepted.
     case close_reason s of
       Some e \<Rightarrow> (s, Inl (describe_connection e ''handshake''))
     | None \<Rightarrow>
         if accepted \<or> \<not> attempted_early s then (s, Inr ())
         else (s, Inl (unavailable ''early notification rejected; start a fresh sync'')))"

text \<open>
  What the library knows of the peer: nothing, something that is no certificate chain, or a chain.
\<close>

datatype peer_identity = NoIdentity | ForeignIdentity | CertificateChain "bytes list"

definition peer_fingerprint :: "(bytes \<Rightarrow> bytes) \<Rightarrow> peer_identity \<Rightarrow> QuicSyncError + Fingerprint" where
  "peer_fingerprint sha256 p =
     (case p of
        NoIdentity \<Rightarrow> Inl (authentication ''peer presented no certificate'')
      | ForeignIdentity \<Rightarrow> Inl (authentication ''peer identity is not a certificate chain'')
      | CertificateChain [] \<Rightarrow> Inl (authentication ''peer certificate chain is empty'')
      | CertificateChain (c # _) \<Rightarrow> from_certificate_der sha256 c)"

section \<open>Streams\<close>

text \<open>
  The receiving half of a stream is what it will still deliver: data in the pieces the library has
  them, the end of the stream, a failed read, or a cancellation of the session while waiting. When
  nothing more comes, a read ends only with the session. A read takes at most what the buffer
  holds. The sending half is what was written, how the next writes end (all well once the list is
  used up), and whether it was finished.
\<close>

datatype recv_event = Data bytes | Fin | ReadFault StreamError | CancelDuring "ConnectionError option"

type_synonym RecvStream = "recv_event list"

fun stream_read :: "nat \<Rightarrow> RecvStream \<Rightarrow> RecvStream \<times> (StreamError + bytes option) waiting" where
  "stream_read n [] = ([], CancelledFirst None)"
| "stream_read n (Data b # es) =
     ((if length b \<le> n then es else Data (drop n b) # es), Ready (Inr (Some (take n b))))"
| "stream_read n (Fin # es) = (Fin # es, Ready (Inr None))"
| "stream_read n (ReadFault e # es) = (es, Ready (Inl e))"
| "stream_read n (CancelDuring r # es) = (es, CancelledFirst r)"

record SendStream =
  written :: bytes
  write_outcomes :: "(StreamError + unit) waiting list"
  send_finished :: bool

definition write_all :: "SendStream \<Rightarrow> bytes \<Rightarrow> SendStream \<times> (StreamError + unit) waiting" where
  "write_all st chunk =
     (if send_finished st then (st, Ready (Inl (OtherStreamError ''closed stream'')))
      else case write_outcomes st of
          [] \<Rightarrow> (st\<lparr>written := written st @ chunk\<rparr>, Ready (Inr ()))
        | w # ws \<Rightarrow>
            (st\<lparr>write_outcomes := ws, written := (if w = Ready (Inr ()) then written st @ chunk else written st)\<rparr>, w))"

definition stream_finish :: "SendStream \<Rightarrow> SendStream \<times> (string + unit)" where
  "stream_finish st =
     (if send_finished st then (st, Inl ''closed stream'') else (st\<lparr>send_finished := True\<rparr>, Inr ()))"

definition send_bounded ::
    "Session \<Rightarrow> SendStream \<Rightarrow> bytes \<Rightarrow> string \<Rightarrow> SendStream \<times> (QuicSyncError + unit)" where
  "send_bounded s st chunk action =
     (if length chunk > unat (bound_frame_bytes (session_bounds s))
      then (st, Inl (quic_sync_error_new ResourceLimitExceeded None
        (decimal (length chunk) @ '' bytes exceed the local frame limit of '' @
         decimal (unat (bound_frame_bytes (session_bounds s))))))
      else if session_cancelled s then (st, guarded_in s action describe_stream (CancelledFirst None))
      else case write_all st chunk of (st, w) \<Rightarrow> (st, guarded_in s action describe_stream w))"

definition receive_bounded ::
    "Session \<Rightarrow> RecvStream \<Rightarrow> bool \<Rightarrow> nat \<Rightarrow> string \<Rightarrow>
     (RecvStream \<times> bool) \<times> (QuicSyncError + bytes option)" where
  "receive_bounded s rs fin buffer_len action =
     (if fin then ((rs, fin), Inr None)
      else
        let bound = min buffer_len (unat (bound_frame_bytes (session_bounds s))) in
        if bound = 0 then ((rs, fin), Inr (Some []))
        else if session_cancelled s then ((rs, fin), guarded_in s action describe_stream (CancelledFirst None))
        else case stream_read bound rs of
          (rs, w) \<Rightarrow>
            (case guarded_in s action describe_stream w of
               Inl e \<Rightarrow> ((rs, fin), Inl e)
             | Inr r \<Rightarrow> ((rs, fin \<or> r = None), Inr r)))"

subsection \<open>The control stream\<close>

record ControlChannel =
  ctl_send :: SendStream
  ctl_recv :: RecvStream
  completion :: Completion
  ctl_finished :: bool

definition control_new :: "SendStream \<Rightarrow> RecvStream \<Rightarrow> ControlChannel" where
  "control_new st rs = \<lparr>ctl_send = st, ctl_recv = rs, completion = Unknown, ctl_finished = False\<rparr>"

definition control_send :: "Session \<Rightarrow> ControlChannel \<Rightarrow> bytes \<Rightarrow> ControlChannel \<times> (QuicSyncError + unit)" where
  "control_send s c fr =
     (case send_bounded s (ctl_send c) fr ''send control frame'' of (st, r) \<Rightarrow> (c\<lparr>ctl_send := st\<rparr>, r))"

definition control_receive ::
    "Session \<Rightarrow> ControlChannel \<Rightarrow> nat \<Rightarrow> ControlChannel \<times> (QuicSyncError + bytes option)" where
  "control_receive s c n =
     (case receive_bounded s (ctl_recv c) (ctl_finished c) n ''receive control bytes'' of
        ((rs, fin), r) \<Rightarrow> (c\<lparr>ctl_recv := rs, ctl_finished := fin\<rparr>, r))"

definition record_completion_ack :: "ControlChannel \<Rightarrow> ControlChannel" where
  "record_completion_ack c = c\<lparr>completion := Acknowledged\<rparr>"

text \<open>Closing finishes the sending half and waits for the peer; how that wait ends is ignored.\<close>

definition control_close :: "ControlChannel \<Rightarrow> ControlChannel \<times> Completion" where
  "control_close c = (c\<lparr>ctl_send := fst (stream_finish (ctl_send c))\<rparr>, completion c)"

subsection \<open>The index stream\<close>

definition index_send :: "Session \<Rightarrow> SendStream \<Rightarrow> bytes \<Rightarrow> SendStream \<times> (QuicSyncError + unit)" where
  "index_send s st chunk = send_bounded s st chunk ''send index bytes''"

definition index_finish :: "SendStream \<Rightarrow> SendStream \<times> (QuicSyncError + unit)" where
  "index_finish st =
     (case stream_finish st of
        (st, r) \<Rightarrow> (st, map_err (\<lambda>t. describe_closed_stream t ''finish index stream'') r))"

record IndexReader =
  idx_stream :: "RecvStream option"
  idx_finished :: bool

definition index_receive ::
    "Session \<Rightarrow> (ConnectionError + RecvStream) waiting \<Rightarrow> IndexReader \<Rightarrow> nat \<Rightarrow>
     IndexReader \<times> (QuicSyncError + bytes option)" where
  "index_receive s accept_uni x n =
     (if idx_finished x then (x, Inr None)
      else
        and_do (case idx_stream x of
            Some rs \<Rightarrow> (x, Inr rs)
          | None \<Rightarrow>
              (case guarded_in s ''accept index stream'' describe_connection accept_uni of
                 Inl e \<Rightarrow> (x, Inl e)
               | Inr rs \<Rightarrow> (x\<lparr>idx_stream := Some rs\<rparr>, Inr rs))) (\<lambda>x rs.
        case receive_bounded s rs (idx_finished x) n ''receive index bytes'' of
          ((rs, fin), r) \<Rightarrow> (x\<lparr>idx_stream := Some rs, idx_finished := fin\<rparr>, r)))"

subsection \<open>Transfer streams\<close>

record TransferStream =
  xfer_send :: SendStream
  xfer_recv :: RecvStream
  xfer_finished :: bool

definition transfer_stream_new :: "SendStream \<Rightarrow> RecvStream \<Rightarrow> TransferStream" where
  "transfer_stream_new st rs = \<lparr>xfer_send = st, xfer_recv = rs, xfer_finished = False\<rparr>"

definition transfer_send :: "Session \<Rightarrow> TransferStream \<Rightarrow> bytes \<Rightarrow> TransferStream \<times> (QuicSyncError + unit)" where
  "transfer_send s x chunk =
     (case send_bounded s (xfer_send x) chunk ''send transfer bytes'' of (st, r) \<Rightarrow> (x\<lparr>xfer_send := st\<rparr>, r))"

definition transfer_receive ::
    "Session \<Rightarrow> TransferStream \<Rightarrow> nat \<Rightarrow> TransferStream \<times> (QuicSyncError + bytes option)" where
  "transfer_receive s x n =
     (case receive_bounded s (xfer_recv x) (xfer_finished x) n ''receive transfer bytes'' of
        ((rs, fin), r) \<Rightarrow> (x\<lparr>xfer_recv := rs, xfer_finished := fin\<rparr>, r))"

definition transfer_finish :: "TransferStream \<Rightarrow> TransferStream \<times> (QuicSyncError + unit)" where
  "transfer_finish x =
     (case stream_finish (xfer_send x) of
        (st, r) \<Rightarrow> (x\<lparr>xfer_send := st\<rparr>, map_err (\<lambda>t. describe_closed_stream t ''finish transfer stream'') r))"

text \<open>
  Taking a permit. Where none is left the operation waits; that it may go on when another transfer
  gives its permit back is an interleaving of steps, and in the operation itself the wait ends with
  the session, whose close reason is then \<open>r\<close>. The semaphore is never closed.
\<close>

definition reserve :: "Session \<Rightarrow> ConnectionError option \<Rightarrow> Session \<times> (QuicSyncError + unit)" where
  "reserve s r =
     (if session_cancelled s then (s, Inl (interrupted_with (close_reason s) ''reserve transfer capacity''))
      else if 0 < transfer_permits s then (s\<lparr>transfer_permits := transfer_permits s - 1\<rparr>, Inr ())
      else (s, Inl (interrupted_with r ''reserve transfer capacity'')))"

definition drop_permit :: "Session \<Rightarrow> Session" where
  "drop_permit s = s\<lparr>transfer_permits := transfer_permits s + 1\<rparr>"

definition transfer_open ::
    "Session \<Rightarrow> ConnectionError option \<Rightarrow> (ConnectionError + SendStream \<times> RecvStream) waiting \<Rightarrow>
     Session \<times> (QuicSyncError + TransferStream)" where
  "transfer_open s r open_bi =
     and_do (reserve s r) (\<lambda>s _.
     case guarded_in s ''open transfer stream'' describe_connection open_bi of
       Inl e \<Rightarrow> (drop_permit s, Inl e)
     | Inr (st, rs) \<Rightarrow> (s, Inr (transfer_stream_new st rs)))"

text \<open>The close reason when the wait for a stream has failed.\<close>

fun reason_after :: "(ConnectionError + 'a) waiting \<Rightarrow> ConnectionError option" where
  "reason_after (CancelledFirst r) = r"
| "reason_after (Ready (Inl e)) = Some e"
| "reason_after (Ready (Inr _)) = None"

definition transfer_accept ::
    "Session \<Rightarrow> ConnectionError option \<Rightarrow> (ConnectionError + SendStream \<times> RecvStream) waiting \<Rightarrow>
     Session \<times> (QuicSyncError + TransferStream option)" where
  "transfer_accept s r accept_bi =
     and_do (reserve s r) (\<lambda>s _.
     case guarded_in s ''accept transfer stream'' describe_connection accept_bi of
       Inr (st, rs) \<Rightarrow> (s, Inr (Some (transfer_stream_new st rs)))
     | Inl e \<Rightarrow>
         (drop_permit s,
          if closed_cleanly_with (reason_after accept_bi) then Inr None else Inl e))"

section \<open>Endpoints\<close>

text \<open>
  The calls that set up an endpoint, each with the text of its error. \<open>into_0rtt\<close> succeeds where the
  TLS configuration holds a ticket; its handshake outcome comes later.
\<close>

datatype bind_address = Ipv4Unspecified | Ipv6Unspecified

record ('addr, 'tls, 'crypto, 'ep, 'connecting) quinn =
  with_alpn :: "bytes list \<Rightarrow> 'tls \<Rightarrow> 'tls"
  crypto_try_from :: "'tls \<Rightarrow> string + 'crypto"
  is_ipv4 :: "'addr \<Rightarrow> bool"
  endpoint_client :: "bind_address \<Rightarrow> string + 'ep"
  connect_with :: "'ep \<Rightarrow> 'crypto \<Rightarrow> TransportConfig \<Rightarrow> 'addr \<Rightarrow> bytes \<Rightarrow> string + 'connecting"
  into_0rtt :: "'connecting \<Rightarrow> bool option"
  await_connecting :: "'connecting \<Rightarrow> (ConnectionError + unit) waiting"
  endpoint_server :: "'crypto \<Rightarrow> TransportConfig \<Rightarrow> 'addr \<Rightarrow> string + 'ep"

definition ALPN :: bytes where "ALPN = bytes_of ''quicsync/1''"
definition SERVER_NAME :: bytes where "SERVER_NAME = bytes_of ''quicsync.invalid''"

text \<open>\<open>None\<close> is the panic of \<open>tuning\<close>.\<close>

definition dial ::
    "('addr, 'tls, 'crypto, 'ep, 'connecting) quinn \<Rightarrow> 'addr \<Rightarrow> 'tls \<Rightarrow> TransportBounds \<Rightarrow> bool \<Rightarrow> bool \<Rightarrow>
     (QuicSyncError + Session) option" where
  "dial q address tls bounds canc early =
     (case map_err (\<lambda>e. configuration (''client TLS is unusable for QUIC: '' @ e))
         (crypto_try_from q (with_alpn q [ALPN] tls)) of
        Inl e \<Rightarrow> Some (Inl e)
      | Inr crypto \<Rightarrow> map_option (\<lambda>transport.
          let unspecified = (if is_ipv4 q address then Ipv4Unspecified else Ipv6Unspecified) in
          and_then (map_err (\<lambda>e. unavailable (''bind client endpoint: '' @ e)) (endpoint_client q unspecified))
            (\<lambda>endpoint.
          and_then (map_err (\<lambda>e. unavailable (''start connection: '' @ e))
            (connect_with q endpoint crypto transport address SERVER_NAME)) (\<lambda>connecting.
          case (if early then into_0rtt q connecting else None) of
            Some handshake \<Rightarrow> Inr (session_new_early bounds canc (Some handshake) True)
          | None \<Rightarrow>
              map_ok (\<lambda>_. session_new bounds canc)
                (guarded canc ''connect to destination'' describe_connection (await_connecting q connecting)))))
          (tuning bounds))"

definition connect_early_to ::
    "('addr, 'tls, 'crypto, 'ep, 'connecting) quinn \<Rightarrow> 'addr \<Rightarrow> 'tls \<Rightarrow> TransportBounds \<Rightarrow> bool \<Rightarrow>
     (QuicSyncError + Session) option" where
  "connect_early_to q address tls bounds canc = dial q address tls bounds canc True"

text \<open>The pins a destination admits and the verifier of the server it starts.\<close>

definition listen_pins :: "('fd, 'addr) DestinationConfig \<Rightarrow> auth_pin list" where
  "listen_pins config =
     map (\<lambda>pin. AuthPin (Fingerprint (pin_bytes pin))) (concat (map authorized_peers (roots config)))"

definition listen_on ::
    "('addr, 'tls, 'crypto, 'ep, 'connecting) quinn \<Rightarrow> 'addr \<Rightarrow> 'tls \<Rightarrow> TransportBounds \<Rightarrow>
     (QuicSyncError + 'ep) option" where
  "listen_on q address tls bounds =
     (case map_err (\<lambda>e. configuration (''server TLS is unusable for QUIC: '' @ e))
         (crypto_try_from q (with_alpn q [ALPN] tls)) of
        Inl e \<Rightarrow> Some (Inl e)
      | Inr crypto \<Rightarrow> map_option (\<lambda>transport.
          map_err (\<lambda>e. unavailable (''bind server endpoint: '' @ e)) (endpoint_server q crypto transport address))
          (tuning bounds))"

text \<open>
  Accepting one connection: \<open>incoming\<close> is what the endpoint yields, \<open>accepted\<close> the result of accepting
  it, and the session gets a child of the listener's token.
\<close>

definition accept_mode ::
    "('addr, 'tls, 'crypto, 'ep, 'connecting) quinn \<Rightarrow> TransportBounds \<Rightarrow> bool \<Rightarrow> bool \<Rightarrow>
     (ConnectionError + 'connecting) option waiting \<Rightarrow> QuicSyncError + Session" where
  "accept_mode q bounds canc early incoming =
     and_then (guarded_infallible canc ''accept connection'' incoming) (\<lambda>incoming.
     and_then (ok_or (unavailable ''endpoint stopped accepting connections'') incoming) (\<lambda>accepted.
     and_then (map_err (\<lambda>e. describe_connection e ''accept connection'') accepted) (\<lambda>connecting.
     case (if early then into_0rtt q connecting else None) of
       Some handshake \<Rightarrow> Inr (session_new_early bounds canc (Some handshake) False)
     | None \<Rightarrow>
         map_ok (\<lambda>_. session_new bounds canc)
           (guarded canc ''accept connection'' describe_connection (await_connecting q connecting)))))"

definition client_pin :: "('fd, 'addr) SourceConfig \<Rightarrow> auth_pin" where
  "client_pin config = AuthPin (Fingerprint (pin_bytes (source_peer_pin config)))"

text \<open>Opening and accepting the streams of a session.\<close>

record SourceStreams =
  src_control :: ControlChannel
  src_index :: SendStream

definition open_session ::
    "Session \<Rightarrow> (ConnectionError + SendStream \<times> RecvStream) waiting \<Rightarrow> (ConnectionError + SendStream) waiting \<Rightarrow>
     QuicSyncError + SourceStreams" where
  "open_session s open_bi open_uni =
     and_then (guarded_in s ''open control stream'' describe_connection open_bi) (\<lambda>(st, rs).
     and_then (guarded_in s ''open index stream'' describe_connection open_uni) (\<lambda>idx.
     Inr \<lparr>src_control = control_new st rs, src_index = idx\<rparr>))"

record DestinationStreams =
  dst_control :: ControlChannel
  dst_source_index :: IndexReader

definition accept_session ::
    "Session \<Rightarrow> (ConnectionError + SendStream \<times> RecvStream) waiting \<Rightarrow> QuicSyncError + DestinationStreams" where
  "accept_session s accept_bi =
     and_then (guarded_in s ''accept control stream'' describe_connection accept_bi) (\<lambda>(st, rs).
     Inr \<lparr>dst_control = control_new st rs, dst_source_index = \<lparr>idx_stream = None, idx_finished = False\<rparr>\<rparr>)"

section \<open>Windows\<close>

text \<open>
  C40. The transport limits of validated configurations. Tuning never panics and saturates nothing: the
  connection window is the in-flight limit, one more bidirectional stream than transfers is
  admitted, and a single frame fits into a stream's window. Where a frame is no larger than one share
  of the window, all transfers together leave a share to the control stream.\<close>

theorem tuning_of_limits:
  assumes "limits_ok l"
  shows "\<exists>c. tuning (from_limits l) = Some c \<and>
    unat (receive_window c) = unat (max_inflight_bytes l) \<and>
    unat (max_concurrent_bidi_streams c) = unat (max_parallel_transfers l) + 1 \<and>
    unat (max_frame_bytes l) \<le> unat (stream_receive_window c) \<and>
    (unat (max_frame_bytes l) \<le> unat (max_inflight_bytes l) div (unat (max_parallel_transfers l) + 1) \<longrightarrow>
      unat (max_parallel_transfers l) * unat (stream_receive_window c) +
        unat (max_inflight_bytes l) div (unat (max_parallel_transfers l) + 1) \<le> unat (receive_window c))"
proof -
  define t where "t = unat (max_parallel_transfers l)"
  define i where "i = unat (max_inflight_bytes l)"
  define f where "f = unat (max_frame_bytes l)"
  have b: "0 < t" "t \<le> 1024" "i \<le> 2 ^ 34" "f \<le> 2 ^ 30"
    using assms by (auto simp: limits_ok_def t_def i_def f_def)
  have t1: "unat (max_parallel_transfers l + 1) = t + 1"
    using b(2) by (simp add: unat_word_ariths t_def)
  have nz: "max_parallel_transfers l + 1 \<noteq> 0" using t1 by force
  have q: "unat (max_inflight_bytes l div (max_parallel_transfers l + 1)) = i div (t + 1)"
    by (simp add: unat_div t1 i_def)
  have m: "unat (max (max_inflight_bytes l div (max_parallel_transfers l + 1)) (max_frame_bytes l)) = max (i div (t + 1)) f"
    using q by (simp add: max_def word_le_nat_alt f_def)
  have vm: "unat VARINT_MAX = 2 ^ 62 - 1" by (simp add: VARINT_MAX_def)
  have sat: "varint_saturating v = v" if "unat v \<le> 2 ^ 34" for v :: u64
    using that by (simp add: varint_saturating_def word_le_nat_alt vm)
  have "i div (t + 1) \<le> 2 ^ 34" using b(3) div_le_dividend [of i "t + 1"] by linarith
  then have small: "max (i div (t + 1)) f \<le> 2 ^ 34" using b(4) by simp
  have share: "t * (i div (t + 1)) + i div (t + 1) \<le> i"
    by (metis add.commute div_times_less_eq_dividend mult.commute mult_Suc Suc_eq_plus1)
  let ?c = "the (tuning (from_limits l))"
  have c: "tuning (from_limits l) = Some ?c" using nz by (simp add: tuning_def from_limits_def Let_def)
  have w: "unat (receive_window ?c) = i" "unat (max_concurrent_bidi_streams ?c) = t + 1"
    "unat (stream_receive_window ?c) = max (i div (t + 1)) f"
    using nz b t1 m small by (simp_all add: tuning_def from_limits_def Let_def sat i_def)
  show ?thesis
    using c w share by (intro exI [of _ ?c]) (simp add: max_def flip: t_def i_def f_def)
qed

text \<open>
  With the default limits a frame is larger than a share: four transfers may claim the whole
  connection window, and nothing of it is kept for the control stream.
\<close>

theorem default_window_unshared:
  "\<exists>c. tuning (from_limits DEFAULT_LIMITS) = Some c \<and>
     unat (max_parallel_transfers DEFAULT_LIMITS) * unat (stream_receive_window c) = unat (receive_window c)"
  by (simp add: tuning_def from_limits_def DEFAULT_LIMITS_def varint_saturating_def VARINT_MAX_def
      Let_def max_def)

theorem tuning_of_limits_witness:
  "limits_ok DEFAULT_LIMITS \<and> (\<exists>c. tuning (from_limits DEFAULT_LIMITS) = Some c \<and>
     unat (max_concurrent_bidi_streams c) = 5)"
proof -
  have ok: "limits_ok DEFAULT_LIMITS" by (simp add: limits_ok_def DEFAULT_LIMITS_def)
  have "unat (max_parallel_transfers DEFAULT_LIMITS) = 4" by (simp add: DEFAULT_LIMITS_def)
  with ok tuning_of_limits [OF ok] show ?thesis by auto
qed

section \<open>Permits\<close>

text \<open>
  The histories of a session as far as its transfer permits are concerned: \<open>n\<close> transfer streams are
  alive. Operations are atomic steps; a stream gives its permit back when it is dropped.
\<close>

inductive transfers_alive :: "TransportBounds \<Rightarrow> Session \<Rightarrow> nat \<Rightarrow> bool" for b where
  alive_new: "transfers_alive b (session_new_early b canc handshake early) 0"
| alive_open: "transfers_alive b s n \<Longrightarrow> transfer_open s r w = (s', res) \<Longrightarrow>
    transfers_alive b s' (if is_ok res then Suc n else n)"
| alive_accept: "transfers_alive b s n \<Longrightarrow> transfer_accept s r w = (s', res) \<Longrightarrow>
    transfers_alive b s' (case res of Inr (Some x) \<Rightarrow> Suc n | _ \<Rightarrow> n)"
| alive_drop: "transfers_alive b s (Suc n) \<Longrightarrow> transfers_alive b (drop_permit s) n"
| alive_closed: "transfers_alive b s n \<Longrightarrow> transfers_alive b (watch_closed s e) n"
| alive_cancel: "transfers_alive b s n \<Longrightarrow> transfers_alive b (connection_cancel s) n"
| alive_confirm: "transfers_alive b s n \<Longrightarrow> transfers_alive b (fst (confirm_handshake s w)) n"

lemma reserve_permits:
  "reserve s r = (s', res) \<Longrightarrow>
     transfer_permits s = transfer_permits s' + (if is_ok res then 1 else 0)"
  by (auto simp: reserve_def split: if_splits)

lemma transfer_open_permits:
  "transfer_open s r w = (s', res) \<Longrightarrow>
     transfer_permits s = transfer_permits s' + (if is_ok res then 1 else 0)"
  by (cases "reserve s r"; cases "snd (reserve s r)")
    (auto simp: transfer_open_def drop_permit_def dest!: reserve_permits split: sum.splits)

lemma transfer_accept_permits:
  "transfer_accept s r w = (s', res) \<Longrightarrow>
     transfer_permits s = transfer_permits s' + (case res of Inr (Some x) \<Rightarrow> 1 | _ \<Rightarrow> 0)"
  by (cases "reserve s r"; cases "snd (reserve s r)")
    (auto simp: transfer_accept_def drop_permit_def dest!: reserve_permits split: sum.splits if_splits)

lemma confirm_permits: "transfer_permits (fst (confirm_handshake s w)) = transfer_permits s"
  by (auto simp: confirm_handshake_def split: option.splits waiting.splits)

lemma permits_balance:
  "transfers_alive b s n \<Longrightarrow> n + transfer_permits s = unat (bound_parallel_transfers b)"
proof (induction rule: transfers_alive.induct)
  case (alive_open s n r w s' res)
  then show ?case using transfer_open_permits [OF alive_open.hyps(2)] by (auto split: if_splits)
next
  case (alive_accept s n r w s' res)
  then show ?case using transfer_accept_permits [OF alive_accept.hyps(2)]
    by (auto split: sum.splits option.splits)
qed (auto simp: session_new_early_def drop_permit_def watch_closed_def connection_cancel_def confirm_permits)

text \<open>
  C26. The number of live transfer streams never exceeds the configured parallelism: in every history of
  a session the permits that are left and the streams that are alive add up to the limit, whatever
  opens, accepts, failures, losses of the connection, cancellations and drops happened.\<close>

theorem transfers_bounded:
  assumes "transfers_alive b s n"
  shows "n + transfer_permits s = unat (bound_parallel_transfers b) \<and> n \<le> unat (bound_parallel_transfers b)"
  using permits_balance [OF assms] by simp

theorem transfers_bounded_witness:
  "\<exists>s. transfers_alive (from_limits DEFAULT_LIMITS) s 1 \<and> transfer_permits s = 3"
proof -
  let ?b = "from_limits DEFAULT_LIMITS"
  let ?s = "session_new_early ?b False None False"
  let ?w = "Ready (Inr (\<lparr>written = [], write_outcomes = [], send_finished = False\<rparr>, []))"
  have p: "unat (bound_parallel_transfers ?b) = 4" by (simp add: from_limits_def DEFAULT_LIMITS_def)
  have "is_ok (snd (transfer_open ?s None ?w))"
    using p by (simp add: transfer_open_def reserve_def session_new_early_def guarded_in_def)
  then have alive: "transfers_alive ?b (fst (transfer_open ?s None ?w)) 1"
    using alive_open [OF alive_new, of ?b False None False None ?w] by (metis One_nat_def prod.collapse)
  with transfers_bounded [OF alive] p show ?thesis by auto
qed

end
