(* ===== verification/Streams.thy ===== *)
theory Streams
  imports Framing Transport
begin

text \<open>
  Messages over session streams: \<open>crates/quicsync-core/src/sync/wire.rs\<close> and the \<open>Wire\<close> of
  \<open>sync/transfer.rs\<close>, which share the loop that turns received bytes into messages. The locale
  \<open>input_stream\<close> is the trait \<open>Input\<close>: what a stream that delivers certain bytes promises to the
  loop, whatever pieces they arrive in. It is interpreted on the control, the index and the
  transfer streams of \<open>Transport\<close>.
\<close>

section \<open>The message loop\<close>

definition wire_failure :: "string \<Rightarrow> QuicSyncError" where
  "wire_failure d = quic_sync_error_new OperationFailed None d"

definition wire_encode :: "'a WireMessage \<Rightarrow> 'a \<Rightarrow> Limits \<Rightarrow> QuicSyncError + bytes" where
  "wire_encode T m l = map_err (\<lambda>e. wire_failure (codec_error_display e)) (encode T m (codec_limits_from l))"

record 'a Messages =
  msg_decoder :: Decoder
  msg_pending :: "'a list"
  msg_buffer_len :: nat

definition messages_new :: "Limits \<Rightarrow> 'a Messages" where
  "messages_new l =
     \<lparr>msg_decoder = decoder_new (codec_limits_from l), msg_pending = [],
      msg_buffer_len = min (unat (max_frame_bytes l)) (64 * 1024)\<rparr>"

text \<open>
  One message: \<open>receive\<close> is the stream's, \<open>weight\<close> bounds what it can still hand over. \<open>None\<close> is a
  panic of the decoder or a loop that goes on forever without receiving anything. \<open>fail\<close> and
  \<open>closed\<close> are the two errors of the loop.
\<close>

function next_message ::
    "'a WireMessage \<Rightarrow> (string \<Rightarrow> QuicSyncError) \<Rightarrow> string \<Rightarrow> ('st \<Rightarrow> nat \<Rightarrow> 'st \<times> (QuicSyncError + bytes option)) \<Rightarrow>
     ('st \<Rightarrow> nat) \<Rightarrow> 'a Messages \<Rightarrow> 'st \<Rightarrow> (('a Messages \<times> 'st) \<times> (QuicSyncError + 'a)) option" where
  "next_message T fail closed receive weight m st =
     (case msg_pending m of
        x # xs \<Rightarrow> Some ((m\<lparr>msg_pending := xs\<rparr>, st), Inr x)
      | [] \<Rightarrow>
          (case receive st (msg_buffer_len m) of
             (st', Inl e) \<Rightarrow> Some ((m, st'), Inl e)
           | (st', Inr None) \<Rightarrow> Some ((m, st'), Inl (fail closed))
           | (st', Inr (Some bs)) \<Rightarrow>
               (case push T (msg_decoder m) bs of
                  None \<Rightarrow> None
                | Some (d, Inl e) \<Rightarrow> Some ((m\<lparr>msg_decoder := d\<rparr>, st'), Inl (fail (codec_error_display e)))
                | Some (d, Inr ms) \<Rightarrow>
                    if weight st \<le> weight st' then None
                    else next_message T fail closed receive weight
                      (m\<lparr>msg_decoder := d, msg_pending := ms\<rparr>) st')))"
  by pat_completeness auto
termination
  by (relation "measure (\<lambda>(T, fail, closed, receive, weight, m, st). weight st)") auto

declare next_message.simps [simp del]

definition messages_next ::
    "'a WireMessage \<Rightarrow> ('st \<Rightarrow> nat \<Rightarrow> 'st \<times> (QuicSyncError + bytes option)) \<Rightarrow> ('st \<Rightarrow> nat) \<Rightarrow>
     'a Messages \<Rightarrow> 'st \<Rightarrow> (('a Messages \<times> 'st) \<times> (QuicSyncError + 'a)) option" where
  "messages_next T receive weight m st =
     next_message T wire_failure ''stream closed before expected message'' receive weight m st"

section \<open>Messages as bytes\<close>

text \<open>The bytes that messages are sent as.\<close>

definition sent_as :: "'a WireMessage \<Rightarrow> CodecLimits \<Rightarrow> 'a list \<Rightarrow> bytes \<Rightarrow> bool" where
  "sent_as T l ms bs \<longleftrightarrow>
     (\<exists>fs. list_all2 (\<lambda>m f. encode T m l = Inr f) ms fs \<and> bs = concat fs)"

lemma sent_as_Nil: "sent_as T l [] []"
  by (simp add: sent_as_def)

lemma sent_as_append:
  assumes "sent_as T l ms bs" and "sent_as T l ns cs"
  shows "sent_as T l (ms @ ns) (bs @ cs)"
proof -
  let ?E = "\<lambda>m f. encode T m l = Inr f"
  from assms obtain fs gs where "list_all2 ?E ms fs" "bs = concat fs" "list_all2 ?E ns gs" "cs = concat gs"
    unfolding sent_as_def by blast
  then show ?thesis
    unfolding sent_as_def by (intro exI [of _ "fs @ gs"]) (simp add: list_all2_appendI)
qed

lemma sent_as_single: "encode T m l = Inr f \<Longrightarrow> sent_as T l [m] f"
  unfolding sent_as_def by (intro exI [of _ "[f]"]) simp

lemma sent_as_unique:
  assumes "sent_as T l ms b" and "sent_as T l ms c"
  shows "b = c"
proof -
  let ?E = "\<lambda>m f. encode T m l = Inr f"
  from assms obtain fs gs where "list_all2 ?E ms fs" "b = concat fs" "list_all2 ?E ms gs" "c = concat gs"
    by (auto simp: sent_as_def)
  moreover have "list_all2 ?E ms fs \<Longrightarrow> list_all2 ?E ms gs \<Longrightarrow> fs = gs"
  proof (induction ms arbitrary: fs gs)
    case (Cons m ms)
    then show ?case by (auto simp: list_all2_Cons1)
  qed simp
  ultimately show ?thesis by simp
qed

text \<open>A decoder at the start of a frame reads the messages back.\<close>

lemma sent_as_feed:
  assumes wire: "wire_message T flds limit valid" and "sent_as T l ms bs" and "\<forall>m \<in> set ms. valid m"
  shows "feed T l (InHeader []) [] bs = Inr (InHeader [], ms)"
proof -
  from assms(2) obtain fs where fs: "list_all2 (\<lambda>m f. encode T m l = Inr f) ms fs" "bs = concat fs"
    by (auto simp: sent_as_def)
  from fs(1) assms(3) have "list_all2 (\<lambda>m f. valid m \<and> encode T m l = Inr f) ms fs"
    by (induction rule: list_all2_induct) auto
  from wire_message.feed_frames [OF wire this, of "[]"] fs(2) show ?thesis by simp
qed

section \<open>Streams that deliver bytes\<close>

locale input_stream =
  fixes receive :: "'st \<Rightarrow> nat \<Rightarrow> 'st \<times> (QuicSyncError + bytes option)"
    and weight :: "'st \<Rightarrow> nat"
    and delivers :: "'st \<Rightarrow> bytes \<Rightarrow> bool"
  assumes receive_delivers:
    "delivers st bs \<Longrightarrow> 0 < n \<Longrightarrow>
       (\<exists>st' c rest. receive st n = (st', Inr (Some c)) \<and> weight st' < weight st \<and>
          bs = c @ rest \<and> delivers st' rest) \<or>
       (\<exists>st'. receive st n = (st', Inr None) \<and> bs = [] \<and> delivers st' [])"
begin

text \<open>
  The messages a loop will still return, and the state of the frame automaton at the end of the
  stream.
\<close>

definition expects ::
    "'a WireMessage \<Rightarrow> CodecLimits \<Rightarrow> 'a Messages \<Rightarrow> 'st \<Rightarrow> 'a list \<Rightarrow> frame_state \<Rightarrow> bool" where
  "expects T l m st ms fin \<longleftrightarrow>
     decoder_inv l (msg_decoder m) \<and> 0 < msg_buffer_len m \<and>
     (\<exists>bs new. delivers st bs \<and> feed T l (decoder_abs (msg_decoder m)) [] bs = Inr (fin, new) \<and>
        ms = msg_pending m @ new)"

lemma expects_new:
  assumes "wire_message T flds limit valid" and "sent_as T l ms bs" and "\<forall>m \<in> set ms. valid m"
    and "msg_decoder m = decoder_new l" and "msg_pending m = []" and "0 < msg_buffer_len m"
    and "delivers st bs"
  shows "expects T l m st ms (InHeader [])"
  using sent_as_feed [OF assms(1-3)] assms(4-7) unfolding expects_def by auto

lemma next_returns:
  assumes "expects T l m st (x # ms) fin"
  shows "\<exists>m' st'. next_message T fail closed receive weight m st = Some ((m', st'), Inr x) \<and>
    expects T l m' st' ms fin"
  using assms
proof (induction "weight st" arbitrary: m st rule: less_induct)
  case less
  show ?case
  proof (cases "msg_pending m")
    case (Cons y ys)
    then show ?thesis using less.prems
      by (intro exI [of _ "m\<lparr>msg_pending := ys\<rparr>"] exI [of _ st])
        (auto simp: next_message.simps [of T _ _ _ _ m] expects_def)
  next
    case Nil
    from less.prems obtain bs where inv: "decoder_inv l (msg_decoder m)" "0 < msg_buffer_len m"
      and bs: "delivers st bs" "feed T l (decoder_abs (msg_decoder m)) [] bs = Inr (fin, x # ms)"
      by (auto simp: expects_def Nil)
    have "bs \<noteq> []" using bs(2) by auto
    with receive_delivers [OF bs(1) inv(2)] obtain st' c rest where
        r: "receive st (msg_buffer_len m) = (st', Inr (Some c))" "weight st' < weight st"
          "bs = c @ rest" "delivers st' rest"
      by blast
    obtain d res where d: "decoder_inv l d" "push T (msg_decoder m) c = Some (d, res)"
        "outcome (feed T l (decoder_abs (msg_decoder m)) [] c) d res"
      using push_loop_refines [OF inv(1), of T c "[]"] unfolding push_def by blast
    from bs(2) r(3) obtain mid new where
        fc: "feed T l (decoder_abs (msg_decoder m)) [] c = Inr (mid, new)"
      and "feed T l mid new rest = Inr (fin, x # ms)"
      by (auto simp: feed_append result_simps)
    moreover from d(3) fc have res: "res = Inr new" "decoder_abs d = mid" by (auto simp: outcome_def)
    ultimately have "\<exists>tail. feed T l mid [] rest = Inr (fin, tail) \<and> x # ms = new @ tail"
      using feed_messages [of T l mid new rest] by (auto simp: result_simps)
    then have "expects T l (m\<lparr>msg_decoder := d, msg_pending := new\<rparr>) st' (x # ms) fin"
      using d(1) inv(2) r(4) res by (auto simp: expects_def)
    from less.hyps [OF r(2) this] show ?thesis
      using Nil r d(2) res by (simp add: next_message.simps [of T _ _ _ _ m])
  qed
qed

lemma next_closed:
  assumes "expects T l m st [] fin"
  shows "\<exists>m' st'. next_message T fail closed receive weight m st = Some ((m', st'), Inl (fail closed)) \<and>
    expects T l m' st' [] fin"
  using assms
proof (induction "weight st" arbitrary: m st rule: less_induct)
  case less
  from less.prems obtain bs where inv: "decoder_inv l (msg_decoder m)" "0 < msg_buffer_len m"
    and bs: "delivers st bs" "feed T l (decoder_abs (msg_decoder m)) [] bs = Inr (fin, [])"
    and nil: "msg_pending m = []"
    by (auto simp: expects_def)
  from receive_delivers [OF bs(1) inv(2)] show ?case
  proof (elim disjE exE conjE)
    fix st'
    assume "receive st (msg_buffer_len m) = (st', Inr None)" "bs = []" "delivers st' []"
    then show ?thesis using bs(2) inv nil
      by (intro exI [of _ m] exI [of _ st']) (auto simp: next_message.simps [of T _ _ _ _ m] expects_def)
  next
    fix st' c rest
    assume r: "receive st (msg_buffer_len m) = (st', Inr (Some c))" "weight st' < weight st"
      "bs = c @ rest" "delivers st' rest"
    obtain d res where d: "decoder_inv l d" "push T (msg_decoder m) c = Some (d, res)"
        "outcome (feed T l (decoder_abs (msg_decoder m)) [] c) d res"
      using push_loop_refines [OF inv(1), of T c "[]"] unfolding push_def by blast
    from bs(2) r(3) obtain mid new where
        fc: "feed T l (decoder_abs (msg_decoder m)) [] c = Inr (mid, new)"
      and fr: "feed T l mid new rest = Inr (fin, [])"
      by (auto simp: feed_append result_simps)
    moreover from d(3) fc have res: "res = Inr new" "decoder_abs d = mid" by (auto simp: outcome_def)
    ultimately have "new = []" "feed T l mid [] rest = Inr (fin, [])"
      using feed_messages [of T l mid new rest] by (auto simp: result_simps)
    then have "expects T l (m\<lparr>msg_decoder := d, msg_pending := []\<rparr>) st' [] fin"
      using d(1) inv(2) r(4) res by (auto simp: expects_def)
    from less.hyps [OF r(2) this] show ?thesis
      using nil r d(2) res \<open>new = []\<close> by (simp add: next_message.simps [of T _ _ _ _ m])
  qed
qed

end

text \<open>What the receiving step leaves alone, the loop leaves alone.\<close>

lemma next_message_keeps:
  assumes keep: "\<And>st n st' r. receive st n = (st', r) \<Longrightarrow> g st' = g st"
    and "next_message T fail closed receive weight m st = Some ((m', st'), r)"
  shows "g st' = g st"
  using assms(2)
proof (induction "weight st" arbitrary: m st rule: less_induct)
  case less
  show ?case
  proof (cases "msg_pending m")
    case Nil
    obtain st1 r1 where 1: "receive st (msg_buffer_len m) = (st1, r1)" by fastforce
    show ?thesis
      using less.prems less.hyps [of st1] 1 keep [OF 1] Nil
      by (auto simp: next_message.simps [of T fail closed _ weight m] split: sum.splits option.splits prod.splits if_splits)
  qed (use less.prems in \<open>simp add: next_message.simps [of T fail closed _ weight m]\<close>)
qed

section \<open>The session streams\<close>

fun recv_weight :: "RecvStream \<Rightarrow> nat" where
  "recv_weight [] = 0"
| "recv_weight (Data b # es) = Suc (length b) + recv_weight es"
| "recv_weight (e # es) = Suc (recv_weight es)"

text \<open>
  A receiving half delivers the bytes of its data pieces if these are followed by the end of the
  stream, or nothing more once the end was seen.
\<close>

fun events_deliver :: "RecvStream \<Rightarrow> bytes \<Rightarrow> bool" where
  "events_deliver (Data b # es) bs \<longleftrightarrow> take (length b) bs = b \<and> events_deliver es (drop (length b) bs)"
| "events_deliver (Fin # es) bs \<longleftrightarrow> bs = []"
| "events_deliver _ bs \<longleftrightarrow> False"

definition half_delivers :: "Session \<Rightarrow> RecvStream \<times> bool \<Rightarrow> bytes \<Rightarrow> bool" where
  "half_delivers s h bs \<longleftrightarrow>
     \<not> session_cancelled s \<and> 0 < unat (bound_frame_bytes (session_bounds s)) \<and>
     (if snd h then bs = [] else events_deliver (fst h) bs)"

lemma events_deliver_chunks: "events_deliver (map Data cs @ [Fin]) (concat cs)"
  by (induction cs) auto

lemma receive_bounded_delivers:
  assumes "half_delivers s (rs, fin) bs" and "0 < n"
  shows "(\<exists>rs' fin' c rest. receive_bounded s rs fin n action = ((rs', fin'), Inr (Some c)) \<and>
      recv_weight rs' < recv_weight rs \<and> bs = c @ rest \<and> half_delivers s (rs', fin') rest) \<or>
    (\<exists>rs' fin'. receive_bounded s rs fin n action = ((rs', fin'), Inr None) \<and> bs = [] \<and>
      half_delivers s (rs', fin') [])"
proof (cases fin)
  case True
  then show ?thesis using assms by (auto simp: receive_bounded_def half_delivers_def)
next
  case False
  let ?k = "min n (unat (bound_frame_bytes (session_bounds s)))"
  have k: "0 < ?k" "\<not> session_cancelled s" using assms by (auto simp: half_delivers_def)
  have ev: "events_deliver rs bs" using assms(1) False by (simp add: half_delivers_def)
  show ?thesis
  proof (cases rs)
    case (Cons e es)
    show ?thesis
    proof (cases e)
      case (Data b)
      define c where "c = take ?k b"
      define rs' where "rs' = (if length b \<le> ?k then es else Data (drop ?k b) # es)"
      from ev Cons Data have b: "take (length b) bs = b" "events_deliver es (drop (length b) bs)" by auto
      then obtain rest where bs: "bs = b @ rest" by (metis append_take_drop_id)
      have "bs = c @ drop (length c) bs"
        using append_take_drop_id [of "length c" bs] bs by (simp add: c_def min_def split: if_splits)
      moreover have "events_deliver rs' (drop (length c) bs)"
        using b(2) bs k(1) by (auto simp: rs'_def c_def min_def)
      moreover have "recv_weight rs' < recv_weight rs" using k(1) by (auto simp: rs'_def Cons Data)
      moreover have "receive_bounded s rs fin n action = ((rs', False), Inr (Some c))"
        using k False by (simp add: receive_bounded_def Let_def Cons Data guarded_in_def rs'_def c_def)
      ultimately show ?thesis using assms(1) by (auto simp: half_delivers_def)
    qed (use ev Cons k False assms in \<open>auto simp: receive_bounded_def Let_def guarded_in_def half_delivers_def\<close>)
  qed (use ev in simp)
qed

interpretation control_input: input_stream "control_receive s" "\<lambda>c. recv_weight (ctl_recv c)"
  "\<lambda>c. half_delivers s (ctl_recv c, ctl_finished c)"
proof
  fix c :: ControlChannel and bs and n :: nat
  assume "half_delivers s (ctl_recv c, ctl_finished c) bs" and "0 < n"
  from receive_bounded_delivers [OF this, of "''receive control bytes''"]
  show "(\<exists>st' ca rest. control_receive s c n = (st', Inr (Some ca)) \<and>
      recv_weight (ctl_recv st') < recv_weight (ctl_recv c) \<and> bs = ca @ rest \<and>
      half_delivers s (ctl_recv st', ctl_finished st') rest) \<or>
    (\<exists>st'. control_receive s c n = (st', Inr None) \<and> bs = [] \<and> half_delivers s (ctl_recv st', ctl_finished st') [])"
    by (auto simp: control_receive_def)
qed

interpretation transfer_input: input_stream "transfer_receive s" "\<lambda>x. recv_weight (xfer_recv x)"
  "\<lambda>x. half_delivers s (xfer_recv x, xfer_finished x)"
proof
  fix x :: TransferStream and bs and n :: nat
  assume "half_delivers s (xfer_recv x, xfer_finished x) bs" and "0 < n"
  from receive_bounded_delivers [OF this, of "''receive transfer bytes''"]
  show "(\<exists>st' c rest. transfer_receive s x n = (st', Inr (Some c)) \<and>
      recv_weight (xfer_recv st') < recv_weight (xfer_recv x) \<and> bs = c @ rest \<and>
      half_delivers s (xfer_recv st', xfer_finished st') rest) \<or>
    (\<exists>st'. transfer_receive s x n = (st', Inr None) \<and> bs = [] \<and> half_delivers s (xfer_recv st', xfer_finished st') [])"
    by (auto simp: transfer_receive_def)
qed

text \<open>The index stream, accepted on first use as \<open>rs0\<close>.\<close>

definition index_half :: "RecvStream \<Rightarrow> IndexReader \<Rightarrow> RecvStream \<times> bool" where
  "index_half rs0 x = ((case idx_stream x of Some rs \<Rightarrow> rs | None \<Rightarrow> rs0), idx_finished x)"

lemma index_half_received:
  "index_half rs0 (x\<lparr>idx_stream := Some rs, idx_finished := fin\<rparr>) = (rs, fin)"
  by (simp add: index_half_def)

interpretation index_input: input_stream "index_receive s (Ready (Inr rs0))"
  "\<lambda>x. recv_weight (fst (index_half rs0 x))" "\<lambda>x. half_delivers s (index_half rs0 x)"
proof
  fix x :: IndexReader and bs and n :: nat
  assume d: "half_delivers s (index_half rs0 x) bs" and "0 < n"
  then have "half_delivers s (fst (index_half rs0 x), snd (index_half rs0 x)) bs" by simp
  note r = receive_bounded_delivers [OF this \<open>0 < n\<close>, of "''receive index bytes''"]
  show "(\<exists>st' c rest. index_receive s (Ready (Inr rs0)) x n = (st', Inr (Some c)) \<and>
      recv_weight (fst (index_half rs0 st')) < recv_weight (fst (index_half rs0 x)) \<and> bs = c @ rest \<and>
      half_delivers s (index_half rs0 st') rest) \<or>
    (\<exists>st'. index_receive s (Ready (Inr rs0)) x n = (st', Inr None) \<and> bs = [] \<and>
      half_delivers s (index_half rs0 st') [])"
  proof (cases "idx_finished x")
    case True
    then show ?thesis using d by (auto simp: index_receive_def half_delivers_def index_half_def)
  next
    case False
    have "\<not> session_cancelled s" using d by (simp add: half_delivers_def)
    then have "index_receive s (Ready (Inr rs0)) x n =
        (case receive_bounded s (fst (index_half rs0 x)) (snd (index_half rs0 x)) n ''receive index bytes'' of
           ((rs, fin), r) \<Rightarrow> (x\<lparr>idx_stream := Some rs, idx_finished := fin\<rparr>, r))"
      using False by (simp add: index_receive_def index_half_def guarded_in_def split: option.splits)
    with r show ?thesis
      by (elim disjE exE conjE) (auto simp: index_half_received)
  qed
qed

end
