(* ===== verification/Transfers.thy ===== *)
theory Transfers
  imports Streams Synchronise
begin

text \<open>
  Transfer of one file over its own stream, \<open>crates/quicsync-core/src/sync/transfer.rs\<close>. librsync is
  the parameter \<open>librsync\<close>, reading an opened file the parameter \<open>reads\<close>: the results of reading it
  to its end. The tasks of a transfer are joined by channels, so what each of them computes does not
  depend on how they are interleaved; the model runs the producer of a channel before its consumer,
  and every worker reads its channel to the end.
  Where two tasks fail at once it reports the error of the one that talks to the network.
\<close>

section \<open>Steps that may panic\<close>

text \<open>\<open>e?\<close> for a step that may also panic or never return, which is \<open>None\<close>.\<close>

fun and_run ::
    "('s \<times> ('e + 'a)) option \<Rightarrow> ('s \<Rightarrow> 'a \<Rightarrow> ('s \<times> ('e + 'b)) option) \<Rightarrow> ('s \<times> ('e + 'b)) option" where
  "and_run None f = None"
| "and_run (Some (s, Inl e)) f = Some (s, Inl e)"
| "and_run (Some (s, Inr x)) f = f s x"

lemma and_run_eq_Inr [result_simps]:
  "and_run m f = Some (s, Inr y) \<longleftrightarrow> (\<exists>s' x. m = Some (s', Inr x) \<and> f s' x = Some (s, Inr y))"
  by (cases "(m, f)" rule: and_run.cases) auto

lemma and_run_cong [fundef_cong]:
  "m = m' \<Longrightarrow> (\<And>s x. m' = Some (s, Inr x) \<Longrightarrow> f s x = f' s x) \<Longrightarrow> and_run m f = and_run m' f'"
  by (cases "(m', f')" rule: and_run.cases) auto

definition transfer_failure :: "string \<Rightarrow> QuicSyncError" where
  "transfer_failure e = quic_sync_error_new OperationFailed None (''delta transfer: '' @ e)"

section \<open>Channels as readers\<close>

datatype Chunk = ChunkData bytes | ChunkEnd

record Input =
  in_rx :: "Chunk list"
  in_current :: bytes
  in_ended :: bool

definition input_new :: "Chunk list \<Rightarrow> Input" where
  "input_new cs = \<lparr>in_rx = cs, in_current = [], in_ended = False\<rparr>"

text \<open>A channel with nothing left is closed.\<close>

function input_read :: "nat \<Rightarrow> Input \<Rightarrow> Input \<times> (string + bytes)" where
  "input_read n i =
     (if n = 0 then (i, Inr [])
      else if in_current i \<noteq> [] \<or> in_ended i
      then (i\<lparr>in_current := drop n (in_current i)\<rparr>, Inr (take n (in_current i)))
      else case in_rx i of
          ChunkData b # r \<Rightarrow> input_read n (i\<lparr>in_rx := r, in_current := b\<rparr>)
        | ChunkEnd # r \<Rightarrow> input_read n (i\<lparr>in_rx := r, in_ended := True\<rparr>)
        | [] \<Rightarrow> (i, Inl ''transfer ended without marker''))"
  by pat_completeness auto
termination
  by (relation "measure (\<lambda>(n, i). length (in_rx i))") auto

declare input_read.simps [simp del]

fun chunk_bytes :: "Chunk \<Rightarrow> bytes" where
  "chunk_bytes (ChunkData b) = b"
| "chunk_bytes ChunkEnd = []"

definition input_size :: "Input \<Rightarrow> nat" where
  "input_size i = length (in_current i) + length (concat (map chunk_bytes (in_rx i)))"

lemma input_read_size:
  "input_read n i = (i', Inr b) \<Longrightarrow> input_size i' + length b = input_size i"
  by (induction n i rule: input_read.induct)
    (auto simp: input_read.simps [of _ "_ :: Input"] input_size_def split: if_splits list.splits Chunk.splits)

lemma input_read_less: "(i', Inr b) = input_read n i \<Longrightarrow> b \<noteq> [] \<Longrightarrow> input_size i' < input_size i"
  using input_read_size [of n i i' b] by (cases b) auto

text \<open>What a reader gets from it with a buffer of \<open>n\<close> bytes, until a read returns nothing or fails.\<close>

function reads_of :: "nat \<Rightarrow> Input \<Rightarrow> (string + bytes) list" where
  "reads_of n i =
     (case input_read n i of
        (i', Inl e) \<Rightarrow> [Inl e]
      | (i', Inr b) \<Rightarrow> if b = [] then [] else Inr b # reads_of n i')"
  by pat_completeness auto
termination
  by (relation "measure (\<lambda>(n, i). input_size i)") (auto intro: input_read_less)

declare reads_of.simps [simp del]

text \<open>
  \<open>produce\<close>: the chunks that go into the channel and how the producer ends. A read returns at most
  the buffer, and a read that returns nothing is the end of the input.
\<close>

function produce :: "nat \<Rightarrow> (string + bytes) list \<Rightarrow> bytes list \<times> (QuicSyncError + unit)" where
  "produce n [] = ([], Inr ())"
| "produce n (Inl e # es) = ([], Inl (transfer_failure e))"
| "produce n (Inr b # es) =
     (if n = 0 \<or> b = [] then ([], Inr ())
      else case produce n (if length b \<le> n then es else Inr (drop n b) # es) of
          (cs, r) \<Rightarrow> (take n b # cs, r))"
  by pat_completeness auto
termination
  by (relation "measure (\<lambda>(n, es). \<Sum>e\<leftarrow>es. case e of Inl _ \<Rightarrow> 1 | Inr b \<Rightarrow> Suc (length b))")
    (auto split: if_splits)

section \<open>The wire\<close>

record Wire =
  wire_stream :: TransferStream
  wire_limits :: CodecLimits
  wire_messages :: "FileTransfer Messages"
  wire_chunk_size :: nat

definition wire_new :: "TransferStream \<Rightarrow> Limits \<Rightarrow> QuicSyncError + Wire" where
  "wire_new x l =
     and_then (ok_or (transfer_failure ''transfer frame limit is too small'')
       (if unat (max_frame_bytes l) < 32 \<or> unat (max_frame_bytes l) - 32 = 0 then None
        else Some (unat (max_frame_bytes l) - 32))) (\<lambda>n.
     let chunk_size = min n (64 * 1024) in
     Inr \<lparr>wire_stream = x, wire_limits = codec_limits_from l,
       wire_messages = \<lparr>msg_decoder = decoder_new (codec_limits_from l), msg_pending = [],
         msg_buffer_len = chunk_size\<rparr>,
       wire_chunk_size = chunk_size\<rparr>)"

definition wire_send :: "Session \<Rightarrow> Wire \<Rightarrow> FileTransfer \<Rightarrow> Wire \<times> (QuicSyncError + unit)" where
  "wire_send s w m =
     and_do (w, map_err (\<lambda>e. transfer_failure (codec_error_display e)) (encode transfer_wire m (wire_limits w)))
       (\<lambda>w bs.
     case transfer_send s (wire_stream w) bs of (x, r) \<Rightarrow> (w\<lparr>wire_stream := x\<rparr>, r))"

definition wire_next :: "Session \<Rightarrow> Wire \<Rightarrow> (Wire \<times> (QuicSyncError + FileTransfer)) option" where
  "wire_next s w =
     map_option (\<lambda>((m, x), r). (w\<lparr>wire_messages := m, wire_stream := x\<rparr>, r))
       (next_message transfer_wire transfer_failure ''transfer closed before expected message''
          (transfer_receive s) (\<lambda>x. recv_weight (xfer_recv x)) (wire_messages w) (wire_stream w))"

definition wire_finish :: "Wire \<Rightarrow> Wire \<times> (QuicSyncError + unit)" where
  "wire_finish w = (case transfer_finish (wire_stream w) of (x, r) \<Rightarrow> (w\<lparr>wire_stream := x\<rparr>, r))"

fun send_chunks ::
    "Session \<Rightarrow> (bytes \<Rightarrow> FileTransfer) \<Rightarrow> bytes list \<Rightarrow> Wire \<Rightarrow> Wire \<times> (QuicSyncError + unit)" where
  "send_chunks s msg [] w = (w, Inr ())"
| "send_chunks s msg (c # cs) w = and_do (wire_send s w (msg c)) (\<lambda>w _. send_chunks s msg cs w)"

text \<open>
  The loops that move messages of one kind into a channel until the message that ends them: the
  chunks that went in so far and how the loop ended.
\<close>

lemma next_message_decreases:
  assumes "next_message T fail closed receive weight m st = Some ((m', st'), Inr x)"
  shows "weight st' < weight st \<or> st' = st \<and> length (msg_pending m') < length (msg_pending m)"
  using assms
proof (induction T fail closed receive weight m st arbitrary: m' st' rule: next_message.induct)
  case (1 T fail closed receive weight m st)
  show ?case
  proof (cases "msg_pending m")
    case Nil
    with "1.prems" obtain st1 bs d ms where
        r: "receive st (msg_buffer_len m) = (st1, Inr (Some bs))" "push T (msg_decoder m) bs = Some (d, Inr ms)"
          "\<not> weight st \<le> weight st1"
      and again: "next_message T fail closed receive weight (m\<lparr>msg_decoder := d, msg_pending := ms\<rparr>) st1 =
          Some ((m', st'), Inr x)"
      by (auto simp: next_message.simps [of T fail closed receive weight m] split: sum.splits option.splits if_splits prod.splits)
    from "1.IH" [OF Nil r(1) [symmetric] refl refl r(2) refl refl r(3) again] r(3) show ?thesis by auto
  next
    case (Cons y ys)
    with "1.prems" show ?thesis by (auto simp: next_message.simps [of T fail closed receive weight m])
  qed
qed

datatype loop_step = TakeChunk bytes | LastChunk | WrongMessage

fun signature_step :: "FileTransfer \<Rightarrow> loop_step" where
  "signature_step (Signature b) = TakeChunk b"
| "signature_step SignatureEnd = LastChunk"
| "signature_step _ = WrongMessage"

fun whole_step :: "FileTransfer \<Rightarrow> loop_step" where
  "whole_step (WholeFile b) = TakeChunk b"
| "whole_step TransferEnd = LastChunk"
| "whole_step _ = WrongMessage"

fun delta_step :: "FileTransfer \<Rightarrow> loop_step" where
  "delta_step (Delta b) = TakeChunk b"
| "delta_step TransferEnd = LastChunk"
| "delta_step _ = WrongMessage"

function collect ::
    "Session \<Rightarrow> (FileTransfer \<Rightarrow> loop_step) \<Rightarrow> string \<Rightarrow> Wire \<Rightarrow> bytes list \<Rightarrow>
     ((Wire \<times> bytes list) \<times> (QuicSyncError + unit)) option" where
  "collect s step wrong w acc =
     (case wire_next s w of
        None \<Rightarrow> None
      | Some (w', Inl e) \<Rightarrow> Some ((w', acc), Inl e)
      | Some (w', Inr m) \<Rightarrow>
          (case step m of
             TakeChunk b \<Rightarrow> collect s step wrong w' (acc @ [b])
           | LastChunk \<Rightarrow> Some ((w', acc), Inr ())
           | WrongMessage \<Rightarrow> Some ((w', acc), Inl (transfer_failure wrong))))"
  by pat_completeness auto
termination
  by (relation "measures [\<lambda>(s, step, wrong, w, acc). recv_weight (xfer_recv (wire_stream w)),
      \<lambda>(s, step, wrong, w, acc). length (msg_pending (wire_messages w))]")
    (auto simp: wire_next_def dest!: next_message_decreases)

declare collect.simps [simp del]

section \<open>The source's side\<close>

record librsync =
  rs_signature :: "(string + bytes) list \<Rightarrow> string + (string + bytes) list"
  rs_delta :: "(string + bytes) list \<Rightarrow> Input \<Rightarrow> string + (string + bytes) list"
  rs_patch :: "(string + bytes) list \<Rightarrow> Input \<Rightarrow> string + (string + bytes) list"

text \<open>Reading a descriptor from its start to its end, and seeking back to the start.\<close>

record ('s, 'fd) file_reads =
  read_to_end :: "'s \<Rightarrow> 'fd \<Rightarrow> (string + bytes) list"
  seek_start :: "'s \<Rightarrow> 'fd \<Rightarrow> string + unit"

definition send_whole :: "Session \<Rightarrow> (string + bytes) list \<Rightarrow> Wire \<Rightarrow> Wire \<times> (QuicSyncError + unit)" where
  "send_whole s content w =
     (case produce (wire_chunk_size w) content of
        (cs, worker) \<Rightarrow> and_do (send_chunks s WholeFile cs w) (\<lambda>w _. (w, worker)))"

definition send_delta ::
    "librsync \<Rightarrow> Session \<Rightarrow> (string + bytes) list \<Rightarrow> Wire \<Rightarrow> (Wire \<times> (QuicSyncError + unit)) option" where
  "send_delta R s content w =
     (case collect s signature_step ''expected signature'' w [] of
        None \<Rightarrow> None
      | Some ((w, sigs), Inl e) \<Rightarrow> Some (w, Inl e)
      | Some ((w, sigs), Inr _) \<Rightarrow>
          Some (case rs_delta R content (input_new (map ChunkData sigs @ [ChunkEnd])) of
              Inl e \<Rightarrow> (w, Inl (transfer_failure e))
            | Inr delta \<Rightarrow>
                (case produce (wire_chunk_size w) delta of
                   (cs, worker) \<Rightarrow> and_do (send_chunks s Delta cs w) (\<lambda>w _. (w, worker)))))"

definition finish_send :: "Session \<Rightarrow> OperationId \<Rightarrow> Wire \<Rightarrow> (Wire \<times> (QuicSyncError + unit)) option" where
  "finish_send s i w =
     and_run (Some (and_do (wire_send s w TransferEnd) (\<lambda>w _. wire_finish w))) (\<lambda>w _.
     and_run (wire_next s w) (\<lambda>w m.
     Some (w, if m = TransferAccepted i then Inr ()
              else Inl (transfer_failure ''expected transfer acknowledgment''))))"

fun file_request :: "FileTransfer \<Rightarrow> QuicSyncError + (OperationId \<times> RelativePath \<times> bool)" where
  "file_request (UpdateRequest i p) = Inr (i, p, True)"
| "file_request (CreateRequest i p) = Inr (i, p, False)"
| "file_request _ = Inl (transfer_failure ''expected file request'')"

text \<open>A step of the wire beside a filesystem that stays as it is, and the other way round.\<close>

definition on_wire :: "'k \<Rightarrow> ('w \<times> 'r) option \<Rightarrow> (('w \<times> 'k) \<times> 'r) option" where
  "on_wire k m = map_option (\<lambda>(w, r). ((w, k), r)) m"

definition on_files :: "'w \<Rightarrow> 'k \<times> 'r \<Rightarrow> (('w \<times> 'k) \<times> 'r) option" where
  "on_files w m = (case m of (k, r) \<Rightarrow> Some ((w, k), r))"

definition serve_request ::
    "librsync \<Rightarrow> ('s, 'fd) posix \<Rightarrow> ('s, 'fd) file_reads \<Rightarrow> Session \<Rightarrow> 'fd \<Rightarrow> Wire \<Rightarrow> 's \<Rightarrow>
     ((Wire \<times> 's) \<times> (QuicSyncError + unit)) option" where
  "serve_request R P F s root w k =
     and_run (on_wire k (wire_next s w)) (\<lambda>(w, k) m.
     and_run (Some ((w, k), file_request m)) (\<lambda>(w, k) (i, p, update).
     and_run (on_files w (case open_regular P root p k of
         (k, r) \<Rightarrow> (k, and_then r (ok_or (transfer_failure ''source file missing''))))) (\<lambda>(w, k) fd.
     and_run (on_wire k (if update then send_delta R s (read_to_end F k fd) w
                         else Some (send_whole s (read_to_end F k fd) w))) (\<lambda>(w, k) _.
     on_wire k (finish_send s i w)))))"

definition send_file ::
    "librsync \<Rightarrow> ('s, 'fd) posix \<Rightarrow> ('s, 'fd) file_reads \<Rightarrow> Session \<Rightarrow> 'fd \<Rightarrow> Limits \<Rightarrow> TransferStream \<Rightarrow> 's \<Rightarrow>
     ((TransferStream \<times> 's) \<times> (QuicSyncError + unit)) option" where
  "send_file R P F s root l x k =
     (case wire_new x l of
        Inl e \<Rightarrow> Some ((x, k), Inl e)
      | Inr w \<Rightarrow> map_option (\<lambda>((w, k), r). ((wire_stream w, k), r)) (serve_request R P F s root w k))"

section \<open>The destination's side\<close>

record 'fd ReceivedFile =
  received_id :: OperationId
  received_path :: RelativePath
  received_file :: "'fd StagedFile"

text \<open>\<open>io::copy\<close> reads through a buffer of 8 KiB.\<close>

definition COPY_BUFFER :: nat where "COPY_BUFFER = 8192"

text \<open>The other task has failed: what the worker staged is dropped.\<close>

definition abandon :: "('s, 'fd) posix \<Rightarrow> 's \<times> (QuicSyncError + 'fd StagedFile) \<Rightarrow> 's" where
  "abandon P m = (case m of (k, Inr f) \<Rightarrow> drop_staged P f k | (k, Inl _) \<Rightarrow> k)"

definition receive_whole ::
    "('s, 'fd) posix \<Rightarrow> Session \<Rightarrow> 'fd StagingArea \<Rightarrow> bytes option \<Rightarrow> Wire \<Rightarrow> 's \<Rightarrow>
     ((Wire \<times> 's) \<times> (QuicSyncError + 'fd StagedFile)) option" where
  "receive_whole P s area rnd w k =
     (case collect s whole_step ''expected whole-file bytes'' w [] of
        None \<Rightarrow> None
      | Some ((w, cs), Inl e) \<Rightarrow>
          Some ((w, abandon P (staging_area_receive P area rnd
                    (reads_of COPY_BUFFER (input_new (map ChunkData cs))) k)), Inl e)
      | Some ((w, cs), Inr _) \<Rightarrow>
          on_files w (staging_area_receive P area rnd
            (reads_of COPY_BUFFER (input_new (map ChunkData cs @ [ChunkEnd]))) k))"

text \<open>The patch worker: librsync reads the channel, and its output is staged.\<close>

definition patch_into ::
    "librsync \<Rightarrow> ('s, 'fd) posix \<Rightarrow> 'fd StagingArea \<Rightarrow> bytes option \<Rightarrow> (string + bytes) list \<Rightarrow> Chunk list \<Rightarrow> 's \<Rightarrow>
     's \<times> (QuicSyncError + 'fd StagedFile)" where
  "patch_into R P area rnd basis cs k =
     (case rs_patch R basis (input_new cs) of
        Inl e \<Rightarrow> (k, Inl (transfer_failure e))
      | Inr content \<Rightarrow> staging_area_receive P area rnd content k)"

definition open_basis ::
    "('s, 'fd) posix \<Rightarrow> 'fd StagingArea \<Rightarrow> RelativePath \<Rightarrow> 's \<Rightarrow> 's \<times> (QuicSyncError + 'fd)" where
  "open_basis P area p k =
     (case open_regular P (area_root area) p k of
        (k, r) \<Rightarrow> (k, and_then r (ok_or (transfer_failure ''update basis missing''))))"

definition send_signature ::
    "librsync \<Rightarrow> Session \<Rightarrow> (string + bytes) list \<Rightarrow> (string + unit) \<Rightarrow> Wire \<Rightarrow> Wire \<times> (QuicSyncError + unit)" where
  "send_signature R s basis rewound w =
     (case rs_signature R basis of
        Inl e \<Rightarrow> (w, Inl (transfer_failure e))
      | Inr signature \<Rightarrow>
          (case produce (wire_chunk_size w) signature of
             (cs, worker) \<Rightarrow>
               and_do (send_chunks s Signature cs w) (\<lambda>w _.
               and_do (w, and_then worker (\<lambda>_. map_err transfer_failure rewound)) (\<lambda>w _.
               wire_send s w SignatureEnd))))"

definition receive_update ::
    "librsync \<Rightarrow> ('s, 'fd) posix \<Rightarrow> ('s, 'fd) file_reads \<Rightarrow> Session \<Rightarrow> 'fd StagingArea \<Rightarrow> bytes option \<Rightarrow>
     RelativePath \<Rightarrow> Wire \<Rightarrow> 's \<Rightarrow> ((Wire \<times> 's) \<times> (QuicSyncError + 'fd StagedFile)) option" where
  "receive_update R P F s area rnd p w k =
     and_run (on_files w (open_basis P area p k)) (\<lambda>(w, k) fd.
     and_run (on_wire k (Some (send_signature R s (read_to_end F k fd) (seek_start F k fd) w))) (\<lambda>(w, k) _.
     case collect s delta_step ''expected delta'' w [] of
       None \<Rightarrow> None
     | Some ((w, cs), Inl e) \<Rightarrow>
         Some ((w, abandon P (patch_into R P area rnd (read_to_end F k fd) (map ChunkData cs) k)), Inl e)
     | Some ((w, cs), Inr _) \<Rightarrow>
         on_files w (patch_into R P area rnd (read_to_end F k fd) (map ChunkData cs @ [ChunkEnd]) k)))"

text \<open>The acknowledgment; a staged file that cannot be acknowledged is dropped.\<close>

definition acknowledge ::
    "('s, 'fd) posix \<Rightarrow> Session \<Rightarrow> OperationId \<Rightarrow> RelativePath \<Rightarrow> 'fd StagedFile \<Rightarrow> Wire \<Rightarrow> 's \<Rightarrow>
     ((Wire \<times> 's) \<times> (QuicSyncError + 'fd ReceivedFile)) option" where
  "acknowledge P s i p f w k =
     (case and_do (wire_send s w (TransferAccepted i)) (\<lambda>w _. wire_finish w) of
        (w, Inl e) \<Rightarrow> Some ((w, drop_staged P f k), Inl e)
      | (w, Inr _) \<Rightarrow> Some ((w, k), Inr \<lparr>received_id = i, received_path = p, received_file = f\<rparr>))"

definition receive_file ::
    "librsync \<Rightarrow> ('s, 'fd) posix \<Rightarrow> ('s, 'fd) file_reads \<Rightarrow> Session \<Rightarrow> 'fd StagingArea \<Rightarrow> bytes option \<Rightarrow>
     OperationId \<Rightarrow> RelativePath \<Rightarrow> bool \<Rightarrow> Limits \<Rightarrow> TransferStream \<Rightarrow> 's \<Rightarrow>
     ((TransferStream \<times> 's) \<times> (QuicSyncError + 'fd ReceivedFile)) option" where
  "receive_file R P F s area rnd i p update l x k =
     (case wire_new x l of
        Inl e \<Rightarrow> Some ((x, k), Inl e)
      | Inr w \<Rightarrow> map_option (\<lambda>((w, k), r). ((wire_stream w, k), r))
          (and_run (on_wire k (Some (wire_send s w
               (if update then UpdateRequest i p else CreateRequest i p)))) (\<lambda>(w, k) _.
           and_run (if update then receive_update R P F s area rnd p w k
                    else receive_whole P s area rnd w k) (\<lambda>(w, k) f.
           acknowledge P s i p f w k))))"

end
