(* ===== verification/Delivery.thy ===== *)
theory Delivery
  imports Transfers
begin

text \<open>
  What a transfer of one file delivers: the lemmas on channels as readers, on producers and on the
  message loops of \<open>Transfers\<close>, and the statement that a transfer both sides of which report success
  has staged the source's content.
\<close>

section \<open>Readers\<close>

text \<open>A channel whose chunks are complete: \<open>d\<close> is still to be read.\<close>

definition input_complete :: "Input \<Rightarrow> bytes \<Rightarrow> bool" where
  "input_complete i d \<longleftrightarrow>
     (if in_ended i then d = in_current i
      else \<exists>cs. in_rx i = map ChunkData cs @ [ChunkEnd] \<and> d = in_current i @ concat cs)"

lemma map_ChunkData_eq [simp]: "map ChunkData a = map ChunkData b \<longleftrightarrow> a = b"
  by (rule inj_map_eq_map) (simp add: inj_def)

lemma take_drop_append [simp]: "take n xs @ drop n xs @ ys = xs @ ys"
  by (metis append_assoc append_take_drop_id)

lemma input_complete_new: "input_complete (input_new (map ChunkData cs @ [ChunkEnd])) (concat cs)"
  by (simp add: input_complete_def input_new_def)

lemma input_read_complete:
  "0 < n \<Longrightarrow> input_complete i d \<Longrightarrow>
     \<exists>i' b d'. input_read n i = (i', Inr b) \<and> d = b @ d' \<and> (b = [] \<longleftrightarrow> d = []) \<and> input_complete i' d'"
proof (induction n i arbitrary: d rule: input_read.induct)
  case (1 n i)
  show ?case
  proof (cases "in_current i \<noteq> [] \<or> in_ended i")
    case True
    have split: "in_current i = take n (in_current i) @ drop n (in_current i)" by simp
    have "d = in_current i \<or> \<not> in_ended i" using "1.prems" by (auto simp: input_complete_def)
    with True "1.prems" split show ?thesis
      by (cases "in_ended i") (auto simp: input_read.simps [of n i] input_complete_def)
  next
    case False
    then obtain cs where cs: "in_rx i = map ChunkData cs @ [ChunkEnd]" "d = concat cs"
      using "1.prems" by (auto simp: input_complete_def)
    show ?thesis
    proof (cases cs)
      case Nil
      let ?i = "i\<lparr>in_rx := [], in_ended := True\<rparr>"
      have "input_complete ?i d" using False cs Nil by (simp add: input_complete_def)
      with "1.IH"(2) [of ChunkEnd "[]" d] False cs Nil "1.prems"(1) show ?thesis
        by (simp add: input_read.simps [of n i])
    next
      case (Cons c cs')
      let ?i = "i\<lparr>in_rx := map ChunkData cs' @ [ChunkEnd], in_current := c\<rparr>"
      have "input_complete ?i d" using False cs Cons by (simp add: input_complete_def)
      with "1.IH"(1) [of "ChunkData c" _ c d] False cs Cons "1.prems"(1) show ?thesis
        by (simp add: input_read.simps [of n i])
    qed
  qed
qed

lemma reads_of_complete:
  "0 < n \<Longrightarrow> input_complete i d \<Longrightarrow> \<exists>ds. reads_of n i = map Inr ds \<and> concat ds = d"
proof (induction n i arbitrary: d rule: reads_of.induct)
  case (1 n i)
  from input_read_complete [OF "1.prems"] obtain i' b d' where
      r: "input_read n i = (i', Inr b)" "d = b @ d'" "b = [] \<longleftrightarrow> d = []" "input_complete i' d'"
    by (elim exE conjE)
  show ?case
  proof (cases "b = []")
    case True
    then have "d = []" using r(3) by simp
    moreover have "reads_of n i = []" using r(1) True by (subst reads_of.simps) simp
    ultimately show ?thesis by simp
  next
    case False
    from "1.IH" [OF r(1) [symmetric] refl False "1.prems"(1) r(4)] obtain ds where
        "reads_of n i' = map Inr ds" "concat ds = d'"
      by (elim exE conjE)
    moreover have "reads_of n i = Inr b # reads_of n i'" using r(1) False by (subst reads_of.simps) simp
    ultimately show ?thesis using r(2) by (intro exI [of _ "b # ds"]) simp
  qed
qed

text \<open>What reading to the end comes to.\<close>

fun read_result :: "(string + bytes) list \<Rightarrow> string + bytes" where
  "read_result [] = Inr []"
| "read_result (Inl e # es) = Inl e"
| "read_result (Inr b # es) = (if b = [] then Inr [] else map_ok ((@) b) (read_result es))"

lemma produce_step:
  assumes "0 < n" and "b \<noteq> []" and "produce n (Inr b # es) = (cs, Inr ())"
  obtains cs' where "produce n (if length b \<le> n then es else Inr (drop n b) # es) = (cs', Inr ())" "cs = take n b # cs'"
proof -
  let ?rest = "if length b \<le> n then es else Inr (drop n b) # es"
  have "produce n (Inr b # es) = (case produce n ?rest of (cs, r) \<Rightarrow> (take n b # cs, r))"
    using assms(1,2) by simp
  with assms(3) show ?thesis using that by (cases "produce n ?rest") simp
qed

lemma produce_result:
  "0 < n \<Longrightarrow> produce n es = (cs, Inr ()) \<Longrightarrow> read_result es = Inr (concat cs)"
proof (induction n es arbitrary: cs rule: produce.induct)
  case (3 n b es)
  show ?case
  proof (cases "b = []")
    case True
    then show ?thesis using "3.prems" by simp
  next
    case False
    define rest where "rest = (if length b \<le> n then es else Inr (drop n b) # es)"
    from produce_step [OF "3.prems"(1) False "3.prems"(2)] obtain cs' where
        cs: "produce n rest = (cs', Inr ())" "cs = take n b # cs'"
      unfolding rest_def by metis
    have IH: "read_result rest = Inr (concat cs')"
      using "3.IH" [of cs'] "3.prems"(1) False cs(1) unfolding rest_def by blast
    show ?thesis
    proof (cases "length b \<le> n")
      case True
      then show ?thesis using IH cs False by (simp add: rest_def)
    next
      case long: False
      then have "drop n b \<noteq> []" by simp
      with IH long obtain r where "read_result es = Inr r" "concat cs' = drop n b @ r"
        by (auto simp: rest_def result_simps)
      then show ?thesis using cs(2) False by simp
    qed
  qed
qed auto

section \<open>What is written and what is read\<close>

definition wire_written :: "Wire \<Rightarrow> bytes" where
  "wire_written w = written (xfer_send (wire_stream w))"

text \<open>The wire \<open>w'\<close> is \<open>w\<close> after sending \<open>ms\<close>: what it can read is untouched.\<close>

definition wire_sent :: "Wire \<Rightarrow> FileTransfer list \<Rightarrow> Wire \<Rightarrow> bool" where
  "wire_sent w ms w' \<longleftrightarrow>
     (\<exists>bs. sent_as transfer_wire (wire_limits w) ms bs \<and> wire_written w' = wire_written w @ bs) \<and>
     wire_limits w' = wire_limits w \<and> wire_messages w' = wire_messages w \<and>
     wire_chunk_size w' = wire_chunk_size w \<and>
     xfer_recv (wire_stream w') = xfer_recv (wire_stream w) \<and>
     xfer_finished (wire_stream w') = xfer_finished (wire_stream w)"

lemma wire_sent_refl [simp]: "wire_sent w [] w"
  using sent_as_Nil by (auto simp: wire_sent_def)

lemma wire_sent_trans: "wire_sent w ms w1 \<Longrightarrow> wire_sent w1 ns w2 \<Longrightarrow> wire_sent w (ms @ ns) w2"
  by (fastforce simp: wire_sent_def dest: sent_as_append)

lemma send_bounded_Inr:
  "send_bounded s st c a = (st', Inr u) \<Longrightarrow> written st' = written st @ c"
  by (auto simp: send_bounded_def write_all_def guarded_in_def result_simps
      split: if_splits list.splits waiting.splits prod.splits)

lemma wire_send_Inr: "wire_send s w m = (w', Inr u) \<Longrightarrow> wire_sent w [m] w'"
  by (auto simp: wire_send_def wire_sent_def wire_written_def transfer_send_def result_simps
      dest!: send_bounded_Inr intro!: sent_as_single split: prod.splits)

lemma send_chunks_Inr: "send_chunks s msg cs w = (w', Inr u) \<Longrightarrow> wire_sent w (map msg cs) w'"
proof (induction cs arbitrary: w)
  case (Cons c cs)
  then obtain w1 where 1: "wire_send s w (msg c) = (w1, Inr ())" "send_chunks s msg cs w1 = (w', Inr u)"
    by (auto simp: result_simps)
  from wire_sent_trans [OF wire_send_Inr [OF 1(1)] Cons.IH [OF 1(2)]] show ?case by simp
qed simp

lemma wire_finish_Inr: "wire_finish w = (w', Inr u) \<Longrightarrow> wire_sent w [] w'"
  using sent_as_Nil
  by (auto simp: wire_finish_def wire_sent_def wire_written_def transfer_finish_def stream_finish_def
      result_simps split: prod.splits if_splits)

section \<open>Messages to come\<close>

definition wire_expects :: "Session \<Rightarrow> Wire \<Rightarrow> FileTransfer list \<Rightarrow> bool" where
  "wire_expects s w ms \<longleftrightarrow>
     transfer_input.expects s transfer_wire (wire_limits w) (wire_messages w) (wire_stream w) ms (InHeader [])"

lemma wire_expects_sent: "wire_sent w ms w' \<Longrightarrow> wire_expects s w' ns \<longleftrightarrow> wire_expects s w ns"
  by (simp add: wire_expects_def transfer_input.expects_def wire_sent_def)

text \<open>Reading a message changes nothing that was written.\<close>

definition wire_read :: "Wire \<Rightarrow> Wire \<Rightarrow> bool" where
  "wire_read w w' \<longleftrightarrow> wire_limits w' = wire_limits w \<and> wire_chunk_size w' = wire_chunk_size w \<and>
     xfer_send (wire_stream w') = xfer_send (wire_stream w)"

lemma wire_read_refl [simp]: "wire_read w w"
  by (simp add: wire_read_def)

lemma wire_read_trans: "wire_read w w1 \<Longrightarrow> wire_read w1 w2 \<Longrightarrow> wire_read w w2"
  by (simp add: wire_read_def)

lemma transfer_receive_send: "transfer_receive s x n = (x', r) \<Longrightarrow> xfer_send x' = xfer_send x"
  by (auto simp: transfer_receive_def split: prod.splits)

lemma next_message_send:
  assumes "next_message T fail closed (transfer_receive s) weight m x = Some ((m', x'), r)"
  shows "xfer_send x' = xfer_send x"
  using assms
proof (induction "weight x" arbitrary: m x rule: less_induct)
  case less
  show ?case
  proof (cases "msg_pending m")
    case Nil
    obtain x1 r1 where 1: "transfer_receive s x (msg_buffer_len m) = (x1, r1)" by fastforce
    note send = transfer_receive_send [OF 1]
    show ?thesis
      using less.prems less.hyps [of x1] 1 send Nil
      by (auto simp: next_message.simps [of T fail closed _ weight m] split: sum.splits option.splits prod.splits if_splits)
  qed (use less.prems in \<open>simp add: next_message.simps [of T fail closed _ weight m]\<close>)
qed

lemma wire_next_read: "wire_next s w = Some (w', r) \<Longrightarrow> wire_read w w'"
  by (auto simp: wire_next_def wire_read_def dest: next_message_send)

lemma wire_next_expects:
  assumes "wire_expects s w (m # ms)"
  shows "\<exists>w'. wire_next s w = Some (w', Inr m) \<and> wire_expects s w' ms \<and> wire_read w w'"
proof -
  from transfer_input.next_returns [OF assms [unfolded wire_expects_def]] obtain m' x' where
      n: "next_message transfer_wire transfer_failure ''transfer closed before expected message''
          (transfer_receive s) (\<lambda>x. recv_weight (xfer_recv x)) (wire_messages w) (wire_stream w) =
        Some ((m', x'), Inr m)"
    and e: "transfer_input.expects s transfer_wire (wire_limits w) m' x' ms (InHeader [])"
    by blast
  have "wire_next s w = Some (w\<lparr>wire_messages := m', wire_stream := x'\<rparr>, Inr m)"
    using n by (simp add: wire_next_def)
  with e wire_next_read [OF this] show ?thesis by (auto simp: wire_expects_def)
qed

lemma collect_expects:
  assumes "\<And>b. step (msg b) = TakeChunk b" and "step fin = LastChunk"
  shows "wire_expects s w (map msg cs @ fin # ms) \<Longrightarrow>
    \<exists>w'. collect s step wrong w acc = Some ((w', acc @ cs), Inr ()) \<and> wire_expects s w' ms \<and> wire_read w w'"
proof (induction cs arbitrary: w acc)
  case Nil
  from wire_next_expects [of s w fin ms] Nil obtain w' where
      w: "wire_next s w = Some (w', Inr fin)" "wire_expects s w' ms" "wire_read w w'"
    by auto
  then show ?case using assms(2) by (intro exI [of _ w']) (simp add: collect.simps [of s step wrong w])
next
  case (Cons c cs)
  from wire_next_expects [of s w "msg c"] Cons.prems obtain w1 where
      1: "wire_next s w = Some (w1, Inr (msg c))" "wire_expects s w1 (map msg cs @ fin # ms)" "wire_read w w1"
    by auto
  from Cons.IH [OF 1(2), of "acc @ [c]"] obtain w' where
      "collect s step wrong w1 (acc @ [c]) = Some ((w', acc @ c # cs), Inr ())" "wire_expects s w' ms" "wire_read w1 w'"
    by auto
  then show ?case using 1 assms(1) wire_read_trans
    by (intro exI [of _ w']) (auto simp: collect.simps [of s step wrong w])
qed

text \<open>A fresh wire whose stream delivers what the messages were sent as.\<close>

lemma wire_new_expects:
  assumes new: "wire_new x l = Inr w" and sent: "sent_as transfer_wire (codec_limits_from l) ms bs"
    and ok: "\<forall>m \<in> set ms. transfer_ok m"
    and stream: "half_delivers s (xfer_recv x, xfer_finished x) bs"
  shows "wire_expects s w ms \<and> wire_stream w = x \<and> wire_limits w = codec_limits_from l \<and> 0 < wire_chunk_size w"
proof -
  from new have w: "wire_stream w = x" "wire_limits w = codec_limits_from l" "0 < wire_chunk_size w"
      "msg_decoder (wire_messages w) = decoder_new (codec_limits_from l)" "msg_pending (wire_messages w) = []"
      "0 < msg_buffer_len (wire_messages w)"
    by (auto simp: wire_new_def result_simps Let_def split: if_splits)
  with transfer_input.expects_new [OF transfer.wire_message_axioms sent ok w(4-6) stream] show ?thesis
    by (simp add: wire_expects_def)
qed

text \<open>Both together: what a wire has written after a part of a run.\<close>

definition wire_out :: "Wire \<Rightarrow> FileTransfer list \<Rightarrow> Wire \<Rightarrow> bool" where
  "wire_out w ms w' \<longleftrightarrow> wire_limits w' = wire_limits w \<and> wire_chunk_size w' = wire_chunk_size w \<and>
     (\<exists>bs. sent_as transfer_wire (wire_limits w) ms bs \<and> wire_written w' = wire_written w @ bs)"

lemma sent_out: "wire_sent w ms w' \<Longrightarrow> wire_out w ms w'"
  by (auto simp: wire_sent_def wire_out_def)

lemma read_out: "wire_read w w' \<Longrightarrow> wire_out w [] w'"
  using sent_as_Nil by (auto simp: wire_read_def wire_out_def wire_written_def)

lemma wire_out_trans: "wire_out w ms w1 \<Longrightarrow> wire_out w1 ns w2 \<Longrightarrow> wire_out w (ms @ ns) w2"
  by (fastforce simp: wire_out_def dest: sent_as_append)

lemma collect_read: "collect s step wrong w acc = Some ((w', cs), r) \<Longrightarrow> wire_read w w'"
proof (induction s step wrong w acc rule: collect.induct)
  case (1 s step wrong w acc)
  obtain w1 r1 where 1: "wire_next s w = Some (w1, r1)"
    using "1.prems" by (cases "wire_next s w") (auto simp: collect.simps [of s step wrong w])
  note r = wire_next_read [OF this]
  show ?case
  proof (cases r1)
    case (Inl e)
    then show ?thesis using 1 r "1.prems" by (simp add: collect.simps [of s step wrong w])
  next
    case (Inr m)
    show ?thesis
    proof (cases "step m")
      case (TakeChunk b)
      with 1 Inr "1.prems" have "collect s step wrong w1 (acc @ [b]) = Some ((w', cs), r)"
        by (simp add: collect.simps [of s step wrong w])
      from "1.IH" [OF 1 refl Inr TakeChunk this] r wire_read_trans show ?thesis by blast
    qed (use 1 r Inr "1.prems" in \<open>auto simp: collect.simps [of s step wrong w]\<close>)
  qed
qed

section \<open>The two sides\<close>

lemma finish_send_out:
  assumes "finish_send s i w = Some (w', Inr u)"
  shows "wire_out w [TransferEnd] w'"
proof -
  from assms obtain w1 w2 m where 1: "wire_send s w TransferEnd = (w1, Inr ())" and 2: "wire_finish w1 = (w2, Inr ())"
    and 3: "wire_next s w2 = Some (w', Inr m)"
    by (auto simp: finish_send_def result_simps)
  from wire_out_trans [OF wire_out_trans [OF sent_out [OF wire_send_Inr [OF 1]] sent_out [OF wire_finish_Inr [OF 2]]]
      read_out [OF wire_next_read [OF 3]]]
  show ?thesis by simp
qed

lemma produce_sent:
  assumes "(case produce (wire_chunk_size w) content of
        (cs, worker) \<Rightarrow> and_do (send_chunks s msg cs w) (\<lambda>w _. (w, worker))) = (w', Inr u)"
    and "0 < wire_chunk_size w"
  obtains cs where "read_result content = Inr (concat cs)" "wire_sent w (map msg cs) w'"
proof -
  obtain cs worker where p: "produce (wire_chunk_size w) content = (cs, worker)" by fastforce
  with assms(1) have "worker = Inr ()" "send_chunks s msg cs w = (w', Inr ())"
    by (auto simp: result_simps)
  then show ?thesis using that [of cs] p produce_result [OF assms(2), of content cs] send_chunks_Inr by blast
qed

lemma on_wire_Some: "on_wire k m = Some ((w', k'), r) \<longleftrightarrow> m = Some (w', r) \<and> k' = k"
  by (cases m) (auto simp: on_wire_def)

lemma on_files_Some: "on_files w m = Some ((w', k'), r) \<longleftrightarrow> m = (k', r) \<and> w' = w"
  by (cases m) (auto simp: on_files_def)

text \<open>
  The source: it was asked for the path \<open>p\<close>, opened it, and \<open>content\<close> is what it read. Its answer is
  the content in chunks, or what librsync makes of it for the signature in the request.
\<close>

lemma serve_request_out:
  assumes run: "serve_request R P F s root w k = Some ((w', k'), Inr u)" and chunk: "0 < wire_chunk_size w"
    and ask: "wire_expects s w (req # rest)"
    and req: "file_request req = Inr (i, p, update)"
    and sigs: "update \<Longrightarrow> rest = map Signature sg @ SignatureEnd # later"
  obtains fd k1 out cs msgs where
    "open_regular P root p k = (k1, Inr (Some fd))"
    "if update then rs_delta R (read_to_end F k1 fd) (input_new (map ChunkData sg @ [ChunkEnd])) = Inr out
     else out = read_to_end F k1 fd"
    "read_result out = Inr (concat cs)"
    "wire_out w (map (if update then Delta else WholeFile) cs @ [TransferEnd]) w'"
proof -
  from wire_next_expects [OF ask] obtain w1 where
      1: "wire_next s w = Some (w1, Inr req)" "wire_expects s w1 rest" "wire_read w w1" by blast
  have chunk1: "0 < wire_chunk_size w1" using 1(3) chunk by (simp add: wire_read_def)
  from run 1 req obtain k1 fd w2 k2 where
      2: "open_regular P root p k = (k1, Inr (Some fd))"
    and 3: "on_wire k1 (if update then send_delta R s (read_to_end F k1 fd) w1
             else Some (send_whole s (read_to_end F k1 fd) w1)) = Some ((w2, k2), Inr ())"
    and 4: "on_wire k2 (finish_send s i w2) = Some ((w', k'), Inr u)"
    by (auto simp: serve_request_def on_wire_def on_files_def result_simps split: prod.splits)
  have 4: "wire_out w2 [TransferEnd] w'" using 4 by (auto simp: on_wire_Some intro: finish_send_out)
  show ?thesis
  proof (cases update)
    case False
    with 3 have "send_whole s (read_to_end F k1 fd) w1 = (w2, Inr ())" by (simp add: on_wire_Some)
    then obtain cs where cs: "read_result (read_to_end F k1 fd) = Inr (concat cs)" "wire_sent w1 (map WholeFile cs) w2"
      unfolding send_whole_def by (rule produce_sent) (rule chunk1)
    from wire_out_trans [OF wire_out_trans [OF read_out [OF 1(3)] sent_out [OF cs(2)]] 4] cs(1) 2 False
    show ?thesis using that [of k1 fd "read_to_end F k1 fd" cs] by simp
  next
    case True
    have "wire_expects s w1 (map Signature sg @ SignatureEnd # later)" using 1(2) sigs [OF True] by simp
    from collect_expects [where wrong = "''expected signature''" and acc = "[]", OF _ _ this, of signature_step] obtain wa where
        a: "collect s signature_step ''expected signature'' w1 [] = Some ((wa, sg), Inr ())" "wire_read w1 wa"
      by auto
    have chunka: "0 < wire_chunk_size wa" using a(2) chunk1 by (simp add: wire_read_def)
    from 3 True a obtain out where out: "rs_delta R (read_to_end F k1 fd) (input_new (map ChunkData sg @ [ChunkEnd])) = Inr out"
      and p: "(case produce (wire_chunk_size wa) out of
          (cs, worker) \<Rightarrow> and_do (send_chunks s Delta cs wa) (\<lambda>w _. (w, worker))) = (w2, Inr ())"
      by (auto simp: on_wire_Some send_delta_def split: sum.splits)
    from p chunka obtain cs where cs: "read_result out = Inr (concat cs)" "wire_sent wa (map Delta cs) w2"
      by (rule produce_sent)
    from wire_out_trans [OF wire_out_trans [OF wire_out_trans [OF read_out [OF 1(3)] read_out [OF a(2)]] sent_out [OF cs(2)]] 4]
      cs(1) 2 True out
    show ?thesis using that [of k1 fd out cs] by simp
  qed
qed

text \<open>
  The destination: a file it reports received was staged from the channel that \<open>collect\<close> filled, and
  its requests, signatures and acknowledgment are what it has written.
\<close>

lemma acknowledge_out:
  assumes "acknowledge P s i p f w k = Some ((w', k'), Inr rf)"
  shows "wire_out w [TransferAccepted i] w' \<and> k' = k \<and> received_file rf = f \<and> received_id rf = i \<and> received_path rf = p"
proof -
  from assms obtain w1 where 1: "wire_send s w (TransferAccepted i) = (w1, Inr ())" and 2: "wire_finish w1 = (w', Inr ())"
    and "k' = k" "rf = \<lparr>received_id = i, received_path = p, received_file = f\<rparr>"
    by (auto simp: acknowledge_def result_simps split: prod.splits sum.splits)
  with wire_out_trans [OF sent_out [OF wire_send_Inr [OF 1]] sent_out [OF wire_finish_Inr [OF 2]]]
  show ?thesis by simp
qed

lemma receive_whole_out:
  assumes "receive_whole P s area rnd w k = Some ((w', k'), Inr f)"
  obtains cs where "collect s whole_step ''expected whole-file bytes'' w [] = Some ((w', cs), Inr ())"
    "staging_area_receive P area rnd (reads_of COPY_BUFFER (input_new (map ChunkData cs @ [ChunkEnd]))) k = (k', Inr f)"
  using assms
  by (auto simp: receive_whole_def on_files_def split: option.splits sum.splits prod.splits)

lemma receive_update_out:
  assumes run: "receive_update R P F s area rnd p w k = Some ((w', k'), Inr f)" and chunk: "0 < wire_chunk_size w"
  obtains k1 fd sig sg w1 cs out where
    "open_regular P (area_root area) p k = (k1, Inr (Some fd))"
    "rs_signature R (read_to_end F k1 fd) = Inr sig" "read_result sig = Inr (concat sg)"
    "wire_sent w (map Signature sg @ [SignatureEnd]) w1"
    "collect s delta_step ''expected delta'' w1 [] = Some ((w', cs), Inr ())"
    "rs_patch R (read_to_end F k1 fd) (input_new (map ChunkData cs @ [ChunkEnd])) = Inr out"
    "staging_area_receive P area rnd out k1 = (k', Inr f)"
proof -
  from run obtain k1 fd w1 where
      1: "open_regular P (area_root area) p k = (k1, Inr (Some fd))"
    and 2: "send_signature R s (read_to_end F k1 fd) (seek_start F k1 fd) w = (w1, Inr ())"
    and 3: "(case collect s delta_step ''expected delta'' w1 [] of
       None \<Rightarrow> None
     | Some ((w, cs), Inl e) \<Rightarrow>
         Some ((w, abandon P (patch_into R P area rnd (read_to_end F k1 fd) (map ChunkData cs) k1)), Inl e)
     | Some ((w, cs), Inr _) \<Rightarrow>
         on_files w (patch_into R P area rnd (read_to_end F k1 fd) (map ChunkData cs @ [ChunkEnd]) k1)) =
       Some ((w', k'), Inr f)"
    unfolding receive_update_def and_run_eq_Inr
    by (auto simp: on_files_def on_wire_def open_basis_def result_simps split: prod.splits)
  from 3 obtain cs where c: "collect s delta_step ''expected delta'' w1 [] = Some ((w', cs), Inr ())"
      "patch_into R P area rnd (read_to_end F k1 fd) (map ChunkData cs @ [ChunkEnd]) k1 = (k', Inr f)"
    by (auto simp: on_files_def split: option.splits sum.splits prod.splits)
  from c(2) obtain out where out: "rs_patch R (read_to_end F k1 fd) (input_new (map ChunkData cs @ [ChunkEnd])) = Inr out"
      "staging_area_receive P area rnd out k1 = (k', Inr f)"
    by (auto simp: patch_into_def split: sum.splits)
  from 2 obtain sig where sig: "rs_signature R (read_to_end F k1 fd) = Inr sig"
    by (auto simp: send_signature_def split: sum.splits)
  obtain sg worker where p: "produce (wire_chunk_size w) sig = (sg, worker)" by fastforce
  from 2 sig p obtain w0 where w0: "send_chunks s Signature sg w = (w0, Inr ())" "worker = Inr ()"
      "wire_send s w0 SignatureEnd = (w1, Inr ())"
    by (auto simp: send_signature_def result_simps)
  from wire_sent_trans [OF send_chunks_Inr [OF w0(1)] wire_send_Inr [OF w0(3)]]
  have "wire_sent w (map Signature sg @ [SignatureEnd]) w1" by simp
  moreover have "read_result sig = Inr (concat sg)" using produce_result [OF chunk] p w0(2) by simp
  ultimately show ?thesis using that 1 sig c(1) out by blast
qed

section \<open>Delivery\<close>

text \<open>
  What is relied on from librsync: a patch made from the delta of a source for the signature of a
  basis, applied to that basis, is the source. It may fail instead.
\<close>

definition rsync_ok :: "librsync \<Rightarrow> bool" where
  "rsync_ok R \<longleftrightarrow>
     (\<forall>basis content c sig sb i delta db j out.
        rs_signature R basis = Inr sig \<and> read_result sig = Inr sb \<and> input_complete i sb \<and>
        read_result content = Inr c \<and> rs_delta R content i = Inr delta \<and> read_result delta = Inr db \<and>
        input_complete j db \<and> rs_patch R basis j = Inr out \<longrightarrow>
        (\<exists>chunks. out = map Inr chunks \<and> concat chunks = c))"

text \<open>The two ends of one stream: each receives, in some pieces, what the other has written.\<close>

definition connected :: "Session \<Rightarrow> TransferStream \<Rightarrow> Session \<Rightarrow> TransferStream \<Rightarrow> TransferStream \<Rightarrow> TransferStream \<Rightarrow> bool" where
  "connected s1 x1 s2 x2 x1' x2' \<longleftrightarrow>
     written (xfer_send x1) = [] \<and> written (xfer_send x2) = [] \<and>
     half_delivers s1 (xfer_recv x1, xfer_finished x1) (written (xfer_send x2')) \<and>
     half_delivers s2 (xfer_recv x2, xfer_finished x2) (written (xfer_send x1'))"

definition request_of :: "OperationId \<Rightarrow> RelativePath \<Rightarrow> bool \<Rightarrow> FileTransfer" where
  "request_of i p update = (if update then UpdateRequest i p else CreateRequest i p)"

lemma request_of: "file_request (request_of i p update) = Inr (i, p, update)" "path_ok p \<Longrightarrow> transfer_ok (request_of i p update)"
  by (simp_all add: request_of_def)

lemma staged_from:
  assumes fs: "posix_fs P tree at" and area: "at k (area_directory area) = Some staging"
    and run: "staging_area_receive P area (Some rnd) (map Inr chunks) k = (k', Inr f)"
  shows "waits tree at k' f (concat chunks)"
proof -
  note law = posix_fs.receive_law [OF fs area run [unfolded staging_area_receive_def]]
  note L = mp [OF spec [OF conjunct2 [OF conjunct2 [OF law]]] refl]
  note f = conjunct1 [OF L] and k = conjunct1 [OF conjunct2 [OF L]]
    and q = conjunct2 [OF conjunct2 [OF conjunct2 [OF conjunct2 [OF L]]]]
  have chunks: "map projr (map Inr chunks) = chunks" by (simp add: comp_def)
  have "at k' (staged_dir f) = Some staging" using f keepsD [OF k area] by simp
  moreover have "component_ok (staged_name f)" using f hex_name_ok by simp
  ultimately show ?thesis using q unfolding waits_def chunks by blast
qed

context posix_fs
begin

lemma open_basis_keeps:
  assumes "at s fd = Some d" and "list_all component_ok cs" and "open_basis_ancestors P fd cs s = (s', r)"
  shows "tree s' = tree s \<and> keeps at s s' \<and> (\<forall>fd'. r = Inr (Some fd') \<longrightarrow> (\<exists>q. at s' fd' = Some q))"
  using assms
proof (induction cs arbitrary: s fd d)
  case (Cons c cs)
  obtain s1 r1 where 1: "openat P fd c DIRECTORY_FLAGS 0 s = (s1, r1)" by fastforce
  have c: "component_ok c" "list_all component_ok cs" using Cons.prems(2) by simp_all
  have "NOFOLLOW \<in> set DIRECTORY_FLAGS" "CREATE \<notin> set DIRECTORY_FLAGS" by (simp_all add: DIRECTORY_FLAGS_def)
  note o = open_law [OF Cons.prems(1) c(1) this 1]
  show ?case
  proof (cases r1)
    case (Inl e)
    with o 1 Cons.prems(3) show ?thesis by (auto simp: keeps_def split: if_splits)
  next
    case (Inr fd1)
    with o have at1: "at s1 fd1 = Some (d @ [c])" by blast
    have "open_basis_ancestors P fd1 cs s1 = (s', r)" using Cons.prems(3) 1 Inr by simp
    from Cons.IH [OF at1 c(2) this] o show ?thesis by (simp add: keeps_def)
  qed
qed (auto simp: keeps_def)

lemma open_regular_keeps:
  assumes "at s root = Some []" and "path_ok p" and "open_regular P root p s = (s', r)"
  shows "tree s' = tree s \<and> keeps at s s'"
proof (cases "reject_protected p")
  case (Inl e)
  with assms(3) show ?thesis by (simp add: open_regular_def keeps_def)
next
  case (Inr u)
  obtain s1 r1 where 1: "dup P root s = (s1, r1)" by fastforce
  note d = dup_law [OF assms(1) 1]
  show ?thesis
  proof (cases r1)
    case (Inl e)
    with Inr 1 d assms(3) show ?thesis
      by (auto simp: open_regular_def duplicate_def map_step_err_def keeps_def)
  next
    case r1: (Inr fd)
    obtain s2 r2 where 2: "open_basis_ancestors P fd (butlast (components p)) s1 = (s2, r2)" by fastforce
    have at1: "at s1 fd = Some []" using d r1 by blast
    have "list_all component_ok (butlast (components p))"
      using assms(2) by (auto simp: path_ok_def list_all_iff dest: in_set_butlastD)
    note b = open_basis_keeps [OF at1 this 2]
    have k2: "keeps at s s2" "tree s2 = tree s" using d b by (auto simp: keeps_def)
    show ?thesis
    proof (cases "\<exists>fd2. r2 = Inr (Some fd2)")
      case False
      then have "s' = s2"
        using Inr 1 2 r1 assms(3)
        by (cases r2) (auto simp: open_regular_def duplicate_def map_step_err_def split: option.splits)
      with k2 show ?thesis by simp
    next
      case True
      then obtain fd2 q where fd2: "r2 = Inr (Some fd2)" "at s2 fd2 = Some q" using b by blast
      obtain s3 r3 where 3: "openat P fd2 (last (components p)) [RDONLY, NOFOLLOW, NONBLOCK, CLOEXEC] 0 s2 = (s3, r3)"
        by fastforce
      have "component_ok (last (components p))"
        using assms(2) by (simp add: path_ok_def list_all_iff)
      note o = open_law [OF fd2(2) this _ _ 3]
      have "s' = s3"
        using Inr 1 2 3 r1 fd2 assms(3)
        by (cases r3) (auto simp: open_regular_def duplicate_def map_step_err_def split: sum.splits if_splits)
      with o k2 show ?thesis by (simp add: keeps_def)
    qed
  qed
qed

end

lemma wire_new_facts:
  "wire_new x l = Inr w \<Longrightarrow> wire_stream w = x \<and> wire_limits w = codec_limits_from l \<and> 0 < wire_chunk_size w"
  by (auto simp: wire_new_def result_simps Let_def split: if_splits)

text \<open>A fresh wire has written just what it sent.\<close>

lemma fresh_out:
  assumes "wire_new x l = Inr w" and "written (xfer_send x) = []" and "wire_out w ms w'"
  shows "sent_as transfer_wire (codec_limits_from l) ms (written (xfer_send (wire_stream w')))"
  using assms wire_new_facts [OF assms(1)] by (auto simp: wire_out_def wire_written_def)

text \<open>What the source makes of the destination's messages is what the destination will read.\<close>

lemma answer_expected:
  assumes w1: "wire_new x1 l = Inr w1" "serve_request R Ps Fs s1 root w1 ks = Some ((w1', ks'), Inr ())"
    and w2: "wire_new x2 l = Inr w2" "wire_sent w2 [request_of i p update] w2a"
    and stream: "connected s1 x1 s2 x2 (wire_stream w1') (wire_stream w2')" and p: "path_ok p"
    and out2: "wire_out w2 (request_of i p update # rest) w2'" and ok: "\<forall>m \<in> set rest. transfer_ok m"
    and sigs: "update \<Longrightarrow> rest = map Signature sg @ SignatureEnd # later"
  shows "\<exists>fd k1 out cs. open_regular Ps root p ks = (k1, Inr (Some fd)) \<and>
    (if update then rs_delta R (read_to_end Fs k1 fd) (input_new (map ChunkData sg @ [ChunkEnd])) = Inr out
     else out = read_to_end Fs k1 fd) \<and>
    read_result out = Inr (concat cs) \<and>
    wire_expects s2 w2a (map (if update then Delta else WholeFile) cs @ [TransferEnd])"
proof -
  let ?l = "codec_limits_from l" and ?answer = "\<lambda>cs. map (if update then Delta else WholeFile) cs @ [TransferEnd]"
  from stream have fresh: "written (xfer_send x1) = []" "written (xfer_send x2) = []"
    and to1: "half_delivers s1 (xfer_recv x1, xfer_finished x1) (written (xfer_send (wire_stream w2')))"
    and to2: "half_delivers s2 (xfer_recv x2, xfer_finished x2) (written (xfer_send (wire_stream w1')))"
    by (auto simp: connected_def)
  have "sent_as transfer_wire ?l (request_of i p update # rest) (written (xfer_send (wire_stream w2')))"
    using fresh_out [OF w2(1) fresh(2) out2] .
  then have "wire_expects s1 w1 (request_of i p update # rest)"
    using wire_new_expects [OF w1(1) _ _ to1] ok request_of(2) [OF p] by simp
  from w1(2) conjunct2 [OF conjunct2 [OF wire_new_facts [OF w1(1)]]] this request_of(1) sigs
  obtain fd k1 out cs where o: "open_regular Ps root p ks = (k1, Inr (Some fd))"
    "if update then rs_delta R (read_to_end Fs k1 fd) (input_new (map ChunkData sg @ [ChunkEnd])) = Inr out
     else out = read_to_end Fs k1 fd" "read_result out = Inr (concat cs)"
    and out1: "wire_out w1 (?answer cs) w1'"
    by (rule serve_request_out)
  have "sent_as transfer_wire ?l (?answer cs) (written (xfer_send (wire_stream w1')))"
    using fresh_out [OF w1(1) fresh(1) out1] .
  then have "wire_expects s2 w2 (?answer cs)"
    using wire_new_expects [OF w2(1) _ _ to2] by (auto split: if_splits)
  with wire_expects_sent [OF w2(2)] o show ?thesis by blast
qed

lemma create_staged:
  assumes fs: "posix_fs P tree at" and area: "at k (area_directory area) = Some staging"
    and run: "receive_whole P s area (Some rnd) w k = Some ((w', k'), Inr f)"
    and to_come: "wire_expects s w (map WholeFile cs @ [TransferEnd])"
  shows "waits tree at k' f (concat cs)"
proof -
  from run obtain cs0 where c: "collect s whole_step ''expected whole-file bytes'' w [] = Some ((w', cs0), Inr ())"
    and st: "staging_area_receive P area (Some rnd) (reads_of COPY_BUFFER (input_new (map ChunkData cs0 @ [ChunkEnd]))) k = (k', Inr f)"
    by (rule receive_whole_out)
  from collect_expects [where wrong = "''expected whole-file bytes''" and acc = "[]" and step = whole_step, OF _ _ to_come] c
  have "cs0 = cs" by auto
  moreover obtain ds where "reads_of COPY_BUFFER (input_new (map ChunkData cs0 @ [ChunkEnd])) = map Inr ds" "concat ds = concat cs0"
    using reads_of_complete [OF _ input_complete_new, of COPY_BUFFER cs0] by (auto simp: COPY_BUFFER_def)
  ultimately show ?thesis using staged_from [OF fs area, of rnd ds k' f] st by simp
qed

lemma update_staged:
  assumes fs: "posix_fs P tree at" and area: "at k (area_directory area) = Some staging" and rsync: "rsync_ok R"
    and sig: "rs_signature R basis = Inr sig" "read_result sig = Inr (concat sg)"
    and read: "collect s delta_step ''expected delta'' w [] = Some ((w', cs0), Inr ())"
    and patch: "rs_patch R basis (input_new (map ChunkData cs0 @ [ChunkEnd])) = Inr out"
    and run: "staging_area_receive P area (Some rnd) out k = (k', Inr f)"
    and delta: "read_result src = Inr content" "rs_delta R src (input_new (map ChunkData sg @ [ChunkEnd])) = Inr d"
      "read_result d = Inr (concat cs)"
    and to_come: "wire_expects s w (map Delta cs @ [TransferEnd])"
  shows "waits tree at k' f content"
proof -
  from collect_expects [where wrong = "''expected delta''" and acc = "[]" and step = delta_step, OF _ _ to_come] read
  have "cs0 = cs" by auto
  with patch have "rs_patch R basis (input_new (map ChunkData cs @ [ChunkEnd])) = Inr out" by simp
  with rsync sig delta input_complete_new obtain chunks where "out = map Inr chunks" "concat chunks = content"
    unfolding rsync_ok_def by blast
  with staged_from [OF fs area, of rnd chunks k' f] run show ?thesis by simp
qed

lemma transfer_stages:
  assumes fs: "posix_fs P tree at" and area: "at k (area_root area) = Some []" "at k (area_directory area) = Some staging"
    and rsync: "rsync_ok R" and p: "path_ok p"
    and source: "send_file R Ps Fs s1 root l x1 ks = Some ((x1', ks'), Inr ())"
    and destination: "receive_file R P F s2 area (Some rnd) i p update l x2 k = Some ((x2', k'), Inr rf)"
    and stream: "connected s1 x1 s2 x2 x1' x2'"
    and readable: "\<And>k1 fd. open_regular Ps root p ks = (k1, Inr (Some fd)) \<Longrightarrow> read_result (read_to_end Fs k1 fd) = Inr content"
  shows "received_id rf = i \<and> received_path rf = p \<and> waits tree at k' (received_file rf) content"
proof -
  let ?req = "request_of i p update"
  from source obtain w1 w1' where w1: "wire_new x1 l = Inr w1"
      "serve_request R Ps Fs s1 root w1 ks = Some ((w1', ks'), Inr ())" "x1' = wire_stream w1'"
    by (auto simp: send_file_def split: sum.splits)
  from destination obtain w2 w2a w2b w2' kb f where w2: "wire_new x2 l = Inr w2" "x2' = wire_stream w2'"
    and ask: "wire_send s2 w2 ?req = (w2a, Inr ())"
    and body: "(if update then receive_update R P F s2 area (Some rnd) p w2a k
        else receive_whole P s2 area (Some rnd) w2a k) = Some ((w2b, kb), Inr f)"
    and ack: "acknowledge P s2 i p f w2b kb = Some ((w2', k'), Inr rf)"
    by (auto simp: receive_file_def request_of_def result_simps on_wire_Some split: sum.splits)
  note ackd = acknowledge_out [OF ack] and asked = wire_send_Inr [OF ask]
  note answer = answer_expected [OF w1(1,2) w2(1) asked stream [unfolded w1(3) w2(2)] p]
  have "waits tree at kb f content"
  proof (cases update)
    case False
    with body have run: "receive_whole P s2 area (Some rnd) w2a k = Some ((w2b, kb), Inr f)" by simp
    then have "wire_read w2a w2b" by (auto elim: receive_whole_out dest: collect_read)
    then have "wire_out w2 (?req # [TransferAccepted i]) w2'"
      using wire_out_trans [OF wire_out_trans [OF sent_out [OF asked] read_out]] ackd by force
    from answer [OF this] False obtain fd k1 cs where o: "open_regular Ps root p ks = (k1, Inr (Some fd))"
        "read_result (read_to_end Fs k1 fd) = Inr (concat cs)" "wire_expects s2 w2a (map WholeFile cs @ [TransferEnd])"
      by auto
    with create_staged [OF fs area(2) run o(3)] readable [OF o(1)] show ?thesis by simp
  next
    case True
    have chunk: "0 < wire_chunk_size w2a" using asked wire_new_facts [OF w2(1)] by (simp add: wire_sent_def)
    from True body have "receive_update R P F s2 area (Some rnd) p w2a k = Some ((w2b, kb), Inr f)" by simp
    from this chunk obtain kc fdc sig sg w2s cs0 out0 where u:
        "open_regular P (area_root area) p k = (kc, Inr (Some fdc))"
        "rs_signature R (read_to_end F kc fdc) = Inr sig" "read_result sig = Inr (concat sg)"
        "wire_sent w2a (map Signature sg @ [SignatureEnd]) w2s"
        "collect s2 delta_step ''expected delta'' w2s [] = Some ((w2b, cs0), Inr ())"
        "rs_patch R (read_to_end F kc fdc) (input_new (map ChunkData cs0 @ [ChunkEnd])) = Inr out0"
        "staging_area_receive P area (Some rnd) out0 kc = (kb, Inr f)"
      by (rule receive_update_out)
    have "wire_out w2 (?req # map Signature sg @ SignatureEnd # [TransferAccepted i]) w2'"
      using wire_out_trans [OF wire_out_trans [OF wire_out_trans [OF sent_out [OF asked] sent_out [OF u(4)]]
          read_out [OF collect_read [OF u(5)]]]] ackd by simp
    from answer [OF this, of sg "[TransferAccepted i]"] True obtain fd k1 out cs where
        o: "open_regular Ps root p ks = (k1, Inr (Some fd))"
        "rs_delta R (read_to_end Fs k1 fd) (input_new (map ChunkData sg @ [ChunkEnd])) = Inr out"
        "read_result out = Inr (concat cs)" "wire_expects s2 w2a (map Delta cs @ [TransferEnd])"
      by auto
    have kept: "at kc (area_directory area) = Some staging"
      using posix_fs.open_regular_keeps [OF fs area(1) p u(1)] area(2) by (simp add: keeps_def)
    have "wire_expects s2 w2s (map Delta cs @ [TransferEnd])" using o(4) wire_expects_sent [OF u(4)] by simp
    with update_staged [OF fs kept rsync u(2,3) u(5-7) readable [OF o(1)] o(2,3)] show ?thesis by simp
  qed
  with ackd show ?thesis by simp
qed

text \<open>
  C6. A file transfer delivers the source's file. When both ends of a transfer stream report success,
  each having received in whatever pieces what the other has written, the staged file of the
  destination holds exactly the bytes that the source read from the requested path: for a new file
  sent whole in chunks, and for an update rebuilt by librsync from the basis, the streamed signature
  and the streamed delta.\<close>

theorem transfer_delivers:
  assumes fs: "posix_fs P tree at" and area: "at k (area_root area) = Some []" "at k (area_directory area) = Some staging"
    and rsync: "rsync_ok R" and p: "path_ok p"
    and source: "send_file R Ps Fs s1 root l x1 ks = Some ((x1', ks'), Inr ())"
    and destination: "receive_file R P F s2 area (Some rnd) i p update l x2 k = Some ((x2', k'), Inr rf)"
    and stream: "connected s1 x1 s2 x2 x1' x2'"
    and readable: "\<And>k1 fd. open_regular Ps root p ks = (k1, Inr (Some fd)) \<Longrightarrow> read_result (read_to_end Fs k1 fd) = Inr content"
  shows "received_id rf = i \<and> received_path rf = p \<and> waits tree at k' (received_file rf) content"
  using assms by (rule transfer_stages)

end
