(* ===== verification/Progress.thy ===== *)
theory Progress
  imports Delivery
begin

text \<open>
  Transfers that succeed: when nothing outside the two processes interferes, both ends of a transfer
  run to their successful end. The frame limit leaves room for every chunk a producer makes, which is
  what the reserve of 32 bytes of \<open>Wire::new\<close> is for.
\<close>

section \<open>Sending\<close>

text \<open>A stream whose writes are accepted, within a session that goes on.\<close>

definition writable :: "Session \<Rightarrow> TransferStream \<Rightarrow> bool" where
  "writable s x \<longleftrightarrow> \<not> session_cancelled s \<and> write_outcomes (xfer_send x) = [] \<and> \<not> send_finished (xfer_send x)"

text \<open>A message whose frame the session lets through.\<close>

definition sendable :: "Session \<Rightarrow> CodecLimits \<Rightarrow> FileTransfer \<Rightarrow> bool" where
  "sendable s l m \<longleftrightarrow>
     (\<exists>f. encode transfer_wire m l = Inr f \<and> length f \<le> unat (bound_frame_bytes (session_bounds s)))"

lemma wire_send_goes:
  assumes "writable s (wire_stream w)" and "sendable s (wire_limits w) m"
  shows "\<exists>w'. wire_send s w m = (w', Inr ()) \<and> wire_sent w [m] w' \<and> writable s (wire_stream w')"
proof -
  from assms(2) obtain f where f: "encode transfer_wire m (wire_limits w) = Inr f"
      "length f \<le> unat (bound_frame_bytes (session_bounds s))"
    by (auto simp: sendable_def)
  let ?x = "wire_stream w"
  let ?w = "w\<lparr>wire_stream := ?x\<lparr>xfer_send := xfer_send ?x\<lparr>written := written (xfer_send ?x) @ f\<rparr>\<rparr>\<rparr>"
  have "wire_send s w m = (?w, Inr ())"
    using assms(1) f
    by (simp add: wire_send_def transfer_send_def send_bounded_def write_all_def guarded_in_def writable_def)
  moreover have "writable s (wire_stream ?w)" using assms(1) by (simp add: writable_def)
  ultimately show ?thesis using wire_send_Inr by blast
qed

lemma send_chunks_goes:
  assumes "writable s (wire_stream w)" and "\<forall>c \<in> set cs. sendable s (wire_limits w) (msg c)"
  shows "\<exists>w'. send_chunks s msg cs w = (w', Inr ()) \<and> wire_sent w (map msg cs) w' \<and> writable s (wire_stream w')"
  using assms
proof (induction cs arbitrary: w)
  case (Cons c cs)
  from wire_send_goes [of s w "msg c"] Cons.prems obtain w1 where
      1: "wire_send s w (msg c) = (w1, Inr ())" "wire_sent w [msg c] w1" "writable s (wire_stream w1)"
    by auto
  with Cons.IH [of w1] Cons.prems(2) obtain w2 where
      2: "send_chunks s msg cs w1 = (w2, Inr ())" "wire_sent w1 (map msg cs) w2" "writable s (wire_stream w2)"
    by (auto simp: wire_sent_def)
  from wire_sent_trans [OF 1(2) 2(2)] 1(1) 2 show ?case by simp
qed simp

lemma wire_finish_goes:
  "writable s (wire_stream w) \<Longrightarrow> \<exists>w'. wire_finish w = (w', Inr ()) \<and> wire_sent w [] w'"
  using wire_finish_Inr
  by (fastforce simp: writable_def wire_finish_def transfer_finish_def stream_finish_def)

lemma writable_read: "wire_read w w' \<Longrightarrow> writable s (wire_stream w') \<longleftrightarrow> writable s (wire_stream w)"
  by (simp add: writable_def wire_read_def)

section \<open>Chunks\<close>

lemma produce_completes:
  "0 < n \<Longrightarrow> read_result es = Inr c \<Longrightarrow> \<exists>cs. produce n es = (cs, Inr ()) \<and> (\<forall>b \<in> set cs. length b \<le> n)"
proof (induction n es arbitrary: c rule: produce.induct)
  case (3 n b es)
  show ?case
  proof (cases "b = []")
    case False
    define rest where "rest = (if length b \<le> n then es else Inr (drop n b) # es)"
    have "\<exists>d. read_result rest = Inr d"
      using "3.prems" False by (auto simp: rest_def result_simps)
    then obtain cs where "produce n rest = (cs, Inr ())" "\<forall>b \<in> set cs. length b \<le> n"
      using "3.IH" "3.prems"(1) False unfolding rest_def by blast
    then show ?thesis using "3.prems"(1) False by (simp add: rest_def)
  qed simp
qed auto

text \<open>
  A wire and its session that follow the same limits: every chunk of the wire's size can be sent, and
  so can every message without a payload.
\<close>

definition same_limits :: "Session \<Rightarrow> Wire \<Rightarrow> bool" where
  "same_limits s w \<longleftrightarrow>
     bound_frame_bytes (session_bounds s) = codec_max_frame_bytes (wire_limits w) \<and>
     wire_chunk_size w + 32 \<le> unat (codec_max_frame_bytes (wire_limits w))"

lemma short_sendable:
  assumes "same_limits s w" and "transfer_limit (wire_limits w) m = None"
    and "length (enc_transfer m) \<le> wire_chunk_size w + 10"
  shows "sendable s (wire_limits w) m"
proof -
  let ?n = "length (payload_of transfer_wire enc_transfer m)"
  have "?n \<le> wire_chunk_size w + 13" using assms(3) by (simp add: payload_of_def)
  moreover have "length (enc_length ?n) \<le> 10" by (simp add: enc_length_def varint_length)
  ultimately show ?thesis
    using assms(1,2) by (simp add: sendable_def same_limits_def transfer.encode_Inr frame_of_def)
qed

lemma chunk_sendable:
  assumes "same_limits s w" and "length c \<le> wire_chunk_size w"
  shows "sendable s (wire_limits w) (Signature c)" "sendable s (wire_limits w) (Delta c)"
    "sendable s (wire_limits w) (WholeFile c)"
  using assms varint_length(2) [of "word_of_nat (length c)"]
  by (auto intro!: short_sendable simp: layout_simps enc_length_def)

lemma mark_sendable:
  assumes "same_limits s w"
  shows "sendable s (wire_limits w) SignatureEnd" "sendable s (wire_limits w) TransferEnd"
    "sendable s (wire_limits w) (TransferAccepted i)"
  using assms by (auto intro!: short_sendable simp: layout_simps)

lemma same_limits_kept:
  "wire_read w w' \<Longrightarrow> same_limits s w' \<longleftrightarrow> same_limits s w"
  "wire_sent w ms w' \<Longrightarrow> same_limits s w' \<longleftrightarrow> same_limits s w"
  by (simp_all add: same_limits_def wire_read_def wire_sent_def)

text \<open>A wire in good order: it can go on sending and it follows the session's limits.\<close>

definition ready :: "Session \<Rightarrow> Wire \<Rightarrow> bool" where
  "ready s w \<longleftrightarrow> writable s (wire_stream w) \<and> same_limits s w \<and> 0 < wire_chunk_size w"

lemma ready_read: "wire_read w w' \<Longrightarrow> ready s w' \<longleftrightarrow> ready s w"
  by (simp add: ready_def writable_read same_limits_kept) (simp add: wire_read_def)

lemma ready_sent: "ready s w \<Longrightarrow> wire_sent w ms w' \<Longrightarrow> writable s (wire_stream w') \<Longrightarrow> ready s w'"
  by (simp add: ready_def same_limits_kept) (simp add: wire_sent_def)

lemma mark_goes:
  assumes "ready s w" and "sendable s (wire_limits w) m"
  shows "\<exists>w'. wire_send s w m = (w', Inr ()) \<and> wire_sent w [m] w' \<and> ready s w'"
  using wire_send_goes [of s w m] assms ready_sent unfolding ready_def by blast

lemma produced_goes:
  assumes "ready s w" and "read_result es = Inr c"
    and msg: "\<And>b. length b \<le> wire_chunk_size w \<Longrightarrow> sendable s (wire_limits w) (msg b)"
  shows "\<exists>cs w'. produce (wire_chunk_size w) es = (cs, Inr ()) \<and> concat cs = c \<and>
    send_chunks s msg cs w = (w', Inr ()) \<and> wire_sent w (map msg cs) w' \<and> ready s w'"
proof -
  have n: "0 < wire_chunk_size w" and w: "writable s (wire_stream w)" using assms(1) by (simp_all add: ready_def)
  from produce_completes [OF n assms(2)] obtain cs where
      cs: "produce (wire_chunk_size w) es = (cs, Inr ())" "\<forall>b \<in> set cs. length b \<le> wire_chunk_size w"
    by blast
  with send_chunks_goes [OF w] msg obtain w' where
      "send_chunks s msg cs w = (w', Inr ())" "wire_sent w (map msg cs) w'" "writable s (wire_stream w')"
    by blast
  then show ?thesis using cs produce_result [OF n cs(1)] assms ready_sent by fastforce
qed

section \<open>The source\<close>

text \<open>The answer of a source: \<open>out\<close> is the file, or the delta for the signature \<open>sg\<close>.\<close>

definition answers :: "librsync \<Rightarrow> bool \<Rightarrow> (string + bytes) list \<Rightarrow> bytes list \<Rightarrow> bytes \<Rightarrow> bool" where
  "answers R update content sg a \<longleftrightarrow>
     (if update
      then \<exists>out. rs_delta R content (input_new (map ChunkData sg @ [ChunkEnd])) = Inr out \<and> read_result out = Inr a
      else read_result content = Inr a)"

definition request_messages :: "bool \<Rightarrow> bytes list \<Rightarrow> FileTransfer list" where
  "request_messages update sg = (if update then map Signature sg @ [SignatureEnd] else [])"

lemma answer_goes:
  assumes w: "ready s w" and ask: "wire_expects s w (request_messages update sg @ ms)"
    and a: "answers R update content sg a"
  shows "\<exists>cs w'. (if update then send_delta R s content w else Some (send_whole s content w)) = Some (w', Inr ()) \<and>
    concat cs = a \<and> wire_out w (map (if update then Delta else WholeFile) cs) w' \<and> wire_expects s w' ms \<and> ready s w'"
proof (cases update)
  case False
  note limits = w [unfolded ready_def, THEN conjunct2, THEN conjunct1]
  from produced_goes [OF w, of content a WholeFile] a False chunk_sendable(3) [OF limits]
  obtain cs w' where "produce (wire_chunk_size w) content = (cs, Inr ())" "concat cs = a"
      "send_chunks s WholeFile cs w = (w', Inr ())" "wire_sent w (map WholeFile cs) w'" "ready s w'"
    by (auto simp: answers_def)
  with False ask show ?thesis
    by (auto simp: send_whole_def request_messages_def wire_expects_sent intro: sent_out)
next
  case True
  have "wire_expects s w (map Signature sg @ SignatureEnd # ms)" using ask True by (simp add: request_messages_def)
  from collect_expects [where wrong = "''expected signature''" and acc = "[]" and step = signature_step, OF _ _ this]
  obtain w1 where 1: "collect s signature_step ''expected signature'' w [] = Some ((w1, sg), Inr ())"
      "wire_expects s w1 ms" "wire_read w w1" by auto
  have r1: "ready s w1" using w ready_read [OF 1(3)] by simp
  note limits = r1 [unfolded ready_def, THEN conjunct2, THEN conjunct1]
  from a True obtain out where out: "rs_delta R content (input_new (map ChunkData sg @ [ChunkEnd])) = Inr out"
      "read_result out = Inr a" by (auto simp: answers_def)
  from produced_goes [OF r1 out(2), of Delta] chunk_sendable(2) [OF limits]
  obtain cs w' where 2: "produce (wire_chunk_size w1) out = (cs, Inr ())" "concat cs = a"
      "send_chunks s Delta cs w1 = (w', Inr ())" "wire_sent w1 (map Delta cs) w'" "ready s w'"
    by blast
  have "send_delta R s content w = Some (w', Inr ())" using 1(1) 2 out(1) by (simp add: send_delta_def)
  moreover have "wire_out w (map Delta cs) w'"
    using wire_out_trans [OF read_out [OF 1(3)] sent_out [OF 2(4)]] by simp
  moreover have "wire_expects s w' ms" using wire_expects_sent [OF 2(4)] 1(2) by simp
  ultimately show ?thesis using True 2 by auto
qed

lemma serve_goes:
  assumes w: "ready s w"
    and ask: "wire_expects s w (request_of i p update # request_messages update sg @ [TransferAccepted i])"
    and opened: "open_regular P root p k = (k1, Inr (Some fd))" and a: "answers R update (read_to_end F k1 fd) sg a"
  shows "\<exists>cs w'. serve_request R P F s root w k = Some ((w', k1), Inr ()) \<and> concat cs = a \<and>
    wire_out w (map (if update then Delta else WholeFile) cs @ [TransferEnd]) w'"
proof -
  from wire_next_expects [OF ask] obtain w1 where 1: "wire_next s w = Some (w1, Inr (request_of i p update))"
      "wire_expects s w1 (request_messages update sg @ [TransferAccepted i])" "wire_read w w1"
    by blast
  have r1: "ready s w1" using w ready_read [OF 1(3)] by simp
  from answer_goes [OF r1 1(2) a] obtain cs w2 where 2: "concat cs = a"
      "(if update then send_delta R s (read_to_end F k1 fd) w1 else Some (send_whole s (read_to_end F k1 fd) w1)) = Some (w2, Inr ())"
      "wire_out w1 (map (if update then Delta else WholeFile) cs) w2" "wire_expects s w2 [TransferAccepted i]" "ready s w2"
    by blast
  note limits = 2(5) [unfolded ready_def, THEN conjunct2, THEN conjunct1]
  from mark_goes [OF 2(5) mark_sendable(2) [OF limits]] obtain w3 where
      3: "wire_send s w2 TransferEnd = (w3, Inr ())" "wire_sent w2 [TransferEnd] w3" "ready s w3"
    by blast
  from wire_finish_goes [OF conjunct1 [OF 3(3) [unfolded ready_def]]] obtain w4 where
      4: "wire_finish w3 = (w4, Inr ())" "wire_sent w3 [] w4"
    by blast
  have "wire_expects s w4 [TransferAccepted i]"
    using wire_expects_sent [OF 4(2)] wire_expects_sent [OF 3(2)] 2(4) by simp
  from wire_next_expects [OF this] obtain w' where 5: "wire_next s w4 = Some (w', Inr (TransferAccepted i))" "wire_read w4 w'"
    by blast
  have "finish_send s i w2 = Some (w', Inr ())" using 3(1) 4(1) 5(1) by (simp add: finish_send_def)
  then have "serve_request R P F s root w k = Some ((w', k1), Inr ())"
    unfolding serve_request_def
    using 1(1) 2(2) opened by (simp add: on_wire_def on_files_def request_of(1))
  moreover have "wire_out w (map (if update then Delta else WholeFile) cs @ [TransferEnd]) w'"
    using wire_out_trans [OF wire_out_trans [OF wire_out_trans [OF wire_out_trans [OF read_out [OF 1(3)] 2(3)]
          sent_out [OF 3(2)]] sent_out [OF 4(2)]] read_out [OF 5(2)]] by simp
  ultimately show ?thesis using 2(1) by blast
qed

section \<open>The destination\<close>

text \<open>The staging area takes \<open>c\<close>, in whatever pieces it comes.\<close>

definition area_takes :: "('s, 'fd) posix \<Rightarrow> 'fd StagingArea \<Rightarrow> bytes \<Rightarrow> 's \<Rightarrow> bytes \<Rightarrow> bool" where
  "area_takes P area rnd k c \<longleftrightarrow>
     (\<forall>chunks. concat chunks = c \<longrightarrow>
        (\<exists>k' f. staging_area_receive P area (Some rnd) (map Inr chunks) k = (k', Inr f)))"

lemma whole_goes:
  assumes "wire_expects s w (map WholeFile cs @ [TransferEnd])" and "area_takes P area rnd k (concat cs)"
  shows "\<exists>w' k' f. receive_whole P s area (Some rnd) w k = Some ((w', k'), Inr f) \<and> wire_read w w'"
proof -
  from collect_expects [where wrong = "''expected whole-file bytes''" and acc = "[]" and step = whole_step,
      OF _ _ assms(1)] obtain w' where
      c: "collect s whole_step ''expected whole-file bytes'' w [] = Some ((w', cs), Inr ())" "wire_read w w'"
    by auto
  obtain ds where ds: "reads_of COPY_BUFFER (input_new (map ChunkData cs @ [ChunkEnd])) = map Inr ds" "concat ds = concat cs"
    using reads_of_complete [OF _ input_complete_new, of COPY_BUFFER cs] by (auto simp: COPY_BUFFER_def)
  with assms(2) obtain k' f where "staging_area_receive P area (Some rnd) (map Inr ds) k = (k', Inr f)"
    unfolding area_takes_def by blast
  then show ?thesis using c ds by (simp add: receive_whole_def on_files_def)
qed

text \<open>
  The basis that an update starts from, its signature in chunks of \<open>n\<close> bytes, and what the patch
  makes of the delta \<open>a\<close>.
\<close>

definition updatable ::
    "librsync \<Rightarrow> ('s, 'fd) posix \<Rightarrow> ('s, 'fd) file_reads \<Rightarrow> 'fd StagingArea \<Rightarrow> bytes \<Rightarrow> RelativePath \<Rightarrow> 's \<Rightarrow>
     nat \<Rightarrow> bytes list \<Rightarrow> bytes \<Rightarrow> bytes \<Rightarrow> bool" where
  "updatable R P F area rnd p k n sg a content \<longleftrightarrow>
     (\<exists>k1 fd out. open_regular P (area_root area) p k = (k1, Inr (Some fd)) \<and> seek_start F k1 fd = Inr () \<and>
        rs_signature R (read_to_end F k1 fd) = Inr out \<and> produce n out = (sg, Inr ()) \<and>
        area_takes P area rnd k1 content \<and>
        (\<forall>i. input_complete i a \<longrightarrow>
           (\<exists>chunks. rs_patch R (read_to_end F k1 fd) i = Inr (map Inr chunks) \<and> concat chunks = content)))"

lemma signature_goes:
  assumes w: "ready s w" and out: "rs_signature R basis = Inr out" "produce (wire_chunk_size w) out = (sg, Inr ())"
  shows "\<exists>w'. send_signature R s basis (Inr ()) w = (w', Inr ()) \<and> ready s w' \<and>
    wire_sent w (map Signature sg @ [SignatureEnd]) w'"
proof -
  note limits = w [unfolded ready_def, THEN conjunct2, THEN conjunct1]
  have n: "0 < wire_chunk_size w" using w by (simp add: ready_def)
  from produced_goes [OF w produce_result [OF n out(2)], of Signature] chunk_sendable(1) [OF limits] out(2)
  obtain w1 where 1: "send_chunks s Signature sg w = (w1, Inr ())" "wire_sent w (map Signature sg) w1" "ready s w1"
    by auto
  note limits1 = 1(3) [unfolded ready_def, THEN conjunct2, THEN conjunct1]
  from mark_goes [OF 1(3) mark_sendable(1) [OF limits1]] obtain w' where
      2: "wire_send s w1 SignatureEnd = (w', Inr ())" "wire_sent w1 [SignatureEnd] w'" "ready s w'"
    by blast
  from wire_sent_trans [OF 1(2) 2(2)] 1(1) 2 out show ?thesis by (simp add: send_signature_def)
qed

lemma update_goes:
  assumes w: "ready s w" and u: "updatable R P F area rnd p k (wire_chunk_size w) sg (concat cs) content"
    and cs: "wire_expects s w (map Delta cs @ [TransferEnd])"
  shows "\<exists>w' k' f. receive_update R P F s area (Some rnd) p w k = Some ((w', k'), Inr f) \<and>
    ready s w' \<and> wire_out w (request_messages True sg) w'"
proof -
  from u obtain k1 fd out where b: "open_regular P (area_root area) p k = (k1, Inr (Some fd))"
      "seek_start F k1 fd = Inr ()" "rs_signature R (read_to_end F k1 fd) = Inr out"
      "produce (wire_chunk_size w) out = (sg, Inr ())" "area_takes P area rnd k1 content"
    and patch: "\<forall>i. input_complete i (concat cs) \<longrightarrow>
      (\<exists>chunks. rs_patch R (read_to_end F k1 fd) i = Inr (map Inr chunks) \<and> concat chunks = content)"
    unfolding updatable_def by (elim exE conjE)
  from signature_goes [OF w b(3,4)] obtain w1 where 1: "ready s w1"
      "send_signature R s (read_to_end F k1 fd) (Inr ()) w = (w1, Inr ())" "wire_sent w (map Signature sg @ [SignatureEnd]) w1"
    by blast
  have "wire_expects s w1 (map Delta cs @ [TransferEnd])" using wire_expects_sent [OF 1(3)] cs by simp
  from collect_expects [where wrong = "''expected delta''" and acc = "[]" and step = delta_step, OF _ _ this]
  obtain w' where 2: "collect s delta_step ''expected delta'' w1 [] = Some ((w', cs), Inr ())" "wire_read w1 w'"
    by auto
  from patch input_complete_new obtain chunks where
      3: "rs_patch R (read_to_end F k1 fd) (input_new (map ChunkData cs @ [ChunkEnd])) = Inr (map Inr chunks)" "concat chunks = content"
    by blast
  with b(5) obtain k' f where 4: "staging_area_receive P area (Some rnd) (map Inr chunks) k1 = (k', Inr f)"
    unfolding area_takes_def by blast
  have "receive_update R P F s area (Some rnd) p w k = Some ((w', k'), Inr f)"
    unfolding receive_update_def open_basis_def b(1) using b(2) 1(2) 2(1) 3(1) 4
    by (simp add: on_files_def on_wire_def patch_into_def ok_or_def)
  moreover have "wire_out w (request_messages True sg) w'"
    using wire_out_trans [OF sent_out [OF 1(3)] read_out [OF 2(2)]] by (simp add: request_messages_def)
  ultimately show ?thesis using 1(1) ready_read [OF 2(2)] by blast
qed

text \<open>What the destination needs: a basis to update, or a place for a new file.\<close>

definition receivable ::
    "librsync \<Rightarrow> ('s, 'fd) posix \<Rightarrow> ('s, 'fd) file_reads \<Rightarrow> 'fd StagingArea \<Rightarrow> bytes \<Rightarrow> RelativePath \<Rightarrow> bool \<Rightarrow> 's \<Rightarrow>
     nat \<Rightarrow> bytes list \<Rightarrow> bytes \<Rightarrow> bytes \<Rightarrow> bool" where
  "receivable R P F area rnd p update k n sg a content \<longleftrightarrow>
     (if update then updatable R P F area rnd p k n sg a content else a = content \<and> area_takes P area rnd k content)"

lemma receive_goes:
  assumes new: "wire_new x l = Inr w" and w: "ready s w" and req: "sendable s (wire_limits w) (request_of i p update)"
    and r: "receivable R P F area rnd p update k (wire_chunk_size w) sg (concat cs) content"
    and cs: "wire_expects s w (map (if update then Delta else WholeFile) cs @ [TransferEnd])"
  shows "\<exists>w' k' rf. receive_file R P F s area (Some rnd) i p update l x k = Some ((wire_stream w', k'), Inr rf) \<and>
    wire_out w (request_of i p update # request_messages update sg @ [TransferAccepted i]) w'"
proof -
  from mark_goes [OF w req] obtain w1 where 1: "wire_send s w (request_of i p update) = (w1, Inr ())"
      "wire_sent w [request_of i p update] w1" "ready s w1"
    by blast
  have cs1: "wire_expects s w1 (map (if update then Delta else WholeFile) cs @ [TransferEnd])"
    and n: "wire_chunk_size w1 = wire_chunk_size w"
    using wire_expects_sent [OF 1(2)] cs 1(2) by (simp_all add: wire_sent_def)
  have "\<exists>w2 k2 f. (if update then receive_update R P F s area (Some rnd) p w1 k
      else receive_whole P s area (Some rnd) w1 k) = Some ((w2, k2), Inr f) \<and> ready s w2 \<and>
      wire_out w1 (request_messages update sg) w2"
  proof (cases update)
    case True
    with update_goes [OF 1(3), of R P F area rnd p k sg cs content] r cs1 n show ?thesis
      by (simp add: receivable_def)
  next
    case False
    with whole_goes [of s w1 cs P area rnd k] r cs1 obtain w2 k2 f where
        "receive_whole P s area (Some rnd) w1 k = Some ((w2, k2), Inr f)" "wire_read w1 w2"
      by (auto simp: receivable_def)
    with False 1(3) ready_read read_out show ?thesis by (fastforce simp: request_messages_def)
  qed
  then obtain w2 k2 f where 2: "(if update then receive_update R P F s area (Some rnd) p w1 k
      else receive_whole P s area (Some rnd) w1 k) = Some ((w2, k2), Inr f)" "ready s w2"
      "wire_out w1 (request_messages update sg) w2"
    by blast
  note limits = 2(2) [unfolded ready_def, THEN conjunct2, THEN conjunct1]
  from mark_goes [OF 2(2) mark_sendable(3) [OF limits]] obtain w3 where
      3: "wire_send s w2 (TransferAccepted i) = (w3, Inr ())" "wire_sent w2 [TransferAccepted i] w3" "ready s w3"
    by blast
  from wire_finish_goes [OF conjunct1 [OF 3(3) [unfolded ready_def]]] obtain w' where
      4: "wire_finish w3 = (w', Inr ())" "wire_sent w3 [] w'"
    by blast
  have "receive_file R P F s area (Some rnd) i p update l x k =
      Some ((wire_stream w', k2), Inr \<lparr>received_id = i, received_path = p, received_file = f\<rparr>)"
    unfolding receive_file_def new using 1(1) 2(1) 3(1) 4(1)
    by (simp add: on_wire_def acknowledge_def request_of_def)
  moreover have "wire_out w (request_of i p update # request_messages update sg @ [TransferAccepted i]) w'"
    using wire_out_trans [OF wire_out_trans [OF wire_out_trans [OF sent_out [OF 1(2)] 2(3)] sent_out [OF 3(2)]] sent_out [OF 4(2)]]
    by simp
  ultimately show ?thesis by blast
qed

section \<open>Both ends\<close>

text \<open>A fresh end of a transfer: nothing written yet, and the session follows the limits of the wire.\<close>

definition fresh_end :: "Limits \<Rightarrow> Session \<Rightarrow> TransferStream \<Rightarrow> bool" where
  "fresh_end l s x \<longleftrightarrow> session_bounds s = from_limits l \<and> writable s x \<and> written (xfer_send x) = []"

definition chunk_size_of :: "Limits \<Rightarrow> nat" where
  "chunk_size_of l = min (unat (max_frame_bytes l) - 32) (64 * 1024)"

lemma fresh_wire:
  assumes "32 < unat (max_frame_bytes l)" and "fresh_end l s x"
  obtains w where "wire_new x l = Inr w" "ready s w" "wire_chunk_size w = chunk_size_of l"
    "wire_stream w = x" "wire_limits w = codec_limits_from l"
proof -
  let ?w = "\<lparr>wire_stream = x, wire_limits = codec_limits_from l,
       wire_messages = \<lparr>msg_decoder = decoder_new (codec_limits_from l), msg_pending = [],
         msg_buffer_len = chunk_size_of l\<rparr>,
       wire_chunk_size = chunk_size_of l\<rparr>"
  have "wire_new x l = Inr ?w"
    using assms(1) by (simp add: wire_new_def Let_def chunk_size_of_def)
  moreover have "ready s ?w"
    using assms by (simp add: ready_def fresh_end_def same_limits_def from_limits_def codec_limits_from_def chunk_size_of_def)
  ultimately show ?thesis using that by fastforce
qed

definition destination_messages :: "OperationId \<Rightarrow> RelativePath \<Rightarrow> bool \<Rightarrow> bytes list \<Rightarrow> FileTransfer list" where
  "destination_messages i p update sg = request_of i p update # request_messages update sg @ [TransferAccepted i]"

lemma destination_messages_ok: "path_ok p \<Longrightarrow> \<forall>m \<in> set (destination_messages i p update sg). transfer_ok m"
  by (auto simp: destination_messages_def request_messages_def request_of_def)

lemma transfer_goes:
  assumes l: "32 < unat (max_frame_bytes l)" and ends: "fresh_end l s1 x1" "fresh_end l s2 x2" and p: "path_ok p"
    and req: "sendable s2 (codec_limits_from l) (request_of i p update)"
    and source: "open_regular Ps root p ks = (k1, Inr (Some fd))" "answers R update (read_to_end Fs k1 fd) sg a"
    and destination: "receivable R P F area rnd p update k (chunk_size_of l) sg a content"
    and b: "sent_as transfer_wire (codec_limits_from l) (destination_messages i p update sg) b"
      "half_delivers s1 (xfer_recv x1, xfer_finished x1) b"
  shows "\<exists>x1'. send_file R Ps Fs s1 root l x1 ks = Some ((x1', k1), Inr ()) \<and>
    (half_delivers s2 (xfer_recv x2, xfer_finished x2) (written (xfer_send x1')) \<longrightarrow>
      (\<exists>x2' k' rf. receive_file R P F s2 area (Some rnd) i p update l x2 k = Some ((x2', k'), Inr rf) \<and>
        connected s1 x1 s2 x2 x1' x2'))"
proof -
  obtain w1 where w1: "wire_new x1 l = Inr w1" "ready s1 w1" by (rule fresh_wire [OF l ends(1)])
  obtain w2 where w2: "wire_new x2 l = Inr w2" "ready s2 w2" "wire_chunk_size w2 = chunk_size_of l"
      "wire_limits w2 = codec_limits_from l"
    by (rule fresh_wire [OF l ends(2)])
  have fresh: "written (xfer_send x1) = []" "written (xfer_send x2) = []" using ends by (simp_all add: fresh_end_def)
  have "wire_expects s1 w1 (request_of i p update # request_messages update sg @ [TransferAccepted i])"
    using wire_new_expects [OF w1(1) b(1) destination_messages_ok [OF p] b(2)] by (simp add: destination_messages_def)
  from serve_goes [OF w1(2) this source] obtain cs w1' where
      1: "serve_request R Ps Fs s1 root w1 ks = Some ((w1', k1), Inr ())" "concat cs = a"
      "wire_out w1 (map (if update then Delta else WholeFile) cs @ [TransferEnd]) w1'"
    by blast
  have run1: "send_file R Ps Fs s1 root l x1 ks = Some ((wire_stream w1', k1), Inr ())"
    using w1(1) 1(1) by (simp add: send_file_def)
  have "\<exists>x2' k' rf. receive_file R P F s2 area (Some rnd) i p update l x2 k = Some ((x2', k'), Inr rf) \<and>
      connected s1 x1 s2 x2 (wire_stream w1') x2'"
    if to2: "half_delivers s2 (xfer_recv x2, xfer_finished x2) (written (xfer_send (wire_stream w1')))"
  proof -
    have "wire_expects s2 w2 (map (if update then Delta else WholeFile) cs @ [TransferEnd])"
      using wire_new_expects [OF w2(1) fresh_out [OF w1(1) fresh(1) 1(3)] _ to2] by (auto split: if_splits)
    from receive_goes [OF w2(1,2) _ _ this, of i p R P F area rnd k sg content] req destination 1(2) w2(3,4)
    obtain w2' k' rf where
        2: "receive_file R P F s2 area (Some rnd) i p update l x2 k = Some ((wire_stream w2', k'), Inr rf)"
        "wire_out w2 (destination_messages i p update sg) w2'"
      by (auto simp: destination_messages_def)
    have "written (xfer_send (wire_stream w2')) = b"
      using sent_as_unique [OF fresh_out [OF w2(1) fresh(2) 2(2)] b(1)] .
    with b(2) to2 fresh have "connected s1 x1 s2 x2 (wire_stream w1') (wire_stream w2')"
      by (simp add: connected_def)
    with 2(1) show ?thesis by blast
  qed
  with run1 show ?thesis by blast
qed


section \<open>A transfer on the sample system\<close>

definition kernel_reads :: "(kernel, nat) file_reads" where
  "kernel_reads = \<lparr>
     read_to_end = (\<lambda>k fd. case kernel_at k fd of
         None \<Rightarrow> [Inl ''bad descriptor'']
       | Some q \<Rightarrow> (case kernel_tree k q of Some (File m t c) \<Rightarrow> [Inr c] | _ \<Rightarrow> [Inl ''not a file''])),
     seek_start = (\<lambda>k fd. Inr ())\<rparr>"

text \<open>The signature says nothing, and the delta is the file itself.\<close>

definition sample_rsync :: librsync where
  "sample_rsync = \<lparr>rs_signature = (\<lambda>basis. Inr []), rs_delta = (\<lambda>content i. Inr content),
     rs_patch = (\<lambda>basis j. Inr (reads_of COPY_BUFFER j))\<rparr>"

lemma sample_rsync_ok: "rsync_ok sample_rsync"
  using reads_of_complete [of COPY_BUFFER]
  by (fastforce simp: rsync_ok_def sample_rsync_def COPY_BUFFER_def)

definition sample_session :: Session where
  "sample_session = session_new (from_limits DEFAULT_LIMITS) False"

definition sample_stream :: "bytes list \<Rightarrow> TransferStream" where
  "sample_stream cs =
     transfer_stream_new \<lparr>written = [], write_outcomes = [], send_finished = False\<rparr> (map Data cs @ [Fin])"

definition sample_area :: "nat StagingArea" where
  "sample_area = \<lparr>area_root = 0, area_directory = 1\<rparr>"

lemma kernel_copies:
  "kernel_at k fd = Some q \<Longrightarrow> \<exists>k'. copy_all kernel_posix (map Inr cs) fd k = (k', Inr ())"
proof (induction cs arbitrary: k)
  case (Cons c cs)
  then show ?case
    using kernel_at_cong [of "set_node q _ k" k]
    by (simp add: kernel_posix_def k_change_def with_fd_def map_step_err_def)
qed simp

lemma kernel_takes:
  assumes at: "kernel_at k (area_directory area) = Some staging" and none: "kernel_tree k (staging @ [staged_file_name rnd]) = None"
  shows "area_takes kernel_posix area rnd k c"
proof -
  let ?open = "openat kernel_posix (area_directory area) (staged_file_name rnd) [WRONLY, CREATE, EXCL, NOFOLLOW, CLOEXEC] 384 k"
  obtain k1 fd where run: "?open = (k1, Inr fd)"
    using at none by (simp add: kernel_posix_def k_openat_def with_fd_def new_fd_def Let_def)
  then obtain q where q: "kernel_at k1 fd = Some q" using kern.create_law [OF at _ _ _ run] hex_name_ok [of rnd] by auto
  have "\<exists>k' f. staging_area_receive kernel_posix area (Some rnd) (map Inr cs) k = (k', Inr f)" for cs
    using run kernel_copies [OF q, of cs]
    by (auto simp: staging_area_receive_def receive_in_def map_step_err_def Let_def)
  then show ?thesis by (simp add: area_takes_def)
qed

lemma sample_takes: "area_takes kernel_posix sample_area [7] sample_kernel c"
proof (rule kernel_takes)
  show "kernel_at sample_kernel (area_directory sample_area) = Some staging" by code_simp
  show "kernel_tree sample_kernel (staging @ [staged_file_name [7]]) = None" by code_simp
qed

definition sample_request_bytes :: bytes where
  "sample_request_bytes = [14, 7, 1, 0, 7, 0, 0, 0, 0, 0, 0, 0, 1, 1, 97]"

definition sample_accept_bytes :: bytes where
  "sample_accept_bytes = [11, 6, 1, 0, 7, 0, 0, 0, 0, 0, 0, 0]"

abbreviation (input) default_codec :: CodecLimits where
  "default_codec \<equiv> codec_limits_from DEFAULT_LIMITS"

lemma sample_transfer_frames:
  "encode transfer_wire (CreateRequest (OperationId 7) (RelativePath [[97]])) default_codec = Inr sample_request_bytes"
  "encode transfer_wire (TransferAccepted (OperationId 7)) default_codec = Inr sample_accept_bytes"
  by (simp_all add: transfer.encode_eq payload_of_def frame_of_def layout_simps DEFAULT_LIMITS_def codec_limits_from_def
     sample_request_bytes_def sample_accept_bytes_def)

text \<open>
  The source answers a request for its file \<open>a\<close>, which the destination stages in its own system.
\<close>

abbreviation (input) sample_source_stream :: TransferStream where
  "sample_source_stream \<equiv> sample_stream [sample_request_bytes, sample_accept_bytes]"

lemma sample_fresh: "fresh_end DEFAULT_LIMITS sample_session (sample_stream cs)"
  by (simp add: fresh_end_def writable_def sample_session_def sample_stream_def session_new_def session_new_early_def
      transfer_stream_new_def)

lemma sample_delivers: "bs = concat cs \<Longrightarrow> half_delivers sample_session (xfer_recv (sample_stream cs), xfer_finished (sample_stream cs)) bs"
  using events_deliver_chunks [of cs]
  by (simp add: half_delivers_def sample_session_def sample_stream_def session_new_def session_new_early_def
      transfer_stream_new_def from_limits_def DEFAULT_LIMITS_def)

lemma sample_request_ok: "path_ok (RelativePath [[97]])"
  by (simp add: path_ok_def component_ok_def)

lemma sample_request_sendable:
  "sendable sample_session default_codec (request_of (OperationId 7) (RelativePath [[97]]) False)"
  using sample_transfer_frames(1)
  by (simp add: sendable_def request_of_def sample_session_def session_new_def session_new_early_def from_limits_def
      DEFAULT_LIMITS_def sample_request_bytes_def)

lemma sample_requested:
  "sent_as transfer_wire default_codec (destination_messages (OperationId 7) (RelativePath [[97]]) False [])
     (concat [sample_request_bytes, sample_accept_bytes])"
  unfolding sent_as_def using sample_transfer_frames(1,2)
  by (intro exI [of _ "[sample_request_bytes, sample_accept_bytes]"])
    (simp add: destination_messages_def request_messages_def request_of_def)

lemma sample_opened:
  obtains k1 fd where "open_regular kernel_posix 0 (RelativePath [[97]]) sample_kernel = (k1, Inr (Some fd))"
    "read_to_end kernel_reads k1 fd = [Inr [1]]"
proof -
  let ?run = "open_regular kernel_posix 0 (RelativePath [[97]]) sample_kernel"
  have "case ?run of (k1, Inr (Some fd)) \<Rightarrow> read_to_end kernel_reads k1 fd = [Inr [1]] | _ \<Rightarrow> False" by code_simp
  then show ?thesis using that by (auto split: prod.splits sum.splits option.splits)
qed

lemma sample_receivable:
  "receivable sample_rsync kernel_posix kernel_reads sample_area [7] p False sample_kernel n [] [1] [1]"
  by (simp add: receivable_def sample_takes)

lemma sample_frame_limit: "32 < unat (max_frame_bytes DEFAULT_LIMITS)"
  by (simp add: DEFAULT_LIMITS_def)


theorem transfer_delivers_witness:
  "\<exists>x1' k1 x2' k' rf.
     send_file sample_rsync kernel_posix kernel_reads sample_session 0 DEFAULT_LIMITS sample_source_stream sample_kernel =
       Some ((x1', k1), Inr ()) \<and>
     receive_file sample_rsync kernel_posix kernel_reads sample_session sample_area (Some [7]) (OperationId 7)
       (RelativePath [[97]]) False DEFAULT_LIMITS (sample_stream [written (xfer_send x1')]) sample_kernel =
       Some ((x2', k'), Inr rf) \<and> waits kernel_tree kernel_at k' (received_file rf) [1]"
proof -
  obtain k1 fd where o: "open_regular kernel_posix 0 (RelativePath [[97]]) sample_kernel = (k1, Inr (Some fd))"
    "read_to_end kernel_reads k1 fd = [Inr [1]]" by (rule sample_opened)
  have a: "answers sample_rsync False (read_to_end kernel_reads k1 fd) [] [1]" using o(2) by (simp add: answers_def)
  note go = transfer_goes [OF sample_frame_limit sample_fresh sample_fresh sample_request_ok
      sample_request_sendable o(1) a sample_receivable sample_requested sample_delivers [OF refl]]
  from go obtain x1' where s: "send_file sample_rsync kernel_posix kernel_reads sample_session 0 DEFAULT_LIMITS
      sample_source_stream sample_kernel = Some ((x1', k1), Inr ())" by blast
  with go [of "[written (xfer_send x1')]"] sample_delivers [of "written (xfer_send x1')"]
  obtain x2' k' rf where d: "receive_file sample_rsync kernel_posix kernel_reads sample_session sample_area (Some [7]) (OperationId 7)
       (RelativePath [[97]]) False DEFAULT_LIMITS (sample_stream [written (xfer_send x1')]) sample_kernel =
       Some ((x2', k'), Inr rf)"
    "connected sample_session sample_source_stream sample_session (sample_stream [written (xfer_send x1')]) x1' x2'"
    by auto
  have area: "kernel_at sample_kernel (area_root sample_area) = Some []"
    "kernel_at sample_kernel (area_directory sample_area) = Some staging"
    by (simp_all add: sample_area_def sample_kernel_def kernel_at_def)
  have "read_result (read_to_end kernel_reads ka fda) = Inr [1]"
    if "open_regular kernel_posix 0 (RelativePath [[97]]) sample_kernel = (ka, Inr (Some fda))" for ka fda
    using that o by simp
  from transfer_delivers [OF kern.posix_fs_axioms area sample_rsync_ok sample_request_ok s d this]
  have "waits kernel_tree kernel_at k' (received_file rf) [1]" by blast
  with s d(1) show ?thesis by blast
qed

end
