(* ===== verification/Sessions.thy ===== *)
theory Sessions
  imports Progress
begin

text \<open>
  One synchronisation from beginning to end: \<open>crates/quicsync-core/src/sync/source.rs\<close> and
  \<open>sync/destination.rs\<close>. The tasks of a side are joined by channels with one writer and one reader,
  so a task is a function of what its channels carry. What the scheduler decides is an argument: the
  order in which the source's loop sees messages, streams and finished jobs, the order in which the
  destination's jobs finish, and how many operations its requesting task takes. A file transfer takes
  effect when its job is joined; each works on a staged file of its own name. Where several tasks
  fail, the error of the first of them in the order of the join is reported. A panic is \<open>None\<close>.
\<close>

section \<open>Root handles\<close>

text \<open>\<open>rustix::fs::open\<close> of a path with the flags of a directory.\<close>

type_synonym ('s, 'fd) open_path = "bytes \<Rightarrow> OFlag list \<Rightarrow> 's \<Rightarrow> 's \<times> (string + 'fd)"

definition root_handle_open :: "('s, 'fd) open_path \<Rightarrow> bytes \<Rightarrow> 's \<Rightarrow> 's \<times> (QuicSyncError + 'fd)" where
  "root_handle_open opn p k =
     map_step_err (\<lambda>e. quic_sync_error_new InvalidConfiguration None
         (''cannot open root '' @ quoted_path p @ '': '' @ e)) (opn p DIRECTORY_FLAGS k)"

definition root_handle_from_validated ::
    "('s, 'fd) open_path \<Rightarrow> 'd ValidatedRoot \<Rightarrow> 's \<Rightarrow> 's \<times> (QuicSyncError + 'fd)" where
  "root_handle_from_validated opn r k = root_handle_open opn (root_path r) k"

section \<open>The index stream\<close>

text \<open>The source's \<open>indexing\<close> task, from the channel that the scanner fills.\<close>

fun send_index :: "Session \<Rightarrow> Limits \<Rightarrow> index_channel \<Rightarrow> SendStream \<Rightarrow> SendStream \<times> (QuicSyncError + unit)" where
  "send_index s l [] st = (st, Inl (wire_failure ''source index closed without End''))"
| "send_index s l (Inl e # ms) st = (st, Inl e)"
| "send_index s l (Inr m # ms) st =
     and_do (st, wire_encode index_wire m l) (\<lambda>st bs.
     and_do (index_send s st bs) (\<lambda>st _.
       if m = End then index_finish st else send_index s l ms st))"

text \<open>The destination's \<open>indexing\<close> task: what it puts into the planner's channel and how it ends.\<close>

definition index_weight :: "(ConnectionError + RecvStream) waiting \<Rightarrow> IndexReader \<Rightarrow> nat" where
  "index_weight accept_uni x =
     (case idx_stream x of
        Some rs \<Rightarrow> recv_weight rs
      | None \<Rightarrow> (case accept_uni of Ready (Inr rs) \<Rightarrow> recv_weight rs | _ \<Rightarrow> 0))"

function receive_index ::
    "Session \<Rightarrow> (ConnectionError + RecvStream) waiting \<Rightarrow> IndexMessage Messages \<Rightarrow> IndexReader \<Rightarrow> index_channel \<Rightarrow>
     ((IndexReader \<times> index_channel) \<times> (QuicSyncError + unit)) option" where
  "receive_index s accept_uni m x out =
     (case messages_next index_wire (index_receive s accept_uni) (index_weight accept_uni) m x of
        None \<Rightarrow> None
      | Some ((m, x), Inl e) \<Rightarrow> Some ((x, out), Inl e)
      | Some ((m, x), Inr rec) \<Rightarrow>
          if rec = End then Some ((x, out @ [Inr rec]), Inr ())
          else receive_index s accept_uni m x (out @ [Inr rec]))"
  by pat_completeness auto
termination
  by (relation "measures [\<lambda>(s, a, m, x, out). index_weight a x, \<lambda>(s, a, m, x, out). length (msg_pending m)]")
    (auto simp: messages_next_def dest!: next_message_decreases)

declare receive_index.simps [simp del]

section \<open>The source\<close>

text \<open>
  The \<open>serving\<close> loop. An event is what the \<open>select\<close> sees next: the next control message, a transfer
  stream that was accepted (with the close reason and the outcome of accepting it), or a finished job
  and the state of the filesystem it ran in.
\<close>

datatype 's serve_event =
    ControlReady
  | StreamReady "ConnectionError option" "(ConnectionError + SendStream \<times> RecvStream) waiting"
  | JobReady nat 's

record serving =
  sv_session :: Session
  sv_control :: ControlChannel
  sv_messages :: "Control Messages"
  sv_jobs :: "TransferStream list"
  sv_accepted :: bool
  sv_planned :: bool

definition source_job ::
    "librsync \<Rightarrow> ('s, 'fd) posix \<Rightarrow> ('s, 'fd) file_reads \<Rightarrow> 'fd \<Rightarrow> Limits \<Rightarrow> Session \<Rightarrow> TransferStream \<Rightarrow> 's \<Rightarrow>
     QuicSyncError + unit" where
  "source_job R P F root l s x k =
     (case send_file R P F s root l x k of
        None \<Rightarrow> Inl (wire_failure ''task panicked'')
      | Some (_, r) \<Rightarrow> r)"

definition remove_nth :: "nat \<Rightarrow> 'a list \<Rightarrow> 'a list" where
  "remove_nth i xs = take i xs @ drop (Suc i) xs"

text \<open>A control message: the flags after it, and whether the loop ends.\<close>

fun serve_control :: "Control \<Rightarrow> serving \<Rightarrow> QuicSyncError + (serving \<times> bool)" where
  "serve_control m st =
     (if m = StartAccepted \<and> \<not> sv_accepted st then Inr (st\<lparr>sv_accepted := True\<rparr>, False)
      else if m = PlanEnd \<and> sv_accepted st \<and> \<not> sv_planned st then Inr (st\<lparr>sv_planned := True\<rparr>, False)
      else if m = CompleteAck \<and> sv_planned st then Inr (st, True)
      else Inl (wire_failure ''unexpected destination control message''))"

declare serve_control.simps [simp del]

text \<open>
  One turn of the loop: the result is whether it ends. \<open>None\<close>: the branch is disabled, so the
  \<open>select\<close> cannot take it, or a panic.
\<close>

definition serve_turn ::
    "librsync \<Rightarrow> ('s, 'fd) posix \<Rightarrow> ('s, 'fd) file_reads \<Rightarrow> 'fd \<Rightarrow> Limits \<Rightarrow> 's serve_event \<Rightarrow> serving \<Rightarrow>
     (serving \<times> (QuicSyncError + bool)) option" where
  "serve_turn R P F root l ev st =
     (case ev of
        ControlReady \<Rightarrow>
          map_option (\<lambda>((m, c), r).
              let st = st\<lparr>sv_messages := m, sv_control := c\<rparr> in
              case and_then r (\<lambda>m. serve_control m st) of
                Inl e \<Rightarrow> (st, Inl e)
              | Inr (st, fin) \<Rightarrow> (st, Inr fin))
            (messages_next control_wire (control_receive (sv_session st)) (\<lambda>c. recv_weight (ctl_recv c))
              (sv_messages st) (sv_control st))
      | StreamReady r w \<Rightarrow>
          if \<not> length (sv_jobs st) < unat (max_parallel_transfers l) then None
          else Some (case transfer_accept (sv_session st) r w of
              (s, Inl e) \<Rightarrow> (st\<lparr>sv_session := s\<rparr>, Inl e)
            | (s, Inr None) \<Rightarrow> (st\<lparr>sv_session := s\<rparr>, Inl (wire_failure ''connection closed before completion''))
            | (s, Inr (Some x)) \<Rightarrow> (st\<lparr>sv_session := s, sv_jobs := sv_jobs st @ [x]\<rparr>, Inr False))
      | JobReady i k \<Rightarrow>
          if \<not> i < length (sv_jobs st) then None
          else Some (st\<lparr>sv_jobs := remove_nth i (sv_jobs st), sv_session := drop_permit (sv_session st)\<rparr>,
            map_ok (\<lambda>_. False) (source_job R P F root l (sv_session st) (sv_jobs st ! i) k)))"

text \<open>
  After the acknowledgment the remaining jobs are joined. \<open>None\<close> also for a schedule that ends before
  the loop does or goes on after it.
\<close>

fun serve_drain ::
    "librsync \<Rightarrow> ('s, 'fd) posix \<Rightarrow> ('s, 'fd) file_reads \<Rightarrow> 'fd \<Rightarrow> Limits \<Rightarrow> 's serve_event list \<Rightarrow> serving \<Rightarrow>
     (serving \<times> (QuicSyncError + unit)) option" where
  "serve_drain R P F root l [] st =
     (if sv_jobs st \<noteq> [] then None
      else case control_close (record_completion_ack (sv_control st)) of
          (c, done_with) \<Rightarrow> Some (st\<lparr>sv_control := c\<rparr>, into_result done_with))"
| "serve_drain R P F root l (JobReady i k # evs) st =
     and_run (serve_turn R P F root l (JobReady i k) st) (\<lambda>st _. serve_drain R P F root l evs st)"
| "serve_drain R P F root l (_ # evs) st = None"

fun serve_loop ::
    "librsync \<Rightarrow> ('s, 'fd) posix \<Rightarrow> ('s, 'fd) file_reads \<Rightarrow> 'fd \<Rightarrow> Limits \<Rightarrow> 's serve_event list \<Rightarrow> serving \<Rightarrow>
     (serving \<times> (QuicSyncError + unit)) option" where
  "serve_loop R P F root l [] st = None"
| "serve_loop R P F root l (ev # evs) st =
     and_run (serve_turn R P F root l ev st) (\<lambda>st fin.
       if fin then serve_drain R P F root l evs st else serve_loop R P F root l evs st)"

definition serving_new :: "Session \<Rightarrow> ControlChannel \<Rightarrow> Limits \<Rightarrow> serving" where
  "serving_new s c l =
     \<lparr>sv_session = s, sv_control = c, sv_messages = messages_new l, sv_jobs = [], sv_accepted = False,
      sv_planned = False\<rparr>"

text \<open>
  What the library and the scheduler decide of a run at the source: the outcomes of opening the two
  streams, of the two waits for the handshake, how many messages the index task takes from the
  scanner, and the events of the serving loop.
\<close>

record 's source_world =
  sw_open_bi :: "(ConnectionError + SendStream \<times> RecvStream) waiting"
  sw_open_uni :: "(ConnectionError + SendStream) waiting"
  sw_handshakes :: "ConnectionError option waiting \<times> ConnectionError option waiting"
  sw_accepting :: "nat option"
  sw_events :: "'s serve_event list"

text \<open>
  The three tasks that \<open>try_join\<close> waits for. A failed index or scan ends the session wherever the
  serving loop is; otherwise the loop has to come to its end. The session, the control channel and
  the index stream as they are then.
\<close>

definition source_join ::
    "(QuicSyncError + unit) \<Rightarrow> (QuicSyncError + unit) \<Rightarrow> Session \<times> ControlChannel \<Rightarrow> (serving \<times> (QuicSyncError + unit)) option \<Rightarrow>
     ((Session \<times> ControlChannel) \<times> (QuicSyncError + unit)) option" where
  "source_join scanning indexing start serving =
     (case and_then scanning (\<lambda>_. indexing) of
        Inl e \<Rightarrow> Some (start, Inl e)
      | Inr _ \<Rightarrow> map_option (\<lambda>(st, r). ((sv_session st, sv_control st), r)) serving)"

definition source_run_inner ::
    "librsync \<Rightarrow> ('b, 'm) gitignore \<Rightarrow> (bytes \<Rightarrow> bytes) \<Rightarrow> ('s, 'fd) posix \<Rightarrow> ('s, 'fd) open_path \<Rightarrow>
     ('s, 'fd) file_reads \<Rightarrow> fs_view \<Rightarrow> ('d, 'addr) SourceConfig \<Rightarrow> 's source_world \<Rightarrow> Session \<Rightarrow> 's \<Rightarrow>
     ((Session \<times> ControlChannel option \<times> SendStream option) \<times> (QuicSyncError + unit)) option" where
  "source_run_inner R G blake3 P opn F V config W s k =
     (let l = source_limits config in
      case open_session s (sw_open_bi W) (sw_open_uni W) of
        Inl e \<Rightarrow> Some ((s, None, None), Inl e)
      | Inr streams \<Rightarrow>
          let idx = src_index streams in
          (case and_do (src_control streams, wire_encode control_wire (StartSync (root_id_str (source_root_id config))) l)
               (control_send s) of
             (c, Inl e) \<Rightarrow> Some ((s, Some c, Some idx), Inl e)
           | (c, Inr _) \<Rightarrow>
               (case root_handle_from_validated opn (source_root config) k of
                  (k, Inl e) \<Rightarrow> Some ((s, Some c, Some idx), Inl e)
                | (k, Inr root) \<Rightarrow>
                    let (ch, scanning) = scan_root G blake3 V (source_global_exclusions config) l (sw_accepting W);
                        (s, gate) = confirm_handshake s (fst (sw_handshakes W));
                        (idx, indexing) = and_do (idx, gate) (\<lambda>idx _. send_index s l ch idx);
                        (s, gate) = confirm_handshake s (snd (sw_handshakes W))
                    in map_option (\<lambda>((s, c), r). ((s, Some c, Some idx), r))
                      (source_join scanning indexing (s, c)
                        (case gate of
                           Inl e \<Rightarrow> Some (serving_new s c l, Inl e)
                         | Inr _ \<Rightarrow> serve_loop R P F root l (sw_events W) (serving_new s c l))))))"

definition source_run ::
    "librsync \<Rightarrow> ('b, 'm) gitignore \<Rightarrow> (bytes \<Rightarrow> bytes) \<Rightarrow> ('s, 'fd) posix \<Rightarrow> ('s, 'fd) open_path \<Rightarrow>
     ('s, 'fd) file_reads \<Rightarrow> fs_view \<Rightarrow> ('d, 'addr) SourceConfig \<Rightarrow> 's source_world \<Rightarrow> Session \<Rightarrow> 's \<Rightarrow>
     ((Session \<times> ControlChannel option \<times> SendStream option) \<times> (QuicSyncError + unit)) option" where
  "source_run R G blake3 P opn F V config W s k =
     map_option (\<lambda>((s, streams), r). ((if is_ok r then s else connection_cancel s, streams), r))
       (source_run_inner R G blake3 P opn F V config W s k)"

section \<open>The destination\<close>

text \<open>The root a peer asks for, if the peer is authorised for it.\<close>

definition find_root :: "('fd, 'addr) DestinationConfig \<Rightarrow> bytes \<Rightarrow> Fingerprint \<Rightarrow> QuicSyncError + 'fd DestinationRoot" where
  "find_root config root_id fp =
     ok_or (quic_sync_error_new AuthorizationDenied None ''peer is not authorized for root'')
       (find (\<lambda>root. root_id_str (destination_id root) = root_id \<and>
            list_ex (\<lambda>pin. pin_bytes pin = fingerprint_bytes fp) (authorized_peers root)) (roots config))"

text \<open>
  The \<open>requesting\<close> task: its session, the filesystem, the transfers under way and what is staged. For
  each file operation the world gives the job that is joined when the capacity is reached, how
  reserving and opening a stream end, and the random name of the staged file.
\<close>

record job =
  job_operation :: Operation
  job_stream :: TransferStream
  job_random :: "bytes option"

record ('s, 'fd) requesting =
  rq_session :: Session
  rq_files :: 's
  rq_jobs :: "job list"
  rq_pending :: "'fd changes"

record request_world =
  rw_join :: nat
  rw_reason :: "ConnectionError option"
  rw_open_bi :: "(ConnectionError + SendStream \<times> RecvStream) waiting"
  rw_random :: "bytes option"

definition operation_update :: "Operation \<Rightarrow> bool" where
  "operation_update op = (case op of UpsertFile u i r \<Rightarrow> u | _ \<Rightarrow> False)"

definition stage_pending ::
    "('s, 'fd) posix \<Rightarrow> Operation \<Rightarrow> 'fd StagedFile option \<Rightarrow> ('s, 'fd) requesting \<Rightarrow>
     ('s, 'fd) requesting \<times> (QuicSyncError + unit)" where
  "stage_pending P op f st =
     (case stage_change P op f (rq_pending st) (rq_files st) of
        (k, Inl e) \<Rightarrow> (st\<lparr>rq_files := k\<rparr>, Inl e)
      | (k, Inr changes) \<Rightarrow> (st\<lparr>rq_files := k, rq_pending := changes\<rparr>, Inr ()))"

text \<open>Joining the job that finishes next, any of those under way. With none the code panics.\<close>

definition join_job ::
    "librsync \<Rightarrow> ('s, 'fd) posix \<Rightarrow> ('s, 'fd) file_reads \<Rightarrow> 'fd StagingArea \<Rightarrow> Limits \<Rightarrow> nat \<Rightarrow> ('s, 'fd) requesting \<Rightarrow>
     (('s, 'fd) requesting \<times> (QuicSyncError + unit)) option" where
  "join_job R P F area l n st =
     (if rq_jobs st = [] then None
      else
        let i = n mod length (rq_jobs st); j = rq_jobs st ! i; op = job_operation j;
            rest = st\<lparr>rq_jobs := remove_nth i (rq_jobs st), rq_session := drop_permit (rq_session st)\<rparr>
        in case receive_file R P F (rq_session st) area (job_random j) (operation_id op) (operation_path op)
               (operation_update op) l (job_stream j) (rq_files st) of
             None \<Rightarrow> Some (rest, Inl (wire_failure ''task panicked''))
           | Some ((x, k), Inl e) \<Rightarrow> Some (rest\<lparr>rq_files := k\<rparr>, Inl e)
           | Some ((x, k), Inr rf) \<Rightarrow> Some (stage_pending P op (Some (received_file rf)) (rest\<lparr>rq_files := k\<rparr>)))"

definition request_operation ::
    "librsync \<Rightarrow> ('s, 'fd) posix \<Rightarrow> ('s, 'fd) file_reads \<Rightarrow> 'fd StagingArea \<Rightarrow> Limits \<Rightarrow> (OperationId \<Rightarrow> request_world) \<Rightarrow>
     Operation \<Rightarrow> ('s, 'fd) requesting \<Rightarrow> (('s, 'fd) requesting \<times> (QuicSyncError + unit)) option" where
  "request_operation R P F area l W op st =
     (if is_upsert_file op
      then
        let w = W (operation_id op) in
        and_run (if length (rq_jobs st) \<ge> unat (max_parallel_transfers l)
                 then join_job R P F area l (rw_join w) st else Some (st, Inr ())) (\<lambda>st _.
        Some (case transfer_open (rq_session st) (rw_reason w) (rw_open_bi w) of
            (s, Inl e) \<Rightarrow> (st\<lparr>rq_session := s\<rparr>, Inl e)
          | (s, Inr x) \<Rightarrow>
              (st\<lparr>rq_session := s,
                 rq_jobs := rq_jobs st @ [\<lparr>job_operation = op, job_stream = x, job_random = rw_random w\<rparr>]\<rparr>, Inr ())))
      else Some (stage_pending P op None st))"

fun request_all ::
    "librsync \<Rightarrow> ('s, 'fd) posix \<Rightarrow> ('s, 'fd) file_reads \<Rightarrow> 'fd StagingArea \<Rightarrow> Limits \<Rightarrow> (OperationId \<Rightarrow> request_world) \<Rightarrow>
     Operation list \<Rightarrow> ('s, 'fd) requesting \<Rightarrow> (('s, 'fd) requesting \<times> (QuicSyncError + unit)) option" where
  "request_all R P F area l W [] st = Some (st, Inr ())"
| "request_all R P F area l W (op # ops) st =
     and_run (request_operation R P F area l W op st) (\<lambda>st _. request_all R P F area l W ops st)"

text \<open>The jobs left are joined in the order that \<open>order\<close> gives, by the number of those under way.\<close>

lemma stage_pending_jobs: "stage_pending P op f st = (st', r) \<Longrightarrow> rq_jobs st' = rq_jobs st"
  by (auto simp: stage_pending_def split: prod.splits sum.splits)

lemma length_remove_nth [simp]: "i < length xs \<Longrightarrow> length (remove_nth i xs) = length xs - 1"
  by (simp add: remove_nth_def)

lemma join_job_fewer:
  assumes "join_job R P F area l n st = Some (st', r)"
  shows "length (rq_jobs st') = length (rq_jobs st) - 1 \<and> rq_jobs st \<noteq> []"
proof -
  from assms have "rq_jobs st \<noteq> []" by (auto simp: join_job_def split: if_splits)
  moreover from this have "n mod length (rq_jobs st) < length (rq_jobs st)" by simp
  ultimately show ?thesis using assms
    by (auto simp: join_job_def Let_def dest: stage_pending_jobs split: option.splits prod.splits sum.splits)
qed

function join_all ::
    "librsync \<Rightarrow> ('s, 'fd) posix \<Rightarrow> ('s, 'fd) file_reads \<Rightarrow> 'fd StagingArea \<Rightarrow> Limits \<Rightarrow> (nat \<Rightarrow> nat) \<Rightarrow>
     ('s, 'fd) requesting \<Rightarrow> (('s, 'fd) requesting \<times> (QuicSyncError + unit)) option" where
  "join_all R P F area l order st =
     (if rq_jobs st = [] then Some (st, Inr ())
      else and_run (join_job R P F area l (order (length (rq_jobs st))) st) (\<lambda>st _. join_all R P F area l order st))"
  by pat_completeness auto
termination
  by (relation "measure (\<lambda>(R, P, F, area, l, order, st). length (rq_jobs st))") (auto dest!: join_job_fewer)

declare join_all.simps [simp del]

text \<open>
  The whole task: the staging area is made in the root, then the operations of the plan are requested
  and what is under way at the end is joined.
\<close>

definition request_files ::
    "librsync \<Rightarrow> ('s, 'fd) posix \<Rightarrow> ('s, 'fd) file_reads \<Rightarrow> Limits \<Rightarrow> (OperationId \<Rightarrow> request_world) \<Rightarrow> (nat \<Rightarrow> nat) \<Rightarrow>
     'fd \<Rightarrow> Operation list \<Rightarrow> Session \<Rightarrow> 's \<Rightarrow> (('s, 'fd) requesting \<times> (QuicSyncError + unit)) option" where
  "request_files R P F l W order root ops s k =
     (case staging_area_new P root k of
        (k, Inl e) \<Rightarrow> Some (\<lparr>rq_session = s, rq_files = k, rq_jobs = [], rq_pending = []\<rparr>, Inl e)
      | (k, Inr area) \<Rightarrow>
          and_run (request_all R P F area l W ops \<lparr>rq_session = s, rq_files = k, rq_jobs = [], rq_pending = []\<rparr>)
            (\<lambda>st _. join_all R P F area l order st))"

text \<open>
  What the library and the scheduler decide at the destination. \<open>dw_taken\<close> is how many operations the
  requesting task takes before it ends, all of them unless it fails.
\<close>

record dest_world =
  dw_accept_bi :: "(ConnectionError + SendStream \<times> RecvStream) waiting"
  dw_peer :: peer_identity
  dw_accept_uni :: "(ConnectionError + RecvStream) waiting"
  dw_handshake :: "ConnectionError option waiting"
  dw_accepting :: "nat option"
  dw_taken :: "nat option"
  dw_requests :: "OperationId \<Rightarrow> request_world"
  dw_order :: "nat \<Rightarrow> nat"

record 's served =
  sd_session :: Session
  sd_control :: "ControlChannel option"
  sd_files :: 's

definition send_control :: "Limits \<Rightarrow> Session \<Rightarrow> Control \<Rightarrow> ControlChannel \<Rightarrow> ControlChannel \<times> (QuicSyncError + unit)" where
  "send_control l s m c = and_do (c, wire_encode control_wire m l) (control_send s)"

text \<open>The \<open>planning\<close> task: the operations that went into the channel, and how it ends.\<close>

definition plan_session ::
    "Limits \<Rightarrow> Session \<Rightarrow> index_channel \<Rightarrow> index_channel \<Rightarrow> nat option \<Rightarrow> ControlChannel \<Rightarrow>
     ControlChannel \<times> Operation list \<times> (QuicSyncError + unit)" where
  "plan_session l s remote local taken c =
     (case send_control l s StartAccepted c of
        (c, Inl e) \<Rightarrow> (c, [], Inl e)
      | (c, Inr _) \<Rightarrow>
          (case plan remote local taken of
             (ops, Inl e) \<Rightarrow> (c, ops, Inl e)
           | (ops, Inr _) \<Rightarrow> (case send_control l s PlanEnd c of (c, r) \<Rightarrow> (c, ops, r))))"

text \<open>The four tasks up to \<open>try_join\<close>: what is staged for the root, or an error, and then nothing is.\<close>

definition prepare_session ::
    "librsync \<Rightarrow> ('b, 'm) gitignore \<Rightarrow> (bytes \<Rightarrow> bytes) \<Rightarrow> ('s, 'fd) posix \<Rightarrow> ('s, 'fd) file_reads \<Rightarrow> fs_view \<Rightarrow>
     Limits \<Rightarrow> dest_world \<Rightarrow> IndexReader \<Rightarrow> 'fd \<Rightarrow> Session \<Rightarrow> ControlChannel \<Rightarrow> 's \<Rightarrow>
     ('s served \<times> (QuicSyncError + 'fd changes)) option" where
  "prepare_session R G blake3 P F V l W x root s c k =
     (let (local, scanning) = scan_root G blake3 V [] l (dw_accepting W) in
      case receive_index s (dw_accept_uni W) (messages_new l) x [] of
        None \<Rightarrow> None
      | Some ((x, remote), indexing) \<Rightarrow>
          let (s, gate) = confirm_handshake s (dw_handshake W);
              (c, ops, planning) = (case gate of
                  Inl e \<Rightarrow> (c, [], Inl e)
                | Inr _ \<Rightarrow> plan_session l s remote local (dw_taken W) c)
          in map_option (\<lambda>(st, requests).
               let out = \<lparr>sd_session = rq_session st, sd_control = Some c, sd_files = rq_files st\<rparr> in
               case and_then scanning (\<lambda>_. and_then indexing (\<lambda>_. and_then planning (\<lambda>_. requests))) of
                 Inl e \<Rightarrow> (out\<lparr>sd_files := drop_changes P (rq_pending st) (rq_files st)\<rparr>, Inl e)
               | Inr _ \<Rightarrow> (out, Inr (rq_pending st)))
             (request_files R P F l (dw_requests W) (dw_order W) root ops s k))"

text \<open>The end of a session: the commit, the acknowledgment, and no further control message.\<close>

definition commit_session ::
    "('s, 'fd) posix \<Rightarrow> Limits \<Rightarrow> 'fd \<Rightarrow> 'fd changes \<Rightarrow> ControlChannel \<Rightarrow> 's served \<Rightarrow> 's served \<times> (QuicSyncError + unit)" where
  "commit_session P l root changes c out =
     (case commit P root changes (sd_files out) of
        (k, Inl e) \<Rightarrow> (out\<lparr>sd_files := k\<rparr>, Inl e)
      | (k, Inr _) \<Rightarrow>
          (case and_do (send_control l (sd_session out) CompleteAck c) (\<lambda>c _. control_receive (sd_session out) c 1) of
             (c, r) \<Rightarrow> (out\<lparr>sd_files := k, sd_control := Some c\<rparr>,
               and_then r (\<lambda>b. if b \<noteq> None then Inl (wire_failure ''unexpected source control message'') else Inr ()))))"

text \<open>The first control message, the authorisation and the root.\<close>

definition start_session ::
    "(bytes \<Rightarrow> bytes) \<Rightarrow> ('s, 'fd) open_path \<Rightarrow> ('d, 'addr) DestinationConfig \<Rightarrow> dest_world \<Rightarrow> Session \<Rightarrow> 's \<Rightarrow>
     ((ControlChannel option \<times> 's) \<times> (QuicSyncError + (IndexReader \<times> 'd DestinationRoot \<times> ControlChannel \<times> 'fd))) option" where
  "start_session sha256 opn config W s k =
     (case accept_session s (dw_accept_bi W) of
        Inl e \<Rightarrow> Some ((None, k), Inl e)
      | Inr streams \<Rightarrow>
          map_option (\<lambda>((m, c), r).
              case and_then r (\<lambda>msg.
                   and_then (case msg of StartSync root_id \<Rightarrow> Inr root_id | _ \<Rightarrow> Inl (wire_failure ''expected StartSync'')) (\<lambda>root_id.
                   and_then (peer_fingerprint sha256 (dw_peer W)) (\<lambda>fp.
                   find_root config root_id fp))) of
                Inl e \<Rightarrow> ((Some c, k), Inl e)
              | Inr configured \<Rightarrow>
                  (case root_handle_from_validated opn (destination_root configured) k of
                     (k, r) \<Rightarrow> ((Some c, k), map_ok (\<lambda>root. (dst_source_index streams, configured, c, root)) r)))
            (messages_next control_wire (control_receive s) (\<lambda>c. recv_weight (ctl_recv c))
              (messages_new (destination_limits config)) (dst_control streams)))"

definition serve_inner ::
    "librsync \<Rightarrow> ('b, 'm) gitignore \<Rightarrow> (bytes \<Rightarrow> bytes) \<Rightarrow> (bytes \<Rightarrow> bytes) \<Rightarrow> ('s, 'fd) posix \<Rightarrow> ('s, 'fd) open_path \<Rightarrow>
     ('s, 'fd) file_reads \<Rightarrow> fs_view \<Rightarrow> ('d, 'addr) DestinationConfig \<Rightarrow> dest_world \<Rightarrow> Session \<Rightarrow> 's \<Rightarrow>
     ('s served \<times> (QuicSyncError + unit)) option" where
  "serve_inner R G blake3 sha256 P opn F V config W s k =
     (let l = destination_limits config in
      case start_session sha256 opn config W s k of
        None \<Rightarrow> None
      | Some ((c, k), Inl e) \<Rightarrow> Some (\<lparr>sd_session = s, sd_control = c, sd_files = k\<rparr>, Inl e)
      | Some ((_, k), Inr (x, configured, c, root)) \<Rightarrow>
          and_run (prepare_session R G blake3 P F V l W x root s c k) (\<lambda>out changes.
          case root_handle_from_validated opn (destination_root configured) (sd_files out) of
            (k, Inl e) \<Rightarrow> Some (out\<lparr>sd_files := drop_changes P changes k\<rparr>, Inl e)
          | (k, Inr commit_root) \<Rightarrow>
              Some (commit_session P l commit_root changes (the (sd_control out)) (out\<lparr>sd_files := k\<rparr>))))"

definition serve ::
    "librsync \<Rightarrow> ('b, 'm) gitignore \<Rightarrow> (bytes \<Rightarrow> bytes) \<Rightarrow> (bytes \<Rightarrow> bytes) \<Rightarrow> ('s, 'fd) posix \<Rightarrow> ('s, 'fd) open_path \<Rightarrow>
     ('s, 'fd) file_reads \<Rightarrow> fs_view \<Rightarrow> ('d, 'addr) DestinationConfig \<Rightarrow> dest_world \<Rightarrow> Session \<Rightarrow> 's \<Rightarrow>
     ('s served \<times> (QuicSyncError + unit)) option" where
  "serve R G blake3 sha256 P opn F V config W s k =
     map_option (\<lambda>(out, r). (if is_ok r then out else out\<lparr>sd_session := connection_cancel (sd_session out)\<rparr>, r))
       (serve_inner R G blake3 sha256 P opn F V config W s k)"

end
