(* ===== verification/Protocol.thy ===== *)
theory Protocol
  imports Sessions
begin

text \<open>
  What a session guarantees: the index reaches the planner as the scanner made it, the source reports
  success only for the three control messages of a session that committed, and the acknowledgment is
  written only after the commit.
\<close>

section \<open>The index arrives\<close>

lemma wire_encode_Inr: "wire_encode T m l = Inr f \<longleftrightarrow> encode T m (codec_limits_from l) = Inr f"
  by (simp add: wire_encode_def result_simps)

lemma send_index_sent:
  assumes "send_index s l ch st = (st', Inr u)"
  shows "\<exists>S after bs. ch = map (\<lambda>r. Inr (Record r)) S @ Inr End # after \<and>
    sent_as index_wire (codec_limits_from l) (map Record S @ [End]) bs \<and> written st' = written st @ bs \<and>
    send_finished st'"
  using assms
proof (induction s l ch st arbitrary: st' rule: send_index.induct)
  case (3 s l m ms st)
  from "3.prems" obtain f st1 where f: "encode index_wire m (codec_limits_from l) = Inr f"
      and 1: "index_send s st f = (st1, Inr ())"
      and 2: "(if m = End then index_finish st1 else send_index s l ms st1) = (st', Inr u)"
    by (auto simp: result_simps wire_encode_Inr)
  have w1: "written st1 = written st @ f" using 1 send_bounded_Inr by (fastforce simp: index_send_def)
  show ?case
  proof (cases m)
    case End
    then have "st' = st1\<lparr>send_finished := True\<rparr>"
      using 2 by (auto simp: index_finish_def stream_finish_def result_simps split: if_splits prod.splits)
    with End w1 sent_as_single [OF f] show ?thesis
      by (intro exI [of _ "[]"] exI [of _ ms] exI [of _ f]) simp
  next
    case (Record r)
    with 2 have "send_index s l ms st1 = (st', Inr u)" by simp
    moreover have "wire_encode index_wire m l = Inr f" using f by (simp add: wire_encode_Inr)
    ultimately obtain S after bs where S: "ms = map (\<lambda>r. Inr (Record r)) S @ Inr End # after"
        "sent_as index_wire (codec_limits_from l) (map Record S @ [End]) bs" "written st' = written st1 @ bs" "send_finished st'"
      using "3.IH" [of st f st1 "()" st'] 1 Record by auto
    from sent_as_append [OF sent_as_single [OF f] S(2)] Record S w1 show ?thesis
      by (intro exI [of _ "r # S"] exI [of _ after] exI [of _ "f @ bs"]) simp
  qed
qed simp_all

lemma index_weight_half: "index_weight (Ready (Inr rs0)) = (\<lambda>x. recv_weight (fst (index_half rs0 x)))"
  by (auto simp: index_weight_def index_half_def fun_eq_iff split: option.splits)

lemma receive_index_expects:
  "index_input.expects s rs0 index_wire l m x (map Record S @ [End]) fin \<Longrightarrow>
     \<exists>x'. receive_index s (Ready (Inr rs0)) m x out = Some ((x', out @ index_stream S), Inr ())"
proof (induction S arbitrary: m x out)
  case Nil
  from index_input.next_returns [OF Nil [simplified]] obtain m' x' where
      "messages_next index_wire (index_receive s (Ready (Inr rs0))) (index_weight (Ready (Inr rs0))) m x = Some ((m', x'), Inr End)"
    unfolding messages_next_def index_weight_half by blast
  then show ?case by (simp add: receive_index.simps [of s _ m] index_stream_def)
next
  case (Cons r S)
  from index_input.next_returns [OF Cons.prems [simplified]] obtain m' x' where
      n: "messages_next index_wire (index_receive s (Ready (Inr rs0))) (index_weight (Ready (Inr rs0))) m x = Some ((m', x'), Inr (Record r))"
    and e: "index_input.expects s rs0 index_wire l m' x' (map Record S @ [End]) fin"
    unfolding messages_next_def index_weight_half by blast
  from Cons.IH [OF e, of "out @ [Inr (Record r)]"] n show ?case
    by (auto simp: receive_index.simps [of s _ m] index_stream_def)
qed

text \<open>The pieces in which a fresh index stream hands out the bytes \<open>bs\<close>.\<close>

definition index_reaches :: "Session \<Rightarrow> RecvStream \<Rightarrow> bytes \<Rightarrow> bool" where
  "index_reaches s rs bs \<longleftrightarrow> half_delivers s (rs, False) bs"

lemma index_received:
  assumes "send_index s1 l ch st = (st', Inr u)" and "written st = []"
    and "index_reaches s2 rs (written st')" and "0 < unat (max_frame_bytes l)"
    and "\<forall>r. Inr (Record r) \<in> set ch \<longrightarrow> index_ok (Record r)"
  shows "\<exists>S x'. complete S ch \<and>
    receive_index s2 (Ready (Inr rs)) (messages_new l) \<lparr>idx_stream = None, idx_finished = False\<rparr> [] =
      Some ((x', index_stream S), Inr ())"
proof -
  let ?x = "\<lparr>idx_stream = None, idx_finished = False\<rparr>"
  from send_index_sent [OF assms(1)] assms(2) obtain S after where ch: "ch = map (\<lambda>r. Inr (Record r)) S @ Inr End # after"
    and sent: "sent_as index_wire (codec_limits_from l) (map Record S @ [End]) (written st')"
    by auto
  have ok: "\<forall>m \<in> set (map Record S @ [End]). index_ok m" using assms(5) ch by auto
  have "half_delivers s2 (index_half rs ?x) (written st')"
    using assms(3) by (simp add: index_half_def index_reaches_def)
  from index_input.expects_new [OF index.wire_message_axioms sent ok _ _ _ this, of "messages_new l"] assms(4)
  have "index_input.expects s2 rs index_wire (codec_limits_from l) (messages_new l) ?x (map Record S @ [End]) (InHeader [])"
    by (simp add: messages_new_def)
  from receive_index_expects [OF this, of "[]"] ch show ?thesis by (auto simp: complete_def)
qed

text \<open>
  C17. The index arrives as it was made. When the source's index task succeeds, it has sent a complete
  index; and the destination's index task, fed with the bytes in any pieces, succeeds and puts into
  the planner's channel exactly the records the scanner produced, in order, with the end marker.\<close>

theorem index_arrives:
  assumes "send_index s1 l ch st = (st', Inr u)" and "written st = []"
    and "index_reaches s2 rs (written st')" and "0 < unat (max_frame_bytes l)"
    and "\<forall>r. Inr (Record r) \<in> set ch \<longrightarrow> index_ok (Record r)"
  shows "\<exists>S x'. complete S ch \<and>
    receive_index s2 (Ready (Inr rs)) (messages_new l) \<lparr>idx_stream = None, idx_finished = False\<rparr> [] =
      Some ((x', index_stream S), Inr ())"
  by (rule index_received [OF assms])

section \<open>What the source waits for\<close>

text \<open>The parts of a session that the streams look at.\<close>

definition same_session :: "Session \<Rightarrow> Session \<Rightarrow> bool" where
  "same_session s s' \<longleftrightarrow> session_cancelled s' = session_cancelled s \<and> session_bounds s' = session_bounds s"

lemma same_session_refl [simp]: "same_session s s"
  by (simp add: same_session_def)

lemma same_session_steps [simp]:
  "same_session s (drop_permit s)"
  "transfer_accept s r w = (s', res) \<Longrightarrow> same_session s s'"
  "transfer_open s r w' = (s', res') \<Longrightarrow> same_session s s'"
  by (auto simp: same_session_def drop_permit_def transfer_accept_def transfer_open_def reserve_def and_do_eq_Inr
      split: if_splits prod.splits sum.splits)

lemma confirm_handshake_same: "confirm_handshake s w = (s', r) \<Longrightarrow> same_session s s'"
  by (cases r) (auto simp: confirm_handshake_def same_session_def result_simps split: option.splits waiting.splits if_splits)

lemma control_expects_cong:
  "same_session s s' \<Longrightarrow> control_input.expects s' T l m c ms fin \<longleftrightarrow> control_input.expects s T l m c ms fin"
  by (simp add: control_input.expects_def half_delivers_def same_session_def)

definition serving_expects :: "CodecLimits \<Rightarrow> serving \<Rightarrow> Control list \<Rightarrow> bool" where
  "serving_expects l st ms \<longleftrightarrow>
     control_input.expects (sv_session st) control_wire l (sv_messages st) (sv_control st) ms (InHeader [])"

text \<open>What is still to come before the loop ends.\<close>

definition awaited :: "serving \<Rightarrow> Control list" where
  "awaited st = (if \<not> sv_accepted st then [StartAccepted, PlanEnd, CompleteAck]
     else if \<not> sv_planned st then [PlanEnd, CompleteAck] else [CompleteAck])"

lemma serve_control_awaits:
  assumes "serve_control m st = Inr (st', fin)" and "sv_planned st \<longrightarrow> sv_accepted st"
  shows "awaited st = m # (if fin then [] else awaited st')" "sv_planned st' \<longrightarrow> sv_accepted st'"
    "sv_session st' = sv_session st" "sv_messages st' = sv_messages st" "sv_control st' = sv_control st"
    "sv_jobs st' = sv_jobs st"
  using assms by (auto simp: awaited_def serve_control.simps split: if_splits)

lemma serve_turn_other:
  assumes "serve_turn R P F root l ev st = Some (st', Inr fin)" and "ev \<noteq> ControlReady"
  shows "same_session (sv_session st) (sv_session st') \<and> sv_messages st' = sv_messages st \<and>
    sv_control st' = sv_control st \<and> sv_accepted st' = sv_accepted st \<and> sv_planned st' = sv_planned st \<and> \<not> fin"
  using assms
  by (cases ev) (auto simp: serve_turn_def result_simps split: if_splits prod.splits sum.splits option.splits)

lemma serve_turn_control:
  assumes turn: "serve_turn R P F root l ControlReady st = Some (st', Inr fin)"
    and e: "serving_expects cl st ms" and flags: "sv_planned st \<longrightarrow> sv_accepted st"
  shows "\<exists>m rest. ms = m # rest \<and> awaited st = m # (if fin then [] else awaited st') \<and>
    serving_expects cl st' rest \<and> (sv_planned st' \<longrightarrow> sv_accepted st')"
proof -
  let ?next = "next_message control_wire wire_failure ''stream closed before expected message''
      (control_receive (sv_session st)) (\<lambda>c. recv_weight (ctl_recv c)) (sv_messages st) (sv_control st)"
  show ?thesis
  proof (cases ms)
    case Nil
    from control_input.next_closed [OF e [unfolded serving_expects_def Nil]]
    obtain m' c' where "?next = Some ((m', c'), Inl (wire_failure ''stream closed before expected message''))" by blast
    with turn show ?thesis by (simp add: serve_turn_def messages_next_def Let_def)
  next
    case (Cons m rest)
    from control_input.next_returns [OF e [unfolded serving_expects_def Cons]]
    obtain m' c' where n: "?next = Some ((m', c'), Inr m)"
      and r: "control_input.expects (sv_session st) control_wire cl m' c' rest (InHeader [])" by blast
    let ?st = "st\<lparr>sv_messages := m', sv_control := c'\<rparr>"
    from turn n have "serve_control m ?st = Inr (st', fin)"
      by (auto simp: serve_turn_def messages_next_def Let_def split: sum.splits)
    note a = serve_control_awaits [OF this]
    have "sv_planned ?st \<longrightarrow> sv_accepted ?st" "awaited ?st = awaited st"
      using flags by (simp_all add: awaited_def)
    with a r show ?thesis by (simp add: Cons serving_expects_def)
  qed
qed

lemma serve_loop_awaits:
  assumes "serve_loop R P F root l evs st = Some (st', Inr u)" and "serving_expects cl st ms"
    and "sv_planned st \<longrightarrow> sv_accepted st"
  shows "\<exists>rest. ms = awaited st @ rest"
  using assms
proof (induction evs arbitrary: st ms)
  case (Cons ev evs)
  from Cons.prems(1) obtain st1 fin where turn: "serve_turn R P F root l ev st = Some (st1, Inr fin)"
    and rest: "(if fin then serve_drain R P F root l evs st1 else serve_loop R P F root l evs st1) = Some (st', Inr u)"
    by (auto simp: and_run_eq_Inr)
  show ?case
  proof (cases "ev = ControlReady")
    case True
    from serve_turn_control [OF turn [unfolded True] Cons.prems(2,3)] obtain m ms' where
        m: "ms = m # ms'" "awaited st = m # (if fin then [] else awaited st1)" "serving_expects cl st1 ms'"
        "sv_planned st1 \<longrightarrow> sv_accepted st1" by blast
    with Cons.IH [OF _ m(3,4)] rest show ?thesis by (cases fin) auto
  next
    case False
    note o = serve_turn_other [OF turn False]
    then have e: "serving_expects cl st1 ms"
      using Cons.prems(2) o by (simp add: serving_expects_def control_expects_cong [OF conjunct1 [OF o]])
    from o rest have "serve_loop R P F root l evs st1 = Some (st', Inr u)" by simp
    from Cons.IH [OF this e] o Cons.prems(3) have "\<exists>rest. ms = awaited st1 @ rest" by blast
    moreover have "awaited st1 = awaited st" using o by (simp add: awaited_def)
    ultimately show ?thesis by simp
  qed
qed simp

lemma serve_drain_ends:
  "serve_drain R P F root l evs st = Some (st', Inr u) \<Longrightarrow> sv_jobs st' = [] \<and> completion (sv_control st') = Acknowledged"
  by (induction R P F root l evs st rule: serve_drain.induct)
    (auto simp: control_close_def record_completion_ack_def and_run_eq_Inr split: if_splits)

lemma serve_loop_ends:
  "serve_loop R P F root l evs st = Some (st', Inr u) \<Longrightarrow> sv_jobs st' = [] \<and> completion (sv_control st') = Acknowledged"
proof (induction evs arbitrary: st)
  case (Cons ev evs)
  then obtain st1 fin where "(if fin then serve_drain R P F root l evs st1 else serve_loop R P F root l evs st1) = Some (st', Inr u)"
    by (auto simp: and_run_eq_Inr)
  then show ?case using Cons.IH by (cases fin) (auto dest: serve_drain_ends)
qed simp

text \<open>A control channel whose receiving half hands out the bytes \<open>bs\<close> and then ends.\<close>

definition control_reaches :: "Session \<Rightarrow> ControlChannel \<Rightarrow> bytes \<Rightarrow> bool" where
  "control_reaches s c bs \<longleftrightarrow> half_delivers s (ctl_recv c, ctl_finished c) bs"

lemma serving_new_expects:
  assumes "control_reaches s c bs" and "sent_as control_wire (codec_limits_from l) ms bs"
    and "\<forall>m \<in> set ms. control_ok m" and "0 < unat (max_frame_bytes l)"
  shows "serving_expects (codec_limits_from l) (serving_new s c l) ms"
  using control_input.expects_new [OF control.wire_message_axioms assms(2,3), of "messages_new l" s c] assms(1,4)
  by (simp add: serving_expects_def serving_new_def messages_new_def control_reaches_def)

lemma served_messages:
  assumes "serve_loop R P F root l evs (serving_new s c l) = Some (st', Inr u)"
    and "control_reaches s c bs" and "sent_as control_wire (codec_limits_from l) ms bs"
    and "\<forall>m \<in> set ms. control_ok m" and "0 < unat (max_frame_bytes l)"
  shows "\<exists>rest. ms = StartAccepted # PlanEnd # CompleteAck # rest"
  using serve_loop_awaits [OF assms(1) serving_new_expects [OF assms(2-5)]]
  by (simp add: serving_new_def awaited_def)

text \<open>
  C19. The source reports success only for a complete session. If its serving loop ends without an error,
  whatever the order of messages, accepted streams and finished jobs, then the destination's control
  stream began with the acceptance, the end of the plan and the acknowledgment, in that order; every
  transfer it accepted has finished without an error; and the acknowledgment is recorded.\<close>

theorem source_waits_for_ack:
  assumes "serve_loop R P F root l evs (serving_new s c l) = Some (st', Inr u)"
    and "control_reaches s c bs" and "sent_as control_wire (codec_limits_from l) ms bs"
    and "\<forall>m \<in> set ms. control_ok m" and "0 < unat (max_frame_bytes l)"
  shows "(\<exists>rest. ms = StartAccepted # PlanEnd # CompleteAck # rest) \<and> sv_jobs st' = [] \<and>
    completion (sv_control st') = Acknowledged"
  using served_messages [OF assms] serve_loop_ends [OF assms(1)] by simp

section \<open>What the destination writes\<close>

lemma no_unit: "x \<noteq> Inr () \<Longrightarrow> \<exists>e. x = Inl e"
  by (cases x) auto

lemma send_control_cases:
  assumes "send_control l s m c = (c', r)"
  shows "(\<exists>f. r = Inr () \<and> encode control_wire m (codec_limits_from l) = Inr f \<and>
      written (ctl_send c') = written (ctl_send c) @ f) \<or>
    (\<exists>e. r = Inl e \<and> written (ctl_send c') = written (ctl_send c))"
proof (cases "wire_encode control_wire m l")
  case (Inl e)
  with assms show ?thesis by (auto simp: send_control_def)
next
  case (Inr f)
  with assms show ?thesis
    by (auto simp: send_control_def wire_encode_Inr control_send_def send_bounded_def write_all_def guarded_in_def
        dest!: no_unit split: if_splits list.splits waiting.splits sum.splits)
qed

text \<open>The control messages a channel has written, and how sending one more changes them.\<close>

definition has_written :: "Limits \<Rightarrow> ControlChannel \<Rightarrow> Control list \<Rightarrow> bool" where
  "has_written l c ms \<longleftrightarrow> sent_as control_wire (codec_limits_from l) ms (written (ctl_send c))"

lemma send_control_written:
  assumes "send_control l s m c = (c', r)" and "has_written l c ms"
  shows "has_written l c' (if is_ok r then ms @ [m] else ms)"
  using send_control_cases [OF assms(1)] assms(2) sent_as_append [OF _ sent_as_single, of control_wire "codec_limits_from l" ms]
  by (auto simp: has_written_def is_ok_iff)

lemma control_receive_written: "control_receive s c n = (c', r) \<Longrightarrow> ctl_send c' = ctl_send c"
  by (auto simp: control_receive_def split: prod.splits)

lemma plan_session_written:
  assumes "plan_session l s remote local taken c = (c', ops, r)" and "has_written l c []"
  shows "\<exists>ms. has_written l c' ms \<and> (if is_ok r then ms = [StartAccepted, PlanEnd] else prefix ms [StartAccepted])"
proof -
  obtain c1 r1 where 1: "send_control l s StartAccepted c = (c1, r1)" by fastforce
  note w1 = send_control_written [OF 1 assms(2)]
  show ?thesis
  proof (cases r1)
    case (Inl e)
    with assms(1) 1 w1 show ?thesis by (auto simp: plan_session_def intro!: exI [of _ "[]"])
  next
    case r1: (Inr u)
    obtain os rp where p: "plan remote local taken = (os, rp)" by fastforce
    show ?thesis
    proof (cases rp)
      case (Inl e)
      with assms(1) 1 r1 p w1 show ?thesis by (auto simp: plan_session_def intro!: exI [of _ "[StartAccepted]"])
    next
      case (Inr u)
      obtain c2 r2 where 2: "send_control l s PlanEnd c1 = (c2, r2)" by fastforce
      have "has_written l c1 [StartAccepted]" using w1 r1 by simp
      note w2 = send_control_written [OF 2 this]
      have "c' = c2" "r = r2" using assms(1) 1 r1 p Inr 2 by (simp_all add: plan_session_def)
      with w2 show ?thesis by (intro exI [of _ "if is_ok r2 then [StartAccepted, PlanEnd] else [StartAccepted]"]) auto
    qed
  qed
qed

text \<open>The parts of a preparation.\<close>

lemma prepare_session_parts:
  assumes "prepare_session R G blake3 P F V l W x root s c k = Some (out, r)"
  obtains local scanning x1 remote indexing s1 gate c1 ops planning st requests where
    "scan_root G blake3 V [] l (dw_accepting W) = (local, scanning)"
    "receive_index s (dw_accept_uni W) (messages_new l) x [] = Some ((x1, remote), indexing)"
    "confirm_handshake s (dw_handshake W) = (s1, gate)"
    "(case gate of Inl e \<Rightarrow> (c, [], Inl e) | Inr _ \<Rightarrow> plan_session l s1 remote local (dw_taken W) c) = (c1, ops, planning)"
    "request_files R P F l (dw_requests W) (dw_order W) root ops s1 k = Some (st, requests)"
    "sd_control out = Some c1" "sd_session out = rq_session st"
    "(\<exists>e. r = Inl e \<and> and_then scanning (\<lambda>_. and_then indexing (\<lambda>_. and_then planning (\<lambda>_. requests))) = Inl e \<and>
       sd_files out = drop_changes P (rq_pending st) (rq_files st)) \<or>
     (scanning = Inr () \<and> indexing = Inr () \<and> planning = Inr () \<and> requests = Inr () \<and>
       r = Inr (rq_pending st) \<and> sd_files out = rq_files st)"
proof -
  obtain local scanning where sc: "scan_root G blake3 V [] l (dw_accepting W) = (local, scanning)" by fastforce
  obtain s1 gate where g: "confirm_handshake s (dw_handshake W) = (s1, gate)" by fastforce
  from assms sc obtain x1 remote indexing where
      ix: "receive_index s (dw_accept_uni W) (messages_new l) x [] = Some ((x1, remote), indexing)"
    by (auto simp: prepare_session_def split: option.splits)
  obtain c1 ops planning where p: "(case gate of Inl e \<Rightarrow> (c, [], Inl e)
      | Inr _ \<Rightarrow> plan_session l s1 remote local (dw_taken W) c) = (c1, ops, planning)"
    by (metis prod_cases3)
  obtain st requests where q: "request_files R P F l (dw_requests W) (dw_order W) root ops s1 k = Some (st, requests)"
    and out: "(let out = \<lparr>sd_session = rq_session st, sd_control = Some c1, sd_files = rq_files st\<rparr> in
      case and_then scanning (\<lambda>_. and_then indexing (\<lambda>_. and_then planning (\<lambda>_. requests))) of
        Inl e \<Rightarrow> (out\<lparr>sd_files := drop_changes P (rq_pending st) (rq_files st)\<rparr>, Inl e)
      | Inr _ \<Rightarrow> (out, Inr (rq_pending st))) = (out, r)"
    using assms unfolding prepare_session_def sc ix Let_def g p prod.case option.case by (auto simp only: map_option_eq_Some prod.case)
  show ?thesis
  proof (cases "and_then scanning (\<lambda>_. and_then indexing (\<lambda>_. and_then planning (\<lambda>_. requests)))")
    case (Inl e)
    with out have "sd_control out = Some c1" "sd_session out = rq_session st" "r = Inl e"
        "sd_files out = drop_changes P (rq_pending st) (rq_files st)"
      by (auto simp: Let_def)
    with Inl show ?thesis using that [OF sc ix g p q] by simp
  next
    case (Inr u)
    with out have "sd_control out = Some c1" "sd_session out = rq_session st" "r = Inr (rq_pending st)"
        "sd_files out = rq_files st"
      by (auto simp: Let_def)
    moreover have "scanning = Inr () \<and> indexing = Inr () \<and> planning = Inr () \<and> requests = Inr ()"
      using Inr by (auto simp: result_simps)
    ultimately show ?thesis using that [OF sc ix g p q] by simp
  qed
qed

lemma prepare_session_written:
  assumes "prepare_session R G blake3 P F V l W x root s c k = Some (out, r)" and "has_written l c []"
  shows "\<exists>c' ms. sd_control out = Some c' \<and> has_written l c' ms \<and>
    (case r of Inl e \<Rightarrow> prefix ms [StartAccepted, PlanEnd] | Inr changes \<Rightarrow> ms = [StartAccepted, PlanEnd])"
  using assms(1)
proof (rule prepare_session_parts)
  fix local scanning x1 remote indexing s1 gate c1 ops planning st requests
  assume p: "(case gate of Inl e \<Rightarrow> (c, [], Inl e) | Inr _ \<Rightarrow> plan_session l s1 remote local (dw_taken W) c) = (c1, ops, planning)"
    and c1: "sd_control out = Some c1"
    and r: "(\<exists>e. r = Inl e \<and> and_then scanning (\<lambda>_. and_then indexing (\<lambda>_. and_then planning (\<lambda>_. requests))) = Inl e \<and>
       sd_files out = drop_changes P (rq_pending st) (rq_files st)) \<or>
     (scanning = Inr () \<and> indexing = Inr () \<and> planning = Inr () \<and> requests = Inr () \<and>
       r = Inr (rq_pending st) \<and> sd_files out = rq_files st)"
  have "\<exists>ms. has_written l c1 ms \<and> (if is_ok planning then ms = [StartAccepted, PlanEnd] else prefix ms [StartAccepted])"
  proof (cases gate)
    case (Inl e)
    with p assms(2) show ?thesis by (auto intro!: exI [of _ "[]"])
  next
    case (Inr u)
    with p have "plan_session l s1 remote local (dw_taken W) c = (c1, ops, planning)" by simp
    from plan_session_written [OF this assms(2)] show ?thesis .
  qed
  then obtain ms where ms: "has_written l c1 ms"
      "if is_ok planning then ms = [StartAccepted, PlanEnd] else prefix ms [StartAccepted]" by blast
  from ms(2) r have "case r of Inl e \<Rightarrow> prefix ms [StartAccepted, PlanEnd] | Inr changes \<Rightarrow> ms = [StartAccepted, PlanEnd]"
    by (elim disjE) (auto simp: is_ok_iff prefix_Cons split: if_splits)
  with ms(1) c1 show ?thesis by blast
qed

text \<open>The start of a session writes nothing, and leaves the files to \<open>open\<close>.\<close>

lemma start_session_control:
  assumes "start_session sha256 opn config W s k = Some ((c', k'), r)"
    and "dw_accept_bi W = Ready (Inr (st0, rs0))"
  shows "(\<forall>c. c' = Some c \<longrightarrow> ctl_send c = st0) \<and>
    (\<forall>x configured c root. r = Inr (x, configured, c, root) \<longrightarrow> c' = Some c \<and>
       root_handle_from_validated opn (destination_root configured) k = (k', Inr root) \<and>
       x = \<lparr>idx_stream = None, idx_finished = False\<rparr> \<and>
       (\<exists>root_id fp. peer_fingerprint sha256 (dw_peer W) = Inr fp \<and> find_root config root_id fp = Inr configured))"
proof (cases "accept_session s (dw_accept_bi W)")
  case (Inl e)
  with assms(1) show ?thesis by (auto simp: start_session_def)
next
  case (Inr streams)
  have st: "ctl_send (dst_control streams) = st0" "dst_source_index streams = \<lparr>idx_stream = None, idx_finished = False\<rparr>"
    using Inr assms(2) by (auto simp: accept_session_def guarded_in_def control_new_def split: if_splits)
  from assms(1) Inr obtain m c1 r1 where
      n: "messages_next control_wire (control_receive s) (\<lambda>c. recv_weight (ctl_recv c))
          (messages_new (destination_limits config)) (dst_control streams) = Some ((m, c1), r1)"
    by (auto simp: start_session_def)
  have c1: "ctl_send c1 = st0"
    using next_message_keeps [where g = ctl_send, OF control_receive_written n [unfolded messages_next_def]] st(1) by simp
  show ?thesis using assms(1) Inr n c1 st(2)
    by (auto simp: start_session_def result_simps split: sum.splits prod.splits)
qed

lemma find_root_Inr:
  "find_root config root_id fp = Inr r \<Longrightarrow> r \<in> set (roots config) \<and> root_id_str (destination_id r) = root_id \<and>
     (\<exists>pin \<in> set (authorized_peers r). pin_bytes pin = fingerprint_bytes fp)"
  by (auto simp: find_root_def ok_or_eq_Inr find_Some_iff list_ex_iff)

text \<open>What has happened when the acknowledgment is on the wire.\<close>

definition session_committed ::
    "librsync \<Rightarrow> ('b, 'm) gitignore \<Rightarrow> (bytes \<Rightarrow> bytes) \<Rightarrow> ('s, 'fd) posix \<Rightarrow> ('s, 'fd) open_path \<Rightarrow>
     ('s, 'fd) file_reads \<Rightarrow> fs_view \<Rightarrow> ('d, 'addr) DestinationConfig \<Rightarrow> dest_world \<Rightarrow> Session \<Rightarrow> 's \<Rightarrow> bool" where
  "session_committed R G blake3 P opn F V config W s k' \<longleftrightarrow>
     (\<exists>configured c root k1 out changes k2 commit_root.
        configured \<in> set (roots config) \<and>
        prepare_session R G blake3 P F V (destination_limits config) W \<lparr>idx_stream = None, idx_finished = False\<rparr>
          root s c k1 = Some (out, Inr changes) \<and>
        root_handle_from_validated opn (destination_root configured) (sd_files out) = (k2, Inr commit_root) \<and>
        commit P commit_root changes k2 = (k', Inr ()))"

lemma commit_session_written:
  assumes "commit_session P l root changes c out = (out', r)" and "has_written l c [StartAccepted, PlanEnd]"
  shows "(\<exists>c' ms. (sd_control out' = Some c' \<or> sd_control out' = sd_control out \<and> c' = c) \<and> has_written l c' ms \<and>
      prefix ms [StartAccepted, PlanEnd, CompleteAck] \<and>
      (CompleteAck \<in> set ms \<or> r = Inr () \<longrightarrow> commit P root changes (sd_files out) = (sd_files out', Inr ())))"
proof -
  let ?s = "sd_session out"
  obtain k rc where c: "commit P root changes (sd_files out) = (k, rc)" by fastforce
  show ?thesis
  proof (cases rc)
    case (Inl e)
    with assms c show ?thesis
      by (intro exI [of _ c] exI [of _ "[StartAccepted, PlanEnd]"]) (auto simp: commit_session_def)
  next
    case (Inr u)
    obtain c1 r1 where 1: "send_control l ?s CompleteAck c = (c1, r1)" by fastforce
    note w = send_control_written [OF 1 assms(2)]
    obtain c2 r2 where 2: "and_do (send_control l ?s CompleteAck c) (\<lambda>c _. control_receive ?s c 1) = (c2, r2)" by fastforce
    have "ctl_send c2 = ctl_send c1"
      using 2 control_receive_written by (cases r1) (auto simp: 1)
    then have "has_written l c2 (if is_ok r1 then [StartAccepted, PlanEnd, CompleteAck] else [StartAccepted, PlanEnd])"
      using w by (auto simp: has_written_def split: if_splits)
    moreover have "sd_control out' = Some c2" "sd_files out' = k"
      using assms(1) c Inr 2 by (auto simp: commit_session_def)
    ultimately show ?thesis using c Inr
      by (intro exI [of _ c2] exI [of _ "if is_ok r1 then [StartAccepted, PlanEnd, CompleteAck] else [StartAccepted, PlanEnd]"]) auto
  qed
qed

text \<open>How far a session comes.\<close>

lemma serve_inner_parts:
  assumes "serve_inner R G blake3 sha256 P opn F V config W s k = Some (out, r)"
  obtains (start) c0 k0 e where "start_session sha256 opn config W s k = Some ((c0, k0), Inl e)"
      "out = \<lparr>sd_session = s, sd_control = c0, sd_files = k0\<rparr>" "r = Inl e"
  | (prepare) c0 k0 x configured c1 root e where
      "start_session sha256 opn config W s k = Some ((c0, k0), Inr (x, configured, c1, root))"
      "prepare_session R G blake3 P F V (destination_limits config) W x root s c1 k0 = Some (out, Inl e)" "r = Inl e"
  | (reopen) c0 k0 x configured c1 root out1 changes k2 e where
      "start_session sha256 opn config W s k = Some ((c0, k0), Inr (x, configured, c1, root))"
      "prepare_session R G blake3 P F V (destination_limits config) W x root s c1 k0 = Some (out1, Inr changes)"
      "root_handle_from_validated opn (destination_root configured) (sd_files out1) = (k2, Inl e)"
      "out = out1\<lparr>sd_files := drop_changes P changes k2\<rparr>" "r = Inl e"
  | (commit) c0 k0 x configured c1 root out1 changes k2 commit_root where
      "start_session sha256 opn config W s k = Some ((c0, k0), Inr (x, configured, c1, root))"
      "prepare_session R G blake3 P F V (destination_limits config) W x root s c1 k0 = Some (out1, Inr changes)"
      "root_handle_from_validated opn (destination_root configured) (sd_files out1) = (k2, Inr commit_root)"
      "commit_session P (destination_limits config) commit_root changes (the (sd_control out1)) (out1\<lparr>sd_files := k2\<rparr>) = (out, r)"
proof -
  let ?l = "destination_limits config"
  obtain c0 k0 r0 where st: "start_session sha256 opn config W s k = Some ((c0, k0), r0)"
    using assms by (auto simp: serve_inner_def Let_def split: option.splits)
  show thesis
  proof (cases r0)
    case (Inl e)
    with assms st show thesis by (intro start [of c0 k0 e]) (simp_all add: serve_inner_def Let_def)
  next
    case (Inr y)
    obtain x configured c1 root where y: "y = (x, configured, c1, root)" by (cases y)
    note st' = st [unfolded Inr y]
    obtain out1 r1 where p: "prepare_session R G blake3 P F V ?l W x root s c1 k0 = Some (out1, r1)"
      using assms st' by (cases "prepare_session R G blake3 P F V ?l W x root s c1 k0") (auto simp: serve_inner_def Let_def)
    show thesis
    proof (cases r1)
      case r1: (Inl e)
      with assms st' p have "out = out1" "r = Inl e" by (simp_all add: serve_inner_def Let_def)
      with prepare [OF st', of e] p r1 show thesis by simp
    next
      case r1: (Inr changes)
      obtain k2 r2 where o: "root_handle_from_validated opn (destination_root configured) (sd_files out1) = (k2, r2)" by fastforce
      show thesis
      proof (cases r2)
        case (Inl e)
        with assms st' p r1 o have "out = out1\<lparr>sd_files := drop_changes P changes k2\<rparr>" "r = Inl e"
          by (simp_all add: serve_inner_def Let_def)
        with reopen [OF st', of out1 changes k2 e] p r1 o Inl show thesis by simp
      next
        case r2: (Inr commit_root)
        with assms st' p r1 o have
          "commit_session P ?l commit_root changes (the (sd_control out1)) (out1\<lparr>sd_files := k2\<rparr>) = (out, r)"
          by (simp add: serve_inner_def Let_def)
        with commit [OF st', of out1 changes k2 commit_root] p r1 o r2 show thesis by simp
      qed
    qed
  qed
qed

lemma start_session_written:
  assumes "start_session sha256 opn config W s k = Some ((c0, k0), Inr (x, configured, c1, root))"
    and "dw_accept_bi W = Ready (Inr (st0, rs0))" "written st0 = []"
  shows "has_written l c1 [] \<and> x = \<lparr>idx_stream = None, idx_finished = False\<rparr> \<and> configured \<in> set (roots config)"
proof -
  note S = start_session_control [OF assms(1,2)]
  from mp [OF spec [OF spec [OF spec [OF spec [OF conjunct2 [OF S]]]]] refl]
  have "c0 = Some c1" "x = \<lparr>idx_stream = None, idx_finished = False\<rparr>"
    and f: "\<exists>root_id fp. peer_fingerprint sha256 (dw_peer W) = Inr fp \<and> find_root config root_id fp = Inr configured"
    by blast+
  moreover from f find_root_Inr have "configured \<in> set (roots config)" by blast
  moreover have "ctl_send c1 = st0" using conjunct1 [OF S] \<open>c0 = Some c1\<close> by blast
  ultimately show ?thesis using assms(3) by (simp add: has_written_def sent_as_Nil)
qed

lemma serve_inner_written:
  assumes run: "serve_inner R G blake3 sha256 P opn F V config W s k = Some (out, r)"
    and acc: "dw_accept_bi W = Ready (Inr (st0, rs0))" "written st0 = []" and c: "sd_control out = Some c"
  shows "\<exists>ms. has_written (destination_limits config) c ms \<and> prefix ms [StartAccepted, PlanEnd, CompleteAck] \<and>
    (CompleteAck \<in> set ms \<or> r = Inr () \<longrightarrow> session_committed R G blake3 P opn F V config W s (sd_files out))"
  using run
proof (cases rule: serve_inner_parts)
  case (start c0 k0 e)
  have "ctl_send c = st0" using conjunct1 [OF start_session_control [OF start(1) acc(1)]] start(2) c by simp
  then have "has_written (destination_limits config) c []" using acc(2) by (simp add: has_written_def sent_as_Nil)
  with start(3) show ?thesis by (intro exI [of _ "[]"]) simp
next
  case (prepare c0 k0 x configured c1 root e)
  note w = start_session_written [OF prepare(1) acc, of "destination_limits config"]
  from prepare_session_written [OF prepare(2) conjunct1 [OF w]] obtain c2 ms where
      "sd_control out = Some c2" "has_written (destination_limits config) c2 ms" "prefix ms [StartAccepted, PlanEnd]"
    by auto
  with prepare(3) c show ?thesis by (intro exI [of _ ms]) (auto simp: prefix_Cons)
next
  case (reopen c0 k0 x configured c1 root out1 changes k2 e)
  note w = start_session_written [OF reopen(1) acc, of "destination_limits config"]
  from prepare_session_written [OF reopen(2) conjunct1 [OF w]] obtain c2 where
      "sd_control out1 = Some c2" "has_written (destination_limits config) c2 [StartAccepted, PlanEnd]"
    by auto
  with reopen(4,5) c show ?thesis by (intro exI [of _ "[StartAccepted, PlanEnd]"]) simp
next
  case (commit c0 k0 x configured c1 root out1 changes k2 commit_root)
  note w = start_session_written [OF commit(1) acc, of "destination_limits config"]
  from prepare_session_written [OF commit(2) conjunct1 [OF w]] obtain c2 where
      c2: "sd_control out1 = Some c2" "has_written (destination_limits config) c2 [StartAccepted, PlanEnd]"
    by auto
  have "commit_session P (destination_limits config) commit_root changes c2 (out1\<lparr>sd_files := k2\<rparr>) = (out, r)"
    using commit(4) c2(1) by simp
  from commit_session_written [OF this c2(2)] obtain c' ms where
      m: "sd_control out = Some c' \<or> sd_control out = sd_control out1 \<and> c' = c2" "has_written (destination_limits config) c' ms"
        "prefix ms [StartAccepted, PlanEnd, CompleteAck]"
        "CompleteAck \<in> set ms \<or> r = Inr () \<longrightarrow> commit P commit_root changes k2 = (sd_files out, Inr ())"
    by auto
  have "session_committed R G blake3 P opn F V config W s (sd_files out)"
    if "commit P commit_root changes k2 = (sd_files out, Inr ())"
    unfolding session_committed_def using that w commit(2,3) by blast
  with m c c2(1) show ?thesis by (intro exI [of _ ms]) auto
qed

lemma marks_sent:
  assumes "sent_as control_wire l ms bs" and "set ms \<subseteq> {StartAccepted, PlanEnd, CompleteAck}"
    and "3 \<le> unat (codec_max_frame_bytes l')"
  shows "sent_as control_wire l' ms bs"
proof -
  from assms(1) obtain fs where fs: "list_all2 (\<lambda>m f. encode control_wire m l = Inr f) ms fs" "bs = concat fs"
    by (auto simp: sent_as_def)
  have "encode control_wire m l' = Inr f" if "m \<in> {StartAccepted, PlanEnd, CompleteAck}" "encode control_wire m l = Inr f" for m f
    using that assms(3) by (auto simp: control.encode_Inr payload_of_def)
  with fs(1) assms(2) have "list_all2 (\<lambda>m f. encode control_wire m l' = Inr f) ms fs"
    by (induction rule: list_all2_induct) auto
  with fs(2) show ?thesis by (auto simp: sent_as_def)
qed

lemma acknowledged_committed:
  assumes destination: "serve R G blake3 sha256 P opn F V config W s k = Some (out, r)"
    and acc: "dw_accept_bi W = Ready (Inr (st0, rs0))" "written st0 = []" and c: "sd_control out = Some c"
    and source: "serve_loop R' P' F' root l evs (serving_new s' c' l) = Some (st', Inr u)"
    and reaches: "control_reaches s' c' (written (ctl_send c))" and l: "3 \<le> unat (max_frame_bytes l)"
  shows "session_committed R G blake3 P opn F V config W s (sd_files out)"
proof -
  from destination obtain out1 where run: "serve_inner R G blake3 sha256 P opn F V config W s k = Some (out1, r)"
    and "sd_control out1 = sd_control out" "sd_files out1 = sd_files out"
    by (auto simp: serve_def split: if_splits)
  with serve_inner_written [OF run acc] c obtain ms where
      ms: "sent_as control_wire (codec_limits_from (destination_limits config)) ms (written (ctl_send c))"
        "prefix ms [StartAccepted, PlanEnd, CompleteAck]"
      and fin: "CompleteAck \<in> set ms \<Longrightarrow> session_committed R G blake3 P opn F V config W s (sd_files out)"
    by (auto simp: has_written_def)
  have sub: "set ms \<subseteq> {StartAccepted, PlanEnd, CompleteAck}" using set_mono_prefix [OF ms(2)] by simp
  have "sent_as control_wire (codec_limits_from l) ms (written (ctl_send c))"
    by (rule marks_sent [OF ms(1) sub]) (use l in \<open>simp add: codec_limits_from_def\<close>)
  moreover have "\<forall>m \<in> set ms. control_ok m" using sub by auto
  ultimately obtain rest where "ms = StartAccepted # PlanEnd # CompleteAck # rest"
    using served_messages [OF source reaches] l by auto
  with fin show ?thesis by simp
qed

text \<open>
  C3. What the source takes for success has happened. If the source's serving loop succeeds on the control
  bytes that a destination's session has written, then that session had received and planned the
  whole index, staged every file it needed and committed the plan without an error before it
  acknowledged: the filesystem is the one the commit left. The destination never acknowledges a
  session that did not commit.\<close>

theorem acknowledged_means_committed:
  assumes destination: "serve R G blake3 sha256 P opn F V config W s k = Some (out, r)"
    and acc: "dw_accept_bi W = Ready (Inr (st0, rs0))" "written st0 = []" and c: "sd_control out = Some c"
    and source: "serve_loop R' P' F' root l evs (serving_new s' c' l) = Some (st', Inr u)"
    and reaches: "control_reaches s' c' (written (ctl_send c))" and l: "3 \<le> unat (max_frame_bytes l)"
  shows "session_committed R G blake3 P opn F V config W s (sd_files out)"
  by (rule acknowledged_committed [OF assms])

end
