(* ===== verification/Arrivals.thy ===== *)
theory Arrivals
  imports Sessions
begin

text \<open>
  What a peer can bring into a session: whatever bytes it sends, a message that a loop returns is
  one the decoder accepts, so every record of a received index names a valid path; and the plan names
  no path but those of the records it was given.
\<close>

section \<open>Messages are valid\<close>

fun frame_bounded :: "frame_state \<Rightarrow> bool" where
  "frame_bounded (InHeader h) \<longleftrightarrow> True"
| "frame_bounded (InPayload e p) \<longleftrightarrow> e < 2 ^ 64 \<and> length p < e"

lemma decoder_bounded: "decoder_inv l d \<Longrightarrow> frame_bounded (decoder_abs d)"
  using unsigned_less [of "codec_max_frame_bytes l", where 'a = nat]
  by (auto simp: decoder_inv_def decoder_abs_def split: option.splits)

context wire_message
begin

lemma byte_step_valid:
  assumes "byte_step T l st b = Inr (st', new)" and "frame_bounded st"
  shows "frame_bounded st' \<and> (\<forall>m \<in> set new. valid m)"
proof (cases st)
  case (InHeader h)
  with assms show ?thesis
    using unsigned_less [where 'a = nat and 'b = 64]
    by (auto simp: result_simps check_frame_length_Inr split: if_splits)
next
  case (InPayload e p)
  show ?thesis
  proof (cases "length (p @ [b]) = e")
    case True
    with assms InPayload obtain m where m: "decode_payload T (p @ [b]) l = Inr m" "st' = InHeader []" "new = [m]"
      by (auto simp: result_simps)
    have "valid m" using decode_payload_Inr [OF m(1)] True InPayload assms(2) by auto
    with m show ?thesis by simp
  next
    case False
    with assms InPayload show ?thesis by auto
  qed
qed

lemma feed_valid:
  assumes "feed T l st ms bs = Inr (st', ms')" and "frame_bounded st" and "\<forall>m \<in> set ms. valid m"
  shows "\<forall>m \<in> set ms'. valid m"
  using assms
proof (induction bs arbitrary: st ms)
  case (Cons b bs)
  from Cons.prems(1) obtain st1 new where 1: "byte_step T l st b = Inr (st1, new)"
    "feed T l st1 (ms @ new) bs = Inr (st', ms')" by (auto simp: feed_Cons result_simps)
  from Cons.IH [OF 1(2)] byte_step_valid [OF 1(1) Cons.prems(2)] Cons.prems(3) show ?case by auto
qed simp

definition messages_valid :: "'a Messages \<Rightarrow> bool" where
  "messages_valid m \<longleftrightarrow> (\<exists>l. decoder_inv l (msg_decoder m)) \<and> (\<forall>x \<in> set (msg_pending m). valid x)"

lemma messages_valid_new: "messages_valid (messages_new l)"
  unfolding messages_valid_def messages_new_def by (auto intro: decoder_inv_new)

lemma next_message_valid:
  assumes "next_message T fail closed receive weight m st = Some ((m', st'), Inr x)" and "messages_valid m"
  shows "messages_valid m' \<and> valid x"
  using assms
proof (induction "weight st" arbitrary: m st rule: less_induct)
  case less
  show ?case
  proof (cases "msg_pending m")
    case (Cons y ys)
    with less.prems show ?thesis by (auto simp: next_message.simps [of T _ _ _ _ m] messages_valid_def)
  next
    case Nil
    with less.prems(1) obtain st1 bs d ms where r: "receive st (msg_buffer_len m) = (st1, Inr (Some bs))"
        "push T (msg_decoder m) bs = Some (d, Inr ms)" "\<not> weight st \<le> weight st1"
      and again: "next_message T fail closed receive weight (m\<lparr>msg_decoder := d, msg_pending := ms\<rparr>) st1 = Some ((m', st'), Inr x)"
      by (auto simp: next_message.simps [of T fail closed receive weight m] split: sum.splits option.splits if_splits prod.splits)
    from less.prems(2) obtain l where inv: "decoder_inv l (msg_decoder m)" by (auto simp: messages_valid_def)
    obtain d' r' where d: "decoder_inv l d'" "push T (msg_decoder m) bs = Some (d', r')"
        "outcome (feed T l (decoder_abs (msg_decoder m)) [] bs) d' r'"
      using push_loop_refines [OF inv, of T bs "[]"] unfolding push_def by blast
    with r(2) obtain fin where "decoder_inv l d" "feed T l (decoder_abs (msg_decoder m)) [] bs = Inr (fin, ms)"
      by (auto simp: outcome_def split: sum.splits)
    with feed_valid [OF _ decoder_bounded [OF inv]] have "messages_valid (m\<lparr>msg_decoder := d, msg_pending := ms\<rparr>)"
      unfolding messages_valid_def by fastforce
    with less.hyps [OF _ again] r(3) show ?thesis by simp
  qed
qed

end

section \<open>The received index\<close>

definition channel_records :: "index_channel \<Rightarrow> IndexRecord set" where
  "channel_records c = {r. Inr (Record r) \<in> set c}"

lemma channel_records_simps [simp]:
  "channel_records [] = {}"
  "channel_records (Inl e # c) = channel_records c"
  "channel_records (Inr (Record r) # c) = insert r (channel_records c)"
  "channel_records (Inr End # c) = channel_records c"
  "channel_records (c @ d) = channel_records c \<union> channel_records d"
  by (auto simp: channel_records_def)

lemma receive_index_valid:
  assumes "receive_index s accept m x out = Some ((x', out'), r)" and "index.messages_valid m"
    and "\<forall>rec \<in> channel_records out. record_ok rec"
  shows "\<forall>rec \<in> channel_records out'. record_ok rec"
  using assms
proof (induction s accept m x out rule: receive_index.induct)
  case (1 s accept m x out)
  let ?next = "messages_next index_wire (index_receive s accept) (index_weight accept) m x"
  show ?case
  proof (cases "\<exists>m1 x1 rec. ?next = Some ((m1, x1), Inr rec)")
    case False
    obtain y where y: "?next = Some y"
      using "1.prems"(1) by (cases ?next) (simp_all add: receive_index.simps [of s _ m])
    obtain m1 x1 z where y': "y = ((m1, x1), z)" by (metis prod.collapse)
    with False y obtain e where "z = Inl e" by (cases z) auto
    with "1.prems"(1) y y' have "out' = out" by (simp add: receive_index.simps [of s _ m])
    with "1.prems"(3) show ?thesis by simp
  next
    case True
    then obtain m1 x1 rec where n: "?next = Some ((m1, x1), Inr rec)" by blast
    have v: "index.messages_valid m1" "index_ok rec"
      using index.next_message_valid [OF n [unfolded messages_next_def] "1.prems"(2)] by simp_all
    show ?thesis
    proof (cases rec)
      case End
      with "1.prems"(1) n have "out' = out @ [Inr End]" by (simp add: receive_index.simps [of s _ m])
      with "1.prems"(3) show ?thesis by simp
    next
      case (Record q)
      with "1.prems"(1) n have "receive_index s accept m1 x1 (out @ [Inr rec]) = Some ((x', out'), r)"
        by (simp add: receive_index.simps [of s _ m])
      moreover have "\<forall>q' \<in> channel_records (out @ [Inr rec]). record_ok q'" using "1.prems"(3) v(2) Record by auto
      moreover have "rec \<noteq> End" using Record by simp
      ultimately show ?thesis using "1.IH" [OF n refl refl refl] v(1) by blast
    qed
  qed
qed

section \<open>The paths of a plan\<close>

definition plan_within :: "IndexRecord set \<Rightarrow> Planner \<Rightarrow> bool" where
  "plan_within A st \<longleftrightarrow> channel_records (source st) \<subseteq> A \<and> channel_records (destination st) \<subseteq> A \<and>
     set_option (left st) \<subseteq> A \<and> set_option (right st) \<subseteq> A \<and> operation_path ` set (sent st) \<subseteq> path ` A"

lemma number_paths:
  "set_option a \<subseteq> A \<Longrightarrow> set_option b \<subseteq> A \<Longrightarrow> operation_path ` set (number n (change a b)) \<subseteq> path ` A"
  by (cases a; cases b) (auto simp: change_cases)

lemma plan_emit_within:
  assumes "plan_within A st" and "set_option a \<subseteq> A" and "set_option b \<subseteq> A" and "plan_emit a b st = (st', r)"
  shows "plan_within A st'"
proof -
  from plan_emit_prefix [OF assms(4)] have "set (sent st') \<subseteq> set (sent st) \<union> set (number (next_id st) (change a b))"
    using set_mono_prefix by fastforce
  with assms number_paths [OF assms(2,3), of "next_id st"] plan_emit_measure [OF assms(4)] show ?thesis
    unfolding plan_within_def by (auto 0 3)
qed

lemma plan_read_within: "plan_read c = (rest, r) \<Longrightarrow> channel_records rest \<subseteq> channel_records c \<and>
    (\<forall>x. r = Inr (Some x) \<longrightarrow> x \<in> channel_records c)"
  by (cases c rule: plan_read.cases) auto

lemma read_left_within:
  assumes "plan_within A st" and "read_left st = (st', r)"
  shows "plan_within A st'"
proof -
  obtain rest x where x: "plan_read (source st) = (rest, x)" by fastforce
  note w = plan_read_within [OF x]
  show ?thesis
  proof (cases x)
    case (Inl e)
    with assms x w show ?thesis by (auto simp: read_left_def plan_within_def)
  next
    case (Inr y)
    with assms x w show ?thesis by (cases y) (auto simp: read_left_def plan_within_def)
  qed
qed

lemma read_right_within:
  assumes "plan_within A st" and "read_right st = (st', r)"
  shows "plan_within A st'"
proof -
  obtain rest x where x: "plan_read (destination st) = (rest, x)" by fastforce
  note w = plan_read_within [OF x]
  show ?thesis
  proof (cases x)
    case (Inl e)
    with assms x w show ?thesis by (auto simp: read_right_def plan_within_def)
  next
    case (Inr y)
    with assms x w show ?thesis by (cases y) (auto simp: read_right_def plan_within_def)
  qed
qed

lemma plan_iteration_within:
  assumes "plan_within A st" and "plan_iteration cs cd st = (st', r)"
  shows "plan_within A st'"
proof -
  let ?a = "if cs then left st else None" and ?b = "if cd then right st else None"
  let ?st = "st\<lparr>left := if cs then None else left st, right := if cd then None else right st\<rparr>"
  have "plan_within A ?st" "set_option ?a \<subseteq> A" "set_option ?b \<subseteq> A" using assms(1) by (auto simp: plan_within_def)
  note e = plan_emit_within [OF this]
  obtain s1 r1 where 1: "plan_emit ?a ?b ?st = (s1, r1)" by fastforce
  obtain s2 r2 where 2: "(if cs then read_left s1 else (s1, Inr ())) = (s2, r2)" by fastforce
  obtain s3 r3 where 3: "(if cd then read_right s2 else (s2, Inr ())) = (s3, r3)" by fastforce
  have w1: "plan_within A s1" using e [OF 1] .
  have w2: "plan_within A s2" using w1 2 read_left_within [OF w1] by (cases cs) auto
  have w3: "plan_within A s3" using w2 3 read_right_within [OF w2] by (cases cd) auto
  have "st' = s1 \<or> st' = s2 \<or> st' = s3"
    using assms(2) 1 2 3 by (cases r1; cases r2) (auto simp: plan_iteration_def Let_def)
  with w1 w2 w3 show ?thesis by blast
qed

lemma plan_loop_within: "plan_within A st \<Longrightarrow> plan_within A (fst (plan_loop st))"
proof (induction st rule: plan_loop.induct)
  case (1 st)
  show ?case
  proof (cases "plan_consume (left st) (right st)")
    case None
    with "1.prems" show ?thesis by (simp add: plan_loop.simps [of st])
  next
    case (Some c)
    obtain cs cd where c: "c = (cs, cd)" by (cases c)
    obtain s1 r1 where it: "plan_iteration cs cd st = (s1, r1)" by fastforce
    note w = plan_iteration_within [OF "1.prems" it]
    show ?thesis
    proof (cases r1)
      case (Inl e)
      with Some c it w show ?thesis by (simp add: plan_loop.simps [of st])
    next
      case (Inr u)
      with "1.IH" [OF Some c [symmetric] it [unfolded Inr] w] Some c it show ?thesis
        by (simp add: plan_loop.simps [of st])
    qed
  qed
qed

text \<open>Whatever the two channels carry, complete or not, and however the plan ends.\<close>

lemma plan_paths:
  assumes "plan src dst accepting = (ops, r)"
  shows "operation_path ` set ops \<subseteq> path ` (channel_records src \<union> channel_records dst)"
proof -
  let ?A = "channel_records src \<union> channel_records dst"
  let ?st = "\<lparr>source = src, destination = dst, left = None, right = None, next_id = 0, sent = [], accepts = accepting\<rparr>"
  have 0: "plan_within ?A ?st" by (simp add: plan_within_def)
  obtain s1 r1 where 1: "read_left ?st = (s1, r1)" by fastforce
  obtain s2 r2 where 2: "read_right s1 = (s2, r2)" by fastforce
  note w1 = read_left_within [OF 0 1] note w2 = read_right_within [OF w1 2]
  obtain s3 r3 where 3: "plan_loop s2 = (s3, r3)" by fastforce
  have w3: "plan_within ?A s3" using plan_loop_within [OF w2] 3 by simp
  have "ops = sent s1 \<or> ops = sent s2 \<or> ops = sent s3"
    using assms 1 2 3 by (cases r1; cases r2) (auto simp: plan_def Let_def)
  with w1 w2 w3 show ?thesis by (auto simp: plan_within_def)
qed

end
