(* ===== verification/Preparation.thy ===== *)
theory Preparation
  imports Protocol Arrivals
begin

text \<open>
  What a destination's session does to the filesystem before its commit. Every step up to there is
  confined to the staging directory: files are received under fresh names there and dropped again,
  and nothing that waits for the commit is touched by the transfers of the others.
\<close>

section \<open>Steps in the staging directory\<close>

text \<open>A step that touches only the names \<open>N\<close> of the staging directory.\<close>

definition stages ::
    "('s \<Rightarrow> tree) \<Rightarrow> ('s \<Rightarrow> 'fd \<Rightarrow> bytes list option) \<Rightarrow> bytes set \<Rightarrow> 's \<Rightarrow> 's \<Rightarrow> bool" where
  "stages tree at N k k' \<longleftrightarrow>
     frame ((\<lambda>n. staging @ [n]) ` N) {staging} (tree k) (tree k') \<and>
     keeps_off ((\<lambda>n. staging @ [n]) ` N) at k k'"

lemma stages_refl [simp]: "stages tree at N k k"
  by (simp add: stages_def)

lemma stages_mono: "stages tree at N k k' \<Longrightarrow> N \<subseteq> N' \<Longrightarrow> stages tree at N' k k'"
  unfolding stages_def by (meson frame_mono keeps_off_mono image_mono order_refl)

lemma stages_trans: "stages tree at N k k' \<Longrightarrow> stages tree at N' k' k'' \<Longrightarrow> stages tree at (N \<union> N') k k''"
  using stages_mono [of tree at N k k' "N \<union> N'"] stages_mono [of tree at N' k' k'' "N \<union> N'"]
  unfolding stages_def by (meson frame_chain keeps_off_trans Un_upper1 Un_upper2)

lemma stages_same: "tree k' = tree k \<Longrightarrow> keeps at k k' \<Longrightarrow> stages tree at N k k'"
  by (simp add: stages_def keeps_imp_off)

lemma stages_at: "stages tree at N k k' \<Longrightarrow> at k fd = Some p \<Longrightarrow> p = [] \<or> p = staging \<Longrightarrow> at k' fd = Some p"
  unfolding stages_def by (auto elim!: keeps_offD)

lemma stages_waits:
  assumes "stages tree at N k k'" and "waits tree at k f c" and "staged_name f \<notin> N"
  shows "waits tree at k' f c"
proof -
  have "tree k' (staging @ [staged_name f]) = tree k (staging @ [staged_name f])"
    using assms(1,3) by (auto simp: stages_def intro: frameD(2))
  with assms(2) stages_at [OF assms(1)] show ?thesis by (simp add: waits_def)
qed

text \<open>The names are free before.\<close>

definition fresh_in :: "('s \<Rightarrow> tree) \<Rightarrow> 's \<Rightarrow> bytes set \<Rightarrow> bool" where
  "fresh_in tree k N \<longleftrightarrow> (\<forall>n \<in> N. tree k (staging @ [n]) = None)"

lemma waits_not_fresh: "waits tree at k f c \<Longrightarrow> fresh_in tree k N \<Longrightarrow> staged_name f \<notin> N"
  by (auto simp: waits_def fresh_in_def)

context posix_fs
begin

lemma drop_stages:
  assumes "at k (staged_dir f) = Some staging" and "component_ok (staged_name f)"
  shows "stages tree at {staged_name f} k (drop_staged P f k)"
  using drop_staged_law [OF assms] by (simp add: stages_def)

text \<open>A received file takes a fresh name; with a name that is in use nothing happens.\<close>

lemma receive_in_stages:
  assumes at: "at k d = Some staging" and run: "receive_in P d rnd content k = (k', r)"
  shows "\<exists>N. stages tree at N k k' \<and> fresh_in tree k N \<and>
    (\<forall>f. r = Inr f \<longrightarrow> N = {staged_name f} \<and> (\<exists>c. waits tree at k' f c))"
proof (cases rnd)
  case None
  with run show ?thesis by (intro exI [of _ "{}"]) (auto simp: receive_in_def fresh_in_def)
next
  case (Some b)
  let ?n = "staged_file_name b"
  note law = receive_law [OF at run [unfolded Some]]
  show ?thesis
  proof (cases "tree k (staging @ [?n]) = None")
    case True
    have "stages tree at {?n} k k'" using law by (simp add: stages_def)
    moreover have "waits tree at k' f (concat (map projr content)) \<and> staged_name f = ?n" if "r = Inr f" for f
    proof -
      note L = mp [OF spec [OF conjunct2 [OF conjunct2 [OF law]]] that]
      have f: "f = \<lparr>staged_dir = d, staged_name = ?n\<rparr>" and k: "keeps at k k'"
        and q: "\<exists>md t. tree k' (staging @ [staged_name f]) = Some (File md t (concat (map projr content)))"
        using L by blast+
      show ?thesis using q f keepsD [OF k at] hex_name_ok by (simp add: waits_def)
    qed
    ultimately show ?thesis using True by (intro exI [of _ "{?n}"]) (auto simp: fresh_in_def)
  next
    case False
    obtain k1 r1 where 1: "openat P d ?n [WRONLY, CREATE, EXCL, NOFOLLOW, CLOEXEC] 384 k = (k1, r1)" by fastforce
    note c = create_law [OF at hex_name_ok _ _ 1]
    with False obtain e where e: "r1 = Inl e" "tree k1 = tree k" "keeps at k k1"
      by (cases r1) (auto simp: keeps_def)
    then have "k' = k1 \<and> isl r" using run Some 1 by (auto simp: receive_in_def map_step_err_def Let_def)
    with e stages_same show ?thesis by (intro exI [of _ "{}"]) (auto simp: fresh_in_def)
  qed
qed

text \<open>What a step leaves that may have staged a file.\<close>

definition staging_step :: "'s \<Rightarrow> 's \<Rightarrow> 'e + 'fd StagedFile \<Rightarrow> bool" where
  "staging_step k k' r \<longleftrightarrow>
     (\<exists>N. stages tree at N k k' \<and> fresh_in tree k N \<and>
        (\<forall>f. r = Inr f \<longrightarrow> staged_name f \<in> N \<and> (\<exists>c. waits tree at k' f c)))"

lemma staging_step_dropped:
  assumes "staging_step k k' r" and "r = Inr f"
  shows "staging_step k (drop_staged P f k') (Inl e)"
proof -
  from assms obtain N c where N: "stages tree at N k k'" "fresh_in tree k N" "staged_name f \<in> N" "waits tree at k' f c"
    unfolding staging_step_def by blast
  have "stages tree at {staged_name f} k' (drop_staged P f k')"
    using N(4) by (intro drop_stages) (auto simp: waits_def)
  from stages_trans [OF N(1) this] N(2,3) show ?thesis
    unfolding staging_step_def by (intro exI [of _ N]) (simp add: insert_absorb)
qed

lemma staging_step_failed: "staging_step k k' r \<Longrightarrow> staging_step k k' (Inl e)"
  unfolding staging_step_def by blast

lemma staging_step_same: "tree k' = tree k \<Longrightarrow> keeps at k k' \<Longrightarrow> staging_step k k' (Inl e)"
  unfolding staging_step_def fresh_in_def by (intro exI [of _ "{}"]) (simp add: stages_same)

lemma staging_step_after:
  assumes "tree k1 = tree k" and "keeps at k k1" and "staging_step k1 k' r"
  shows "staging_step k k' r"
proof -
  from assms(3) obtain N where N: "stages tree at N k1 k'" "fresh_in tree k1 N"
    "\<forall>f. r = Inr f \<longrightarrow> staged_name f \<in> N \<and> (\<exists>c. waits tree at k' f c)" unfolding staging_step_def by blast
  have "fresh_in tree k N" using N(2) assms(1) by (simp add: fresh_in_def)
  moreover have "stages tree at N k k'"
    using stages_trans [OF stages_same [where N = N, of tree k1 k at, OF assms(1,2)] N(1)] by simp
  ultimately show ?thesis using N(3) unfolding staging_step_def by blast
qed

lemma receive_step:
  assumes "at k (area_directory area) = Some staging" and "staging_area_receive P area rnd content k = (k', r)"
  shows "staging_step k k' r"
  using receive_in_stages [OF assms(1) assms(2) [unfolded staging_area_receive_def]] unfolding staging_step_def by blast

lemma abandon_step:
  assumes "\<And>k' r. m = (k', r) \<Longrightarrow> staging_step k k' r"
  shows "staging_step k (abandon P m) (Inl e)"
proof (cases m)
  case (Pair k' r)
  with assms have s: "staging_step k k' r" by blast
  show ?thesis
  proof (cases r)
    case (Inl x)
    with Pair show ?thesis by (simp add: abandon_def staging_step_failed [OF s])
  next
    case (Inr f)
    with Pair show ?thesis by (simp add: abandon_def staging_step_dropped [OF s])
  qed
qed

lemma receive_whole_step:
  assumes "at k (area_directory area) = Some staging" and "receive_whole P s area rnd w k = Some ((w', k'), r)"
  shows "staging_step k k' r"
proof -
  obtain w1 cs r1 where c: "collect s whole_step ''expected whole-file bytes'' w [] = Some ((w1, cs), r1)"
    using assms(2) by (cases "collect s whole_step ''expected whole-file bytes'' w []") (auto simp: receive_whole_def)
  show ?thesis
  proof (cases r1)
    case (Inl e)
    have "staging_step k (abandon P (staging_area_receive P area rnd
        (reads_of COPY_BUFFER (input_new (map ChunkData cs))) k)) (Inl e)"
      by (rule abandon_step) (rule receive_step [OF assms(1)])
    with assms(2) c Inl show ?thesis by (simp add: receive_whole_def)
  next
    case (Inr u)
    with assms(2) c have "staging_area_receive P area rnd
        (reads_of COPY_BUFFER (input_new (map ChunkData cs @ [ChunkEnd]))) k = (k', r)"
      by (auto simp: receive_whole_def on_files_def split: prod.splits)
    with receive_step [OF assms(1)] show ?thesis by blast
  qed
qed

lemma patch_step:
  assumes "at k (area_directory area) = Some staging" and "patch_into R P area rnd basis cs k = (k', r)"
  shows "staging_step k k' r"
proof (cases "rs_patch R basis (input_new cs)")
  case (Inl e)
  with assms(2) staging_step_same [of k k] show ?thesis by (auto simp: patch_into_def)
next
  case (Inr out)
  with assms(2) receive_step [OF assms(1)] show ?thesis by (auto simp: patch_into_def)
qed

lemma receive_update_step:
  assumes root: "at k (area_root area) = Some []" and dir: "at k (area_directory area) = Some staging" and p: "path_ok p"
    and run: "receive_update R P F s area rnd p w k = Some ((w', k'), r)"
  shows "staging_step k k' r"
proof -
  obtain k1 r1 where 1: "open_regular P (area_root area) p k = (k1, r1)" by fastforce
  note o = open_regular_keeps [OF root p 1]
  have dir1: "at k1 (area_directory area) = Some staging" using keepsD [OF conjunct2 [OF o] dir] .
  show ?thesis
  proof (cases "and_then r1 (ok_or (transfer_failure ''update basis missing''))")
    case (Inl e)
    with run 1 o staging_step_same [of k1 k] show ?thesis
      by (auto simp: receive_update_def open_basis_def on_files_def)
  next
    case (Inr fd)
    let ?basis = "read_to_end F k1 fd"
    obtain w1 r2 where 2: "send_signature R s ?basis (seek_start F k1 fd) w = (w1, r2)" by fastforce
    have "staging_step k1 k' r"
    proof (cases r2)
      case r2: (Inl e)
      with run 1 2 Inr o staging_step_same [of k1 k1] show ?thesis
        by (auto simp: receive_update_def open_basis_def on_files_def on_wire_def)
    next
      case r2: (Inr u)
      from run 1 2 Inr r2 obtain w2 cs r3 where c: "collect s delta_step ''expected delta'' w1 [] = Some ((w2, cs), r3)"
        by (cases "collect s delta_step ''expected delta'' w1 []") (auto simp: receive_update_def open_basis_def on_files_def on_wire_def)
      show ?thesis
      proof (cases r3)
        case r3: (Inl e)
        have "staging_step k1 (abandon P (patch_into R P area rnd ?basis (map ChunkData cs) k1)) (Inl e)"
          by (rule abandon_step) (rule patch_step [OF dir1])
        with run 1 2 Inr r2 c r3 show ?thesis
          by (simp add: receive_update_def open_basis_def on_files_def on_wire_def)
      next
        case r3: (Inr v)
        with run 1 2 Inr r2 c have "patch_into R P area rnd ?basis (map ChunkData cs @ [ChunkEnd]) k1 = (k', r)"
          by (auto simp: receive_update_def open_basis_def on_files_def on_wire_def split: prod.splits)
        with patch_step [OF dir1] show ?thesis by blast
      qed
    qed
    with staging_step_after o show ?thesis by blast
  qed
qed

lemma receive_file_step:
  assumes root: "at k (area_root area) = Some []" and dir: "at k (area_directory area) = Some staging" and p: "path_ok p"
    and run: "receive_file R P F s area rnd i p update l x k = Some ((x', k'), r)"
  shows "staging_step k k' (map_ok received_file r)"
proof (cases "wire_new x l")
  case (Inl e)
  with run staging_step_same [of k k] show ?thesis by (auto simp: receive_file_def)
next
  case (Inr w)
  obtain w1 r1 where 1: "wire_send s w (if update then UpdateRequest i p else CreateRequest i p) = (w1, r1)" by fastforce
  show ?thesis
  proof (cases r1)
    case r1: (Inl e)
    with run Inr 1 staging_step_same [of k k] show ?thesis by (auto simp: receive_file_def on_wire_def)
  next
    case r1: (Inr u)
    let ?body = "if update then receive_update R P F s area rnd p w1 k else receive_whole P s area rnd w1 k"
    from run Inr 1 r1 obtain w2 k2 r2 where 2: "?body = Some ((w2, k2), r2)"
      by (cases ?body) (auto simp: receive_file_def on_wire_def)
    have s2: "staging_step k k2 r2"
      using 2 receive_update_step [OF root dir p] receive_whole_step [OF dir] by (cases update) auto
    show ?thesis
    proof (cases r2)
      case r2: (Inl e)
      with run Inr 1 r1 2 s2 show ?thesis by (auto simp: receive_file_def on_wire_def intro: staging_step_failed)
    next
      case r2: (Inr f)
      from run Inr 1 r1 2 r2 obtain w3 where a: "acknowledge P s i p f w2 k2 = Some ((w3, k'), r)"
        by (auto simp: receive_file_def on_wire_def)
      show ?thesis
      proof (cases r)
        case (Inl e)
        with a have "k' = drop_staged P f k2" by (auto simp: acknowledge_def split: prod.splits sum.splits)
        with staging_step_dropped [OF s2 r2] Inl show ?thesis by simp
      next
        case (Inr rf)
        with a have "k' = k2" "received_file rf = f" by (auto simp: acknowledge_def split: prod.splits sum.splits)
        with s2 r2 Inr show ?thesis by simp
      qed
    qed
  qed
qed


text \<open>The staging directory is made, or there already.\<close>

lemma staging_area_new_law:
  assumes at: "at k root = Some []" and run: "staging_area_new P root k = (k', r)"
  shows "frame {staging} {[]} (tree k) (tree k') \<and> keeps at k k' \<and>
    (\<forall>area. r = Inr area \<longrightarrow> area_root area = root \<and> at k' (area_directory area) = Some staging)"
proof -
  let ?n = "bytes_of ''.quicsync''"
  have n: "component_ok ?n" by (simp add: component_ok_def bytes_of_def)
  obtain k1 r1 where 1: "mkdirat P root ?n 448 k = (k1, r1)" by fastforce
  note m = mkdir_law [OF at n 1]
  have f1: "frame {staging} {[]} (tree k) (tree k1)" and keeps1: "keeps at k k1"
    using m by (auto simp: keeps_def split: sum.splits dest: updated_frame)
  obtain k2 r2 where 2: "openat P root ?n DIRECTORY_FLAGS 0 k1 = (k2, r2)" by fastforce
  have "NOFOLLOW \<in> set DIRECTORY_FLAGS" "CREATE \<notin> set DIRECTORY_FLAGS" by (simp_all add: DIRECTORY_FLAGS_def)
  note o = open_law [OF keepsD [OF keeps1 at] n this 2]
  have keeps2: "keeps at k k2" using keeps1 o by (auto simp: keeps_def)
  show ?thesis
  proof (cases "\<exists>e. make_staging P root k = (k1, Inl e)")
    case True
    with run have "k' = k1 \<and> isl r" by (auto simp: staging_area_new_def staging_directory_def)
    with f1 keeps1 show ?thesis by auto
  next
    case False
    then have ms: "make_staging P root k = (k1, Inr ())"
      using 1 by (auto simp: make_staging_def split: sum.splits if_splits)
    have "k' = k2" using run ms 2
      by (cases r2; cases "fstat P (projr r2) k2")
        (auto simp: staging_area_new_def staging_directory_def map_step_err_def split: if_splits)
    moreover have "area_root area = root \<and> r2 = Inr (area_directory area)" if "r = Inr area" for area
      using that run ms 2 by (auto simp: staging_area_new_def staging_directory_def result_simps split: if_splits)
    ultimately show ?thesis using f1 keeps2 o by auto
  qed
qed

end

section \<open>The requesting task\<close>

lemma mset_remove_nth: "i < length xs \<Longrightarrow> add_mset (xs ! i) (mset (remove_nth i xs)) = mset xs"
  unfolding remove_nth_def by (metis id_take_nth_drop mset_append mset.simps(2) union_mset_add_mset_right)

lemma set_remove_nth: "set (remove_nth i xs) \<subseteq> set xs"
  unfolding remove_nth_def by (metis Un_least set_append set_drop_subset set_take_subset)

lemma insert_change_files:
  "i \<notin> fst ` set changes \<Longrightarrow>
     mset (change_files (insert_change i (op, f) changes)) = mset (case f of None \<Rightarrow> change_files changes | Some g \<Rightarrow> g # change_files changes)"
proof (induction i "(op, f)" changes rule: insert_change.induct)
  case (2 i j w xs)
  obtain q g where w: "w = (q, g)" by (cases w)
  from 2 show ?case unfolding w by (cases f; cases g) auto
qed (cases f; simp)

text \<open>
  What is staged waits in the staging directory, each file under a name of its own and with a content
  that suits its operation; nothing but the staging directory has changed since \<open>k0\<close>.
\<close>

definition holding ::
    "('s \<Rightarrow> tree) \<Rightarrow> ('s \<Rightarrow> 'fd \<Rightarrow> bytes list option) \<Rightarrow> (Operation \<Rightarrow> bytes \<Rightarrow> bool) \<Rightarrow> 's \<Rightarrow> 'fd changes \<Rightarrow> 's \<Rightarrow> bool" where
  "holding tree at Q k0 changes k \<longleftrightarrow> stages tree at UNIV k0 k \<and> distinct (map staged_name (change_files changes)) \<and>
     (\<forall>i op f. (i, op, Some f) \<in> set changes \<longrightarrow> (\<exists>c. waits tree at k f c \<and> Q op c))"

lemma change_filesE:
  assumes "f \<in> set (change_files changes)"
  obtains i op where "(i, op, Some f) \<in> set changes"
  using assms by (auto simp: change_files_def split: option.splits)

lemma holding_waits: "holding tree at Q k0 changes k \<Longrightarrow> f \<in> set (change_files changes) \<Longrightarrow> \<exists>c. waits tree at k f c"
  unfolding holding_def by (metis change_filesE)

lemma holding_step:
  assumes "holding tree at Q k0 changes k" and "stages tree at N k k'"
    and "\<And>f. f \<in> set (change_files changes) \<Longrightarrow> staged_name f \<notin> N"
  shows "holding tree at Q k0 changes k'"
proof -
  have "stages tree at UNIV k0 k'"
    using stages_trans [of tree at UNIV k0 k N k'] assms(1,2) by (simp add: holding_def)
  moreover have "\<exists>c. waits tree at k' f c \<and> Q op c" if "(i, op, Some f) \<in> set changes" for i op f
  proof -
    have "f \<in> set (change_files changes)" using that by (force simp: change_files_def)
    with assms(1) that stages_waits [OF assms(2)] assms(3) show ?thesis unfolding holding_def by metis
  qed
  ultimately show ?thesis using assms(1) by (simp add: holding_def)
qed

context posix_fs
begin

lemma drop_changes_stages:
  assumes "\<forall>f \<in> set (change_files changes). at k (staged_dir f) = Some staging \<and> component_ok (staged_name f)"
  shows "stages tree at UNIV k (drop_changes P changes k)"
proof -
  have "stages tree at UNIV k (fold (drop_staged P) fs k)"
    if "\<forall>f \<in> set fs. at k (staged_dir f) = Some staging \<and> component_ok (staged_name f)" for fs k
    using that
  proof (induction fs arbitrary: k)
    case (Cons f fs)
    then have d: "stages tree at UNIV k (drop_staged P f k)"
      using stages_mono [OF drop_stages] by simp
    moreover have "stages tree at UNIV (drop_staged P f k) (fold (drop_staged P) fs (drop_staged P f k))"
      using Cons.prems stages_at [OF d] by (intro Cons.IH) simp
    ultimately show ?case using stages_trans by fastforce
  qed simp
  with assms show ?thesis by (simp add: drop_changes_eq)
qed

lemma holding_dropped:
  assumes "holding tree at Q k0 changes k"
  shows "stages tree at UNIV k0 (drop_changes P changes k)"
proof -
  have "stages tree at UNIV k (drop_changes P changes k)"
    by (rule drop_changes_stages) (use holding_waits [OF assms] in \<open>auto simp: waits_def\<close>)
  with assms stages_trans [of tree at UNIV k0 k UNIV] show ?thesis by (simp add: holding_def)
qed

lemma stage_change_holding:
  assumes h: "holding tree at Q k0 changes k" and f: "\<And>g. f = Some g \<Longrightarrow> staged_name g \<notin> staged_name ` set (change_files changes) \<and>
      (\<exists>c. waits tree at k g c \<and> Q op c)"
    and run: "stage_change P op f changes k = (k', r)"
  shows "case r of Inl e \<Rightarrow> holding tree at Q k0 changes k' | Inr changes' \<Rightarrow> holding tree at Q k0 changes' k'"
proof (cases r)
  case (Inl e)
  with run have k': "k' = drop_file P f k" by (auto simp: stage_change_def split: if_splits)
  show ?thesis
  proof (cases f)
    case None
    with k' h Inl show ?thesis by (simp add: drop_file_def)
  next
    case (Some g)
    from f [OF this] have "stages tree at {staged_name g} k (drop_staged P g k)"
      by (intro drop_stages) (auto simp: waits_def)
    then have "holding tree at Q k0 changes (drop_staged P g k)"
      by (rule holding_step [OF h]) (use f [OF Some] in \<open>auto simp: image_iff\<close>)
    with Some k' Inl show ?thesis by (simp add: drop_file_def)
  qed
next
  case (Inr changes')
  with run have c: "k' = k" "operation_id op \<notin> fst ` set changes" "changes' = insert_change (operation_id op) (op, f) changes"
    by (simp_all add: stage_change_Inr)
  let ?files = "case f of None \<Rightarrow> change_files changes | Some g \<Rightarrow> g # change_files changes"
  have "mset (map staged_name (change_files changes')) = mset (map staged_name ?files)"
    using insert_change_files [OF c(2), of op f] c(3) by (metis mset_map)
  then have "distinct (map staged_name (change_files changes')) \<longleftrightarrow> distinct (map staged_name ?files)"
    by (rule mset_eq_imp_distinct_iff)
  moreover have "distinct (map staged_name ?files)"
    using h f by (cases f) (auto simp: holding_def)
  moreover have "set changes' = insert (operation_id op, op, f) (set changes)"
    using insert_change_set [OF c(2)] c(3) by simp
  ultimately have "holding tree at Q k0 changes' k'"
    using h f c(1) unfolding holding_def by fastforce
  with Inr show ?thesis by simp
qed


text \<open>Nothing that waits is touched by a transfer, and a file that is received does not meet it.\<close>

lemma staging_step_holding:
  assumes h: "holding tree at Q k0 changes k" and step: "staging_step k k' r"
  shows "holding tree at Q k0 changes k' \<and>
    (\<forall>f. r = Inr f \<longrightarrow> staged_name f \<notin> staged_name ` set (change_files changes))"
proof -
  from step obtain N where N: "stages tree at N k k'" "fresh_in tree k N" "\<And>f. r = Inr f \<Longrightarrow> staged_name f \<in> N"
    unfolding staging_step_def by blast
  have off: "staged_name f \<notin> N" if "f \<in> set (change_files changes)" for f
  proof -
    from holding_waits [OF h that] obtain c where "waits tree at k f c" ..
    then show ?thesis using N(2) by (rule waits_not_fresh)
  qed
  then have "holding tree at Q k0 changes k'" by (rule holding_step [OF h N(1)])
  moreover have "staged_name f \<notin> staged_name ` set (change_files changes)" if "r = Inr f" for f
    using N(3) [OF that] off by (auto simp: image_iff)
  ultimately show ?thesis by blast
qed

definition joins ::
    "librsync \<Rightarrow> ('s, 'fd) file_reads \<Rightarrow> 'fd StagingArea \<Rightarrow> Limits \<Rightarrow> (Operation \<Rightarrow> bytes \<Rightarrow> bool) \<Rightarrow> Session \<Rightarrow> 's \<Rightarrow> job \<Rightarrow> bool" where
  "joins R F area l Q s0 k0 j \<longleftrightarrow> path_ok (operation_path (job_operation j)) \<and> is_upsert_file (job_operation j) \<and>
     (\<forall>s k x k' rf. same_session s0 s \<and> stages tree at UNIV k0 k \<and>
        receive_file R P F s area (job_random j) (operation_id (job_operation j)) (operation_path (job_operation j))
          (operation_update (job_operation j)) l (job_stream j) k = Some ((x, k'), Inr rf) \<longrightarrow>
        (\<forall>c. waits tree at k' (received_file rf) c \<longrightarrow> Q (job_operation j) c))"

lemma stage_pending_holding:
  assumes "holding tree at Q k0 (rq_pending st) (rq_files st)" and "stage_pending P op f st = (st', r)"
    and "\<And>g. f = Some g \<Longrightarrow> staged_name g \<notin> staged_name ` set (change_files (rq_pending st)) \<and>
      (\<exists>c. waits tree at (rq_files st) g c \<and> Q op c)"
  shows "holding tree at Q k0 (rq_pending st') (rq_files st')"
proof -
  obtain k' r' where run: "stage_change P op f (rq_pending st) (rq_files st) = (k', r')" by fastforce
  from stage_change_holding [OF assms(1,3) run] assms(2) run show ?thesis
    by (cases r') (auto simp: stage_pending_def)
qed

lemma join_job_holding:
  assumes area: "at k0 (area_root area) = Some []" "at k0 (area_directory area) = Some staging"
    and h: "holding tree at Q k0 (rq_pending st) (rq_files st)" and jobs: "\<forall>j \<in> set (rq_jobs st). joins R F area l Q s0 k0 j"
    and same: "same_session s0 (rq_session st)" and run: "join_job R P F area l n st = Some (st', r)"
  shows "holding tree at Q k0 (rq_pending st') (rq_files st') \<and> set (rq_jobs st') \<subseteq> set (rq_jobs st)"
proof -
  let ?i = "n mod length (rq_jobs st)"
  let ?j = "rq_jobs st ! ?i" and ?k = "rq_files st"
  let ?op = "job_operation ?j"
  let ?rest = "st\<lparr>rq_jobs := remove_nth ?i (rq_jobs st), rq_session := drop_permit (rq_session st)\<rparr>"
  let ?run = "receive_file R P F (rq_session st) area (job_random ?j) (operation_id ?op) (operation_path ?op)
      (operation_update ?op) l (job_stream ?j) ?k"
  have ne: "rq_jobs st \<noteq> []" using run by (auto simp: join_job_def split: if_splits)
  then have "?j \<in> set (rq_jobs st)" by simp
  with jobs have j: "joins R F area l Q s0 k0 ?j" by blast
  then have p: "path_ok (operation_path ?op)" by (simp add: joins_def)
  have st0: "stages tree at UNIV k0 ?k" using h by (simp add: holding_def)
  show ?thesis
  proof (cases ?run)
    case None
    with run ne h set_remove_nth [of ?i "rq_jobs st"] show ?thesis by (auto simp: join_job_def Let_def)
  next
    case (Some y)
    obtain x k' r' where y: "?run = Some ((x, k'), r')" using Some by (cases y; cases "fst y") auto
    note step = receive_file_step [OF stages_at [OF st0 area(1)] stages_at [OF st0 area(2)] p y]
    note held = staging_step_holding [OF h step [simplified]]
    show ?thesis
    proof (cases r')
      case (Inl e)
      with run ne y held set_remove_nth [of ?i "rq_jobs st"] show ?thesis by (auto simp: join_job_def Let_def)
    next
      case (Inr rf)
      from step Inr obtain c where c: "waits tree at k' (received_file rf) c"
        unfolding staging_step_def by auto
      have "Q ?op c" using j st0 y Inr c same unfolding joins_def by blast
      with held Inr c have new: "staged_name (received_file rf) \<notin> staged_name ` set (change_files (rq_pending st)) \<and>
          (\<exists>c. waits tree at k' (received_file rf) c \<and> Q ?op c)" by auto
      from run ne y Inr have sp: "stage_pending P ?op (Some (received_file rf)) (?rest\<lparr>rq_files := k'\<rparr>) = (st', r)"
        by (simp add: join_job_def Let_def)
      have "holding tree at Q k0 (rq_pending st') (rq_files st')"
        by (rule stage_pending_holding [OF _ sp]) (use held new in auto)
      moreover have "rq_jobs st' = remove_nth ?i (rq_jobs st)" using stage_pending_jobs [OF sp] by simp
      ultimately show ?thesis using set_remove_nth by simp
    qed
  qed
qed


lemma stage_pending_session: "stage_pending P op f st = (st', r) \<Longrightarrow> rq_session st' = rq_session st"
  by (auto simp: stage_pending_def split: prod.splits sum.splits)

lemma join_job_session:
  "join_job R P F area l n st = Some (st', r) \<Longrightarrow> rq_session st' = drop_permit (rq_session st)"
  by (auto simp: join_job_def Let_def dest: stage_pending_session split: if_splits option.splits prod.splits sum.splits)

text \<open>Whatever stream the library opens for a file operation, its job does its part.\<close>

definition requests_join ::
    "librsync \<Rightarrow> ('s, 'fd) file_reads \<Rightarrow> 'fd StagingArea \<Rightarrow> Limits \<Rightarrow> (Operation \<Rightarrow> bytes \<Rightarrow> bool) \<Rightarrow> Session \<Rightarrow> 's \<Rightarrow>
     (OperationId \<Rightarrow> request_world) \<Rightarrow> Operation \<Rightarrow> bool" where
  "requests_join R F area l Q s0 k0 W op \<longleftrightarrow>
     (is_upsert_file op \<longrightarrow>
        (\<forall>st rs. rw_open_bi (W (operation_id op)) = Ready (Inr (st, rs)) \<longrightarrow>
           joins R F area l Q s0 k0 \<lparr>job_operation = op, job_stream = transfer_stream_new st rs,
             job_random = rw_random (W (operation_id op))\<rparr>))"

lemma transfer_open_Inr:
  "transfer_open s r w = (s', Inr x) \<Longrightarrow> \<exists>st rs. w = Ready (Inr (st, rs)) \<and> x = transfer_stream_new st rs"
  by (cases w; cases "case w of Ready y \<Rightarrow> y | _ \<Rightarrow> undefined")
    (auto simp: transfer_open_def guarded_in_def and_do_eq_Inr split: if_splits prod.splits)

definition requests_hold ::
    "librsync \<Rightarrow> ('s, 'fd) file_reads \<Rightarrow> 'fd StagingArea \<Rightarrow> Limits \<Rightarrow> (Operation \<Rightarrow> bytes \<Rightarrow> bool) \<Rightarrow> Session \<Rightarrow> 's \<Rightarrow>
     ('s, 'fd) requesting \<Rightarrow> bool" where
  "requests_hold R F area l Q s0 k0 st \<longleftrightarrow> holding tree at Q k0 (rq_pending st) (rq_files st) \<and>
     (\<forall>j \<in> set (rq_jobs st). joins R F area l Q s0 k0 j) \<and> same_session s0 (rq_session st)"

lemma join_job_holds:
  assumes "at k0 (area_root area) = Some []" and "at k0 (area_directory area) = Some staging"
    and "requests_hold R F area l Q s0 k0 st" and "join_job R P F area l n st = Some (st', r)"
  shows "requests_hold R F area l Q s0 k0 st'"
proof -
  have "same_session s0 (rq_session st')"
    using assms(3) join_job_session [OF assms(4)] by (simp add: requests_hold_def same_session_def drop_permit_def)
  with join_job_holding [OF assms(1,2) _ _ _ assms(4), of Q s0] assms(3) show ?thesis unfolding requests_hold_def by blast
qed

lemma and_run_invariant:
  assumes "and_run m f = Some (s', r)" and "\<And>s r. m = Some (s, r) \<Longrightarrow> I s"
    and "\<And>s x. m = Some (s, Inr x) \<Longrightarrow> I s \<Longrightarrow> f s x = Some (s', r) \<Longrightarrow> I s'"
  shows "I s'"
  using assms by (cases "(m, f)" rule: and_run.cases) auto

lemma request_operation_holds:
  assumes area: "at k0 (area_root area) = Some []" "at k0 (area_directory area) = Some staging"
    and h: "requests_hold R F area l Q s0 k0 st" and op: "requests_join R F area l Q s0 k0 W op"
    and run: "request_operation R P F area l W op st = Some (st', r)"
  shows "requests_hold R F area l Q s0 k0 st'"
proof (cases "is_upsert_file op")
  case False
  with run have sp: "stage_pending P op None st = (st', r)" by (simp add: request_operation_def)
  from h have "holding tree at Q k0 (rq_pending st) (rq_files st)" by (simp add: requests_hold_def)
  from stage_pending_holding [OF this sp] stage_pending_jobs [OF sp] stage_pending_session [OF sp] h show ?thesis
    by (simp add: requests_hold_def)
next
  case True
  let ?w = "W (operation_id op)"
  let ?first = "if length (rq_jobs st) \<ge> unat (max_parallel_transfers l) then join_job R P F area l (rw_join ?w) st else Some (st, Inr ())"
  have "requests_hold R F area l Q s0 k0 s1" if "?first = Some (s1, r1)" for s1 r1
    using that h join_job_holds [OF area h] by (auto split: if_splits)
  moreover have "requests_hold R F area l Q s0 k0 s2"
    if s1: "requests_hold R F area l Q s0 k0 s1" and run: "Some (case transfer_open (rq_session s1) (rw_reason ?w) (rw_open_bi ?w) of
            (s, Inl e) \<Rightarrow> (s1\<lparr>rq_session := s\<rparr>, Inl e)
          | (s, Inr x) \<Rightarrow> (s1\<lparr>rq_session := s, rq_jobs := rq_jobs s1 @
              [\<lparr>job_operation = op, job_stream = x, job_random = rw_random ?w\<rparr>]\<rparr>, Inr ())) = Some (s2, r2)" for s1 s2 r2
  proof -
    obtain s x where x: "transfer_open (rq_session s1) (rw_reason ?w) (rw_open_bi ?w) = (s, x)" by fastforce
    have "same_session s0 s"
      using s1 same_session_steps(3) [OF x] by (simp add: requests_hold_def same_session_def)
    show ?thesis
    proof (cases x)
      case (Inl e)
      with x run s1 \<open>same_session s0 s\<close> show ?thesis by (auto simp: requests_hold_def)
    next
      case (Inr y)
      from transfer_open_Inr [OF x [unfolded Inr]] op True
      have "joins R F area l Q s0 k0 \<lparr>job_operation = op, job_stream = y, job_random = rw_random ?w\<rparr>"
        by (auto simp: requests_join_def)
      with x Inr run s1 \<open>same_session s0 s\<close> show ?thesis by (auto simp: requests_hold_def)
    qed
  qed
  moreover from run True have "and_run ?first (\<lambda>st _. Some (case transfer_open (rq_session st) (rw_reason ?w) (rw_open_bi ?w) of
            (s, Inl e) \<Rightarrow> (st\<lparr>rq_session := s\<rparr>, Inl e)
          | (s, Inr x) \<Rightarrow> (st\<lparr>rq_session := s, rq_jobs := rq_jobs st @
              [\<lparr>job_operation = op, job_stream = x, job_random = rw_random ?w\<rparr>]\<rparr>, Inr ()))) = Some (st', r)"
    by (simp add: request_operation_def Let_def)
  ultimately show ?thesis by (rule and_run_invariant [rotated]) 
qed

lemma request_all_holds:
  assumes area: "at k0 (area_root area) = Some []" "at k0 (area_directory area) = Some staging"
    and "requests_hold R F area l Q s0 k0 st" and "\<forall>op \<in> set ops. requests_join R F area l Q s0 k0 W op"
    and "request_all R P F area l W ops st = Some (st', r)"
  shows "requests_hold R F area l Q s0 k0 st'"
  using assms(3-)
proof (induction ops arbitrary: st)
  case (Cons op ops)
  from Cons.prems(3) have run: "and_run (request_operation R P F area l W op st) (\<lambda>st _. request_all R P F area l W ops st) = Some (st', r)"
    by simp
  from run show ?case
  proof (rule and_run_invariant)
    show "requests_hold R F area l Q s0 k0 s" if "request_operation R P F area l W op st = Some (s, x)" for s x
      using request_operation_holds [OF area Cons.prems(1) _ that] Cons.prems(2) by simp
  qed (use Cons.IH Cons.prems(2) in auto)
qed simp

lemma join_all_holds:
  assumes area: "at k0 (area_root area) = Some []" "at k0 (area_directory area) = Some staging"
    and "requests_hold R F area l Q s0 k0 st" and "join_all R P F area l order st = Some (st', r)"
  shows "requests_hold R F area l Q s0 k0 st'"
  using assms(3-)
proof (induction "length (rq_jobs st)" arbitrary: st rule: less_induct)
  case less
  show ?case
  proof (cases "rq_jobs st = []")
    case True
    with less.prems show ?thesis by (simp add: join_all.simps [of _ _ _ _ _ _ st])
  next
    case False
    with less.prems(2) have run: "and_run (join_job R P F area l (order (length (rq_jobs st))) st)
        (\<lambda>st _. join_all R P F area l order st) = Some (st', r)"
      by (simp add: join_all.simps [of _ _ _ _ _ _ st])
    from run show ?thesis
    proof (rule and_run_invariant)
      show "requests_hold R F area l Q s0 k0 s" if "join_job R P F area l (order (length (rq_jobs st))) st = Some (s, x)" for s x
        using join_job_holds [OF area less.prems(1) that] .
      show "requests_hold R F area l Q s0 k0 st'"
        if "join_job R P F area l (order (length (rq_jobs st))) st = Some (s, Inr x)"
          "requests_hold R F area l Q s0 k0 s" "join_all R P F area l order s = Some (st', r)" for s x
        using less.hyps [OF _ that(2,3)] join_job_fewer [OF that(1)] by auto
    qed
  qed
qed


lemma joins_any:
  "path_ok (operation_path (job_operation j)) \<Longrightarrow> is_upsert_file (job_operation j) \<Longrightarrow> joins R F area l (\<lambda>_ _. True) s0 k0 j"
  by (simp add: joins_def)

lemma request_files_holds:
  assumes root: "at k root = Some []" and run: "request_files R P F l W order root ops s k = Some (st, r)"
    and same: "same_session s0 s"
    and ops: "\<And>area k0 op. staging_area_new P root k = (k0, Inr area) \<Longrightarrow> op \<in> set ops \<Longrightarrow> requests_join R F area l Q s0 k0 W op"
  shows "\<exists>k0. frame {staging} {[]} (tree k) (tree k0) \<and> keeps at k k0 \<and> holding tree at Q k0 (rq_pending st) (rq_files st)"
proof -
  obtain k0 ra where 1: "staging_area_new P root k = (k0, ra)" by fastforce
  note a = staging_area_new_law [OF root 1]
  let ?st = "\<lparr>rq_session = s, rq_files = k0, rq_jobs = [], rq_pending = []\<rparr>"
  have "holding tree at Q k0 (rq_pending st) (rq_files st)"
  proof (cases ra)
    case (Inl e)
    with run 1 show ?thesis by (auto simp: request_files_def holding_def)
  next
    case (Inr area)
    then have area: "at k0 (area_root area) = Some []" "at k0 (area_directory area) = Some staging"
      using a keepsD [OF conjunct1 [OF conjunct2 [OF a]] root] by simp_all
    from run 1 Inr have "and_run (request_all R P F area l W ops ?st) (\<lambda>st _. join_all R P F area l order st) = Some (st, r)"
      by (simp add: request_files_def)
    then have "requests_hold R F area l Q s0 k0 st"
    proof (rule and_run_invariant)
      have "requests_hold R F area l Q s0 k0 ?st" using same by (simp add: requests_hold_def holding_def)
      then show "requests_hold R F area l Q s0 k0 s1" if "request_all R P F area l W ops ?st = Some (s1, r1)" for s1 r1
        using request_all_holds [OF area _ _ that] ops 1 Inr by blast
      show "requests_hold R F area l Q s0 k0 st" if "requests_hold R F area l Q s0 k0 s1" "join_all R P F area l order s1 = Some (st, r)" for s1
        using join_all_holds [OF area that] .
    qed
    then show ?thesis by (simp add: requests_hold_def)
  qed
  with a show ?thesis by blast
qed

end

section \<open>What is staged is what was planned\<close>

text \<open>The operations so far are staged or under way.\<close>

definition accounted :: "('s, 'fd) posix \<Rightarrow> Operation list \<Rightarrow> ('s, 'fd) requesting \<Rightarrow> bool" where
  "accounted P ops st \<longleftrightarrow>
     (\<exists>xs. (\<forall>k. stage_all P xs [] k = (k, Inr (rq_pending st))) \<and>
        mset (map fst xs) + mset (map job_operation (rq_jobs st)) = mset ops)"

lemma stage_all_snoc:
  "stage_all P xs changes k = (k, Inr c) \<Longrightarrow> stage_change P op f c k = (k, Inr c') \<Longrightarrow>
     stage_all P (xs @ [(op, f)]) changes k = (k, Inr c')"
proof (induction xs arbitrary: changes)
  case (Cons x xs)
  obtain q g where "x = (q, g)" by (cases x)
  with Cons show ?case by (auto simp: result_simps stage_change_Inr)
qed auto

lemma stage_pending_accounted:
  assumes "\<forall>k. stage_all P xs [] k = (k, Inr (rq_pending st))" and "stage_pending P op f st = (st', Inr u)"
  shows "\<forall>k. stage_all P (xs @ [(op, f)]) [] k = (k, Inr (rq_pending st'))"
proof
  fix k
  from assms(2) obtain k' where "stage_change P op f (rq_pending st) (rq_files st) = (k', Inr (rq_pending st'))"
    by (auto simp: stage_pending_def split: prod.splits sum.splits)
  then have "stage_change P op f (rq_pending st) k = (k, Inr (rq_pending st'))" by (simp add: stage_change_Inr)
  with stage_all_snoc [OF spec [OF assms(1)]] show "stage_all P (xs @ [(op, f)]) [] k = (k, Inr (rq_pending st'))" .
qed

lemma join_job_accounted:
  assumes a: "accounted P ops st" and run: "join_job R P F area l n st = Some (st', Inr u)"
  shows "accounted P ops st'"
proof -
  let ?i = "n mod length (rq_jobs st)"
  let ?j = "rq_jobs st ! ?i"
  have ne: "rq_jobs st \<noteq> []" using run by (auto simp: join_job_def split: if_splits)
  let ?run = "receive_file R P F (rq_session st) area (job_random ?j) (operation_id (job_operation ?j))
      (operation_path (job_operation ?j)) (operation_update (job_operation ?j)) l (job_stream ?j) (rq_files st)"
  obtain f st1 where sp: "stage_pending P (job_operation ?j) f st1 = (st', Inr u)"
    and st1: "rq_pending st1 = rq_pending st" "rq_jobs st1 = remove_nth ?i (rq_jobs st)"
  proof (cases ?run)
    case None
    with run ne show ?thesis by (simp add: join_job_def Let_def)
  next
    case (Some y)
    obtain x k' r' where y: "y = ((x, k'), r')" by (metis prod.collapse)
    with Some run ne obtain rf where "r' = Inr rf" by (cases r') (auto simp: join_job_def Let_def)
    with Some y run ne show ?thesis
      by (intro that [of "Some (received_file rf)" "st\<lparr>rq_jobs := remove_nth ?i (rq_jobs st),
          rq_session := drop_permit (rq_session st), rq_files := k'\<rparr>"]) (simp_all add: join_job_def Let_def)
  qed
  from a obtain xs where xs: "\<forall>k. stage_all P xs [] k = (k, Inr (rq_pending st))"
    "mset (map fst xs) + mset (map job_operation (rq_jobs st)) = mset ops" unfolding accounted_def by blast
  have "?i < length (rq_jobs st)" using ne by simp
  from arg_cong [where f = "image_mset job_operation", OF mset_remove_nth [OF this]]
  have "add_mset (job_operation ?j) (mset (map job_operation (remove_nth ?i (rq_jobs st)))) = mset (map job_operation (rq_jobs st))"
    by simp
  moreover have "rq_jobs st' = remove_nth ?i (rq_jobs st)" using stage_pending_jobs [OF sp] st1(2) by simp
  ultimately have "mset (map fst (xs @ [(job_operation ?j, f)])) + mset (map job_operation (rq_jobs st')) = mset ops"
    using xs(2) by (simp flip: xs(2))
  moreover have "\<forall>k. stage_all P (xs @ [(job_operation ?j, f)]) [] k = (k, Inr (rq_pending st'))"
    by (rule stage_pending_accounted [OF _ sp]) (use xs(1) st1(1) in simp)
  ultimately show ?thesis unfolding accounted_def by blast
qed

lemma request_operation_accounted:
  assumes a: "accounted P ops st" and run: "request_operation R P F area l W op st = Some (st', Inr u)"
  shows "accounted P (ops @ [op]) st'"
proof (cases "is_upsert_file op")
  case False
  with run have sp: "stage_pending P op None st = (st', Inr u)" by (simp add: request_operation_def)
  from a obtain xs where xs: "\<forall>k. stage_all P xs [] k = (k, Inr (rq_pending st))"
    "mset (map fst xs) + mset (map job_operation (rq_jobs st)) = mset ops" unfolding accounted_def by blast
  from xs(2) stage_pending_jobs [OF sp]
  have "mset (map fst (xs @ [(op, None)])) + mset (map job_operation (rq_jobs st')) = mset (ops @ [op])"
    by (simp flip: xs(2))
  with stage_pending_accounted [OF xs(1) sp] show ?thesis unfolding accounted_def by blast
next
  case True
  let ?w = "W (operation_id op)"
  from run True obtain st1 where 1: "(if length (rq_jobs st) \<ge> unat (max_parallel_transfers l)
        then join_job R P F area l (rw_join ?w) st else Some (st, Inr ())) = Some (st1, Inr ())"
    and 2: "(case transfer_open (rq_session st1) (rw_reason ?w) (rw_open_bi ?w) of
            (s, Inl e) \<Rightarrow> (st1\<lparr>rq_session := s\<rparr>, Inl e)
          | (s, Inr x) \<Rightarrow> (st1\<lparr>rq_session := s, rq_jobs := rq_jobs st1 @
              [\<lparr>job_operation = op, job_stream = x, job_random = rw_random ?w\<rparr>]\<rparr>, Inr ())) = (st', Inr u)"
    by (auto simp: request_operation_def Let_def and_run_eq_Inr)
  have "accounted P ops st1" using 1 a join_job_accounted [OF a] by (auto split: if_splits)
  moreover from 2 obtain x where "rq_pending st' = rq_pending st1" "map job_operation (rq_jobs st') = map job_operation (rq_jobs st1) @ [op]"
    by (auto split: prod.splits sum.splits)
  ultimately show ?thesis unfolding accounted_def by auto
qed

lemma request_all_accounted:
  "accounted P done_ops st \<Longrightarrow> request_all R P F area l W ops st = Some (st', Inr u) \<Longrightarrow> accounted P (done_ops @ ops) st'"
proof (induction ops arbitrary: done_ops st)
  case (Cons op ops)
  from Cons.prems(2) obtain st1 where 1: "request_operation R P F area l W op st = Some (st1, Inr ())"
    "request_all R P F area l W ops st1 = Some (st', Inr u)" by (auto simp: and_run_eq_Inr)
  from Cons.IH [OF request_operation_accounted [OF Cons.prems(1) 1(1)] 1(2)] show ?case by simp
qed simp

lemma join_all_accounted:
  "accounted P ops st \<Longrightarrow> join_all R P F area l order st = Some (st', Inr u) \<Longrightarrow> accounted P ops st' \<and> rq_jobs st' = []"
proof (induction "length (rq_jobs st)" arbitrary: st rule: less_induct)
  case less
  show ?case
  proof (cases "rq_jobs st = []")
    case True
    with less.prems show ?thesis by (simp add: join_all.simps [of _ _ _ _ _ _ st])
  next
    case False
    with less.prems(2) obtain st1 where 1: "join_job R P F area l (order (length (rq_jobs st))) st = Some (st1, Inr ())"
      "join_all R P F area l order st1 = Some (st', Inr u)"
      by (auto simp: join_all.simps [of _ _ _ _ _ _ st] and_run_eq_Inr)
    from less.hyps [OF _ join_job_accounted [OF less.prems(1) 1(1)] 1(2)] join_job_fewer [OF 1(1)] show ?thesis by auto
  qed
qed

text \<open>A requesting task that succeeds has staged exactly the operations it took.\<close>

lemma request_files_staged:
  assumes "request_files R P F l W order root ops s k = Some (st, Inr u)"
  shows "\<exists>xs. mset (map fst xs) = mset ops \<and> (\<forall>k. stage_all P xs [] k = (k, Inr (rq_pending st)))"
proof -
  from assms obtain k0 area st1 where
      "request_all R P F area l W ops \<lparr>rq_session = s, rq_files = k0, rq_jobs = [], rq_pending = []\<rparr> = Some (st1, Inr ())"
      "join_all R P F area l order st1 = Some (st, Inr u)"
    by (auto simp: request_files_def and_run_eq_Inr split: prod.splits sum.splits)
  moreover have "accounted P [] \<lparr>rq_session = s, rq_files = k0, rq_jobs = [], rq_pending = []\<rparr>"
    unfolding accounted_def by (intro exI [of _ "[]"]) simp
  ultimately have "accounted P ops st" "rq_jobs st = []"
    using request_all_accounted join_all_accounted by fastforce+
  then show ?thesis by (auto simp: accounted_def)
qed

end
