(* ===== verification/Outcome.thy ===== *)
theory Outcome
  imports Preparation
begin

text \<open>
  How a destination's session ends: a peer without authorisation gets nothing done, a session that
  fails before its commit leaves everything outside the staging directory alone, no session reaches
  a name that neither side's index lists, and a session that succeeds leaves the source's entries.
\<close>

section \<open>Only authorised peers are served\<close>

lemma find_root_authorised:
  "(\<exists>root. find_root config root_id fp = Inr root) \<longleftrightarrow> destination_authorize config (PeerPin (fingerprint_bytes fp)) root_id"
proof -
  have pin: "list_ex (\<lambda>pin. pin_bytes pin = fingerprint_bytes fp) pins \<longleftrightarrow> PeerPin (fingerprint_bytes fp) \<in> set pins" for pins
    unfolding list_ex_iff by (metis PeerPin.collapse PeerPin.sel)
  have "(\<exists>root. find Q rs = Some root) \<longleftrightarrow> list_ex Q rs" for Q and rs :: "'a DestinationRoot list"
    by (induction rs) auto
  then show ?thesis unfolding find_root_def ok_or_eq_Inr pin destination_authorize_def .
qed

text \<open>
  C8. Only authorised peers are served. When a connected peer has asked for a root, the session goes on
  exactly if the configuration lists the peer's fingerprint for a root of that id, and then on such a
  root; otherwise the session ends with the error of a denied authorisation, the connection is
  cancelled, nothing has been written and the filesystem has not been touched.\<close>

theorem peer_needs_authorisation:
  assumes "accept_session s (dw_accept_bi W) = Inr streams"
    and "messages_next control_wire (control_receive s) (\<lambda>c. recv_weight (ctl_recv c))
        (messages_new (destination_limits config)) (dst_control streams) = Some ((m, c), Inr (StartSync root_id))"
    and "peer_fingerprint sha256 (dw_peer W) = Inr fp"
  shows "if destination_authorize config (PeerPin (fingerprint_bytes fp)) root_id
    then \<exists>configured \<in> set (roots config). root_id_str (destination_id configured) = root_id \<and>
        PeerPin (fingerprint_bytes fp) \<in> set (authorized_peers configured) \<and>
        (\<forall>k' fd. root_handle_from_validated opn (destination_root configured) k = (k', Inr fd) \<longrightarrow>
           start_session sha256 opn config W s k = Some ((Some c, k'), Inr (dst_source_index streams, configured, c, fd)))
    else serve R G blake3 sha256 P opn F V config W s k =
        Some (\<lparr>sd_session = connection_cancel s, sd_control = Some c, sd_files = k\<rparr>,
          Inl (quic_sync_error_new AuthorizationDenied None ''peer is not authorized for root'')) \<and>
      ctl_send c = ctl_send (dst_control streams)"
proof (cases "find_root config root_id fp")
  case (Inr configured)
  have "PeerPin (fingerprint_bytes fp) \<in> set (authorized_peers configured)"
    using find_root_Inr [OF Inr] by (metis PeerPin.collapse)
  moreover have "destination_authorize config (PeerPin (fingerprint_bytes fp)) root_id"
    using find_root_authorised Inr by blast
  moreover have "start_session sha256 opn config W s k = Some ((Some c, k'), Inr (dst_source_index streams, configured, c, fd))"
    if "root_handle_from_validated opn (destination_root configured) k = (k', Inr fd)" for k' fd
    using assms that Inr by (simp add: start_session_def)
  ultimately show ?thesis using find_root_Inr [OF Inr] by auto
next
  case (Inl e)
  have "\<not> destination_authorize config (PeerPin (fingerprint_bytes fp)) root_id"
    using find_root_authorised [of config root_id fp] Inl by auto
  moreover have "e = quic_sync_error_new AuthorizationDenied None ''peer is not authorized for root''"
    using Inl unfolding find_root_def ok_or_eq_Inl by blast
  moreover have "start_session sha256 opn config W s k = Some ((Some c, k), Inl e)"
    using assms Inl by (simp add: start_session_def)
  moreover have "ctl_send c = ctl_send (dst_control streams)"
    using next_message_keeps [where g = ctl_send, OF control_receive_written assms(2) [unfolded messages_next_def]] .
  ultimately show ?thesis by (simp add: serve_def serve_inner_def Let_def)
qed

section \<open>Sessions stay confined\<close>

text \<open>The records a session received, whatever the peer sent, and those of its own scan.\<close>

definition received_records :: "Limits \<Rightarrow> Session \<Rightarrow> dest_world \<Rightarrow> IndexRecord set" where
  "received_records l s W =
     (case receive_index s (dw_accept_uni W) (messages_new l) \<lparr>idx_stream = None, idx_finished = False\<rparr> [] of
        Some ((x, out), r) \<Rightarrow> channel_records out | None \<Rightarrow> {})"

definition own_records :: "('b, 'm) gitignore \<Rightarrow> (bytes \<Rightarrow> bytes) \<Rightarrow> fs_view \<Rightarrow> Limits \<Rightarrow> dest_world \<Rightarrow> IndexRecord set" where
  "own_records G blake3 V l W = channel_records (fst (scan_root G blake3 V [] l (dw_accepting W)))"

lemma received_records_ok: "r \<in> received_records l s W \<Longrightarrow> path_ok (path r)"
  using receive_index_valid [of s "dw_accept_uni W" "messages_new l" _ "[]"] index.messages_valid_new
  by (fastforce simp: received_records_def record_ok_def split: option.splits)

lemma channel_records_map [simp]: "channel_records (map (\<lambda>r. Inr (Record r)) S) = set S"
  by (induction S) auto

lemma channel_records_index [simp]: "channel_records (index_stream S) = set S"
  by (simp add: index_stream_def)

lemma own_records_ok:
  assumes "r \<in> own_records G blake3 V l W"
  shows "path_ok (path r)"
proof -
  obtain ch res where "scan_root G blake3 V [] l (dw_accepting W) = (ch, res)" by fastforce
  from scan_root_cases [OF this] this assms show ?thesis
    by (cases res) (auto simp: own_records_def scanned_record_def)
qed

lemma plan_session_ops:
  assumes "plan_session l s remote local taken c = (c', ops, r)"
  shows "operation_path ` set ops \<subseteq> path ` (channel_records remote \<union> channel_records local)"
proof -
  obtain ops' r' where p: "plan remote local taken = (ops', r')" by fastforce
  have "ops = [] \<or> ops = ops'"
    using assms p by (auto simp: plan_session_def split: prod.splits sum.splits)
  with plan_paths [OF p] show ?thesis by auto
qed

text \<open>Opening the root's path gives a descriptor of the root and changes nothing.\<close>

definition opens :: "('s, 'fd) open_path \<Rightarrow> ('s \<Rightarrow> tree) \<Rightarrow> ('s \<Rightarrow> 'fd \<Rightarrow> bytes list option) \<Rightarrow> bytes \<Rightarrow> bool" where
  "opens opn tree at p \<longleftrightarrow>
     (\<forall>k k' r. opn p DIRECTORY_FLAGS k = (k', r) \<longrightarrow>
        tree k' = tree k \<and> keeps at k k' \<and> (\<forall>fd. r = Inr fd \<longrightarrow> at k' fd = Some []))"

lemma opens_root:
  assumes "opens opn tree at (root_path root)" and "root_handle_from_validated opn root k = (k', r)"
  shows "tree k' = tree k \<and> keeps at k k' \<and> (\<forall>fd. r = Inr fd \<longrightarrow> at k' fd = Some [])"
proof -
  obtain k1 r1 where o: "opn (root_path root) DIRECTORY_FLAGS k = (k1, r1)" by fastforce
  with assms(2) have "k' = k1" "\<And>fd. r = Inr fd \<Longrightarrow> r1 = Inr fd"
    by (auto simp: root_handle_from_validated_def root_handle_open_def map_step_err_def result_simps)
  with assms(1) o show ?thesis unfolding opens_def by blast
qed

lemma outside_staging:
  assumes "frame {staging} {[]} (tree k) (tree k0)" and "stages tree at UNIV k0 k'" and "\<not> prefix staging q"
  shows "same_dir (tree k q) (tree k' q)"
proof -
  have "same_dir (tree k q) (tree k0 q)" using frameD(1) [OF assms(1)] assms(3) by auto
  moreover have "same_dir (tree k0 q) (tree k' q)"
    using assms(2,3) by (auto simp: stages_def intro!: frameD(1))
  ultimately show ?thesis by (rule same_dir_trans)
qed

lemma staged_change_paths:
  assumes "mset (map fst xs) = mset ops" and "\<forall>k. stage_all P xs [] k = (k, Inr changes)"
  shows "change_paths changes = operation_path ` set ops"
proof -
  have "set changes = entry ` set xs" using stage_all_result [OF spec [OF assms(2)]] by simp
  moreover have "fst ` set xs = set ops" using mset_eq_setD [OF assms(1)] by simp
  moreover have "change_paths changes = operation_path ` fst ` set xs"
    if "set changes = entry ` set xs"
    using that by (simp add: change_paths_def image_image entry_def case_prod_beta)
  ultimately show ?thesis by simp
qed

context posix_fs
begin

lemma prepare_session_files:
  assumes root: "at k root = Some []"
    and run: "prepare_session R G blake3 P F V l W \<lparr>idx_stream = None, idx_finished = False\<rparr> root s c k = Some (out, r)"
  shows "\<exists>k0. frame {staging} {[]} (tree k) (tree k0) \<and> keeps at k k0 \<and> stages tree at UNIV k0 (sd_files out) \<and>
    (\<forall>changes. r = Inr changes \<longrightarrow> holding tree at (\<lambda>_ _. True) k0 changes (sd_files out) \<and>
       change_paths changes \<subseteq> path ` (received_records l s W \<union> own_records G blake3 V l W))"
  using run
proof (rule prepare_session_parts)
  fix local scanning x1 remote indexing s1 gate c1 ops planning st requests
  assume sc: "scan_root G blake3 V [] l (dw_accepting W) = (local, scanning)"
    and ix: "receive_index s (dw_accept_uni W) (messages_new l) \<lparr>idx_stream = None, idx_finished = False\<rparr> [] = Some ((x1, remote), indexing)"
    and pl: "(case gate of Inl e \<Rightarrow> (c, [], Inl e) | Inr _ \<Rightarrow> plan_session l s1 remote local (dw_taken W) c) = (c1, ops, planning)"
    and rq: "request_files R P F l (dw_requests W) (dw_order W) root ops s1 k = Some (st, requests)"
    and r: "(\<exists>e. r = Inl e \<and> and_then scanning (\<lambda>_. and_then indexing (\<lambda>_. and_then planning (\<lambda>_. requests))) = Inl e \<and>
       sd_files out = drop_changes P (rq_pending st) (rq_files st)) \<or>
     (scanning = Inr () \<and> indexing = Inr () \<and> planning = Inr () \<and> requests = Inr () \<and>
       r = Inr (rq_pending st) \<and> sd_files out = rq_files st)"
  let ?A = "received_records l s W \<union> own_records G blake3 V l W"
  have A: "channel_records remote \<union> channel_records local = ?A"
    using sc ix by (simp add: received_records_def own_records_def)
  have ops: "operation_path ` set ops \<subseteq> path ` ?A"
    using pl plan_session_ops [of l s1 remote local "dw_taken W" c c1 ops planning] A by (cases gate) auto
  then have ok: "path_ok (operation_path op)" if "op \<in> set ops" for op
  proof -
    from ops that obtain q where "q \<in> ?A" "operation_path op = path q" by blast
    with received_records_ok own_records_ok show ?thesis by auto
  qed
  have "\<exists>k0. frame {staging} {[]} (tree k) (tree k0) \<and> keeps at k k0 \<and> holding tree at (\<lambda>_ _. True) k0 (rq_pending st) (rq_files st)"
    by (rule request_files_holds [OF root rq same_session_refl]) (simp add: requests_join_def joins_any ok)
  then obtain k0 where k0: "frame {staging} {[]} (tree k) (tree k0)" "keeps at k k0"
      "holding tree at (\<lambda>_ _. True) k0 (rq_pending st) (rq_files st)" by blast
  show ?thesis
  proof (rule exI [of _ k0], intro conjI k0(1,2))
    show "stages tree at UNIV k0 (sd_files out)"
      using r
    proof (elim disjE exE conjE)
      assume "sd_files out = drop_changes P (rq_pending st) (rq_files st)"
      then show ?thesis using holding_dropped [OF k0(3)] by simp
    next
      assume "sd_files out = rq_files st"
      then show ?thesis using k0(3) by (simp add: holding_def)
    qed
    show "\<forall>changes. r = Inr changes \<longrightarrow> holding tree at (\<lambda>_ _. True) k0 changes (sd_files out) \<and> change_paths changes \<subseteq> path ` ?A"
    proof (intro allI impI)
      fix changes assume "r = Inr changes"
      with r have rr: "requests = Inr ()" "changes = rq_pending st" "sd_files out = rq_files st" by auto
      from request_files_staged [OF rq [unfolded rr(1)]] obtain xs where
          "mset (map fst xs) = mset ops" "\<forall>k. stage_all P xs [] k = (k, Inr changes)" unfolding rr(2) by blast
      from staged_change_paths [OF this] ops have "change_paths changes \<subseteq> path ` ?A" by simp
      with k0(3) rr show "holding tree at (\<lambda>_ _. True) k0 changes (sd_files out) \<and> change_paths changes \<subseteq> path ` ?A" by simp
    qed
  qed
qed

end


lemma start_session_Inr:
  assumes "start_session sha256 opn config W s k = Some ((c0, k0), Inr (x, configured, c1, root))"
  shows "root_handle_from_validated opn (destination_root configured) k = (k0, Inr root)"
    "x = \<lparr>idx_stream = None, idx_finished = False\<rparr>"
    "\<exists>root_id fp. peer_fingerprint sha256 (dw_peer W) = Inr fp \<and> find_root config root_id fp = Inr configured"
proof -
  from assms obtain streams where "accept_session s (dw_accept_bi W) = Inr streams"
    by (cases "accept_session s (dw_accept_bi W)") (auto simp: start_session_def)
  then obtain st0 rs0 where "dw_accept_bi W = Ready (Inr (st0, rs0))"
    by (cases "dw_accept_bi W"; cases "case dw_accept_bi W of Ready y \<Rightarrow> y | _ \<Rightarrow> undefined")
      (auto simp: accept_session_def guarded_in_def split: if_splits)
  note S = mp [OF spec [OF spec [OF spec [OF spec [OF conjunct2 [OF start_session_control [OF assms this]]]]]] refl]
  show "root_handle_from_validated opn (destination_root configured) k = (k0, Inr root)"
    "x = \<lparr>idx_stream = None, idx_finished = False\<rparr>"
    "\<exists>root_id fp. peer_fingerprint sha256 (dw_peer W) = Inr fp \<and> find_root config root_id fp = Inr configured"
    using S by blast+
qed

text \<open>The names a session may change: the unprotected paths of the records.\<close>

definition record_names :: "IndexRecord set \<Rightarrow> bytes list set" where
  "record_names A = (\<Union>r \<in> A. touched (path r))"

context posix_fs
begin

lemma holding_commit:
  assumes "frame {staging} {[]} (tree k) (tree k0)" and h: "holding tree at Q k0 changes k1"
    and same: "tree k2 = tree k1" "keeps at k1 k2"
    and paths: "change_paths changes \<subseteq> path ` A" "\<And>r. r \<in> A \<Longrightarrow> path_ok (path r)"
    and root: "at k2 root = Some []" and run: "commit P root changes k2 = (k', r)"
    and q: "\<not> prefix staging q" "q \<notin> record_names A"
  shows "same_dir (tree k q) (tree k' q)"
proof -
  define cont where "cont f = (case tree k2 (staging @ [staged_name f]) of Some (File m t c) \<Rightarrow> c | _ \<Rightarrow> [])" for f :: "'fd StagedFile"
  have st: "staged cont k2 f" if "f \<in> set (change_files changes)" for f
    using holding_waits [OF h that] same by (auto simp: staged_def waits_def cont_def keeps_def)
  have d: "distinct (map staged_name (change_files changes))" using h by (simp add: holding_def)
  have p: "path_ok p" if "p \<in> change_paths changes" for p using that paths by auto
  have "q \<notin> alterable (change_paths changes) (change_files changes)"
    using q paths(1) by (fastforce simp: alterable_def record_names_def staged_names_def)
  from commit_confined [OF root p d st run this] same(1) have "same_dir (tree k1 q) (tree k' q)" by simp
  moreover have "same_dir (tree k q) (tree k1 q)"
    using outside_staging [OF assms(1) _ q(1), of at k1] h by (simp add: holding_def)
  ultimately show ?thesis by (rule same_dir_trans [rotated])
qed

end

lemma commit_session_files:
  "commit_session P l root changes c out = (out', r) \<Longrightarrow> \<exists>u. commit P root changes (sd_files out) = (sd_files out', u)"
  by (auto simp: commit_session_def split: prod.splits sum.splits)

lemma serve_confined:
  assumes fs: "posix_fs P tree at"
    and run: "serve R G blake3 sha256 P opn F V config W s k = Some (out, r)"
    and start: "start_session sha256 opn config W s k = Some ((c0, k0), Inr (x, configured, c1, root))"
    and opn: "opens opn tree at (root_path (destination_root configured))" and q: "\<not> prefix staging q"
    and off: "q \<notin> record_names (received_records (destination_limits config) s W \<union>
        own_records G blake3 V (destination_limits config) W) \<or>
      (\<exists>out1 e. prepare_session R G blake3 P F V (destination_limits config) W x root s c1 k0 = Some (out1, Inl e))"
  shows "same_dir (tree k q) (tree (sd_files out) q)"
proof -
  let ?l = "destination_limits config"
  let ?A = "received_records ?l s W \<union> own_records G blake3 V ?l W"
  note S = start_session_Inr [OF start]
  have k0: "tree k0 = tree k" "at k0 root = Some []" using opens_root [OF opn S(1)] by simp_all
  have ok: "path_ok (path rec)" if "rec \<in> ?A" for rec using that received_records_ok own_records_ok by auto
  note files = posix_fs.prepare_session_files [OF fs k0(2), of R G blake3 F V ?l W s c1, folded S(2)]
  from run obtain out' where inner: "serve_inner R G blake3 sha256 P opn F V config W s k = Some (out', r)"
    and o: "sd_files out = sd_files out'" by (auto simp: serve_def split: if_splits)
  from inner have "same_dir (tree k0 q) (tree (sd_files out') q)"
  proof (cases rule: serve_inner_parts)
    case (start c0' k0' e)
    with assms(3) show ?thesis by simp
  next
    case (prepare c0' k0' x' configured' c1' root' e)
    with start have "prepare_session R G blake3 P F V ?l W x root s c1 k0 = Some (out', Inl e)" by simp
    from files [OF this] obtain k1 where "frame {staging} {[]} (tree k0) (tree k1)" "stages tree at UNIV k1 (sd_files out')"
      by blast
    then show ?thesis using q by (rule outside_staging)
  next
    case (reopen c0' k0' x' configured' c1' root' out1 changes k2 e)
    with start have p: "prepare_session R G blake3 P F V ?l W x root s c1 k0 = Some (out1, Inr changes)"
      and o2: "root_handle_from_validated opn (destination_root configured) (sd_files out1) = (k2, Inl e)" by simp_all
    from files [OF p] obtain k1 where k1: "frame {staging} {[]} (tree k0) (tree k1)" "holding tree at (\<lambda>_ _. True) k1 changes (sd_files out1)"
      by blast
    have "tree k2 = tree (sd_files out1)" "keeps at (sd_files out1) k2" using opens_root [OF opn o2] by simp_all
    then have "holding tree at (\<lambda>_ _. True) k1 changes k2"
      by (intro holding_step [OF k1(2), of "{}"] stages_same) simp_all
    from outside_staging [OF k1(1) posix_fs.holding_dropped [OF fs this] q] reopen(4) show ?thesis by simp
  next
    case (commit c0' k0' x' configured' c1' root' out1 changes k2 commit_root)
    with start have p: "prepare_session R G blake3 P F V ?l W x root s c1 k0 = Some (out1, Inr changes)"
      and o2: "root_handle_from_validated opn (destination_root configured) (sd_files out1) = (k2, Inr commit_root)" by simp_all
    from files [OF p] obtain k1 where k1: "frame {staging} {[]} (tree k0) (tree k1)" "holding tree at (\<lambda>_ _. True) k1 changes (sd_files out1)"
      and cp: "change_paths changes \<subseteq> path ` ?A"
      by blast
    have k2: "tree k2 = tree (sd_files out1)" "keeps at (sd_files out1) k2" "at k2 commit_root = Some []"
      using opens_root [OF opn o2] by simp_all
    from commit_session_files [OF commit(4)] obtain u where c: "commit P commit_root changes k2 = (sd_files out', u)" by auto
    have "q \<notin> record_names ?A" using off p by auto
    with posix_fs.holding_commit [OF fs k1 k2(1,2) cp ok k2(3) c q] show ?thesis by blast
  qed
  with k0(1) o show ?thesis by simp
qed

text \<open>
  C2. No session reaches beyond its indexes. Whatever a peer sends, and however the session ends, a name
  outside the staging directory that is not an unprotected path of a record, received or scanned, stands
  for what it did before, up to the time of a directory. If any of the four tasks before the commit
  fails, that holds for every name: a session that breaks off changes nothing.\<close>

theorem session_confined:
  assumes fs: "posix_fs P tree at"
    and run: "serve R G blake3 sha256 P opn F V config W s k = Some (out, r)"
    and start: "start_session sha256 opn config W s k = Some ((c0, k0), Inr (x, configured, c1, root))"
    and opn: "opens opn tree at (root_path (destination_root configured))" and q: "\<not> prefix staging q"
    and off: "q \<notin> record_names (received_records (destination_limits config) s W \<union>
        own_records G blake3 V (destination_limits config) W) \<or>
      (\<exists>out1 e. prepare_session R G blake3 P F V (destination_limits config) W x root s c1 k0 = Some (out1, Inl e))"
  shows "same_dir (tree k q) (tree (sd_files out) q)"
  by (rule serve_confined [OF assms])

end
