(* ===== verification/Convergence.thy ===== *)
theory Convergence
  imports Outcome
begin

text \<open>
  The whole system: a source that scanned its root, sent its index and answered every file request,
  and a destination whose session succeeded. The destination's tree then shows the source's entries.
\<close>

section \<open>What the two sides see\<close>

text \<open>A view shows a tree: what it says of a path is the entry there, and reading a file gives its content.\<close>

definition node_of :: "EntryMetadata \<Rightarrow> bytes option \<Rightarrow> bytes \<Rightarrow> node" where
  "node_of md target c =
     (case kind md of
        Directory \<Rightarrow> Dir (mode md) (sint (mtime_ns md))
      | RegularFile \<Rightarrow> File (mode md) (sint (mtime_ns md)) c
      | Symlink \<Rightarrow> Link (the target) (sint (mtime_ns md)))"

definition depicts :: "fs_view \<Rightarrow> tree \<Rightarrow> (RelativePath \<Rightarrow> bytes) \<Rightarrow> bool" where
  "depicts V t content \<longleftrightarrow>
     (\<forall>p md target. metadata_for V (components p) = Inr (md, target) \<longrightarrow>
        t (components p) = Some (node_of md target (content p))) \<and>
     (\<forall>p es b. open_file V (components p) = Inr es \<and> read_result es = Inr b \<longrightarrow> b = content p)"

lemma entry_node_of: "entry_node content r = node_of (metadata r) (symlink_target r) (content (path r))"
  by (simp add: entry_node_def node_of_def Let_def)

lemma absorb_result: "absorb V p acc es = Inr b \<Longrightarrow> \<exists>c. read_result es = Inr c \<and> b = acc @ c"
  by (induction V p acc es rule: absorb.induct) (auto simp: result_simps split: if_splits)

lemma depicts_entry:
  "depicts V t content \<Longrightarrow> scanned_record blake3 V l r \<Longrightarrow> t (components (path r)) = Some (entry_node content r)"
  by (simp add: depicts_def scanned_record_def entry_node_of)

lemma depicts_digest:
  assumes "depicts V t content" and "scanned_record blake3 V l r" and "record_kind r = RegularFile"
  shows "digest r = Some (Digest (blake3 (content (path r))))"
proof -
  from assms(2,3) obtain es b where "open_file V (components (path r)) = Inr es"
      "absorb V (components (path r)) [] es = Inr b" "digest r = Some (Digest (blake3 b))"
    by (auto simp: scanned_record_def digest_for_def digest_file_def result_simps)
  with absorb_result assms(1) show ?thesis unfolding depicts_def by fastforce
qed

text \<open>Equal records of files are records of equal content, if the digest tells the contents apart.\<close>

lemma equal_records:
  assumes "depicts Vs src content" and "depicts V t old" and "scanned_record blake3 Vs l r" and "scanned_record blake3 V l' r"
    and "\<And>p. blake3 (old p) = blake3 (content p) \<Longrightarrow> old p = content p" and "record_kind r = RegularFile"
  shows "old (path r) = content (path r)"
  using depicts_digest [OF assms(1,3,6)] depicts_digest [OF assms(2,4,6)] assms(5) by simp

section \<open>Transfers that were answered\<close>

text \<open>
  Every file that the destination has received for one of the operations came from a source's transfer
  that succeeded at the other end of the stream, reading the source's content of the path.
\<close>

definition answered ::
    "librsync \<Rightarrow> ('s, 'fd) posix \<Rightarrow> ('s, 'fd) file_reads \<Rightarrow> ('t, 'fe) posix \<Rightarrow> ('t, 'fe) file_reads \<Rightarrow> 'fe \<Rightarrow>
     (RelativePath \<Rightarrow> bytes) \<Rightarrow> Limits \<Rightarrow> Session \<Rightarrow> (OperationId \<Rightarrow> request_world) \<Rightarrow> Operation \<Rightarrow> bool" where
  "answered R P F Ps Fs sroot content l s W op \<longleftrightarrow>
     (let w = W (operation_id op) in
      \<forall>st rs s2 area k x k' rf. is_upsert_file op \<and> rw_open_bi w = Ready (Inr (st, rs)) \<and> same_session s s2 \<and>
        receive_file R P F s2 area (rw_random w) (operation_id op) (operation_path op) (operation_update op) l
          (transfer_stream_new st rs) k = Some ((x, k'), Inr rf) \<longrightarrow>
        (\<exists>s1 x1 ks x1' ks'. send_file R Ps Fs s1 sroot l x1 ks = Some ((x1', ks'), Inr ()) \<and>
           connected s1 x1 s2 (transfer_stream_new st rs) x1' x \<and>
           (\<forall>k1 fd. open_regular Ps sroot (operation_path op) ks = (k1, Inr (Some fd)) \<longrightarrow>
              read_result (read_to_end Fs k1 fd) = Inr (content (operation_path op)))))"

lemma receive_file_random:
  assumes "receive_file R P F s area rnd i p update l x k = Some ((x', k'), Inr rf)"
  obtains b where "rnd = Some b"
proof (cases rnd)
  case None
  have n: "staging_area_receive P area None content k1 = (k2, r) \<Longrightarrow> isl r" for content k1 k2 r
    by (auto simp: staging_area_receive_def receive_in_def)
  from assms obtain w w1 w2 k2 f where w: "wire_new x l = Inr w" "wire_send s w (request_of i p update) = (w1, Inr ())"
    and body: "(if update then receive_update R P F s area rnd p w1 k else receive_whole P s area rnd w1 k) = Some ((w2, k2), Inr f)"
    by (auto simp: receive_file_def request_of_def result_simps on_wire_Some split: sum.splits)
  have chunk: "0 < wire_chunk_size w1"
    using wire_send_Inr [OF w(2)] wire_new_facts [OF w(1)] by (simp add: wire_sent_def)
  have "\<exists>content k1. staging_area_receive P area rnd content k1 = (k2, Inr f)"
  proof (cases update)
    case True
    with body have "receive_update R P F s area rnd p w1 k = Some ((w2, k2), Inr f)" by simp
    from this chunk show ?thesis by (rule receive_update_out) blast
  next
    case False
    with body have "receive_whole P s area rnd w1 k = Some ((w2, k2), Inr f)" by simp
    then show ?thesis by (rule receive_whole_out) blast
  qed
  with n None show ?thesis by fastforce
qed (use that in blast)

lemma waits_unique: "waits tree at k f c \<Longrightarrow> waits tree at k f d \<Longrightarrow> c = d"
  by (auto simp: waits_def)

lemma answered_joins:
  assumes fs: "posix_fs P tree at" and area: "at k0 (area_root area) = Some []" "at k0 (area_directory area) = Some staging"
    and rsync: "rsync_ok R" and p: "path_ok (operation_path op)" and ans: "answered R P F Ps Fs sroot content l s W op"
  shows "posix_fs.requests_join P tree at R F area l (\<lambda>op c. c = content (operation_path op)) s k0 W op"
  unfolding posix_fs.requests_join_def [OF fs] posix_fs.joins_def [OF fs] job.select_convs
proof (intro impI allI conjI p)
  fix st rs s2 k x k' rf c
  assume op: "is_upsert_file op" and w: "rw_open_bi (W (operation_id op)) = Ready (Inr (st, rs))"
  show "is_upsert_file op" by fact
  assume run: "same_session s s2 \<and> stages tree at UNIV k0 k \<and>
      receive_file R P F s2 area (rw_random (W (operation_id op))) (operation_id op) (operation_path op)
        (operation_update op) l (transfer_stream_new st rs) k = Some ((x, k'), Inr rf)"
    and c: "waits tree at k' (received_file rf) c"
  note st = conjunct1 [OF conjunct2 [OF run]] and rf = conjunct2 [OF conjunct2 [OF run]]
  from rf obtain rnd where rnd: "rw_random (W (operation_id op)) = Some rnd" by (rule receive_file_random)
  from ans op w run obtain s1 x1 ks x1' ks' where a: "send_file R Ps Fs s1 sroot l x1 ks = Some ((x1', ks'), Inr ())"
      "connected s1 x1 s2 (transfer_stream_new st rs) x1' x"
      "\<And>k1 fd. open_regular Ps sroot (operation_path op) ks = (k1, Inr (Some fd)) \<Longrightarrow>
         read_result (read_to_end Fs k1 fd) = Inr (content (operation_path op))"
    unfolding answered_def Let_def by blast
  from transfer_stages [OF fs stages_at [OF st area(1)] stages_at [OF st area(2)] rsync p a(1) rf [unfolded rnd] a(2,3)]
  have "waits tree at k' (received_file rf) (content (operation_path op))" by simp
  with c show "c = content (operation_path op)" by (rule waits_unique)
qed

section \<open>From a prepared session to the tree\<close>

lemma complete_index_unique: "complete S (index_stream T) \<Longrightarrow> S = T"
proof (induction S arbitrary: T)
  case Nil
  then show ?case by (cases T) (auto simp: complete_def index_stream_def)
next
  case (Cons r S)
  then show ?case by (cases T) (auto simp: complete_def index_stream_def)
qed

lemma plan_taken:
  assumes "plan (index_stream S) (index_stream D) taken = (ops, Inr u)"
    and "ascending (map path S)" and "ascending (map path D)"
  shows "ops = number 0 (diff S D)"
  using plan_complete [OF assms(1)] complete_index_unique merge_diff [OF assms(2,3)] by metis

lemma staged_length:
  assumes "stage_all P xs [] k = (k', Inr changes)"
  shows "length xs \<le> 2 ^ 64"
proof -
  have "Destination.stageable xs {}" using stage_all_ok [of "[]" P xs k] assms by auto
  then have "distinct (map (operation_id \<circ> fst) xs)" by (simp add: Destination.stageable_def)
  moreover have "inj operation_id_get" by (metis injI OperationId.expand)
  ultimately have d: "distinct (map (operation_id_get \<circ> operation_id \<circ> fst) xs)"
    by (metis distinct_map inj_on_subset map_map comp_assoc subset_UNIV)
  have "length xs = card (set (map (operation_id_get \<circ> operation_id \<circ> fst) xs))"
    using distinct_card [OF d] by simp
  also have "\<dots> \<le> card (UNIV :: u64 set)" by (rule card_mono) simp_all
  finally show ?thesis by (simp add: card_word)
qed

text \<open>Off the staging directory and apart from the root, a prepared session has changed nothing at all.\<close>

lemma unchanged_entry:
  assumes "frame {staging} {[]} (tree k) (tree k0)" and "stages tree at UNIV k0 k'"
    and "\<not> prefix staging q" and "q \<noteq> []"
  shows "tree k' q = tree k q"
proof -
  have "tree k0 q = tree k q" using frameD(2) [OF assms(1)] assms(3,4) by auto
  moreover have "tree k' q = tree k0 q"
    using assms(2,3) unfolding stages_def by (intro frameD(2)) auto
  ultimately show ?thesis by simp
qed

lemma holding_content:
  assumes "holding tree at (\<lambda>op c. c = content (operation_path op)) k0 changes k"
  defines "cont \<equiv> \<lambda>f. case tree k (staging @ [staged_name f]) of Some (File m t c) \<Rightarrow> c | _ \<Rightarrow> []"
  shows "\<forall>f \<in> set (change_files changes). waits tree at k f (cont f)" "staged_content content cont changes"
proof -
  have c: "cont f = c" if "waits tree at k f c" for f c using that by (auto simp: cont_def waits_def)
  show "\<forall>f \<in> set (change_files changes). waits tree at k f (cont f)"
    using holding_waits [OF assms(1)] c by fastforce
  have "cont f = content (operation_path op)" if "(i, op, Some f) \<in> set changes" for i op f
    using assms(1) that c unfolding holding_def by blast
  then show "staged_content content cont changes"
    by (auto simp: staged_content_def split: option.splits)
qed

lemma committed_tree:
  assumes fs: "posix_fs P tree at" and root: "at k root = Some []"
    and S: "ascending (map path S)" "\<forall>r \<in> set S. scanned_record blake3 Vs l r" "depicts Vs src content"
    and D: "ascending (map path D)" "\<forall>r \<in> set D. scanned_record blake3 V l' r" "depicts V (tree kd) old"
    and digest: "\<And>p. blake3 (old p) = blake3 (content p) \<Longrightarrow> old p = content p"
    and fr: "frame {staging} {[]} (tree kd) (tree k0)"
    and hold: "holding tree at (\<lambda>op c. c = content (operation_path op)) k0 changes k"
    and xs: "mset (map fst xs) = mset (number 0 (diff S D))" "\<forall>k. stage_all P xs [] k = (k, Inr changes)"
    and commit: "commit P root changes k = (k', Inr u)"
  shows "(\<forall>r \<in> set S. same_dir (src (components (path r))) (tree k' (components (path r)))) \<and>
    (\<forall>r \<in> set D. path r \<notin> path ` set S \<longrightarrow> tree k' (components (path r)) = None) \<and>
    (\<forall>q. q \<notin> (components \<circ> path) ` (set S \<union> set D) \<and> \<not> prefix staging q \<longrightarrow> same_dir (tree kd q) (tree k' q))"
proof -
  have paths: "\<forall>r \<in> set S \<union> set D. path_ok (path r) \<and> unprotected (path r)"
    using S(2) D(2) by (auto simp: scanned_record_def)
  have st: "stages tree at UNIV k0 k" "distinct (map staged_name (change_files changes))"
    using hold by (simp_all add: holding_def)
  have dest: "\<forall>r \<in> set D. tree k (components (path r)) = Some (entry_node old r)"
  proof
    fix r assume r: "r \<in> set D"
    have "\<not> prefix staging (components (path r))" "components (path r) \<noteq> []"
      using paths r unprotected_staging by (auto simp: path_ok_def)
    then show "tree k (components (path r)) = Some (entry_node old r)"
      using unchanged_entry [OF fr st(1)] depicts_entry [OF D(3) bspec [OF D(2) r]] by simp
  qed
  have digests: "\<forall>r \<in> set S \<inter> set D. record_kind r = RegularFile \<longrightarrow> old (path r) = content (path r)"
    using equal_records [OF S(3) D(3) _ _ digest] S(2) D(2) by blast
  have len: "length (number 0 (diff S D)) \<le> 2 ^ 64"
    using staged_length [OF spec [OF xs(2)]] mset_eq_length [OF xs(1)] by simp
  note sync = sync_correct [OF fs root S(1) D(1) paths plan_result [OF S(1) D(1)] len xs(1) spec [OF xs(2)] st(2)
      holding_content [OF hold] dest digests commit]
  have "same_dir (tree kd q) (tree k' q)"
    if "q \<notin> (components \<circ> path) ` (set S \<union> set D)" "\<not> prefix staging q" for q
    using same_dir_trans [OF outside_staging [OF fr st(1) that(2)]] sync that by blast
  moreover have "same_dir (src (components (path r))) (tree k' (components (path r)))" if "r \<in> set S" for r
    using sync that depicts_entry [OF S(3)] S(2) by metis
  ultimately show ?thesis using sync by blast
qed

lemma scanned_index_ok:
  assumes "\<forall>r \<in> set S. scanned_record blake3 Vs l r" and "\<And>b. length (blake3 b) = 32"
  shows "\<forall>r. Inr (Record r) \<in> set (index_stream S) \<longrightarrow> index_ok (Record r)"
proof (intro allI impI)
  fix r assume "Inr (Record r) \<in> set (index_stream S)"
  then have r: "scanned_record blake3 Vs l r" using assms(1) by (auto simp: index_stream_def)
  then have "pred_option digest_ok (digest r)" using assms(2)
    by (cases "record_kind r"; cases "symlink_target r")
      (auto simp: scanned_record_def digest_for_def digest_file_def digest_symlink_target_def digest_ok_def result_simps
        dest!: sym [of _ "digest r"])
  with r show "index_ok (Record r)" by (simp add: record_ok_def scanned_record_def)
qed

text \<open>What the four tasks of a session leave when the source's index has arrived and its files were sent.\<close>

lemma session_prepared:
  assumes fs: "posix_fs P tree at" and root: "at k root = Some []" and rsync: "rsync_ok R"
    and S: "ascending (map path S)" "\<forall>r \<in> set S. scanned_record blake3 Vs l r"
    and D: "ascending (map path D)" "\<forall>r \<in> set D. scanned_record blake3 V l r"
    and remote: "receive_index s (dw_accept_uni W) (messages_new l) x [] = Some ((x', index_stream S), Inr ())"
    and local: "scan_root G blake3 V [] l (dw_accepting W) = (index_stream D, Inr v)"
    and transfers: "\<forall>op \<in> set (number 0 (diff S D)). answered R P F Ps Fs sroot content l s (dw_requests W) op"
    and run: "prepare_session R G blake3 P F V l W x root s c k = Some (out, Inr changes)"
  shows "\<exists>k0 xs. frame {staging} {[]} (tree k) (tree k0) \<and>
    holding tree at (\<lambda>op c. c = content (operation_path op)) k0 changes (sd_files out) \<and>
    mset (map fst xs) = mset (number 0 (diff S D)) \<and> (\<forall>k. stage_all P xs [] k = (k, Inr changes))"
  using run
proof (rule prepare_session_parts)
  fix local' scanning x1 remote' indexing s1 gate c1 ops planning st requests
  assume sc: "scan_root G blake3 V [] l (dw_accepting W) = (local', scanning)"
    and ix: "receive_index s (dw_accept_uni W) (messages_new l) x [] = Some ((x1, remote'), indexing)"
    and hs: "confirm_handshake s (dw_handshake W) = (s1, gate)"
    and pl: "(case gate of Inl e \<Rightarrow> (c, [], Inl e) | Inr _ \<Rightarrow> plan_session l s1 remote' local' (dw_taken W) c) = (c1, ops, planning)"
    and rq: "request_files R P F l (dw_requests W) (dw_order W) root ops s1 k = Some (st, requests)"
    and "(\<exists>e. Inr changes = Inl e \<and> and_then scanning (\<lambda>_. and_then indexing (\<lambda>_. and_then planning (\<lambda>_. requests))) = Inl e \<and>
       sd_files out = drop_changes P (rq_pending st) (rq_files st)) \<or>
     (scanning = Inr () \<and> indexing = Inr () \<and> planning = Inr () \<and> requests = Inr () \<and>
       Inr changes = Inr (rq_pending st) \<and> sd_files out = rq_files st)"
  then have r: "planning = Inr ()" "requests = Inr ()" "changes = rq_pending st" "sd_files out = rq_files st" by auto
  from sc ix local remote have ch: "local' = index_stream D" "remote' = index_stream S" by simp_all
  from pl r(1) have "plan_session l s1 remote' local' (dw_taken W) c = (c1, ops, Inr ())" by (cases gate) auto
  then obtain u where "plan remote' local' (dw_taken W) = (ops, Inr u)"
    by (auto simp: plan_session_def split: prod.splits sum.splits)
  then have ops: "ops = number 0 (diff S D)" using plan_taken S(1) D(1) unfolding ch by blast
  have p: "path_ok (operation_path op)" if "op \<in> set ops" for op
    using plan_op [of op 0 S D] that S(2) D(2) ops by (auto simp: scanned_record_def)
  have "\<exists>k0. frame {staging} {[]} (tree k) (tree k0) \<and> keeps at k k0 \<and>
      holding tree at (\<lambda>op c. c = content (operation_path op)) k0 (rq_pending st) (rq_files st)"
  proof (rule posix_fs.request_files_holds [OF fs root rq confirm_handshake_same [OF hs]])
    fix area k0 op
    assume area: "staging_area_new P root k = (k0, Inr area)" and op: "op \<in> set ops"
    note a = posix_fs.staging_area_new_law [OF fs root area]
    have "at k0 (area_root area) = Some []" "at k0 (area_directory area) = Some staging"
      using a keepsD [OF conjunct1 [OF conjunct2 [OF a]] root] by simp_all
    moreover have "answered R P F Ps Fs sroot content l s (dw_requests W) op" using transfers op ops by blast
    ultimately show "posix_fs.requests_join P tree at R F area l (\<lambda>op c. c = content (operation_path op)) s k0 (dw_requests W) op"
      by (rule answered_joins [OF fs _ _ rsync p [OF op]])
  qed
  moreover have "\<exists>xs. mset (map fst xs) = mset ops \<and> (\<forall>k. stage_all P xs [] k = (k, Inr (rq_pending st)))"
    using rq unfolding r(2) by (rule request_files_staged)
  ultimately show ?thesis unfolding r(3,4) ops by blast
qed

lemma serve_inner_success:
  assumes "serve_inner R G blake3 sha256 P opn F V config W s k = Some (out, Inr u)"
    and "start_session sha256 opn config W s k = Some ((c0, k0), Inr (x, configured, c1, root))"
  obtains out1 changes k2 commit_root where
    "prepare_session R G blake3 P F V (destination_limits config) W x root s c1 k0 = Some (out1, Inr changes)"
    "root_handle_from_validated opn (destination_root configured) (sd_files out1) = (k2, Inr commit_root)"
    "commit P commit_root changes k2 = (sd_files out, Inr ())"
  using assms(1)
proof (cases rule: serve_inner_parts)
  case (commit c0' k0' x' configured' c1' root' out1 changes k2 commit_root)
  with assms(2) have "prepare_session R G blake3 P F V (destination_limits config) W x root s c1 k0 = Some (out1, Inr changes)"
      "root_handle_from_validated opn (destination_root configured) (sd_files out1) = (k2, Inr commit_root)" by simp_all
  moreover have "commit P commit_root changes k2 = (sd_files out, Inr ())"
    using commit(4) by (auto simp: commit_session_def split: prod.splits sum.splits)
  ultimately show ?thesis by (rule that)
qed simp_all


end
