(* ===== verification/Programs.thy ===== *)
theory Programs
  imports Identities Outcome
begin

text \<open>
  The two programs, \<open>src/apps/quicsync/src/main.rs\<close> and \<open>src/apps/quicsyncd/src/main.rs\<close>: what they do
  after their arguments are parsed, with the entry points of \<open>transport/quic.rs\<close> and the TLS
  configurations of \<open>auth.rs\<close> that they use. A loop of a program is a function of the list of turns
  that the world gives it; the daemon's has no end of its own. Shown: what \<open>init\<close> prints pairs the two
  sides, and what a daemon can do to its tree over any sequence of connections.
\<close>

section \<open>Client and listener\<close>

text \<open>The builders of rustls, given the verifier, the certificate and the key.\<close>

record 'tls rustls =
  build_client :: "PinnedServerVerifier \<Rightarrow> bytes \<Rightarrow> bytes \<Rightarrow> string + 'tls"
  build_server :: "PinnedClientVerifier \<Rightarrow> bytes \<Rightarrow> bytes \<Rightarrow> string + 'tls"

definition tls_configuration_error :: "string \<Rightarrow> QuicSyncError" where
  "tls_configuration_error e = configuration_error (''configure TLS: '' @ e)"

definition client_tls :: "'tls rustls \<Rightarrow> Identity \<Rightarrow> auth_pin \<Rightarrow> QuicSyncError + 'tls" where
  "client_tls B identity pin =
     map_err tls_configuration_error
       (build_client B (client_tls_verifier pin) (certificate identity) (private_key identity))"

definition server_tls :: "'tls rustls \<Rightarrow> Identity \<Rightarrow> auth_pin list \<Rightarrow> QuicSyncError + 'tls" where
  "server_tls B identity allowed =
     and_then (server_tls_verifier allowed) (\<lambda>verifier.
     map_err tls_configuration_error (build_server B verifier (certificate identity) (private_key identity)))"

record ('addr, 'tls) SourceClient =
  client_address :: 'addr
  client_config :: 'tls
  client_bounds :: TransportBounds

definition source_client_new ::
    "'tls rustls \<Rightarrow> ('d, 'addr) SourceConfig \<Rightarrow> Identity \<Rightarrow> QuicSyncError + ('addr, 'tls) SourceClient" where
  "source_client_new B config identity =
     map_ok (\<lambda>tls. \<lparr>client_address = source_destination config, client_config = tls,
         client_bounds = from_limits (source_limits config)\<rparr>)
       (client_tls B identity (client_pin config))"

definition source_client_connect ::
    "('addr, 'tls, 'crypto, 'ep, 'connecting) quinn \<Rightarrow> ('addr, 'tls) SourceClient \<Rightarrow> bool \<Rightarrow>
     (QuicSyncError + Session) option" where
  "source_client_connect q client canc =
     connect_early_to q (client_address client) (client_config client) (client_bounds client) canc"

definition connect_to ::
    "('addr, 'tls, 'crypto, 'ep, 'connecting) quinn \<Rightarrow> 'addr \<Rightarrow> 'tls \<Rightarrow> TransportBounds \<Rightarrow> bool \<Rightarrow>
     (QuicSyncError + Session) option" where
  "connect_to q address tls bounds canc = dial q address tls bounds canc False"

definition connect ::
    "('addr, 'tls, 'crypto, 'ep, 'connecting) quinn \<Rightarrow> 'tls rustls \<Rightarrow> ('d, 'addr) SourceConfig \<Rightarrow> Identity \<Rightarrow> bool \<Rightarrow>
     (QuicSyncError + Session) option" where
  "connect q B config identity canc =
     (case client_tls B identity (client_pin config) of
        Inl e \<Rightarrow> Some (Inl e)
      | Inr tls \<Rightarrow> connect_to q (source_destination config) tls (from_limits (source_limits config)) canc)"

record 'ep Listener =
  listener_endpoint :: 'ep
  listener_bounds :: TransportBounds
  listener_cancel :: bool

definition listen ::
    "('addr, 'tls, 'crypto, 'ep, 'connecting) quinn \<Rightarrow> 'tls rustls \<Rightarrow> ('d, 'addr) DestinationConfig \<Rightarrow> Identity \<Rightarrow> bool \<Rightarrow>
     (QuicSyncError + 'ep Listener) option" where
  "listen q B config identity canc =
     (case server_tls B identity (listen_pins config) of
        Inl e \<Rightarrow> Some (Inl e)
      | Inr tls \<Rightarrow>
          let bounds = from_limits (destination_limits config) in
          map_option (map_ok (\<lambda>endpoint. \<lparr>listener_endpoint = endpoint, listener_bounds = bounds, listener_cancel = canc\<rparr>))
            (listen_on q (listen_address config) tls bounds))"

definition accept_early ::
    "('addr, 'tls, 'crypto, 'ep, 'connecting) quinn \<Rightarrow> 'ep Listener \<Rightarrow> (ConnectionError + 'connecting) option waiting \<Rightarrow>
     QuicSyncError + Session" where
  "accept_early q L incoming = accept_mode q (listener_bounds L) (listener_cancel L) True incoming"

definition accept ::
    "('addr, 'tls, 'crypto, 'ep, 'connecting) quinn \<Rightarrow> 'ep Listener \<Rightarrow> (ConnectionError + 'connecting) option waiting \<Rightarrow>
     QuicSyncError + Session" where
  "accept q L incoming = accept_mode q (listener_bounds L) (listener_cancel L) False incoming"

text \<open>\<open>local_addr\<close> is what the endpoint answers.\<close>

definition local_address :: "('ep \<Rightarrow> string + 'addr) \<Rightarrow> 'ep Listener \<Rightarrow> QuicSyncError + 'addr" where
  "local_address local_addr L = map_err (\<lambda>e. unavailable (''read local address: '' @ e)) (local_addr (listener_endpoint L))"

section \<open>Both programs\<close>

text \<open>
  \<open>Path::parent\<close>, on the reversed bytes of a path: separators and \<open>.\<close> at its end do not count, and
  the root has no parent.
\<close>

fun trim_rev :: "bytes \<Rightarrow> bytes" where
  "trim_rev (c # d # r) =
     (if c = 47 then trim_rev (d # r) else if c = 46 \<and> d = 47 then trim_rev (d # r) else c # d # r)"
| "trim_rev r = r"

definition path_parent :: "bytes \<Rightarrow> bytes option" where
  "path_parent p =
     (let r = trim_rev (rev p) in
      if r = [] \<or> r = [47] then None else Some (rev (trim_rev (dropWhile (\<lambda>c. c \<noteq> 47) r))))"

text \<open>
  An identity lives in a directory; \<open>stores d\<close> is the directory \<open>d\<close> as the identity code reaches it.
  The programs print an error with its \<open>Display\<close>.
\<close>

definition init_command ::
    "(bytes \<Rightarrow> bytes) \<Rightarrow> 'k ed25519 \<Rightarrow> (bytes \<Rightarrow> 'i id_store) \<Rightarrow> bytes \<Rightarrow> 'i \<Rightarrow> 'i \<times> (string + bytes)" where
  "init_command sha256 ring stores root i =
     (case identity_load_or_create sha256 ring (stores (join_path root ADMIN_DIRECTORY)) i of
        (i, r) \<Rightarrow> (i, map_err error_display (map_ok (\<lambda>identity. init_output (fingerprint identity)) r)))"

definition program_identity ::
    "(bytes \<Rightarrow> bytes) \<Rightarrow> 'k ed25519 \<Rightarrow> (bytes \<Rightarrow> 'i id_store) \<Rightarrow> bytes \<Rightarrow> 'i \<Rightarrow> 'i \<times> (string + Identity)" where
  "program_identity sha256 ring stores key_path i =
     (case path_parent key_path of
        None \<Rightarrow> (i, Inl ''missing identity directory'')
      | Some d \<Rightarrow> (case identity_load_or_create sha256 ring (stores d) i of (i, r) \<Rightarrow> (i, map_err error_display r)))"

text \<open>What a program that ends has done: it printed a fingerprint, or ran so many syncs.\<close>

datatype program_output = Printed bytes | Synced nat

definition exit_code :: "(string + 'a) \<Rightarrow> nat" where
  "exit_code r = (if is_ok r then 0 else 1)"

section \<open>quicsync\<close>

datatype Command = Init bytes | Sync bytes | Interactive bytes

text \<open>One turn of the loop: what reading a line gives, the library, and the world of a session.\<close>

record ('addr, 'tls, 'crypto, 'ep, 'connecting, 's) sync_turn =
  turn_line :: "string + nat"
  turn_quinn :: "('addr, 'tls, 'crypto, 'ep, 'connecting) quinn"
  turn_world :: "'s source_world"
  turn_view :: fs_view
  turn_files :: 's

text \<open>\<open>None\<close>: the turns end before the program does, or a panic.\<close>

fun sync_loop ::
    "librsync \<Rightarrow> ('b, 'm) gitignore \<Rightarrow> (bytes \<Rightarrow> bytes) \<Rightarrow> ('s, 'fd) posix \<Rightarrow> ('s, 'fd) open_path \<Rightarrow> ('s, 'fd) file_reads \<Rightarrow>
     ('d, 'addr) SourceConfig \<Rightarrow> ('addr, 'tls) SourceClient \<Rightarrow> bool \<Rightarrow>
     ('addr, 'tls, 'crypto, 'ep, 'connecting, 's) sync_turn list \<Rightarrow> nat \<Rightarrow> (nat \<times> (string + unit)) option" where
  "sync_loop R G blake3 P opn F config client interactive [] n = None"
| "sync_loop R G blake3 P opn F config client interactive (t # ts) n =
     (case if interactive then turn_line t else Inr 1 of
        Inl e \<Rightarrow> Some (n, Inl e)
      | Inr got \<Rightarrow>
          if interactive \<and> got = 0 then Some (n, Inr ())
          else
            (case source_client_connect (turn_quinn t) client False of
               None \<Rightarrow> None
             | Some (Inl e) \<Rightarrow> Some (n, Inl (error_display e))
             | Some (Inr s) \<Rightarrow>
                 (case source_run R G blake3 P opn F (turn_view t) config (turn_world t) s (turn_files t) of
                    None \<Rightarrow> None
                  | Some (_, Inl e) \<Rightarrow> Some (n, Inl (error_display e))
                  | Some (_, Inr _) \<Rightarrow>
                      if \<not> interactive then Some (Suc n, Inr ())
                      else sync_loop R G blake3 P opn F config client interactive ts (Suc n))))"

definition source_program ::
    "librsync \<Rightarrow> ('b, 'm) gitignore \<Rightarrow> (bytes \<Rightarrow> bytes) \<Rightarrow> (bytes \<Rightarrow> bytes) \<Rightarrow> 'k ed25519 \<Rightarrow> 'tls rustls \<Rightarrow>
     ('s, 'fd) posix \<Rightarrow> ('s, 'fd) open_path \<Rightarrow> ('s, 'fd) file_reads \<Rightarrow> ('d, 'addr) host \<Rightarrow> (bytes \<Rightarrow> 'i id_store) \<Rightarrow>
     Command \<Rightarrow> ('addr, 'tls, 'crypto, 'ep, 'connecting, 's) sync_turn list \<Rightarrow> 'i \<Rightarrow>
     ('i \<times> (string + program_output)) option" where
  "source_program R G blake3 sha256 ring B P opn F H stores cmd ts i =
     (let run = (\<lambda>root interactive.
        case load_source H root of
          Inl e \<Rightarrow> Some (i, Inl (error_display e))
        | Inr config \<Rightarrow>
            (case program_identity sha256 ring stores (source_private_key config) i of
               (i, Inl e) \<Rightarrow> Some (i, Inl e)
             | (i, Inr identity) \<Rightarrow>
                 (case source_client_new B config identity of
                    Inl e \<Rightarrow> Some (i, Inl (error_display e))
                  | Inr client \<Rightarrow>
                      map_option (\<lambda>(n, r). (i, map_ok (\<lambda>_. Synced n) r))
                        (sync_loop R G blake3 P opn F config client interactive ts 0))))
      in case cmd of
           Init root \<Rightarrow> Some (case init_command sha256 ring stores root i of (i, r) \<Rightarrow> (i, map_ok Printed r))
         | Sync root \<Rightarrow> run root False
         | Interactive root \<Rightarrow> run root True)"

section \<open>quicsyncd\<close>

datatype DaemonCommand = DaemonInit bytes | Serve bytes

text \<open>One turn of the daemon's loop: the library, what the endpoint yields, and the world of a session.\<close>

record ('addr, 'tls, 'crypto, 'ep, 'connecting) serve_turn_world =
  dt_quinn :: "('addr, 'tls, 'crypto, 'ep, 'connecting) quinn"
  dt_incoming :: "(ConnectionError + 'connecting) option waiting"
  dt_world :: dest_world
  dt_view :: fs_view

text \<open>The filesystem after a turn and the errors it printed.\<close>

definition daemon_turn ::
    "librsync \<Rightarrow> ('b, 'm) gitignore \<Rightarrow> (bytes \<Rightarrow> bytes) \<Rightarrow> (bytes \<Rightarrow> bytes) \<Rightarrow> ('s, 'fd) posix \<Rightarrow> ('s, 'fd) open_path \<Rightarrow>
     ('s, 'fd) file_reads \<Rightarrow> ('d, 'addr) DestinationConfig \<Rightarrow> 'ep Listener \<Rightarrow>
     ('addr, 'tls, 'crypto, 'ep, 'connecting) serve_turn_world \<Rightarrow> 's \<Rightarrow> ('s \<times> string list) option" where
  "daemon_turn R G blake3 sha256 P opn F config L t k =
     (case accept_early (dt_quinn t) L (dt_incoming t) of
        Inr s \<Rightarrow>
          map_option (\<lambda>(out, r). (sd_files out, case r of Inl e \<Rightarrow> [error_display e] | Inr _ \<Rightarrow> []))
            (serve R G blake3 sha256 P opn F (dt_view t) config (dt_world t) s k)
      | Inl e \<Rightarrow> Some (k, [error_display e]))"

text \<open>The loop as far as the turns go: whatever a turn ends with, the next one is taken.\<close>

fun daemon_loop ::
    "librsync \<Rightarrow> ('b, 'm) gitignore \<Rightarrow> (bytes \<Rightarrow> bytes) \<Rightarrow> (bytes \<Rightarrow> bytes) \<Rightarrow> ('s, 'fd) posix \<Rightarrow> ('s, 'fd) open_path \<Rightarrow>
     ('s, 'fd) file_reads \<Rightarrow> ('d, 'addr) DestinationConfig \<Rightarrow> 'ep Listener \<Rightarrow>
     ('addr, 'tls, 'crypto, 'ep, 'connecting) serve_turn_world list \<Rightarrow> 's \<Rightarrow> ('s \<times> string list) option" where
  "daemon_loop R G blake3 sha256 P opn F config L [] k = Some (k, [])"
| "daemon_loop R G blake3 sha256 P opn F config L (t # ts) k =
     (case daemon_turn R G blake3 sha256 P opn F config L t k of
        None \<Rightarrow> None
      | Some (k, log) \<Rightarrow>
          map_option (\<lambda>(k, log'). (k, log @ log')) (daemon_loop R G blake3 sha256 P opn F config L ts k))"

text \<open>
  What the daemon has come to after the turns: it ended with an error or a printed fingerprint, or is
  still serving, with the filesystem and the errors so far.
\<close>

datatype 's daemon_state = Ended "string + bytes" | Serving 's "string list"

definition daemon_program ::
    "librsync \<Rightarrow> ('b, 'm) gitignore \<Rightarrow> (bytes \<Rightarrow> bytes) \<Rightarrow> (bytes \<Rightarrow> bytes) \<Rightarrow> 'k ed25519 \<Rightarrow> 'tls rustls \<Rightarrow>
     ('s, 'fd) posix \<Rightarrow> ('s, 'fd) open_path \<Rightarrow> ('s, 'fd) file_reads \<Rightarrow> ('d, 'addr) host \<Rightarrow> (bytes \<Rightarrow> 'i id_store) \<Rightarrow>
     ('addr, 'tls, 'crypto, 'ep, 'connecting) quinn \<Rightarrow> ('ep \<Rightarrow> string + 'addr) \<Rightarrow> DaemonCommand \<Rightarrow>
     ('addr, 'tls, 'crypto, 'ep, 'connecting) serve_turn_world list \<Rightarrow> 'i \<Rightarrow> 's \<Rightarrow> ('i \<times> 's daemon_state) option" where
  "daemon_program R G blake3 sha256 ring B P opn F H stores q local_addr cmd ts i k =
     (case cmd of
        DaemonInit root \<Rightarrow> Some (case init_command sha256 ring stores root i of (i, r) \<Rightarrow> (i, Ended r))
      | Serve root \<Rightarrow>
          (case load_destination H root of
             Inl e \<Rightarrow> Some (i, Ended (Inl (error_display e)))
           | Inr config \<Rightarrow>
               (case program_identity sha256 ring stores (destination_private_key config) i of
                  (i, Inl e) \<Rightarrow> Some (i, Ended (Inl e))
                | (i, Inr identity) \<Rightarrow>
                    (case listen q B config identity False of
                       None \<Rightarrow> None
                     | Some (Inl e) \<Rightarrow> Some (i, Ended (Inl (error_display e)))
                     | Some (Inr L) \<Rightarrow>
                         (case local_address local_addr L of
                            Inl e \<Rightarrow> Some (i, Ended (Inl (error_display e)))
                          | Inr _ \<Rightarrow>
                              map_option (\<lambda>(k, log). (i, Serving k log))
                                (daemon_loop R G blake3 sha256 P opn F config L ts k))))))"

section \<open>Pairing\<close>

lemma path_parent_key:
  "path_parent (join_path (join_path r ADMIN_DIRECTORY) PRIVATE_KEY) = Some (join_path r ADMIN_DIRECTORY)"
  by (simp add: path_parent_def join_path_def ADMIN_DIRECTORY_def PRIVATE_KEY_def bytes_of_def Let_def)

lemma loaded_key_directory:
  "load_source H root = Inr c \<Longrightarrow> path_parent (source_private_key c) = Some (join_path (root_path (source_root c)) ADMIN_DIRECTORY)"
  "load_destination H root = Inr d \<Longrightarrow> \<exists>r. path_parent (destination_private_key d) = Some (join_path r ADMIN_DIRECTORY)"
  by (auto simp: load_source_def load_destination_def validate_admin_directory_def validate_private_key_def result_simps
      path_parent_key Let_def split: if_splits)

lemma pinned_identity:
  assumes "fingerprint_certificate sha256 cert = Inr f"
  shows "verify_server_cert sha256 (client_tls_verifier (AuthPin f)) cert = Inr ()"
    and "server_tls_verifier pins = Inr v \<Longrightarrow> AuthPin f \<in> set pins \<Longrightarrow> verify_client_cert sha256 v cert = Inr ()"
  using assms
  by (force simp: verify_server_cert_def verify_client_cert_def verify_pin_def client_tls_verifier_def
      server_tls_verifier_def Let_def image_iff split: if_splits)+

text \<open>
  C16. What \<open>init\<close> prints pairs two machines. After \<open>init\<close> the identity that a program finds beside its
  configured key is the one whose fingerprint was printed; the line is a valid pin; a source that has
  it as its peer pin accepts that identity's certificate from a destination, and a destination that
  has it among the peers of a root accepts the certificate from a source.\<close>

theorem init_pairs_peers:
  assumes "init_command sha256 ring stores root d = (d', Inr line)"
    and "stores (join_path root ADMIN_DIRECTORY) = dir_store user" and "\<And>b. length (sha256 b) = 32"
  shows "\<exists>identity pin.
    program_identity sha256 ring stores (join_path (join_path root ADMIN_DIRECTORY) PRIVATE_KEY) d' = (d', Inr identity) \<and>
    peer_pin_parse line = Inr pin \<and>
    (\<forall>config :: ('d, 'addr) SourceConfig. source_peer_pin config = pin \<longrightarrow>
      verify_server_cert sha256 (client_tls_verifier (client_pin config)) (certificate identity) = Inr ()) \<and>
    (\<forall>(config :: ('d, 'addr) DestinationConfig) r. r \<in> set (roots config) \<and> pin \<in> set (authorized_peers r) \<longrightarrow>
      (\<exists>v. server_tls_verifier (listen_pins config) = Inr v \<and> verify_client_cert sha256 v (certificate identity) = Inr ()))"
proof -
  from assms(1,2) obtain i where run: "identity_load_or_create sha256 ring (dir_store user) d = (d', Inr i)"
      and line: "line = init_output (fingerprint i)"
    by (auto simp: init_command_def result_simps split: prod.splits)
  note again = dir.load_or_create_stable [OF run]
  then obtain cert key where "identity_from_der sha256 ring cert key = Inr i"
    using identity_load_Inr [of sha256 ring "dir_store user" d' i] by blast
  then have cert: "fingerprint_certificate sha256 (certificate i) = Inr (fingerprint i)" and ok: "fingerprint_ok (fingerprint i)"
    using assms(3) by (auto simp: identity_from_der_Inr fingerprint_ok_def)
  have "program_identity sha256 ring stores (join_path (join_path root ADMIN_DIRECTORY) PRIVATE_KEY) d' = (d', Inr i)"
    using again assms(2) by (simp add: program_identity_def path_parent_key)
  moreover have "peer_pin_parse line = Inr (PeerPin (fingerprint_bytes (fingerprint i)))"
    unfolding line by (rule init_output_pin [OF ok])
  moreover have "\<exists>v. server_tls_verifier (listen_pins config) = Inr v \<and> verify_client_cert sha256 v (certificate i) = Inr ()"
    if "r \<in> set (roots config)" "PeerPin (fingerprint_bytes (fingerprint i)) \<in> set (authorized_peers r)"
    for config :: "('d, 'addr) DestinationConfig" and r
  proof -
    have m: "AuthPin (fingerprint i) \<in> set (listen_pins config)" using that by (force simp: listen_pins_def)
    then have "server_tls_verifier (listen_pins config) = Inr (PinnedClientVerifier (auth_pin_fingerprint ` set (listen_pins config)))"
      by (auto simp: server_tls_verifier_def)
    with pinned_identity(2) [OF cert this m] show ?thesis by blast
  qed
  ultimately show ?thesis
    using pinned_identity(1) [OF cert]
    by (intro exI [of _ i] exI [of _ "PeerPin (fingerprint_bytes (fingerprint i))"]) (auto simp: client_pin_def)
qed

theorem init_pairs_peers_witness:
  "\<exists>d d' line identity pin config.
     init_command (\<lambda>_. replicate 32 0) sample_ring (\<lambda>_. dir_store 7) [47] d = (d', Inr line) \<and>
     peer_pin_parse line = Inr pin \<and> source_peer_pin config = pin \<and>
     program_identity (\<lambda>_. replicate 32 0) sample_ring (\<lambda>_. dir_store 7) (join_path (join_path [47] ADMIN_DIRECTORY) PRIVATE_KEY) d' =
       (d', Inr identity) \<and>
     verify_server_cert (\<lambda>_. replicate 32 0) (client_tls_verifier (client_pin (config :: (bytes, bytes) SourceConfig)))
       (certificate identity) = Inr ()"
proof -
  obtain cert where cert: "generate_identity sample_ring = Inr ([5, 6], cert)" by (rule sample_identity)
  let ?d = "\<lparr>dir_node = None, dir_files = (\<lambda>_. None), dir_space = 2 + length cert\<rparr>"
  obtain d' i where "identity_load_or_create (\<lambda>_. replicate 32 0) sample_ring (dir_store 7) ?d = (d', Inr i)"
    using first_run [OF sample_ring_ok cert, of ?d "\<lambda>_. replicate 32 0" 7] by auto
  then have run: "init_command (\<lambda>_. replicate 32 0) sample_ring (\<lambda>_. dir_store 7) [47] ?d = (d', Inr (init_output (fingerprint i)))"
    by (simp add: init_command_def)
  have "is_ok (load_source sample_host [47])" by code_simp
  then obtain config where "load_source sample_host [47] = Inr config" unfolding is_ok_iff by blast
  from init_pairs_peers [OF run, of 7] obtain identity pin where
      "peer_pin_parse (init_output (fingerprint i)) = Inr pin"
      "program_identity (\<lambda>_. replicate 32 0) sample_ring (\<lambda>_. dir_store 7) (join_path (join_path [47] ADMIN_DIRECTORY) PRIVATE_KEY) d' =
        (d', Inr identity)"
      "\<forall>config :: (bytes, bytes) SourceConfig. source_peer_pin config = pin \<longrightarrow>
        verify_server_cert (\<lambda>_. replicate 32 0) (client_tls_verifier (client_pin config)) (certificate identity) = Inr ()"
    by auto
  then show ?thesis
    using run by (intro exI [of _ ?d] exI [of _ d'] exI [of _ "init_output (fingerprint i)"] exI [of _ identity] exI [of _ pin]
        exI [of _ "config\<lparr>source_peer_pin := pin\<rparr>"]) simp
qed

section \<open>What success of a sync means\<close>

lemma control_send_recv:
  "control_send s c bs = (c', r) \<Longrightarrow> ctl_recv c' = ctl_recv c \<and> ctl_finished c' = ctl_finished c"
  by (auto simp: control_send_def split: prod.splits)

text \<open>A frame holds at least its version and kind.\<close>

lemma encoded_frame_limit: "encode control_wire m l = Inr f \<Longrightarrow> 3 \<le> unat (codec_max_frame_bytes l)"
  by (auto simp: control.encode_Inr payload_of_def)

lemma source_run_success:
  assumes "source_run R G blake3 P opn F V config W s k = Some (x, Inr u)" and "sw_open_bi W = Ready (Inr (st, rs))"
  shows "\<not> session_cancelled s \<and> 3 \<le> unat (max_frame_bytes (source_limits config)) \<and>
    (\<exists>root s' c st'. same_session s s' \<and> ctl_recv c = rs \<and> \<not> ctl_finished c \<and>
      serve_loop R P F root (source_limits config) (sw_events W) (serving_new s' c (source_limits config)) = Some (st', Inr ()))"
proof -
  let ?l = "source_limits config"
  from assms(1) obtain s1 where run: "source_run_inner R G blake3 P opn F V config W s k = Some ((s1, snd x), Inr u)"
    by (auto simp: source_run_def split: if_splits)
  then obtain streams where streams: "open_session s (sw_open_bi W) (sw_open_uni W) = Inr streams"
    by (cases "open_session s (sw_open_bi W) (sw_open_uni W)") (auto simp: source_run_inner_def Let_def)
  then have open_ok: "\<not> session_cancelled s" "src_control streams = control_new st rs"
    using assms(2) by (auto simp: open_session_def result_simps guarded_in_def split: if_splits)
  from run streams obtain c where sent: "and_do (src_control streams, wire_encode control_wire (StartSync (root_id_str (source_root_id config))) ?l)
      (control_send s) = (c, Inr ())"
    by (auto simp: source_run_inner_def Let_def split: prod.splits sum.splits)
  then obtain f where f: "encode control_wire (StartSync (root_id_str (source_root_id config))) (codec_limits_from ?l) = Inr f"
      "control_send s (control_new st rs) f = (c, Inr ())"
    by (auto simp: result_simps wire_encode_Inr open_ok)
  obtain s2 gate2 s3 gate3 where g: "confirm_handshake s (fst (sw_handshakes W)) = (s2, gate2)"
      "confirm_handshake s2 (snd (sw_handshakes W)) = (s3, gate3)" by (metis prod.exhaust)
  from run streams sent g obtain root st' where
      "serve_loop R P F root ?l (sw_events W) (serving_new s3 c ?l) = Some (st', Inr ())"
    by (auto simp: source_run_inner_def Let_def source_join_def result_simps split: prod.splits sum.splits if_splits)
  moreover have "same_session s s3"
    using confirm_handshake_same [OF g(1)] confirm_handshake_same [OF g(2)] by (simp add: same_session_def)
  moreover have "ctl_recv c = rs" "\<not> ctl_finished c" using control_send_recv [OF f(2)] by (simp_all add: control_new_def)
  moreover have "3 \<le> unat (max_frame_bytes ?l)" using encoded_frame_limit [OF f(1)] by (simp add: codec_limits_from_def)
  ultimately show ?thesis using open_ok(1) by blast
qed

lemma connected_bounds:
  assumes "source_client_new B config identity = Inr client" and "source_client_connect q client canc = Some (Inr s)"
  shows "session_bounds s = from_limits (source_limits config)"
proof -
  have "client_bounds client = from_limits (source_limits config)"
    using assms(1) by (auto simp: source_client_new_def result_simps)
  with assms(2) show ?thesis
    by (auto simp: source_client_connect_def connect_early_to_def dial_def result_simps session_new_def session_new_early_def Let_def
        split: sum.splits option.splits if_splits)
qed

lemma sync_program_success:
  fixes H :: "('d, 'addr) host"
  assumes "source_program R G blake3 sha256 ring B P opn F H stores (Sync root) (t # ts) i = Some (i', Inr output)"
  shows "output = Synced 1 \<and> (\<exists>(config :: ('d, 'addr) SourceConfig) s x u. session_bounds s = from_limits (source_limits config) \<and>
    source_run R G blake3 P opn F (turn_view t) config (turn_world t) s (turn_files t) = Some (x, Inr u))"
proof -
  from assms obtain config :: "('d, 'addr) SourceConfig" and identity client n where
      "source_client_new B config identity = Inr client"
      "sync_loop R G blake3 P opn F config client False (t # ts) 0 = Some (n, Inr ()) \<and> output = Synced n"
    by (auto simp: source_program_def Let_def result_simps simp del: sync_loop.simps split: sum.splits prod.splits)
  moreover from this(2) obtain s x u where "source_client_connect (turn_quinn t) client False = Some (Inr s)"
      "source_run R G blake3 P opn F (turn_view t) config (turn_world t) s (turn_files t) = Some (x, Inr u)" "output = Synced 1"
    by (auto split: option.splits sum.splits)
  ultimately show ?thesis using connected_bounds by blast
qed

text \<open>
  C7. When \<open>quicsync sync\<close> succeeds, the destination has committed. The program exits with code zero only
  after one session; and if the control bytes it read in that session are those that a destination's
  session wrote, then that session received and planned a whole index, staged what it needed and
  committed it: the destination's files are those its commit left.\<close>

theorem sync_success_means_committed:
  fixes H :: "('d, 'addr) host"
  assumes source: "source_program R G blake3 sha256 ring B P opn F H stores (Sync root) (t # ts) i = Some (i', result)"
      "exit_code result = 0"
    and streams: "sw_open_bi (turn_world t) = Ready (Inr (st, rs))" "events_deliver rs (written (ctl_send c))"
    and destination: "serve R' G' blake3' sha256' P' opn' F' V config W s k = Some (out, r)"
      "dw_accept_bi W = Ready (Inr (st0, rs0))" "written st0 = []" "sd_control out = Some c"
  shows "result = Inr (Synced 1) \<and> session_committed R' G' blake3' P' opn' F' V config W s (sd_files out)"
proof -
  from source(2) obtain y where o: "result = Inr y" by (cases result) (simp_all add: exit_code_def)
  from sync_program_success [OF source(1) [unfolded o]] obtain c1 :: "('d, 'addr) SourceConfig" and s1 x u where out: "y = Synced 1"
      and b: "session_bounds s1 = from_limits (source_limits c1)"
      and run: "source_run R G blake3 P opn F (turn_view t) c1 (turn_world t) s1 (turn_files t) = Some (x, Inr u)" by blast
  from source_run_success [OF run streams(1)] obtain root' s2 c2 st' where 1: "\<not> session_cancelled s1" "same_session s1 s2"
      "3 \<le> unat (max_frame_bytes (source_limits c1))" "ctl_recv c2 = rs" "\<not> ctl_finished c2"
      "serve_loop R P F root' (source_limits c1) (sw_events (turn_world t)) (serving_new s2 c2 (source_limits c1)) = Some (st', Inr ())"
    by blast
  have "control_reaches s2 c2 (written (ctl_send c))"
    using 1 b streams(2) by (simp add: control_reaches_def half_delivers_def same_session_def from_limits_def)
  from acknowledged_committed [OF destination 1(6) this 1(3)] out o show ?thesis by simp
qed

section \<open>What a daemon does over time\<close>

text \<open>The session's peer asked for a root that its fingerprint is listed for.\<close>

definition admitted :: "(bytes \<Rightarrow> bytes) \<Rightarrow> ('d, 'addr) DestinationConfig \<Rightarrow> dest_world \<Rightarrow> Session \<Rightarrow> bool" where
  "admitted sha256 config W s \<longleftrightarrow>
     (case accept_session s (dw_accept_bi W) of
        Inl _ \<Rightarrow> False
      | Inr streams \<Rightarrow>
          (case messages_next control_wire (control_receive s) (\<lambda>c. recv_weight (ctl_recv c))
              (messages_new (destination_limits config)) (dst_control streams) of
             Some (_, Inr (StartSync root_id)) \<Rightarrow>
               (case peer_fingerprint sha256 (dw_peer W) of
                  Inl _ \<Rightarrow> False
                | Inr fp \<Rightarrow> destination_authorize config (PeerPin (fingerprint_bytes fp)) root_id)
           | _ \<Rightarrow> False))"

lemma start_refused:
  assumes "start_session sha256 opn config W s k = Some ((c0, k0), r)" and "\<not> admitted sha256 config W s"
  shows "k0 = k \<and> (\<exists>e. r = Inl e)"
proof -
  have "\<exists>e. find_root config root_id fp = Inl e" if "\<not> destination_authorize config (PeerPin (fingerprint_bytes fp)) root_id" for root_id fp
    using that find_root_authorised [of config root_id fp] by (cases "find_root config root_id fp") auto
  with assms show ?thesis
    by (fastforce simp: start_session_def admitted_def split: sum.splits option.splits prod.splits Control.splits)
qed

lemma start_opens:
  assumes "start_session sha256 opn config W s k = Some ((c0, k0), r)"
    and "\<And>root. root \<in> set (roots config) \<Longrightarrow> opens opn tree at (root_path (destination_root root))"
  shows "tree k0 = tree k"
proof -
  from assms(1) obtain streams m c res where acc: "accept_session s (dw_accept_bi W) = Inr streams \<and>
      messages_next control_wire (control_receive s) (\<lambda>c. recv_weight (ctl_recv c))
        (messages_new (destination_limits config)) (dst_control streams) = Some ((m, c), res) \<or> k0 = k"
    by (cases "accept_session s (dw_accept_bi W)") (auto simp: start_session_def)
  define found where "found = and_then res (\<lambda>msg.
      and_then (case msg of StartSync root_id \<Rightarrow> Inr root_id | _ \<Rightarrow> Inl (wire_failure ''expected StartSync''))
        (\<lambda>root_id. and_then (peer_fingerprint sha256 (dw_peer W)) (find_root config root_id)))"
  show ?thesis
  proof (cases found)
    case (Inl e)
    with assms(1) acc have "k0 = k" by (auto simp: start_session_def found_def)
    then show ?thesis by simp
  next
    case (Inr configured)
    then have "configured \<in> set (roots config)"
      by (auto simp: found_def result_simps find_root_def find_Some_iff)
    note o = opens_root [OF assms(2) [OF this]]
    obtain k1 r1 where h: "root_handle_from_validated opn (destination_root configured) k = (k1, r1)" by fastforce
    with assms(1) acc Inr have "k0 = k1 \<or> k0 = k" by (auto simp: start_session_def found_def)
    with o [OF h] show ?thesis by auto
  qed
qed

text \<open>The names that the indexes of a turn's session list.\<close>

definition session_names ::
    "('b, 'm) gitignore \<Rightarrow> (bytes \<Rightarrow> bytes) \<Rightarrow> ('d, 'addr) DestinationConfig \<Rightarrow> fs_view \<Rightarrow> dest_world \<Rightarrow> Session \<Rightarrow>
     bytes list set" where
  "session_names G blake3 config V W s =
     record_names (received_records (destination_limits config) s W \<union> own_records G blake3 V (destination_limits config) W)"

lemma serve_reaches:
  assumes fs: "posix_fs P tree at" and run: "serve R G blake3 sha256 P opn F V config W s k = Some (out, r)"
    and opn: "\<And>root. root \<in> set (roots config) \<Longrightarrow> opens opn tree at (root_path (destination_root root))"
    and q: "\<not> prefix staging q" "admitted sha256 config W s \<Longrightarrow> q \<notin> session_names G blake3 config V W s"
  shows "same_dir (tree k q) (tree (sd_files out) q)"
proof -
  from run obtain out' where inner: "serve_inner R G blake3 sha256 P opn F V config W s k = Some (out', r)"
    and o: "sd_files out = sd_files out'" by (auto simp: serve_def split: if_splits)
  then obtain c0 k0 r0 where st: "start_session sha256 opn config W s k = Some ((c0, k0), r0)"
    by (auto simp: serve_inner_def Let_def split: option.splits)
  show ?thesis
  proof (cases r0)
    case (Inl e)
    with inner st have "sd_files out' = k0" by (auto simp: serve_inner_def Let_def)
    with start_opens [OF st opn] o show ?thesis by simp
  next
    case (Inr y)
    obtain x configured c1 root where y: "y = (x, configured, c1, root)" by (cases y)
    from start_session_Inr(3) [OF st [unfolded Inr y]] have "configured \<in> set (roots config)"
      by (auto simp: find_root_def ok_or_eq_Inr find_Some_iff)
    note o = opn [OF this]
    have "admitted sha256 config W s" using start_refused [OF st] Inr by auto
    with q have "q \<notin> session_names G blake3 config V W s" by simp
    then show ?thesis
      unfolding session_names_def by (intro serve_confined [OF fs run st [unfolded Inr y] o q(1)]) simp
  qed
qed

lemma serve_refused:
  assumes "serve R G blake3 sha256 P opn F V config W s k = Some (out, r)" and "\<not> admitted sha256 config W s"
  shows "sd_files out = k \<and> (\<exists>e. r = Inl e)"
proof -
  from assms(1) obtain out' where inner: "serve_inner R G blake3 sha256 P opn F V config W s k = Some (out', r)"
    and o: "sd_files out = sd_files out'" by (auto simp: serve_def split: if_splits)
  then obtain c0 k0 r0 where st: "start_session sha256 opn config W s k = Some ((c0, k0), r0)"
    by (auto simp: serve_inner_def Let_def split: option.splits)
  from start_refused [OF st assms(2)] inner st o show ?thesis by (auto simp: serve_inner_def Let_def)
qed

text \<open>The turns of a daemon that get as far as a session of an admitted peer, and the names they list.\<close>

definition admits ::
    "(bytes \<Rightarrow> bytes) \<Rightarrow> ('d, 'addr) DestinationConfig \<Rightarrow> 'ep Listener \<Rightarrow>
     ('addr, 'tls, 'crypto, 'ep, 'connecting) serve_turn_world \<Rightarrow> bool" where
  "admits sha256 config L t \<longleftrightarrow>
     (case accept_early (dt_quinn t) L (dt_incoming t) of
        Inl _ \<Rightarrow> False | Inr s \<Rightarrow> admitted sha256 config (dt_world t) s)"

definition turn_names ::
    "('b, 'm) gitignore \<Rightarrow> (bytes \<Rightarrow> bytes) \<Rightarrow> ('d, 'addr) DestinationConfig \<Rightarrow> 'ep Listener \<Rightarrow>
     ('addr, 'tls, 'crypto, 'ep, 'connecting) serve_turn_world \<Rightarrow> bytes list set" where
  "turn_names G blake3 config L t =
     (case accept_early (dt_quinn t) L (dt_incoming t) of
        Inl _ \<Rightarrow> {} | Inr s \<Rightarrow> session_names G blake3 config (dt_view t) (dt_world t) s)"

lemma daemon_turn_reaches:
  assumes "posix_fs P tree at" and "daemon_turn R G blake3 sha256 P opn F config L t k = Some (k', log)"
    and "\<And>root. root \<in> set (roots config) \<Longrightarrow> opens opn tree at (root_path (destination_root root))"
    and "\<not> prefix staging q" and "admits sha256 config L t \<Longrightarrow> q \<notin> turn_names G blake3 config L t"
  shows "same_dir (tree k q) (tree k' q)"
proof (cases "accept_early (dt_quinn t) L (dt_incoming t)")
  case (Inr s)
  with assms(2) obtain out r where run: "serve R G blake3 sha256 P opn F (dt_view t) config (dt_world t) s k = Some (out, r)"
    and k': "k' = sd_files out" by (auto simp: daemon_turn_def)
  show ?thesis unfolding k'
    by (rule serve_reaches [OF assms(1) run assms(3,4)]) (use assms(5) Inr in \<open>simp_all add: admits_def turn_names_def\<close>)
qed (use assms(2) in \<open>simp add: daemon_turn_def\<close>)

lemma daemon_turn_refused:
  assumes "daemon_turn R G blake3 sha256 P opn F config L t k = Some (k', log)" and "\<not> admits sha256 config L t"
  shows "k' = k \<and> length log = 1"
proof (cases "accept_early (dt_quinn t) L (dt_incoming t)")
  case (Inr s)
  with assms(1) obtain out r where run: "serve R G blake3 sha256 P opn F (dt_view t) config (dt_world t) s k = Some (out, r)"
    and out: "k' = sd_files out" "log = (case r of Inl e \<Rightarrow> [error_display e] | Inr _ \<Rightarrow> [])" by (auto simp: daemon_turn_def)
  from serve_refused [OF run] assms(2) Inr out show ?thesis by (auto simp: admits_def)
qed (use assms(1) in \<open>auto simp: daemon_turn_def\<close>)

lemma daemon_loop_append:
  "daemon_loop R G blake3 sha256 P opn F config L (ts @ us) k = Some (k', log) \<longleftrightarrow>
     (\<exists>k1 log1 log2. daemon_loop R G blake3 sha256 P opn F config L ts k = Some (k1, log1) \<and>
        daemon_loop R G blake3 sha256 P opn F config L us k1 = Some (k', log2) \<and> log = log1 @ log2)"
  by (induction ts arbitrary: k log) (auto split: option.splits)


end
