(* ===== verification/Survival.thy ===== *)
theory Survival
  imports Programs
begin

text \<open>
  What no peer can do: keep a loop turning or bring the code to a panic. Every message loop returns,
  whatever bytes arrive, so both ends of a transfer return, a destination's session returns, and the
  daemon goes on to the next connection. A stream on which nothing more arrives counts as one whose
  connection has ended: a peer that keeps its connection and says nothing can make the code wait.
\<close>

section \<open>Steps that return\<close>

definition returns :: "('s \<Rightarrow> bool) \<Rightarrow> ('s \<times> 'r) option \<Rightarrow> bool" where
  "returns I m \<longleftrightarrow> (\<exists>s r. m = Some (s, r) \<and> I s)"

lemma returns_Some [simp]: "returns I (Some x) \<longleftrightarrow> I (fst x)"
  by (cases x) (simp add: returns_def)

lemma returns_None [simp]: "\<not> returns I None"
  by (simp add: returns_def)

lemma returns_map [simp]: "returns I (map_option f m) \<longleftrightarrow> returns (\<lambda>_. True) m \<and> (\<forall>x. m = Some x \<longrightarrow> I (fst (f x)))"
  by (cases m) auto

lemma returns_any: "returns I m \<Longrightarrow> returns (\<lambda>_. True) m"
  by (auto simp: returns_def)

lemma returns_and_run [intro]:
  assumes "returns I m" and "\<And>s x. I s \<Longrightarrow> returns I (f s x)"
  shows "returns I (and_run m f)"
  using assms by (cases "(m, f)" rule: and_run.cases) (auto simp: returns_def)

lemma returns_on_wire [simp]: "returns (\<lambda>(w, k). I w) (on_wire k m) \<longleftrightarrow> returns I m"
  by (cases m) (auto simp: on_wire_def)

lemma returns_on_files [simp]: "returns (\<lambda>(w, k). I w) (on_files w m) \<longleftrightarrow> I w"
  by (cases m) (auto simp: on_files_def)

section \<open>The message loops\<close>

definition messages_ready :: "'a Messages \<Rightarrow> bool" where
  "messages_ready m \<longleftrightarrow> (\<exists>l. decoder_inv l (msg_decoder m)) \<and> 0 < msg_buffer_len m"

lemma messages_ready_new: "0 < unat (max_frame_bytes l) \<Longrightarrow> messages_ready (messages_new l)"
  unfolding messages_ready_def messages_new_def by (auto intro: decoder_inv_new)

text \<open>A stream each of whose reads takes something, as long as a read may take anything at all.\<close>

locale draining_stream =
  fixes receive :: "'st \<Rightarrow> nat \<Rightarrow> 'st \<times> (QuicSyncError + bytes option)"
    and weight :: "'st \<Rightarrow> nat"
    and readable :: bool
  assumes receive_drains: "readable \<Longrightarrow> 0 < n \<Longrightarrow> receive st n = (st', Inr (Some bs)) \<Longrightarrow> weight st' < weight st"
begin

lemma loop_returns:
  assumes readable and "messages_ready m"
  shows "returns (\<lambda>(m', st'). messages_ready m') (next_message T fail closed receive weight m st)"
  using assms(2)
proof (induction "weight st" arbitrary: m st rule: less_induct)
  case less
  show ?case
  proof (cases "msg_pending m")
    case (Cons x xs)
    then show ?thesis using less.prems by (simp add: next_message.simps [of T _ _ _ _ m] messages_ready_def)
  next
    case Nil
    obtain st1 r where r: "receive st (msg_buffer_len m) = (st1, r)" by fastforce
    from less.prems obtain l where inv: "decoder_inv l (msg_decoder m)" and n: "0 < msg_buffer_len m"
      by (auto simp: messages_ready_def)
    show ?thesis
    proof (cases "\<exists>bs. r = Inr (Some bs)")
      case False
      then show ?thesis
        using r Nil less.prems by (cases r) (auto simp: next_message.simps [of T _ _ _ _ m] split: option.splits)
    next
      case True
      then obtain bs where bs: "r = Inr (Some bs)" by blast
      obtain d res where d: "decoder_inv l d" "push T (msg_decoder m) bs = Some (d, res)"
        using push_loop_refines [OF inv, of T bs "[]"] unfolding push_def by blast
      have w: "weight st1 < weight st" using receive_drains [OF assms(1) n] r bs by simp
      have ready: "messages_ready (m\<lparr>msg_decoder := d, msg_pending := ms\<rparr>)" for ms
        using d(1) n by (auto simp: messages_ready_def)
      have "messages_ready (m\<lparr>msg_decoder := d\<rparr>)" using d(1) n by (auto simp: messages_ready_def)
      then show ?thesis
        using less.hyps [OF w ready] w r bs Nil d(2)
        by (cases res) (simp_all add: next_message.simps [of T _ _ _ _ m])
    qed
  qed
qed

end

lemma receive_bounded_drains:
  assumes "receive_bounded s rs fin n action = ((rs', fin'), Inr (Some bs))"
    and "0 < unat (bound_frame_bytes (session_bounds s))" and "0 < n"
  shows "recv_weight rs' < recv_weight rs"
proof -
  let ?k = "min n (unat (bound_frame_bytes (session_bounds s)))"
  have k: "0 < ?k" using assms by simp
  show ?thesis
    using assms(1) k
    by (cases "(?k, rs)" rule: stream_read.cases)
      (auto simp: receive_bounded_def Let_def guarded_in_def split: if_splits)
qed

abbreviation (input) readable :: "Session \<Rightarrow> bool" where
  "readable s \<equiv> 0 < unat (bound_frame_bytes (session_bounds s))"

interpretation control_drain: draining_stream "control_receive s" "\<lambda>c. recv_weight (ctl_recv c)" "readable s"
  by unfold_locales (auto simp: control_receive_def dest: receive_bounded_drains split: prod.splits)

interpretation transfer_drain: draining_stream "transfer_receive s" "\<lambda>x. recv_weight (xfer_recv x)" "readable s"
  by unfold_locales (auto simp: transfer_receive_def dest: receive_bounded_drains split: prod.splits)

interpretation index_drain: draining_stream "index_receive s accept_uni" "index_weight accept_uni" "readable s"
proof
  fix n x x' bs
  assume "readable s" "0 < n" and r: "index_receive s accept_uni x n = (x', Inr (Some bs))"
  then obtain rs rs' fin' where b: "receive_bounded s rs (idx_finished x) n ''receive index bytes'' = ((rs', fin'), Inr (Some bs))"
    and "index_weight accept_uni x = recv_weight rs" "index_weight accept_uni x' = recv_weight rs'"
    by (auto simp: index_receive_def index_weight_def result_simps guarded_in_def
        split: if_splits option.splits sum.splits waiting.splits prod.splits)
  with receive_bounded_drains [OF b] \<open>readable s\<close> \<open>0 < n\<close> show "index_weight accept_uni x' < index_weight accept_uni x" by simp
qed

section \<open>Transfers return\<close>

abbreviation wire_ready :: "Wire \<Rightarrow> bool" where
  "wire_ready w \<equiv> messages_ready (wire_messages w)"

lemma wire_new_ready: "wire_new x l = Inr w \<Longrightarrow> wire_ready w"
  by (auto simp: wire_new_def result_simps messages_ready_def Let_def intro: exI [of _ "codec_limits_from l"] split: if_splits)

lemma wire_send_ready [simp]: "wire_ready (fst (wire_send s w m)) = wire_ready w"
  by (cases "encode transfer_wire m (wire_limits w)") (auto simp: wire_send_def split: prod.splits)

lemma wire_finish_ready [simp]: "wire_ready (fst (wire_finish w)) = wire_ready w"
  by (auto simp: wire_finish_def split: prod.splits)

lemma and_do_ready:
  assumes "wire_ready (fst m)" and "\<And>w x. wire_ready w \<Longrightarrow> wire_ready (fst (f w x))"
  shows "wire_ready (fst (and_do m f))"
  using assms by (cases m; cases "snd m") auto

lemma send_chunks_ready: "wire_ready w \<Longrightarrow> wire_ready (fst (send_chunks s msg cs w))"
  by (induction cs arbitrary: w) (auto intro: and_do_ready)

lemma wire_next_returns:
  assumes "readable s" and "wire_ready w"
  shows "returns wire_ready (wire_next s w)"
  using transfer_drain.loop_returns [OF assms, of transfer_wire transfer_failure "''transfer closed before expected message''" "wire_stream w"]
  by (auto simp: wire_next_def returns_def)

lemma collect_returns:
  assumes "readable s" and "wire_ready w"
  shows "returns (\<lambda>(w, cs). wire_ready w) (collect s step wrong w acc)"
  using assms
proof (induction s step wrong w acc rule: collect.induct)
  case (1 s step wrong w acc)
  from wire_next_returns [OF "1.prems"] obtain w' r where n: "wire_next s w = Some (w', r)" "wire_ready w'"
    by (auto simp: returns_def)
  show ?case
  proof (cases r)
    case (Inr m)
    with n "1.IH" [OF n(1) _ Inr] "1.prems" show ?thesis
      by (cases "step m") (simp_all add: collect.simps [of s step wrong w])
  qed (use n in \<open>simp add: collect.simps [of s step wrong w]\<close>)
qed

lemma finish_send_returns: "readable s \<Longrightarrow> wire_ready w \<Longrightarrow> returns wire_ready (finish_send s i w)"
  unfolding finish_send_def
  by (intro returns_and_run wire_next_returns) (auto intro: and_do_ready)

lemma send_whole_ready: "wire_ready w \<Longrightarrow> wire_ready (fst (send_whole s content w))"
  by (auto simp: send_whole_def split: prod.splits intro!: and_do_ready send_chunks_ready)

lemma send_delta_returns:
  assumes "readable s" and "wire_ready w"
  shows "returns wire_ready (send_delta R s content w)"
proof -
  from collect_returns [OF assms, of signature_step "''expected signature''" "[]"] obtain w' sigs r where
      "collect s signature_step ''expected signature'' w [] = Some ((w', sigs), r)" "wire_ready w'"
    by (auto simp: returns_def)
  then show ?thesis
    by (cases r) (auto simp: send_delta_def split: sum.splits prod.splits intro!: and_do_ready send_chunks_ready)
qed

lemma serve_request_returns:
  assumes "readable s" and "wire_ready w"
  shows "returns (\<lambda>(w, k). wire_ready w) (serve_request R P F s root w k)"
  unfolding serve_request_def
  using assms
  by (auto intro!: returns_and_run wire_next_returns finish_send_returns send_delta_returns send_whole_ready)

lemma send_file_returns: "readable s \<Longrightarrow> \<exists>y. send_file R P F s root l x k = Some y"
  using serve_request_returns [of s _ R P F root k]
  by (fastforce simp: send_file_def returns_def dest: wire_new_ready split: sum.splits)

lemma send_signature_ready: "wire_ready w \<Longrightarrow> wire_ready (fst (send_signature R s basis rewound w))"
  by (auto simp: send_signature_def split: sum.splits prod.splits intro!: and_do_ready send_chunks_ready)

lemma receive_whole_returns:
  assumes "readable s" and "wire_ready w"
  shows "returns (\<lambda>(w, k). wire_ready w) (receive_whole P s area rnd w k)"
proof -
  from collect_returns [OF assms, of whole_step "''expected whole-file bytes''" "[]"] obtain w' cs r where
      "collect s whole_step ''expected whole-file bytes'' w [] = Some ((w', cs), r)" "wire_ready w'"
    by (auto simp: returns_def)
  then show ?thesis by (cases r) (simp_all add: receive_whole_def)
qed

lemma collect_delta_returns:
  assumes "readable s" and "wire_ready w"
  shows "returns (\<lambda>(w, k). wire_ready w)
    (case collect s delta_step ''expected delta'' w [] of
       None \<Rightarrow> None
     | Some ((w, cs), Inl e) \<Rightarrow> Some ((w, fail cs), Inl e)
     | Some ((w, cs), Inr _) \<Rightarrow> on_files w (go cs))"
proof -
  from collect_returns [OF assms, of delta_step "''expected delta''" "[]"] obtain w' cs r where
      "collect s delta_step ''expected delta'' w [] = Some ((w', cs), r)" "wire_ready w'"
    by (auto simp: returns_def)
  then show ?thesis by (cases r) simp_all
qed

lemma receive_update_returns:
  assumes "readable s" and "wire_ready w"
  shows "returns (\<lambda>(w, k). wire_ready w) (receive_update R P F s area rnd p w k)"
  unfolding receive_update_def
  using assms by (intro returns_and_run) (auto intro!: collect_delta_returns send_signature_ready)

lemma acknowledge_returns: "wire_ready w \<Longrightarrow> returns (\<lambda>(w, k). wire_ready w) (acknowledge P s i p f w k)"
  using and_do_ready [of "wire_send s w (TransferAccepted i)" "\<lambda>w _. wire_finish w"]
  by (auto simp: acknowledge_def split: prod.splits sum.splits)

lemma receive_file_returns:
  assumes "readable s"
  shows "\<exists>y. receive_file R P F s area rnd i p update l x k = Some y"
proof (cases "wire_new x l")
  case (Inr w)
  have "returns (\<lambda>(w, k). wire_ready w)
      (and_run (on_wire k (Some (wire_send s w (if update then UpdateRequest i p else CreateRequest i p)))) (\<lambda>(w, k) _.
       and_run (if update then receive_update R P F s area rnd p w k else receive_whole P s area rnd w k) (\<lambda>(w, k) f.
       acknowledge P s i p f w k)))"
    using assms wire_new_ready [OF Inr]
    by (intro returns_and_run) (auto intro!: receive_update_returns receive_whole_returns acknowledge_returns)
  with Inr show ?thesis by (auto simp: receive_file_def returns_def)
qed (simp add: receive_file_def)


section \<open>Sessions return\<close>

abbreviation ends :: "('s \<times> 'r) option \<Rightarrow> bool" where
  "ends m \<equiv> returns (\<lambda>_. True) m"

lemma ends_iff: "ends m \<longleftrightarrow> m \<noteq> None"
  by (cases m) auto

lemma receive_index_returns:
  assumes "readable s" and "messages_ready m"
  shows "ends (receive_index s accept_uni m x out)"
  using assms
proof (induction s accept_uni m x out rule: receive_index.induct)
  case (1 s accept_uni m x out)
  from index_drain.loop_returns [OF "1.prems"] obtain m' x' r where
      n: "messages_next index_wire (index_receive s accept_uni) (index_weight accept_uni) m x = Some ((m', x'), r)"
      "messages_ready m'"
    unfolding messages_next_def returns_def by fast
  show ?case
  proof (cases r)
    case (Inr rec)
    with n "1.IH" [OF n(1) refl refl] "1.prems"(1) show ?thesis
      by (cases "rec = End") (simp_all add: receive_index.simps [of s _ m])
  qed (use n in \<open>simp add: receive_index.simps [of s _ m]\<close>)
qed

lemma start_session_returns:
  assumes "readable s" and "0 < unat (max_frame_bytes (destination_limits config))"
  shows "ends (start_session sha256 opn config W s k)"
proof (cases "accept_session s (dw_accept_bi W)")
  case (Inr streams)
  have "messages_next control_wire (control_receive s) (\<lambda>c. recv_weight (ctl_recv c))
      (messages_new (destination_limits config)) (dst_control streams) \<noteq> None"
    using control_drain.loop_returns [OF assms(1) messages_ready_new [OF assms(2)]]
    unfolding messages_next_def returns_def by fast
  with Inr show ?thesis unfolding ends_iff by (simp add: start_session_def)
qed (simp add: start_session_def)

lemma join_job_returns: "rq_jobs st \<noteq> [] \<Longrightarrow> ends (join_job R P F area l n st)"
  unfolding ends_iff by (simp add: join_job_def Let_def split: option.splits prod.splits sum.splits)

lemma request_all_returns:
  assumes "0 < unat (max_parallel_transfers l)"
  shows "ends (request_all R P F area l W ops st)"
proof (induction ops arbitrary: st)
  case (Cons op ops)
  have "ends (request_operation R P F area l W op st)"
    using assms unfolding request_operation_def Let_def by (auto intro!: returns_and_run join_job_returns)
  then show ?case using Cons.IH by (auto intro!: returns_and_run)
qed simp

lemma join_all_returns: "ends (join_all R P F area l order st)"
proof (induction R P F area l order st rule: join_all.induct)
  case (1 R P F area l order st)
  show ?case
  proof (cases "rq_jobs st = []")
    case False
    from join_job_returns [OF this, of R P F area l "order (length (rq_jobs st))"] obtain st' r where
        j: "join_job R P F area l (order (length (rq_jobs st))) st = Some (st', r)" by (auto simp: returns_def)
    with "1.IH" [OF False] False show ?thesis by (cases r) (simp_all add: join_all.simps [of R P F area l order st])
  qed (simp add: join_all.simps)
qed

lemma request_files_returns:
  "0 < unat (max_parallel_transfers l) \<Longrightarrow> ends (request_files R P F l W order root ops s k)"
  unfolding request_files_def
  by (auto split: prod.splits sum.splits intro!: returns_and_run request_all_returns join_all_returns)

lemma prepare_session_returns:
  assumes "readable s" and "limits_ok l"
  shows "ends (prepare_session R G blake3 P F V l W x root s c k)"
proof -
  have "ends (receive_index s (dw_accept_uni W) (messages_new l) x [])"
    using assms by (intro receive_index_returns messages_ready_new) (simp_all add: limits_ok_def)
  then obtain x1 remote indexing where "receive_index s (dw_accept_uni W) (messages_new l) x [] = Some ((x1, remote), indexing)"
    by (auto simp: returns_def)
  moreover have "ends (request_files R P F l (dw_requests W) (dw_order W) root ops s' k)" for ops s'
    using assms by (intro request_files_returns) (simp add: limits_ok_def)
  ultimately show ?thesis
    by (simp add: prepare_session_def Let_def split: prod.splits)
qed

lemma serve_returns:
  assumes "readable s" and "limits_ok (destination_limits config)"
  shows "ends (serve R G blake3 sha256 P opn F V config W s k)"
proof -
  have "ends (start_session sha256 opn config W s k)"
    using assms by (intro start_session_returns) (simp_all add: limits_ok_def)
  then obtain c0 k0 r0 where st: "start_session sha256 opn config W s k = Some ((c0, k0), r0)" by (auto simp: returns_def)
  have "ends (serve_inner R G blake3 sha256 P opn F V config W s k)"
  proof (cases r0)
    case (Inr y)
    obtain x configured c root where "y = (x, configured, c, root)" by (cases y)
    with st Inr show ?thesis
      by (auto simp: serve_inner_def Let_def split: prod.splits sum.splits
          intro!: returns_and_run prepare_session_returns [OF assms])
  qed (use st in \<open>simp add: serve_inner_def Let_def\<close>)
  then show ?thesis by (simp add: serve_def)
qed

section \<open>The daemon goes on\<close>

lemma accepted_bounds:
  assumes "listen q B config identity canc = Some (Inr L)" and "accept_early q' L incoming = Inr s"
  shows "session_bounds s = from_limits (destination_limits config)"
proof -
  have "listener_bounds L = from_limits (destination_limits config)"
    using assms(1) by (auto simp: listen_def Let_def result_simps split: sum.splits option.splits)
  with assms(2) show ?thesis
    by (auto simp: accept_early_def accept_mode_def result_simps session_new_def session_new_early_def
        split: option.splits if_splits)
qed


end
