(* ===== verification/Rehearsal.thy ===== *)
theory Rehearsal
  imports Convergence Survival
begin

text \<open>
  One session run through on the sample system: the source has a file \<open>a\<close>, the destination an empty
  root. The properties of whole sessions are applied to it.
\<close>

section \<open>The two sides\<close>

definition empty_kernel :: kernel where
  "empty_kernel = \<lparr>nodes = [([], Dir 493 0)], fds = [], clock = 100\<rparr>"

definition kernel_opens :: "(kernel, nat) open_path" where
  "kernel_opens p fl k = map_step_err (\<lambda>_. ''no descriptor'') (new_fd [] k)"

definition padded :: "bytes \<Rightarrow> bytes" where
  "padded b = take 32 (b @ replicate 32 0)"

definition source_view :: fs_view where
  "source_view = \<lparr>view_root = [47],
     read_dir = (\<lambda>d. if d = [] then Inr [Inr [97]] else Inl ''gone''),
     symlink_metadata = (\<lambda>q. if q = [[97]] then Inr \<lparr>file_type = RegularType, permissions_mode = 420, raw_mtime = 0,
       raw_mtime_nsec = 5, raw_len = 1\<rparr> else Inl ''gone''),
     read_file = (\<lambda>_. Inl ''gone''), read_link = (\<lambda>_. Inl ''no link''),
     open_file = (\<lambda>q. if q = [[97]] then Inr [Inr [1]] else Inl ''gone'')\<rparr>"

definition empty_view :: fs_view where
  "empty_view = \<lparr>view_root = [47], read_dir = (\<lambda>d. if d = [] then Inr [] else Inl ''gone''),
     symlink_metadata = (\<lambda>q. Inl ''gone''), read_file = (\<lambda>_. Inl ''gone''), read_link = (\<lambda>_. Inl ''no link''),
     open_file = (\<lambda>q. Inl ''gone'')\<rparr>"

definition file_a :: IndexRecord where
  "file_a = \<lparr>path = RelativePath [[97]], metadata = \<lparr>kind = RegularFile, mode = 420, mtime_ns = 5, entry_size = 1\<rparr>,
     digest = Some (Digest (padded [1])), symlink_target = None\<rparr>"

lemma source_view_sel:
  "read_dir source_view d = (if d = [] then Inr [Inr [97]] else Inl ''gone'')"
  "symlink_metadata source_view q = (if q = [[97]] then Inr \<lparr>file_type = RegularType, permissions_mode = 420,
     raw_mtime = 0, raw_mtime_nsec = 5, raw_len = 1\<rparr> else Inl ''gone'')"
  "open_file source_view q = (if q = [[97]] then Inr [Inr [1]] else Inl ''gone'')"
  by (simp_all add: source_view_def)

lemma empty_view_sel:
  "read_dir empty_view d = (if d = [] then Inr [] else Inl ''gone'')"
  "symlink_metadata empty_view q = Inl ''gone''" "open_file empty_view q = Inl ''gone''"
  by (simp_all add: empty_view_def)

lemmas scan_steps = scan_root_def scan_directory.simps read_entries_def discover_ignore_def scan_entry_def
  append_component_def metadata_for_def metadata_from_def relative_path_new_def digest_for_def digest_file_def emit_def
  blocking_send_def with_configured_exclusions_def index_stream_def relative_to_path_def Let_def

lemma source_scan:
  "scan_root sample_gitignore padded source_view [] DEFAULT_LIMITS None = (index_stream [file_a], Inr ())"
  by (simp add: scan_steps source_view_sel file_a_def metadata_mtime_ns_def decision_def DEFAULT_LIMITS_def
      bytes_of_def check_component_def is_protected_def PROTECTED_COMPONENTS_def policy_empty_def map_step_err_def)

lemma destination_scan:
  "scan_root sample_gitignore padded empty_view [] DEFAULT_LIMITS None = (index_stream [], Inr ())"
  by (simp add: scan_steps empty_view_sel map_step_err_def)

section \<open>The bytes on the wire\<close>

definition fresh_send :: SendStream where
  "fresh_send = \<lparr>written = [], write_outcomes = [], send_finished = False\<rparr>"

definition index_bytes :: bytes where
  "index_bytes = frame_of index_wire enc_index (Record file_a) @ frame_of index_wire enc_index End"

definition start_bytes :: bytes where
  "start_bytes = frame_of control_wire enc_control (StartSync [114])"

definition answer_bytes :: bytes where
  "answer_bytes = frame_of transfer_wire enc_transfer (WholeFile [1]) @ frame_of transfer_wire enc_transfer TransferEnd"

lemma index_frames:
  "encode index_wire (Record file_a) default_codec = Inr (frame_of index_wire enc_index (Record file_a))"
  "encode index_wire End default_codec = Inr (frame_of index_wire enc_index End)"
  "length (frame_of index_wire enc_index (Record file_a)) < 16777216"
  "length (frame_of index_wire enc_index End) < 16777216"
  by (simp_all add: index.encode_Inr payload_of_def frame_of_def layout_simps DEFAULT_LIMITS_def codec_limits_from_def file_a_def
      padded_def)

lemma control_frames:
  "encode control_wire (StartSync [114]) default_codec = Inr start_bytes"
  "encode control_wire StartAccepted default_codec = Inr (frame_of control_wire enc_control StartAccepted)"
  "encode control_wire PlanEnd default_codec = Inr (frame_of control_wire enc_control PlanEnd)"
  "encode control_wire CompleteAck default_codec = Inr (frame_of control_wire enc_control CompleteAck)"
  "length start_bytes < 8192"
  "length (frame_of control_wire enc_control StartAccepted) < 16777216"
  "length (frame_of control_wire enc_control PlanEnd) < 16777216"
  "length (frame_of control_wire enc_control CompleteAck) < 16777216"
  by (simp_all add: start_bytes_def control.encode_Inr payload_of_def frame_of_def layout_simps DEFAULT_LIMITS_def codec_limits_from_def)

lemma answer_sent: "sent_as transfer_wire default_codec [WholeFile [1], TransferEnd] answer_bytes"
proof -
  have "encode transfer_wire (WholeFile [1]) default_codec = Inr (frame_of transfer_wire enc_transfer (WholeFile [1]))"
    "encode transfer_wire TransferEnd default_codec = Inr (frame_of transfer_wire enc_transfer TransferEnd)"
    by (simp_all add: transfer.encode_Inr payload_of_def layout_simps DEFAULT_LIMITS_def codec_limits_from_def)
  from sent_as_append [OF sent_as_single [OF this(1)] sent_as_single [OF this(2)]] show ?thesis
    by (simp add: answer_bytes_def)
qed

lemma sample_writes:
  "same_session sample_session s \<Longrightarrow> length b \<le> 16777216 \<Longrightarrow>
     send_bounded s \<lparr>written = w, write_outcomes = [], send_finished = False\<rparr> b action =
       (\<lparr>written = w @ b, write_outcomes = [], send_finished = False\<rparr>, Inr ())"
  by (simp add: send_bounded_def same_session_def sample_session_def session_new_def session_new_early_def from_limits_def
      DEFAULT_LIMITS_def write_all_def guarded_in_def)

lemma index_goes:
  "same_session sample_session s \<Longrightarrow> send_index s DEFAULT_LIMITS (index_stream [file_a]) fresh_send =
     (\<lparr>written = index_bytes, write_outcomes = [], send_finished = True\<rparr>, Inr ())"
  using index_frames
  by (simp add: index_stream_def wire_encode_def index_send_def fresh_send_def sample_writes index_finish_def stream_finish_def
      index_bytes_def)

lemmas index_sent = index_goes [OF same_session_refl]

lemma index_reaches_sample: "index_reaches sample_session [Data index_bytes, Fin] index_bytes"
  using sample_delivers [of index_bytes "[index_bytes]"]
  by (simp add: index_reaches_def sample_stream_def transfer_stream_new_def)

lemma frame_limit_positive: "0 < unat (max_frame_bytes DEFAULT_LIMITS)"
  by (simp add: DEFAULT_LIMITS_def)

lemma padded_length: "length (padded b) = 32"
  by (simp add: padded_def)

lemma file_a_ok: "\<forall>r. Inr (Record r) \<in> set (index_stream [file_a]) \<longrightarrow> index_ok (Record r)"
  by (simp add: index_stream_def file_a_def record_ok_def path_ok_def component_ok_def digest_ok_def padded_length)

theorem index_arrives_witness:
  "\<exists>S x'. complete S (index_stream [file_a]) \<and>
     receive_index sample_session (Ready (Inr [Data index_bytes, Fin])) (messages_new DEFAULT_LIMITS)
       \<lparr>idx_stream = None, idx_finished = False\<rparr> [] = Some ((x', index_stream S), Inr ())"
  by (rule index_arrives [OF index_sent _ _ frame_limit_positive file_a_ok])
    (simp_all add: fresh_send_def index_reaches_sample)

lemma sample_index_received:
  obtains x' where "receive_index sample_session (Ready (Inr [Data index_bytes, Fin])) (messages_new DEFAULT_LIMITS)
      \<lparr>idx_stream = None, idx_finished = False\<rparr> [] = Some ((x', index_stream [file_a]), Inr ())"
proof -
  have "\<exists>S x'. complete S (index_stream [file_a]) \<and> receive_index sample_session (Ready (Inr [Data index_bytes, Fin]))
      (messages_new DEFAULT_LIMITS) \<lparr>idx_stream = None, idx_finished = False\<rparr> [] = Some ((x', index_stream S), Inr ())"
    by (rule index_received [OF index_sent _ _ frame_limit_positive file_a_ok]) (simp_all add: fresh_send_def index_reaches_sample)
  then show ?thesis using that complete_index_unique by blast
qed

section \<open>The start of the session\<close>

text \<open>A message that arrives in one piece.\<close>

lemma first_message:
  assumes wire: "wire_message T flds limit valid" and x: "encode T x l = Inr f" "valid x"
    and r: "receive st n = (st', Inr (Some f))" "weight st' < weight st"
  shows "\<exists>m'. next_message T fail closed receive weight \<lparr>msg_decoder = decoder_new l, msg_pending = [], msg_buffer_len = n\<rparr> st =
    Some ((m', st'), Inr x)"
proof -
  have "feed T l (InHeader []) [] f = Inr (InHeader [], [x])"
    using sent_as_feed [OF wire sent_as_single [OF x(1)]] x(2) by simp
  with push_loop_refines [OF decoder_inv_new, of l T f "[]"] obtain d where "push T (decoder_new l) f = Some (d, Inr [x])"
    by (auto simp: push_def outcome_def)
  with r show ?thesis by (simp add: next_message.simps)
qed

definition sample_cert :: bytes where
  "sample_cert = [0x30, 14, 0x30, 12, 2, 0, 2, 0, 2, 0, 2, 0, 2, 0, 0x30, 0]"

definition sample_sha :: "bytes \<Rightarrow> bytes" where
  "sample_sha b = replicate 32 3"

definition sample_root :: "unit ValidatedRoot" where
  "sample_root = \<lparr>root_path = [47], root_directory = (), root_device = 1, root_inode = 1\<rparr>"

definition sample_config :: "PeerPin list \<Rightarrow> (unit, unit) DestinationConfig" where
  "sample_config pins = \<lparr>listen_address = (),
     roots = [\<lparr>destination_id = RootId [114], destination_root = sample_root, authorized_peers = pins\<rparr>],
     destination_limits = DEFAULT_LIMITS, destination_private_key = []\<rparr>"

definition sample_request_world :: request_world where
  "sample_request_world = \<lparr>rw_join = 0, rw_reason = None, rw_open_bi = Ready (Inr (fresh_send, [Data answer_bytes, Fin])),
     rw_random = Some [7]\<rparr>"

definition sample_world :: dest_world where
  "sample_world = \<lparr>dw_accept_bi = Ready (Inr (fresh_send, [Data start_bytes, Fin])), dw_peer = CertificateChain [sample_cert],
     dw_accept_uni = Ready (Inr [Data index_bytes, Fin]), dw_handshake = Ready None, dw_accepting = None, dw_taken = None,
     dw_requests = (\<lambda>_. sample_request_world), dw_order = (\<lambda>_. 0)\<rparr>"

lemma sample_fingerprint: "peer_fingerprint sample_sha (dw_peer sample_world) = Inr (Fingerprint (replicate 32 3))"
  by (simp add: sample_world_def peer_fingerprint_def from_certificate_der_def fingerprint_certificate_def sample_cert_def
      split_at_checked_def der_skip_def upt_rec fingerprint_spki_def sample_sha_def)

abbreviation sample_control :: "bytes \<Rightarrow> ControlChannel" where
  "sample_control w \<equiv> control_new \<lparr>written = w, write_outcomes = [], send_finished = False\<rparr> [Fin]"

lemma sample_accept:
  "accept_session sample_session (dw_accept_bi sample_world) =
     Inr \<lparr>dst_control = control_new fresh_send [Data start_bytes, Fin], dst_source_index = \<lparr>idx_stream = None, idx_finished = False\<rparr>\<rparr>"
  by (simp add: accept_session_def guarded_in_def sample_world_def sample_session_def session_new_def session_new_early_def)

lemma sample_first_message:
  "\<exists>m. messages_next control_wire (control_receive sample_session) (\<lambda>c. recv_weight (ctl_recv c))
     (messages_new DEFAULT_LIMITS) (control_new fresh_send [Data start_bytes, Fin]) = Some ((m, sample_control []), Inr (StartSync [114]))"
  unfolding messages_next_def messages_new_def
proof (rule first_message [OF control.wire_message_axioms control_frames(1)])
  show "control_receive sample_session (control_new fresh_send [Data start_bytes, Fin])
      (min (unat (max_frame_bytes DEFAULT_LIMITS)) (64 * 1024)) = (sample_control [], Inr (Some start_bytes))"
    using control_frames(5)
    by (simp add: control_receive_def control_new_def receive_bounded_def sample_session_def session_new_def session_new_early_def
        from_limits_def DEFAULT_LIMITS_def guarded_in_def fresh_send_def)
qed (simp_all add: control_new_def)

text \<open>An authorised peer reaches the root; one that is not listed is turned away.\<close>

definition sample_pin :: PeerPin where "sample_pin = PeerPin (replicate 32 3)"

lemma sample_start:
  "start_session sample_sha kernel_opens (sample_config [sample_pin]) sample_world sample_session empty_kernel =
     Some ((Some (sample_control []), empty_kernel\<lparr>fds := [[]]\<rparr>),
       Inr (\<lparr>idx_stream = None, idx_finished = False\<rparr>,
         \<lparr>destination_id = RootId [114], destination_root = sample_root, authorized_peers = [sample_pin]\<rparr>, sample_control [], 0))"
proof -
  obtain m where "messages_next control_wire (control_receive sample_session) (\<lambda>c. recv_weight (ctl_recv c))
     (messages_new (destination_limits (sample_config [sample_pin]))) (control_new fresh_send [Data start_bytes, Fin]) =
       Some ((m, sample_control []), Inr (StartSync [114]))"
    using sample_first_message by (auto simp: sample_config_def)
  then show ?thesis
    by (simp add: start_session_def sample_accept sample_fingerprint find_root_def)
      (simp add: sample_config_def sample_pin_def root_handle_from_validated_def root_handle_open_def kernel_opens_def
        new_fd_def map_step_err_def empty_kernel_def)
qed

theorem peer_needs_authorisation_witness:
  "serve sample_rsync sample_gitignore padded sample_sha kernel_posix kernel_opens kernel_reads empty_view (sample_config [])
     sample_world sample_session empty_kernel =
   Some (\<lparr>sd_session = connection_cancel sample_session, sd_control = Some (sample_control []), sd_files = empty_kernel\<rparr>,
     Inl (quic_sync_error_new AuthorizationDenied None ''peer is not authorized for root''))"
proof -
  obtain m where "messages_next control_wire (control_receive sample_session) (\<lambda>c. recv_weight (ctl_recv c))
     (messages_new (destination_limits (sample_config []))) (control_new fresh_send [Data start_bytes, Fin]) =
       Some ((m, sample_control []), Inr (StartSync [114]))"
    using sample_first_message by (auto simp: sample_config_def)
  moreover have "\<not> destination_authorize (sample_config []) (PeerPin (fingerprint_bytes (Fingerprint (replicate 32 3)))) [114]"
    by (simp add: destination_authorize_def sample_config_def)
  ultimately show ?thesis
    using peer_needs_authorisation [OF sample_accept _ sample_fingerprint, of "sample_config []" m "sample_control []" "[114]"
        kernel_opens empty_kernel sample_rsync sample_gitignore padded kernel_posix kernel_reads empty_view] by simp
qed

section \<open>The transfer\<close>

lemma created_file:
  assumes run: "receive_file R P F s area rnd i p False l x k = Some ((x', k'), Inr rf)"
    and new: "wire_new x l = Inr w" and to_come: "wire_expects s w (map WholeFile cs @ [TransferEnd])"
  shows "staging_area_receive P area rnd (reads_of COPY_BUFFER (input_new (map ChunkData cs @ [ChunkEnd]))) k =
      (k', Inr (received_file rf))"
    and "written (xfer_send x) = [] \<Longrightarrow>
      sent_as transfer_wire (codec_limits_from l) [CreateRequest i p, TransferAccepted i] (written (xfer_send x'))"
proof -
  from run new obtain w1 w2 kb f w3 where ask: "wire_send s w (CreateRequest i p) = (w1, Inr ())"
    and body: "receive_whole P s area rnd w1 k = Some ((w2, kb), Inr f)"
    and ack: "acknowledge P s i p f w2 kb = Some ((w3, k'), Inr rf)" and x': "x' = wire_stream w3"
    by (auto simp: receive_file_def result_simps on_wire_Some split: sum.splits)
  from body obtain cs0 where c: "collect s whole_step ''expected whole-file bytes'' w1 [] = Some ((w2, cs0), Inr ())"
    and st: "staging_area_receive P area rnd (reads_of COPY_BUFFER (input_new (map ChunkData cs0 @ [ChunkEnd]))) k = (kb, Inr f)"
    by (rule receive_whole_out)
  have "wire_expects s w1 (map WholeFile cs @ [TransferEnd])" using to_come wire_expects_sent [OF wire_send_Inr [OF ask]] by simp
  from collect_expects [where wrong = "''expected whole-file bytes''" and acc = "[]" and step = whole_step, OF _ _ this] c
  have "cs0 = cs" by auto
  with st acknowledge_out [OF ack]
  show "staging_area_receive P area rnd (reads_of COPY_BUFFER (input_new (map ChunkData cs @ [ChunkEnd]))) k = (k', Inr (received_file rf))"
    by simp
  have "wire_out w ([CreateRequest i p] @ [] @ [TransferAccepted i]) w3"
    using wire_out_trans [OF wire_out_trans [OF sent_out [OF wire_send_Inr [OF ask]] read_out [OF collect_read [OF c]]]]
      acknowledge_out [OF ack] by force
  then show "sent_as transfer_wire (codec_limits_from l) [CreateRequest i p, TransferAccepted i] (written (xfer_send x'))"
    if "written (xfer_send x) = []"
    using fresh_out [OF new that] x' by simp
qed

lemma sample_reads: "reads_of COPY_BUFFER (input_new (map ChunkData [[1]] @ [ChunkEnd])) = [Inr [1]]"
  by (simp add: reads_of.simps input_read.simps input_new_def COPY_BUFFER_def)

definition opened_kernel :: kernel where
  "opened_kernel = empty_kernel\<lparr>fds := [[]]\<rparr>"

definition staged_kernel :: kernel where
  "staged_kernel = fst (staging_area_new kernel_posix 0 opened_kernel)"

definition received_kernel :: kernel where
  "received_kernel = fst (receive_in kernel_posix 1 (Some [7]) [Inr [1]] staged_kernel)"

lemma sample_staging: "staging_area_new kernel_posix 0 opened_kernel = (staged_kernel, Inr sample_area)"
proof -
  have "snd (staging_area_new kernel_posix 0 opened_kernel) = Inr sample_area" by code_simp
  then show ?thesis by (simp add: staged_kernel_def prod_eq_iff)
qed

lemma sample_received:
  "receive_in kernel_posix 1 (Some [7]) [Inr [1]] staged_kernel =
     (received_kernel, Inr \<lparr>staged_dir = 1, staged_name = staged_file_name [7]\<rparr>)"
proof -
  have "snd (receive_in kernel_posix 1 (Some [7]) [Inr [1]] staged_kernel) =
      Inr \<lparr>staged_dir = 1, staged_name = staged_file_name [7]\<rparr>" by code_simp
  then show ?thesis by (simp add: received_kernel_def prod_eq_iff)
qed

abbreviation request_a :: FileTransfer where
  "request_a \<equiv> CreateRequest (OperationId 0) (RelativePath [[97]])"

definition request_bytes :: bytes where
  "request_bytes = frame_of transfer_wire enc_transfer request_a @ frame_of transfer_wire enc_transfer (TransferAccepted (OperationId 0))"

lemma request_frames:
  "encode transfer_wire request_a default_codec = Inr (frame_of transfer_wire enc_transfer request_a)"
  "encode transfer_wire (TransferAccepted (OperationId 0)) default_codec =
     Inr (frame_of transfer_wire enc_transfer (TransferAccepted (OperationId 0)))"
  "length (frame_of transfer_wire enc_transfer request_a) \<le> 16777216"
  by (simp_all add: transfer.encode_Inr payload_of_def frame_of_def layout_simps DEFAULT_LIMITS_def codec_limits_from_def)

lemma request_sent: "sent_as transfer_wire default_codec [request_a, TransferAccepted (OperationId 0)] request_bytes"
  using sent_as_append [OF sent_as_single [OF request_frames(1)] sent_as_single [OF request_frames(2)]]
  by (simp add: request_bytes_def)

lemma request_messages_a:
  "destination_messages (OperationId 0) (RelativePath [[97]]) False [] = [request_a, TransferAccepted (OperationId 0)]"
  by (simp add: destination_messages_def request_messages_def request_of_def)

lemma staged_kernel_at:
  "kernel_at staged_kernel 0 = Some []" "kernel_at staged_kernel 1 = Some staging"
  "kernel_tree staged_kernel (staging @ [staged_file_name [7]]) = None"
  by code_simp+

text \<open>The session after the permit of the one transfer is taken: only the permits differ.\<close>

definition with_permits :: "nat \<Rightarrow> Session" where
  "with_permits n = sample_session\<lparr>handshake_accepted := Some True, transfer_permits := n\<rparr>"

lemma with_permits_same: "same_session sample_session (with_permits n)"
  by (simp add: same_session_def with_permits_def)

lemma half_delivers_cong: "same_session s s' \<Longrightarrow> half_delivers s' h bs \<longleftrightarrow> half_delivers s h bs"
  by (simp add: half_delivers_def same_session_def)

abbreviation answer_stream :: TransferStream where
  "answer_stream \<equiv> transfer_stream_new fresh_send [Data answer_bytes, Fin]"

lemma answer_stream_eq: "answer_stream = sample_stream [answer_bytes]"
  by (simp add: sample_stream_def fresh_send_def)

lemma answer_wire:
  assumes "same_session sample_session s"
  obtains w where "wire_new answer_stream DEFAULT_LIMITS = Inr w" "wire_expects s w (map WholeFile [[1]] @ [TransferEnd])"
    "Progress.ready s w" "wire_limits w = default_codec"
proof -
  have "fresh_end DEFAULT_LIMITS s answer_stream"
    using sample_fresh [of "[answer_bytes]"] assms
    by (simp add: answer_stream_eq fresh_end_def writable_def same_session_def)
  from fresh_wire [OF sample_frame_limit this] obtain w where
      w: "wire_new answer_stream DEFAULT_LIMITS = Inr w" "Progress.ready s w" "wire_limits w = default_codec" by blast
  have "half_delivers s (xfer_recv answer_stream, xfer_finished answer_stream) answer_bytes"
    using sample_delivers [of answer_bytes "[answer_bytes]"] half_delivers_cong [OF assms] by (simp add: answer_stream_eq)
  from wire_new_expects [OF w(1) answer_sent _ this] w show ?thesis by (intro that) simp_all
qed

lemma sample_receive:
  obtains x rf where "receive_file sample_rsync kernel_posix kernel_reads (with_permits n) sample_area (Some [7]) (OperationId 0)
      (RelativePath [[97]]) False DEFAULT_LIMITS answer_stream staged_kernel = Some ((x, received_kernel), Inr rf)"
    "received_file rf = \<lparr>staged_dir = 1, staged_name = staged_file_name [7]\<rparr>"
proof -
  obtain w where w: "wire_new answer_stream DEFAULT_LIMITS = Inr w" "wire_expects (with_permits n) w (map WholeFile [[1]] @ [TransferEnd])"
    "Progress.ready (with_permits n) w" "wire_limits w = default_codec"
    by (rule answer_wire [OF with_permits_same])
  have "sendable (with_permits n) (wire_limits w) (request_of (OperationId 0) (RelativePath [[97]]) False)"
    using request_frames w(4)
    by (simp add: sendable_def request_of_def with_permits_def sample_session_def session_new_def session_new_early_def
        from_limits_def DEFAULT_LIMITS_def)
  moreover have "receivable sample_rsync kernel_posix kernel_reads sample_area [7] (RelativePath [[97]]) False staged_kernel
      (wire_chunk_size w) [] (concat [[1]]) [1]"
    using kernel_takes [of staged_kernel sample_area "[7]"] staged_kernel_at
    by (simp add: receivable_def sample_area_def)
  ultimately obtain x' k' rf where run: "receive_file sample_rsync kernel_posix kernel_reads (with_permits n) sample_area (Some [7])
      (OperationId 0) (RelativePath [[97]]) False DEFAULT_LIMITS answer_stream staged_kernel = Some ((x', k'), Inr rf)"
    using receive_goes [OF w(1,3), of "OperationId 0" "RelativePath [[97]]" False sample_rsync kernel_posix kernel_reads sample_area
        "[7]" staged_kernel "[]" "[[1]]" "[1]"] w(2) by auto
  from created_file(1) [OF run w(1,2)] sample_received
  have "k' = received_kernel" "received_file rf = \<lparr>staged_dir = 1, staged_name = staged_file_name [7]\<rparr>"
    unfolding sample_reads by (simp_all add: staging_area_receive_def sample_area_def)
  with run that show ?thesis by simp
qed

section \<open>The whole session\<close>

abbreviation upsert_a :: Operation where
  "upsert_a \<equiv> UpsertFile False (OperationId 0) file_a"

definition changes_a :: "nat changes" where
  "changes_a = [(OperationId 0, upsert_a, Some \<lparr>staged_dir = 1, staged_name = staged_file_name [7]\<rparr>)]"

lemma sample_diff: "plan (index_stream [file_a]) (index_stream []) None = ([upsert_a], Inr ())"
proof -
  have "merge [file_a] [] = [\<lambda>i. UpsertFile False i file_a]"
    by (simp add: change_cases upsert_operation_def record_kind_def file_a_def)
  with plan_start [OF complete_index_stream complete_index_stream, of "[file_a]" "[]"] show ?thesis by simp
qed

lemma sample_send_control:
  assumes "encode control_wire m default_codec = Inr f" and "length f \<le> 16777216"
  shows "send_control DEFAULT_LIMITS (with_permits n) m (sample_control w) = (sample_control (w @ f), Inr ())"
  using assms by (simp add: send_control_def wire_encode_def control_send_def control_new_def sample_writes [OF with_permits_same])

abbreviation mark_bytes :: "Control \<Rightarrow> bytes" where
  "mark_bytes m \<equiv> frame_of control_wire enc_control m"

lemma sample_planning:
  "plan_session DEFAULT_LIMITS (with_permits 4) (index_stream [file_a]) (index_stream []) None (sample_control []) =
     (sample_control (mark_bytes StartAccepted @ mark_bytes PlanEnd), [upsert_a], Inr ())"
  using control_frames by (simp add: plan_session_def sample_send_control sample_diff)

lemma sample_handshake: "confirm_handshake sample_session (Ready None) = (with_permits 4, Inr ())"
  by (simp add: confirm_handshake_def with_permits_def sample_session_def session_new_def session_new_early_def from_limits_def
      DEFAULT_LIMITS_def)

lemma sample_open:
  "transfer_open (with_permits 4) None (Ready (Inr (fresh_send, [Data answer_bytes, Fin]))) = (with_permits 3, Inr answer_stream)"
  by (simp add: transfer_open_def reserve_def guarded_in_def with_permits_def sample_session_def session_new_def session_new_early_def)

lemma sample_requests:
  "\<exists>st. request_files sample_rsync kernel_posix kernel_reads DEFAULT_LIMITS (dw_requests sample_world) (dw_order sample_world) 0
       [upsert_a] (with_permits 4) opened_kernel = Some (st, Inr ()) \<and>
     rq_session st = with_permits 4 \<and> rq_files st = received_kernel \<and> rq_pending st = changes_a"
proof -
  let ?st = "\<lparr>rq_session = with_permits 3, rq_files = staged_kernel,
      rq_jobs = [\<lparr>job_operation = upsert_a, job_stream = answer_stream, job_random = Some [7]\<rparr>], rq_pending = []\<rparr>"
  obtain x rf where r: "receive_file sample_rsync kernel_posix kernel_reads (with_permits 3) sample_area (Some [7]) (OperationId 0)
      (RelativePath [[97]]) False DEFAULT_LIMITS answer_stream staged_kernel = Some ((x, received_kernel), Inr rf)"
    "received_file rf = \<lparr>staged_dir = 1, staged_name = staged_file_name [7]\<rparr>" by (rule sample_receive)
  have "request_operation sample_rsync kernel_posix kernel_reads sample_area DEFAULT_LIMITS (dw_requests sample_world) upsert_a
      \<lparr>rq_session = with_permits 4, rq_files = staged_kernel, rq_jobs = [], rq_pending = []\<rparr> = Some (?st, Inr ())"
    by (simp add: request_operation_def sample_world_def sample_request_world_def sample_open DEFAULT_LIMITS_def)
  moreover have "join_job sample_rsync kernel_posix kernel_reads sample_area DEFAULT_LIMITS 0 ?st =
      Some (\<lparr>rq_session = with_permits 4, rq_files = received_kernel, rq_jobs = [], rq_pending = changes_a\<rparr>, Inr ())"
    using r by (simp add: join_job_def operation_update_def file_a_def remove_nth_def stage_pending_def stage_change_def
        with_permits_def drop_permit_def changes_a_def)
  ultimately show ?thesis
    by (simp add: request_files_def sample_staging sample_world_def join_all.simps)
qed

abbreviation sample_marks :: bytes where
  "sample_marks \<equiv> mark_bytes StartAccepted @ mark_bytes PlanEnd @ mark_bytes CompleteAck"

lemma sample_prepared:
  "\<exists>out. prepare_session sample_rsync sample_gitignore padded kernel_posix kernel_reads empty_view DEFAULT_LIMITS sample_world
       \<lparr>idx_stream = None, idx_finished = False\<rparr> 0 sample_session (sample_control []) opened_kernel = Some (out, Inr changes_a) \<and>
     sd_session out = with_permits 4 \<and> sd_files out = received_kernel \<and>
     sd_control out = Some (sample_control (mark_bytes StartAccepted @ mark_bytes PlanEnd))"
proof -
  let ?x = "\<lparr>idx_stream = None, idx_finished = False\<rparr>"
  obtain x' where "receive_index sample_session (Ready (Inr [Data index_bytes, Fin])) (messages_new DEFAULT_LIMITS) ?x [] =
      Some ((x', index_stream [file_a]), Inr ())" by (rule sample_index_received)
  then have ix: "receive_index sample_session (dw_accept_uni sample_world) (messages_new DEFAULT_LIMITS) ?x [] =
      Some ((x', index_stream [file_a]), Inr ())" by (simp add: sample_world_def)
  obtain st where st: "request_files sample_rsync kernel_posix kernel_reads DEFAULT_LIMITS (dw_requests sample_world)
      (dw_order sample_world) 0 [upsert_a] (with_permits 4) opened_kernel = Some (st, Inr ())" "rq_session st = with_permits 4"
      "rq_files st = received_kernel" "rq_pending st = changes_a"
    using sample_requests by blast
  have W: "dw_accepting sample_world = None" "dw_handshake sample_world = Ready None" "dw_taken sample_world = None"
    by (simp_all add: sample_world_def)
  show ?thesis
    using st by (simp add: prepare_session_def destination_scan ix W sample_handshake sample_planning)
qed

lemma sample_receive_end:
  "control_receive (with_permits n) (sample_control w) 1 = (sample_control w\<lparr>ctl_finished := True\<rparr>, Inr None)"
  by (simp add: control_receive_def control_new_def receive_bounded_def with_permits_def sample_session_def session_new_def
      session_new_early_def from_limits_def DEFAULT_LIMITS_def guarded_in_def)

definition reopened_kernel :: kernel where
  "reopened_kernel = received_kernel\<lparr>fds := fds received_kernel @ [[]]\<rparr>"

definition committed_kernel :: kernel where
  "committed_kernel = fst (commit kernel_posix 3 changes_a reopened_kernel)"

lemma sample_reopen:
  "root_handle_from_validated kernel_opens sample_root received_kernel = (reopened_kernel, Inr 3)"
proof -
  have "length (fds received_kernel) = 3" by code_simp
  then show ?thesis
    by (simp add: root_handle_from_validated_def root_handle_open_def kernel_opens_def new_fd_def map_step_err_def
        reopened_kernel_def)
qed

lemma commit_a: "commit kernel_posix 3 changes_a reopened_kernel = (committed_kernel, Inr ())"
proof -
  have "\<not> isl (snd (commit kernel_posix 3 changes_a reopened_kernel))" by code_simp
  from ran_ok [OF this] show ?thesis by (auto simp: committed_kernel_def)
qed

lemma sample_served:
  "serve sample_rsync sample_gitignore padded sample_sha kernel_posix kernel_opens kernel_reads empty_view
     (sample_config [sample_pin]) sample_world sample_session empty_kernel =
   Some (\<lparr>sd_session = with_permits 4, sd_control = Some (sample_control sample_marks\<lparr>ctl_finished := True\<rparr>),
     sd_files = committed_kernel\<rparr>, Inr ())"
proof -
  have l: "destination_limits (sample_config [sample_pin]) = DEFAULT_LIMITS" by (simp add: sample_config_def)
  obtain out where out: "prepare_session sample_rsync sample_gitignore padded kernel_posix kernel_reads empty_view DEFAULT_LIMITS
      sample_world \<lparr>idx_stream = None, idx_finished = False\<rparr> 0 sample_session (sample_control []) opened_kernel = Some (out, Inr changes_a)"
      "sd_session out = with_permits 4" "sd_files out = received_kernel"
      "sd_control out = Some (sample_control (mark_bytes StartAccepted @ mark_bytes PlanEnd))"
    using sample_prepared by blast
  have "send_control DEFAULT_LIMITS (with_permits 4) CompleteAck (sample_control (mark_bytes StartAccepted @ mark_bytes PlanEnd)) =
      (sample_control sample_marks, Inr ())"
    using sample_send_control [OF control_frames(4), of 4] control_frames(8) by simp
  then have "commit_session kernel_posix DEFAULT_LIMITS 3 changes_a (sample_control (mark_bytes StartAccepted @ mark_bytes PlanEnd))
      (out\<lparr>sd_files := reopened_kernel\<rparr>) =
    (out\<lparr>sd_files := committed_kernel, sd_control := Some (sample_control sample_marks\<lparr>ctl_finished := True\<rparr>)\<rparr>, Inr ())"
    using out(2) by (simp add: commit_session_def commit_a sample_receive_end [simplified])
  then have "serve_inner sample_rsync sample_gitignore padded sample_sha kernel_posix kernel_opens kernel_reads empty_view
      (sample_config [sample_pin]) sample_world sample_session empty_kernel =
    Some (out\<lparr>sd_files := committed_kernel, sd_control := Some (sample_control sample_marks\<lparr>ctl_finished := True\<rparr>)\<rparr>, Inr ())"
    using out sample_reopen by (simp add: serve_inner_def sample_start l opened_kernel_def [symmetric])
  with out(2) show ?thesis by (cases out) (simp add: serve_def)
qed

section \<open>The source's loop\<close>

lemma serve_turn_goes:
  assumes e: "serving_expects cl st (m # ms)" and c: "awaited st = m # rest" and flags: "sv_planned st \<longrightarrow> sv_accepted st"
  shows "\<exists>st'. serve_turn R P F root l ControlReady st = Some (st', Inr (rest = [])) \<and> serving_expects cl st' ms \<and>
    (rest \<noteq> [] \<longrightarrow> awaited st' = rest) \<and> (sv_planned st' \<longrightarrow> sv_accepted st') \<and> sv_jobs st' = sv_jobs st"
proof -
  from control_input.next_returns [OF e [unfolded serving_expects_def]] obtain m' c' where
      n: "messages_next control_wire (control_receive (sv_session st)) (\<lambda>c. recv_weight (ctl_recv c)) (sv_messages st) (sv_control st) =
        Some ((m', c'), Inr m)"
    and r: "control_input.expects (sv_session st) control_wire cl m' c' ms (InHeader [])"
    unfolding messages_next_def by blast
  let ?st = "st\<lparr>sv_messages := m', sv_control := c'\<rparr>"
  obtain st' where "serve_control m ?st = Inr (st', rest = [])" "rest \<noteq> [] \<longrightarrow> awaited st' = rest"
    "sv_session st' = sv_session st" "sv_messages st' = m'" "sv_control st' = c'" "sv_jobs st' = sv_jobs st"
    "sv_planned st' \<longrightarrow> sv_accepted st'"
    using c flags by (cases st) (auto simp: awaited_def serve_control.simps split: if_splits)
  with n r show ?thesis by (simp add: serve_turn_def Let_def serving_expects_def)
qed

lemma serve_loop_goes:
  assumes "serving_expects cl st [StartAccepted, PlanEnd, CompleteAck]" and "sv_jobs st = []" and "\<not> sv_accepted st" "\<not> sv_planned st"
  shows "\<exists>st'. serve_loop R P F root l [ControlReady, ControlReady, ControlReady] st = Some (st', Inr ())"
proof -
  have "awaited st = [StartAccepted, PlanEnd, CompleteAck]" using assms by (simp add: awaited_def)
  from serve_turn_goes [OF assms(1) this, of R P F root l] assms obtain s1 where
      1: "serve_turn R P F root l ControlReady st = Some (s1, Inr False)" "serving_expects cl s1 [PlanEnd, CompleteAck]"
        "awaited s1 = [PlanEnd, CompleteAck]" "sv_planned s1 \<longrightarrow> sv_accepted s1" "sv_jobs s1 = []" by auto
  from serve_turn_goes [OF 1(2-4), of R P F root l] 1(5) obtain s2 where
      2: "serve_turn R P F root l ControlReady s1 = Some (s2, Inr False)" "serving_expects cl s2 [CompleteAck]"
        "awaited s2 = [CompleteAck]" "sv_planned s2 \<longrightarrow> sv_accepted s2" "sv_jobs s2 = []" by auto
  from serve_turn_goes [OF 2(2-4), of R P F root l] 2(5) obtain s3 where
      3: "serve_turn R P F root l ControlReady s2 = Some (s3, Inr True)" "sv_jobs s3 = []" by auto
  show ?thesis using 1(1) 2(1) 3 by (simp add: control_close_def record_completion_ack_def)
qed

abbreviation source_control :: ControlChannel where
  "source_control \<equiv> control_new fresh_send [Data sample_marks, Fin]"

lemma marks_reach_any:
  assumes "same_session sample_session s" and "ctl_recv c = [Data sample_marks, Fin]" and "\<not> ctl_finished c"
  shows "control_reaches s c sample_marks"
  using sample_delivers [of sample_marks "[sample_marks]"] assms
  by (simp add: control_reaches_def half_delivers_def same_session_def sample_stream_def transfer_stream_new_def)

lemma marks_reach: "control_reaches sample_session source_control sample_marks"
  by (rule marks_reach_any) (simp_all add: control_new_def)

lemma marks_sent_a: "sent_as control_wire default_codec [StartAccepted, PlanEnd, CompleteAck] sample_marks"
  using sent_as_append [OF sent_as_single [OF control_frames(2)] sent_as_append [OF sent_as_single [OF control_frames(3)]
      sent_as_single [OF control_frames(4)]]] by simp

lemma sample_loop:
  assumes "control_reaches s c sample_marks"
  shows "\<exists>st'. serve_loop R P F root DEFAULT_LIMITS [ControlReady, ControlReady, ControlReady] (serving_new s c DEFAULT_LIMITS) =
    Some (st', Inr ())"
  by (rule serve_loop_goes [OF serving_new_expects [OF assms marks_sent_a _ frame_limit_positive]])
    (simp_all add: serving_new_def)

theorem source_waits_for_ack_witness:
  "\<exists>st'. serve_loop sample_rsync kernel_posix kernel_reads 0 DEFAULT_LIMITS [ControlReady, ControlReady, ControlReady]
     (serving_new sample_session source_control DEFAULT_LIMITS) = Some (st', Inr ()) \<and>
     completion (sv_control st') = Acknowledged"
proof -
  obtain st' where run: "serve_loop sample_rsync kernel_posix kernel_reads 0 DEFAULT_LIMITS [ControlReady, ControlReady, ControlReady]
     (serving_new sample_session source_control DEFAULT_LIMITS) = Some (st', Inr ())" using sample_loop [OF marks_reach, of sample_rsync kernel_posix kernel_reads 0] by blast
  from source_waits_for_ack [OF run marks_reach marks_sent_a _ frame_limit_positive] run show ?thesis by auto
qed

theorem acknowledged_means_committed_witness:
  "session_committed sample_rsync sample_gitignore padded kernel_posix kernel_opens kernel_reads empty_view
     (sample_config [sample_pin]) sample_world sample_session committed_kernel"
proof -
  obtain st' where run: "serve_loop sample_rsync kernel_posix kernel_reads 0 DEFAULT_LIMITS [ControlReady, ControlReady, ControlReady]
     (serving_new sample_session source_control DEFAULT_LIMITS) = Some (st', Inr ())" using sample_loop [OF marks_reach, of sample_rsync kernel_posix kernel_reads 0] by blast
  have acc: "dw_accept_bi sample_world = Ready (Inr (fresh_send, [Data start_bytes, Fin]))" by (simp add: sample_world_def)
  let ?c = "sample_control sample_marks\<lparr>ctl_finished := True\<rparr>"
  have w: "written (ctl_send ?c) = sample_marks" by (simp add: control_new_def)
  have "session_committed sample_rsync sample_gitignore padded kernel_posix kernel_opens kernel_reads empty_view
     (sample_config [sample_pin]) sample_world sample_session
     (sd_files \<lparr>sd_session = with_permits 4, sd_control = Some ?c, sd_files = committed_kernel\<rparr>)"
    by (rule acknowledged_means_committed [OF sample_served acc _ _ run, where c = ?c])
      (simp_all only: w marks_reach served.simps, simp_all add: fresh_send_def DEFAULT_LIMITS_def)
  then show ?thesis by simp
qed

section \<open>The properties of whole sessions\<close>

lemma kernel_opens_root: "opens kernel_opens kernel_tree kernel_at p"
  by (auto simp: opens_def kernel_opens_def new_fd_def map_step_err_def kernel_tree_def keeps_def kernel_at_def nth_append
      split: if_splits)

lemma sample_records:
  "received_records (destination_limits (sample_config [sample_pin])) sample_session sample_world \<union>
    own_records sample_gitignore padded empty_view (destination_limits (sample_config [sample_pin])) sample_world = {file_a}"
proof -
  obtain x' where "receive_index sample_session (Ready (Inr [Data index_bytes, Fin])) (messages_new DEFAULT_LIMITS)
      \<lparr>idx_stream = None, idx_finished = False\<rparr> [] = Some ((x', index_stream [file_a]), Inr ())"
    by (rule sample_index_received)
  then show ?thesis
    by (simp add: received_records_def own_records_def sample_world_def sample_config_def destination_scan)
qed

lemma sample_elsewhere: "[[98]] \<notin> record_names {file_a}" "\<not> prefix staging [[98]]"
  by (simp_all add: record_names_def touched_def file_a_def bytes_of_def)

theorem session_confined_witness:
  "same_dir (kernel_tree empty_kernel [[98]]) (kernel_tree committed_kernel [[98]])"
  using session_confined [OF kern.posix_fs_axioms sample_served sample_start kernel_opens_root sample_elsewhere(2)]
    sample_elsewhere(1) unfolding sample_records by simp

section \<open>A daemon's day\<close>

text \<open>
  The endpoint yields a connection that fails, then that of the sample session.
\<close>

definition sample_quinn :: "('addr, unit, unit, unit, unit) quinn" where
  "sample_quinn = \<lparr>with_alpn = (\<lambda>_ _. ()), crypto_try_from = Inr, is_ipv4 = (\<lambda>_. True), endpoint_client = (\<lambda>_. Inr ()),
     connect_with = (\<lambda>_ _ _ _ _. Inr ()), into_0rtt = (\<lambda>_. None), await_connecting = (\<lambda>_. Ready (Inr ())),
     endpoint_server = (\<lambda>_ _ _. Inr ())\<rparr>"

definition sample_rustls :: "unit rustls" where
  "sample_rustls = \<lparr>build_client = (\<lambda>_ _ _. Inr ()), build_server = (\<lambda>_ _ _. Inr ())\<rparr>"

definition sample_listener :: "unit Listener" where
  "sample_listener = \<lparr>listener_endpoint = (), listener_bounds = from_limits DEFAULT_LIMITS, listener_cancel = False\<rparr>"

definition sample_turn :: "(ConnectionError + unit) option waiting \<Rightarrow> ('addr, unit, unit, unit, unit) serve_turn_world" where
  "sample_turn w = \<lparr>dt_quinn = sample_quinn, dt_incoming = w, dt_world = sample_world, dt_view = empty_view\<rparr>"

lemma sample_accepts:
  "accept_early (dt_quinn (sample_turn (Ready (Some (Inr ()))))) sample_listener (dt_incoming (sample_turn (Ready (Some (Inr ()))))) =
     Inr sample_session"
  by (simp add: sample_turn_def accept_early_def accept_mode_def sample_quinn_def sample_listener_def sample_session_def
      guarded_infallible_def guarded_def)

lemma sample_rejects:
  "\<exists>e. accept_early (dt_quinn (sample_turn (Ready None))) sample_listener (dt_incoming (sample_turn (Ready None))) = Inl e"
  by (simp add: sample_turn_def accept_early_def accept_mode_def sample_listener_def guarded_infallible_def)




text \<open>The source's end of the transfer.\<close>

lemma sent_whole:
  assumes run: "serve_request R P F s root w k = Some ((w', k'), Inr u)" and ask: "wire_expects s w (CreateRequest i p # rest)"
    and fd: "open_regular P root p k = (k1, Inr (Some fd))"
    and cs: "produce (wire_chunk_size w) (read_to_end F k1 fd) = (cs, Inr ())"
  shows "wire_out w (map WholeFile cs @ [TransferEnd]) w'"
proof -
  from wire_next_expects [OF ask] obtain w1 where
      1: "wire_next s w = Some (w1, Inr (CreateRequest i p))" "wire_read w w1" by blast
  from run 1 fd obtain w2 k2 where 3: "on_wire k1 (Some (send_whole s (read_to_end F k1 fd) w1)) = Some ((w2, k2), Inr ())"
    and 4: "on_wire k2 (finish_send s i w2) = Some ((w', k'), Inr u)"
    by (auto simp: serve_request_def on_wire_def on_files_def result_simps split: prod.splits)
  have 4: "wire_out w2 [TransferEnd] w'" using 4 by (auto simp: on_wire_Some intro: finish_send_out)
  have "wire_chunk_size w1 = wire_chunk_size w" using 1(2) by (simp add: wire_read_def)
  with 3 cs have "send_chunks s WholeFile cs w1 = (w2, Inr ())" by (auto simp: on_wire_Some send_whole_def result_simps)
  from wire_out_trans [OF wire_out_trans [OF read_out [OF 1(2)] sent_out [OF send_chunks_Inr [OF this]]] 4]
  show ?thesis by simp
qed

lemma sample_send:
  obtains x1 k1 where "send_file sample_rsync kernel_posix kernel_reads sample_session 0 DEFAULT_LIMITS (sample_stream [request_bytes])
      sample_kernel = Some ((x1, k1), Inr ())" "written (xfer_send x1) = answer_bytes"
proof -
  let ?x = "sample_stream [request_bytes]"
  obtain k1 fd where o: "open_regular kernel_posix 0 (RelativePath [[97]]) sample_kernel = (k1, Inr (Some fd))"
    "read_to_end kernel_reads k1 fd = [Inr [1]]" by (rule sample_opened)
  obtain w where w: "wire_new ?x DEFAULT_LIMITS = Inr w" "Progress.ready sample_session w" "wire_chunk_size w = chunk_size_of DEFAULT_LIMITS"
    by (rule fresh_wire [OF sample_frame_limit sample_fresh])
  have "half_delivers sample_session (xfer_recv ?x, xfer_finished ?x) request_bytes"
    by (rule sample_delivers) simp
  from wire_new_expects [OF w(1) request_sent _ this] sample_request_ok
  have ask: "wire_expects sample_session w [request_a, TransferAccepted (OperationId 0)]" by simp
  have a: "answers sample_rsync False (read_to_end kernel_reads k1 fd) [] [1]" using o(2) by (simp add: answers_def)
  have "wire_expects sample_session w (request_of (OperationId 0) (RelativePath [[97]]) False # request_messages False [] @
      [TransferAccepted (OperationId 0)])"
    using ask by (simp add: request_of_def request_messages_def)
  from serve_goes [OF w(2) this o(1) a] obtain w' where
      run: "serve_request sample_rsync kernel_posix kernel_reads sample_session 0 w sample_kernel = Some ((w', k1), Inr ())" by blast
  have "produce (wire_chunk_size w) (read_to_end kernel_reads k1 fd) = ([[1]], Inr ())"
    by (simp add: w(3) o(2) chunk_size_of_def DEFAULT_LIMITS_def)
  from sent_whole [OF run ask o(1) this] have "wire_out w [WholeFile [1], TransferEnd] w'" by simp
  from fresh_out [OF w(1) _ this] have "sent_as transfer_wire default_codec [WholeFile [1], TransferEnd] (written (xfer_send (wire_stream w')))"
    by (simp add: sample_stream_def transfer_stream_new_def)
  from sent_as_unique [OF this answer_sent] run w(1) show ?thesis
    by (intro that [of "wire_stream w'" k1]) (simp_all add: send_file_def)
qed

lemma sample_answered:
  "answered sample_rsync kernel_posix kernel_reads kernel_posix kernel_reads 0 (\<lambda>_. [1]) DEFAULT_LIMITS sample_session
     (dw_requests sample_world) upsert_a"
  unfolding answered_def Let_def
proof (intro allI impI)
  fix st rs s2 area k x k' rf
  assume "is_upsert_file upsert_a \<and> rw_open_bi (dw_requests sample_world (operation_id upsert_a)) = Ready (Inr (st, rs)) \<and>
     same_session sample_session s2 \<and> receive_file sample_rsync kernel_posix kernel_reads s2 area
       (rw_random (dw_requests sample_world (operation_id upsert_a))) (operation_id upsert_a) (operation_path upsert_a)
       (operation_update upsert_a) DEFAULT_LIMITS (transfer_stream_new st rs) k = Some ((x, k'), Inr rf)"
  then have s2: "same_session sample_session s2" and st: "transfer_stream_new st rs = answer_stream"
    and run: "receive_file sample_rsync kernel_posix kernel_reads s2 area (Some [7]) (OperationId 0) (RelativePath [[97]]) False
      DEFAULT_LIMITS answer_stream k = Some ((x, k'), Inr rf)"
    by (auto simp: sample_world_def sample_request_world_def operation_update_def file_a_def)
  obtain w where w: "wire_new answer_stream DEFAULT_LIMITS = Inr w" "wire_expects s2 w (map WholeFile [[1]] @ [TransferEnd])"
    by (rule answer_wire [OF s2])
  have "written (xfer_send x) = request_bytes"
    using sent_as_unique [OF created_file(2) [OF run w] request_sent] by (simp add: transfer_stream_new_def fresh_send_def)
  obtain x1 k1 where source: "send_file sample_rsync kernel_posix kernel_reads sample_session 0 DEFAULT_LIMITS
      (sample_stream [request_bytes]) sample_kernel = Some ((x1, k1), Inr ())" "written (xfer_send x1) = answer_bytes"
    by (rule sample_send)
  have "connected sample_session (sample_stream [request_bytes]) s2 answer_stream x1 x"
    using sample_delivers [of request_bytes "[request_bytes]"] sample_delivers [of answer_bytes "[answer_bytes]"]
      half_delivers_cong [OF s2] \<open>written (xfer_send x) = request_bytes\<close> source(2)
    by (simp add: connected_def answer_stream_eq) (simp add: sample_stream_def transfer_stream_new_def)
  moreover obtain ka fd where "open_regular kernel_posix 0 (RelativePath [[97]]) sample_kernel = (ka, Inr (Some fd))"
    "read_to_end kernel_reads ka fd = [Inr [1]]" by (rule sample_opened)
  ultimately show "\<exists>s1 x1 ks x1' ks'. send_file sample_rsync kernel_posix kernel_reads s1 0 DEFAULT_LIMITS x1 ks = Some ((x1', ks'), Inr ()) \<and>
      connected s1 x1 s2 (transfer_stream_new st rs) x1' x \<and>
      (\<forall>k1 fd. open_regular kernel_posix 0 (operation_path upsert_a) ks = (k1, Inr (Some fd)) \<longrightarrow>
         read_result (read_to_end kernel_reads k1 fd) = Inr [1])"
    unfolding st using source(1)
    by (intro exI [of _ sample_session] exI [of _ "sample_stream [request_bytes]"] exI [of _ sample_kernel] exI [of _ x1] exI [of _ k1])
      (simp add: file_a_def)
qed

lemma source_depicted: "depicts source_view (kernel_tree sample_kernel) (\<lambda>_. [1])"
  by (auto simp: depicts_def metadata_for_def metadata_from_def source_view_sel result_simps node_of_def samples kernel_tree_def
      metadata_mtime_ns_def split: if_splits)

lemma empty_depicted: "depicts empty_view t content"
  by (simp add: depicts_def metadata_for_def empty_view_sel)

lemma views_distinct: "distinct_entries source_view" "distinct_entries empty_view"
  by (auto simp: distinct_entries_def read_entries_def source_view_sel empty_view_sel result_simps split: if_splits)


section \<open>A run of the source's program\<close>

text \<open>The host of the source: its configuration names the sample root and leaves the limits to their defaults.\<close>

definition source_host :: "(bytes, bytes) host" where
  "source_host = sample_host\<lparr>source_from_toml := (\<lambda>_. Inr \<lparr>raw_root_id = [114], raw_destination = [49],
     raw_peer_pin = replicate 64 49, raw_global_exclusions = [], raw_source_limits =
       \<lparr>raw_frame_bytes = None, raw_path_bytes = None, raw_components = None, raw_parallel_hashes = None,
        raw_parallel_transfers = None, raw_inflight_bytes = None\<rparr>\<rparr>)\<rparr>"

lemma source_loads:
  obtains config where "load_source source_host [47] = Inr config" "source_limits config = DEFAULT_LIMITS"
    "source_root_id config = RootId [114]" "source_global_exclusions config = []"
proof -
  have "case load_source source_host [47] of Inl _ \<Rightarrow> False
    | Inr c \<Rightarrow> source_limits c = DEFAULT_LIMITS \<and> source_root_id c = RootId [114] \<and> source_global_exclusions c = []"
    by code_simp
  then show ?thesis using that by (auto split: sum.splits)
qed

definition source_world_a :: "kernel source_world" where
  "source_world_a = \<lparr>sw_open_bi = Ready (Inr (fresh_send, [Data sample_marks, Fin])), sw_open_uni = Ready (Inr fresh_send),
     sw_handshakes = (Ready None, Ready None), sw_accepting = None, sw_events = [ControlReady, ControlReady, ControlReady]\<rparr>"

definition source_turn_a :: "(bytes, unit, unit, unit, unit, kernel) sync_turn" where
  "source_turn_a = \<lparr>turn_line = Inr 1, turn_quinn = sample_quinn, turn_world = source_world_a, turn_view = source_view,
     turn_files = empty_kernel\<rparr>"

lemma handshake_again: "confirm_handshake (with_permits 4) (Ready None) = (with_permits 4, Inr ())"
  by (simp add: confirm_handshake_def with_permits_def sample_session_def session_new_def session_new_early_def)

lemma source_runs:
  assumes "source_limits config = DEFAULT_LIMITS" "source_root_id config = RootId [114]" "source_global_exclusions config = []"
  shows "\<exists>x. source_run sample_rsync sample_gitignore padded kernel_posix kernel_opens kernel_reads source_view config source_world_a
    sample_session empty_kernel = Some (x, Inr ())"
proof -
  let ?c = "control_new \<lparr>written = start_bytes, write_outcomes = [], send_finished = False\<rparr> [Data sample_marks, Fin]"
  have streams: "open_session sample_session (sw_open_bi source_world_a) (sw_open_uni source_world_a) =
      Inr \<lparr>src_control = control_new fresh_send [Data sample_marks, Fin], src_index = fresh_send\<rparr>"
    by (simp add: open_session_def source_world_a_def guarded_in_def sample_session_def session_new_def session_new_early_def)
  have start: "wire_encode control_wire (StartSync [114]) DEFAULT_LIMITS = Inr start_bytes"
      "control_send sample_session (control_new fresh_send [Data sample_marks, Fin]) start_bytes = (?c, Inr ())"
    using control_frames(1,5) by (simp_all add: wire_encode_def control_send_def control_new_def fresh_send_def sample_writes)
  obtain k' where o: "root_handle_from_validated kernel_opens (source_root config) empty_kernel = (k', Inr 0)"
    by (simp add: root_handle_from_validated_def root_handle_open_def kernel_opens_def new_fd_def map_step_err_def empty_kernel_def)
  have "control_reaches (with_permits 4) ?c sample_marks"
    by (rule marks_reach_any [OF with_permits_same]) (simp_all add: control_new_def)
  from sample_loop [OF this, of sample_rsync kernel_posix kernel_reads 0] obtain st' where
      "serve_loop sample_rsync kernel_posix kernel_reads 0 DEFAULT_LIMITS [ControlReady, ControlReady, ControlReady]
        (serving_new (with_permits 4) ?c DEFAULT_LIMITS) = Some (st', Inr ())" by blast
  moreover have "sw_handshakes source_world_a = (Ready None, Ready None)" "sw_accepting source_world_a = None"
      "sw_events source_world_a = [ControlReady, ControlReady, ControlReady]" by (simp_all add: source_world_a_def)
  ultimately have "source_run_inner sample_rsync sample_gitignore padded kernel_posix kernel_opens kernel_reads source_view config
      source_world_a sample_session empty_kernel =
    Some ((sv_session st', Some (sv_control st'), Some \<lparr>written = index_bytes, write_outcomes = [], send_finished = True\<rparr>), Inr ())"
    using streams start o
    by (simp add: source_run_inner_def assms source_scan sample_handshake handshake_again index_goes [OF with_permits_same] source_join_def)
  then show ?thesis by (simp add: source_run_def)
qed

lemma source_connects:
  assumes "source_client_new sample_rustls config identity = Inr client" and "source_limits config = DEFAULT_LIMITS"
  shows "source_client_connect sample_quinn client False = Some (Inr sample_session)"
proof -
  have "tuning (from_limits DEFAULT_LIMITS) \<noteq> None" by code_simp
  then obtain transport where "tuning (from_limits DEFAULT_LIMITS) = Some transport" by blast
  with assms show ?thesis
    by (auto simp: source_client_new_def client_tls_def sample_rustls_def source_client_connect_def connect_early_to_def dial_def
        sample_quinn_def guarded_def sample_session_def)
qed

theorem sync_success_means_committed_witness:
  "\<exists>d d'. source_program sample_rsync sample_gitignore padded sample_sha sample_ring sample_rustls kernel_posix kernel_opens
      kernel_reads source_host (\<lambda>_. dir_store 7) (Sync [47]) [source_turn_a] d = Some (d', Inr (Synced 1)) \<and>
    session_committed sample_rsync sample_gitignore padded kernel_posix kernel_opens kernel_reads empty_view
      (sample_config [sample_pin]) sample_world sample_session committed_kernel"
proof -
  obtain config where config: "load_source source_host [47] = Inr config" "source_limits config = DEFAULT_LIMITS"
      "source_root_id config = RootId [114]" "source_global_exclusions config = []" by (rule source_loads)
  obtain cert where cert: "generate_identity sample_ring = Inr ([5, 6], cert)" by (rule sample_identity)
  let ?d = "\<lparr>dir_node = None, dir_files = (\<lambda>_. None), dir_space = 2 + length cert\<rparr>"
  obtain d' i where i: "identity_load_or_create sample_sha sample_ring (dir_store 7) ?d = (d', Inr i)"
    using first_run [OF sample_ring_ok cert, of ?d sample_sha 7] by auto
  obtain client where client: "source_client_new sample_rustls config i = Inr client"
    by (simp add: source_client_new_def client_tls_def sample_rustls_def)
  obtain x where "source_run sample_rsync sample_gitignore padded kernel_posix kernel_opens kernel_reads source_view config source_world_a
      sample_session empty_kernel = Some (x, Inr ())" using source_runs [OF config(2-4)] by blast
  with config(1) i client source_connects [OF client config(2)] have
      run: "source_program sample_rsync sample_gitignore padded sample_sha sample_ring sample_rustls kernel_posix kernel_opens
        kernel_reads source_host (\<lambda>_. dir_store 7) (Sync [47]) [source_turn_a] ?d = Some (d', Inr (Synced 1))"
    by (simp add: source_program_def program_identity_def loaded_key_directory(1) [OF config(1)] source_turn_a_def)
  let ?c = "sample_control sample_marks\<lparr>ctl_finished := True\<rparr>"
  have "(Inr (Synced 1) :: string + program_output) = Inr (Synced 1) \<and> session_committed sample_rsync sample_gitignore padded kernel_posix kernel_opens kernel_reads empty_view
      (sample_config [sample_pin]) sample_world sample_session
      (sd_files \<lparr>sd_session = with_permits 4, sd_control = Some ?c, sd_files = committed_kernel\<rparr>)"
    by (rule sync_success_means_committed [OF run, where c = ?c and rs = "[Data sample_marks, Fin]" and ?st0.0 = fresh_send
          and ?rs0.0 = "[Data start_bytes, Fin]", OF _ _ _ sample_served])
      (simp_all add: exit_code_def source_turn_a_def source_world_a_def sample_world_def fresh_send_def control_new_def)
  with run show ?thesis by auto
qed

end
