(* ===== verification/Spec2Isabelle.thy ===== *)
theory Spec2Isabelle
  imports Framing Errors Synchronise Rehearsal
begin

text \<open>
  \<^bold>\<open>QuicSync\<close> makes a destination directory tree equal to a source tree over one QUIC connection. The
  source scans its root and streams an index. The destination scans its own root, merges the two
  indexes into a plan of numbered operations, requests the content of changed files over streams of
  their own (whole, or as a delta against its old file), stages everything beside the root, and only
  when all of it is staged commits it to the live tree and acknowledges. This development models the
  crate \<open>quicsync-core\<close> (paths below are under \<open>src/crates/quicsync-core/src/\<close>) and proves what a
  user relies on, from single bytes up to a whole session.

  \<^bold>\<open>The parts and their theories.\<close>

  \<^item> \<open>Prelude\<close>: the machine integers, the \<open>Result\<close> combinators on sums, steps with state, the
    collections \<open>result_simps\<close> and others, lemmas on lists. \<open>Types\<close>: \<open>types.rs\<close>. \<open>Errors\<close>: \<open>error.rs\<close>.
    \<open>Samples\<close>: values for the witnesses.
  \<^item> \<^emph>\<open>The wire format\<close>. \<open>Messages\<close>: \<open>protocol/messages.rs\<close>. \<open>Varint\<close>, \<open>Codec\<close>, \<open>Framing\<close>:
    \<open>protocol/codec.rs\<close>, as the code has it: integers, field writer and reader, frames, the incremental
    decoder. \<open>Grammar\<close> gives the layout as pure functions; writer and reader refine it. The interface
    \<open>wire_message\<close> of a message type is a locale, interpreted for the three types. Shown: encoding
    and decoding are inverse in both directions, and the decoder does not depend on how a stream is
    cut into chunks.
  \<^item> \<^emph>\<open>Planning\<close>. \<open>Planner\<close>: \<open>sync/planner.rs\<close>. The merge of two ascending indexes is the path-by-path
    difference, applying it to one index gives the other, and a broken index never gives a plan.
  \<^item> \<^emph>\<open>The destination's tree\<close>. \<open>Posix\<close> is the interface of the system calls with their contract, the
    locale \<open>posix_fs\<close> over an abstract tree, and \<open>reliable_fs\<close> where calls that can succeed do;
    \<open>Kernel\<close> is a concrete system that meets both. \<open>Paths\<close>:
    \<open>filesystem/paths.rs\<close>, and \<open>Resolution\<close> what its gates accept. \<open>Staging\<close>:
    \<open>filesystem/staging.rs\<close>. \<open>Commit\<close>: \<open>sync/commit.rs\<close>; \<open>Installation\<close> its correctness, by an
    invariant of the stack of open directories. \<open>Destination\<close> and \<open>Synchronise\<close>: plan, staging and
    commit together leave the source's entries, change nothing else, and replace each file whole.
  \<^item> \<^emph>\<open>Scanning\<close>. \<open>Ignore\<close>: \<open>filesystem/ignore.rs\<close>. \<open>Scan\<close>: \<open>filesystem/scan.rs\<close> and \<open>metadata.rs\<close>. A
    scan lists exactly the managed entries, in order, and a failed one is never taken for complete.
  \<^item> \<^emph>\<open>Identity and configuration\<close>. \<open>Config\<close> and \<open>Loading\<close>: \<open>config.rs\<close>. \<open>Auth\<close> and \<open>Identities\<close>:
    \<open>auth.rs\<close>, with the text that \<open>quicsync init\<close> prints. A certificate has one fingerprint, only
    pinned peers are admitted, an identity once made is stable (over any store that meets the locale
    \<open>identity_store\<close>), a loaded configuration is valid.
  \<^item> \<^emph>\<open>Streams and transfers\<close>. \<open>Transport\<close>: \<open>transport/quic.rs\<close>, the bounds, permits and the mapping of
    failures. \<open>Streams\<close>: \<open>sync/wire.rs\<close>; the locale \<open>input_stream\<close> states what a receiving call has to
    deliver for the message loop to return what was sent, and is interpreted for the control, index
    and transfer streams. \<open>Transfers\<close>: \<open>sync/transfer.rs\<close>; \<open>Delivery\<close> shows that a transfer which both
    ends report as done staged the source's bytes, \<open>Progress\<close> that one comes to that end when nothing
    interferes.
  \<^item> \<^emph>\<open>Sessions\<close>. \<open>Sessions\<close>: \<open>sync/source.rs\<close> and \<open>sync/destination.rs\<close>. \<open>Protocol\<close>: the index arrives
    as it was made, the source reports success only for a session that was acknowledged, and an
    acknowledgment means a commit. \<open>Arrivals\<close>: what a peer can bring in. \<open>Preparation\<close>: everything
    before the commit stays in the staging directory. \<open>Outcome\<close>: authorisation, and the names a
    session can reach. \<open>Convergence\<close>: a session that succeeds leaves the source's tree at the
    destination.
  \<^item> \<^emph>\<open>Programs\<close>. \<open>Programs\<close>: \<open>apps/quicsync/src/main.rs\<close> and \<open>apps/quicsyncd/src/main.rs\<close> (under \<open>src/\<close>), with
    the TLS configurations and entry points they use. What \<open>init\<close> prints pairs the two sides, exit code
    zero of a sync means that the destination committed, and over any sequence of connections a daemon
    changes only what admitted peers list. \<open>Survival\<close>: no peer brings a transfer, a session or the
    daemon to a panic or an endless loop; the locale \<open>draining_stream\<close> says that every read of a stream
    takes something. \<open>Rehearsal\<close> runs one session, a daemon and a run of \<open>quicsync sync\<close> on the concrete
    system and instantiates the theorems on sessions and programs.

  \<^bold>\<open>Conventions.\<close> A Rust function keeps its name, with the type in front where several share it
  (\<open>reader_u8\<close>, \<open>decoder_finish\<close>). \<open>Err e\<close> is \<open>Inl e\<close>, \<open>Ok x\<close> is \<open>Inr x\<close>; a method on \<open>&mut self\<close>
  returns the new state. Integers have their width, and are compared and added as words. A panic,
  or a wait that never ends, is \<open>None\<close>, and the theorems show where it cannot happen.

  \<^bold>\<open>Loops.\<close> No definition has fuel. Loops over input recurse on what is left of it; the message loops
  and the joining loops are \<open>function\<close>s with a measure: the bytes and events a stream still delivers,
  or the number of jobs under way.

  \<^bold>\<open>Tasks.\<close> The tasks of a session and of a transfer are joined by channels with one writer and one
  reader. A channel is the list of what goes through it, so a task is a function of its channels,
  and the producer is run before the consumer. What a scheduler decides is an argument that the
  theorems quantify over: the order in which the source sees messages, streams and finished jobs, the
  order in which the destination's jobs finish, and how much a consumer takes before it stops. A file
  transfer takes effect when its job is joined; the transfers of a session write to different fresh
  names of the staging directory. Where several tasks of a join fail, the model reports the first in
  the order of the join.

  \<^bold>\<open>Parameters.\<close> Code outside the repository is an argument, with its documented behaviour as named
  hypotheses: the system calls (\<open>posix\<close> with \<open>posix_fs\<close>, \<open>fs_view\<close>, \<open>file_reads\<close>, \<open>host\<close>), BLAKE3,
  SHA-256 and the Ed25519 keys (functions on bytes; 32 bytes of digest), librsync (\<open>librsync\<close> with
  \<open>rsync_ok\<close>: applying the delta of a new file against the signature of an old one gives the new
  one), the matcher of gitignore rules (\<open>gitignore\<close>), the TOML parser, and quinn (the outcomes of its
  calls and the events of its streams). Each is instantiated in the witnesses.

  \<^bold>\<open>Not modelled.\<close> \<open>sync/mod.rs\<close> prints the duration of a stage. The programs' argument parser (clap) and
  their progress lines are left out. What rustls and quinn do inside their calls, the signature checks
  of the handshake and key generation are theirs. The text of operating-system errors is a parameter.
  The destination's tree is assumed to be changed by no other process during a session. Time is not
  modelled: a stream on which nothing more arrives counts as one whose connection has ended, so a
  peer that keeps its connection and says nothing is outside the theorems on termination, and so is
  the waiting of tasks for one another through full channels. The theorem on a daemon over time is
  for a configuration with one root. What is left in the mapped files beyond that are accessors,
  imports and trait boilerplate, which the record selectors stand for.
\<close>

end
